(* ===== verification/Prelude.thy ===== *)
theory Prelude
  imports Main "HOL-Library.Word" "HOL-Library.Signed_Division"
begin

text \<open>
  The vocabulary every component theory shares: the ways a C or C++ statement can stop the
  program (\<open>fault\<close>), the sequencing of statements that may stop it (\<open>rbind\<close>), two predicates
  that state partial and total correctness of such a sequence (\<open>rok\<close>, \<open>rsafe\<close>) with the rules
  that make them compute, C's 32-bit conversions, and the list lemmas about arrays used as
  rings.
\<close>

section \<open>Fallible computations\<close>

text \<open>
  A failed \<^verbatim>\<open>assert\<close>, a read through a null or dangling pointer, an index outside an array and
  a division by zero end the program (undefined behaviour in C), as do the read of a variable that
  was never assigned, an overflow of a signed number and an exception nobody catches. Error
  codes are not faults: they are ordinary return values.
\<close>

datatype fault =
    Assertion_failed
  | Null_dereference
  | Use_after_free
  | Index_out_of_range
  | Division_by_zero
  | Uncaught_exception
  | Uninitialized_read
  | Arithmetic_overflow
  | Unlock_not_owned

definition rbind :: "'e + 'a \<Rightarrow> ('a \<Rightarrow> 'e + 'b) \<Rightarrow> 'e + 'b" where
  "rbind m f = (case m of Inl e \<Rightarrow> Inl e | Inr x \<Rightarrow> f x)"

definition rassert :: "bool \<Rightarrow> fault + unit" where
  "rassert b = (if b then Inr () else Inl Assertion_failed)"

text \<open>
  \<open>rok m P\<close>: if \<open>m\<close> does not fault, its result satisfies \<open>P\<close>. \<open>rsafe m P\<close>: \<open>m\<close> does not
  fault and its result satisfies \<open>P\<close>.
\<close>

definition rok :: "'e + 'a \<Rightarrow> ('a \<Rightarrow> bool) \<Rightarrow> bool" where
  "rok m P \<longleftrightarrow> (case m of Inl _ \<Rightarrow> True | Inr x \<Rightarrow> P x)"

definition rsafe :: "'e + 'a \<Rightarrow> ('a \<Rightarrow> bool) \<Rightarrow> bool" where
  "rsafe m P \<longleftrightarrow> (case m of Inl _ \<Rightarrow> False | Inr x \<Rightarrow> P x)"

section \<open>C integers\<close>

text \<open>
  \<^verbatim>\<open>int\<close> is 32 bits wide and \<^verbatim>\<open>long int\<close> 64 bits wide on the platform the build files name.
  Storing a \<^verbatim>\<open>long\<close> in an \<^verbatim>\<open>int\<close> keeps the low 32 bits, read as two's complement.
\<close>

definition int32 :: "int \<Rightarrow> int" where
  "int32 x = signed_take_bit 31 x"

section \<open>Arrays\<close>

definition arr_get :: "'a list \<Rightarrow> int \<Rightarrow> fault + 'a" where
  "arr_get xs i = (if 0 \<le> i \<and> i < int (length xs) then Inr (xs ! nat i) else Inl Index_out_of_range)"

definition arr_set :: "'a list \<Rightarrow> int \<Rightarrow> 'a \<Rightarrow> fault + 'a list" where
  "arr_set xs i v = (if 0 \<le> i \<and> i < int (length xs) then Inr (xs[nat i := v]) else Inl Index_out_of_range)"

definition c_rem :: "int \<Rightarrow> int \<Rightarrow> fault + int" where
  "c_rem a b = (if b = 0 then Inl Division_by_zero else Inr (a smod b))"

section \<open>Rules of the fallible computations\<close>

named_theorems frame \<open>what an operation leaves unchanged\<close>
named_theorems total_rules \<open>an operation that cannot fault under its invariant\<close>

lemma rbind_simps [simp]: "rbind (Inl e) f = Inl e" "rbind (Inr x) f = f x"
  by (simp_all add: rbind_def)

lemma rbind_Inr_right [simp]: "rbind m Inr = m"
  by (simp add: rbind_def split: sum.splits)

lemma rbind_assoc: "rbind (rbind m f) g = rbind m (\<lambda>x. rbind (f x) g)"
  by (simp add: rbind_def split: sum.splits)

lemma rbind_eq_Inr: "rbind m f = Inr y \<longleftrightarrow> (\<exists>x. m = Inr x \<and> f x = Inr y)"
  by (simp add: rbind_def split: sum.splits)

lemma rbind_eq_Inl: "rbind m f = Inl e \<longleftrightarrow> m = Inl e \<or> (\<exists>x. m = Inr x \<and> f x = Inl e)"
  by (auto simp add: rbind_def split: sum.splits)

lemma rbind_InrE:
  assumes "rbind m f = Inr y"
  obtains x where "m = Inr x" and "f x = Inr y"
  using assms by (auto simp: rbind_eq_Inr)

lemma rbind_cong [fundef_cong]:
  "m = m' \<Longrightarrow> (\<And>x. m' = Inr x \<Longrightarrow> f x = f' x) \<Longrightarrow> rbind m f = rbind m' f'"
  by (simp add: rbind_def split: sum.splits)

lemma rassert_simps [simp]:
  "rassert True = Inr ()" "rassert False = Inl Assertion_failed"
  "rassert b = Inr u \<longleftrightarrow> b" "rassert b = Inl e \<longleftrightarrow> \<not> b \<and> e = Assertion_failed"
  by (auto simp: rassert_def)

lemma rok_simps [simp]:
  "rok (Inl e) P \<longleftrightarrow> True"
  "rok (Inr x) P \<longleftrightarrow> P x"
  "rok (rbind m f) P \<longleftrightarrow> rok m (\<lambda>x. rok (f x) P)"
  "rok (rassert b) Q \<longleftrightarrow> (b \<longrightarrow> Q ())"
  by (auto simp: rok_def rbind_def rassert_def split: sum.splits)

lemma rok_if [simp]: "rok (if b then m else m') P \<longleftrightarrow> (b \<longrightarrow> rok m P) \<and> (\<not> b \<longrightarrow> rok m' P)"
  by simp

lemma rok_mono: "rok m P \<Longrightarrow> (\<And>x. m = Inr x \<Longrightarrow> P x \<Longrightarrow> Q x) \<Longrightarrow> rok m Q"
  by (simp add: rok_def split: sum.splits)

lemma rokD: "rok m P \<Longrightarrow> m = Inr x \<Longrightarrow> P x"
  by (simp add: rok_def)

lemma rokI: "(\<And>x. m = Inr x \<Longrightarrow> P x) \<Longrightarrow> rok m P"
  by (simp add: rok_def split: sum.splits)

lemma rok_all: "(\<And>x. P x) \<Longrightarrow> rok m P"
  by (rule rokI)

lemma rok_conj: "rok m (\<lambda>x. P x \<and> Q x) \<longleftrightarrow> rok m P \<and> rok m Q"
  by (simp add: rok_def split: sum.splits)

lemma rsafe_simps [simp]:
  "rsafe (Inl e) P \<longleftrightarrow> False"
  "rsafe (Inr x) P \<longleftrightarrow> P x"
  "rsafe (rbind m f) P \<longleftrightarrow> rsafe m (\<lambda>x. rsafe (f x) P)"
  "rsafe (rassert b) Q \<longleftrightarrow> b \<and> Q ()"
  by (auto simp: rsafe_def rbind_def rassert_def split: sum.splits)

lemma rsafe_mono: "rsafe m P \<Longrightarrow> (\<And>x. m = Inr x \<Longrightarrow> P x \<Longrightarrow> Q x) \<Longrightarrow> rsafe m Q"
  by (simp add: rsafe_def split: sum.splits)

lemma rsafe_iff: "rsafe m P \<longleftrightarrow> (\<exists>x. m = Inr x \<and> P x)"
  by (auto simp: rsafe_def split: sum.splits)

lemma rsafe_rok: "rsafe m P \<Longrightarrow> rok m Q \<Longrightarrow> rsafe m (\<lambda>x. P x \<and> Q x)"
  by (auto simp: rsafe_def rok_def split: sum.splits)

section \<open>C arithmetic under a bound\<close>

lemma int32_id: "- (2 ^ 31) \<le> x \<Longrightarrow> x < 2 ^ 31 \<Longrightarrow> int32 x = x"
  by (simp add: int32_def signed_take_bit_int_eq_self)

lemma int32_range: "- (2 ^ 31) \<le> int32 x \<and> int32 x < 2 ^ 31"
  using signed_take_bit_int_greater_eq_minus_exp [of 31 x] signed_take_bit_int_less_exp [of 31 x]
  by (simp add: int32_def)

lemma smod_nonneg [simp]: "0 \<le> a \<Longrightarrow> 0 < b \<Longrightarrow> (a::int) smod b = a mod b"
  by (cases "a = 0") (simp_all add: signed_modulo_int_eq_modulo_int)

lemma sdiv_nonneg [simp]: "0 \<le> a \<Longrightarrow> 0 < b \<Longrightarrow> (a::int) sdiv b = a div b"
  by (cases "a = 0") (simp_all add: signed_divide_int_eq_divide_int)

lemma c_rem_nonneg [simp]: "0 \<le> a \<Longrightarrow> 0 < b \<Longrightarrow> c_rem a b = Inr (a mod b)"
  by (simp add: c_rem_def)

lemma arr_get_in [simp]: "0 \<le> i \<Longrightarrow> i < int (length xs) \<Longrightarrow> arr_get xs i = Inr (xs ! nat i)"
  by (simp add: arr_get_def)

lemma arr_set_in [simp]: "0 \<le> i \<Longrightarrow> i < int (length xs) \<Longrightarrow> arr_set xs i v = Inr (xs[nat i := v])"
  by (simp add: arr_set_def)

section \<open>Searching\<close>

lemma find_distinct_map:
  "x \<in> set xs \<Longrightarrow> distinct (map f xs) \<Longrightarrow> find (\<lambda>y. f y = f x) xs = Some x"
  by (induction xs) auto

lemma find_Some_in_set: "find P xs = Some x \<Longrightarrow> x \<in> set xs \<and> P x"
  by (induction xs) (auto split: if_splits)

lemma find_None_iff_all: "find P xs = None \<longleftrightarrow> (\<forall>x \<in> set xs. \<not> P x)"
  by (induction xs) auto

section \<open>Slices of a ring\<close>

text \<open>
  \<open>ring_slice xs f n\<close> reads \<open>n\<close> cells of the array \<open>xs\<close> from position \<open>f\<close> on, wrapping at its
  end.
\<close>

definition ring_slice :: "'a list \<Rightarrow> nat \<Rightarrow> nat \<Rightarrow> 'a list" where
  "ring_slice xs f n = map (\<lambda>k. xs ! ((f + k) mod length xs)) [0..<n]"

lemma length_ring_slice [simp]: "length (ring_slice xs f n) = n"
  by (simp add: ring_slice_def)

lemma nth_ring_slice [simp]: "k < n \<Longrightarrow> ring_slice xs f n ! k = xs ! ((f + k) mod length xs)"
  by (simp add: ring_slice_def)

lemma ring_slice_0 [simp]: "ring_slice xs f 0 = []"
  by (simp add: ring_slice_def)

lemma ring_slice_Suc: "ring_slice xs f (Suc n) = ring_slice xs f n @ [xs ! ((f + n) mod length xs)]"
  by (simp add: ring_slice_def)

lemma ring_slice_take: "m \<le> n \<Longrightarrow> take m (ring_slice xs f n) = ring_slice xs f m"
  by (rule nth_equalityI) auto

lemma ring_slice_Cons:
  assumes "f < length xs"
  shows "ring_slice xs f (Suc n) = xs ! f # ring_slice xs (Suc f mod length xs) n"
proof (rule nth_equalityI)
  fix i assume "i < length (ring_slice xs f (Suc n))"
  then show "ring_slice xs f (Suc n) ! i = (xs ! f # ring_slice xs (Suc f mod length xs) n) ! i"
    using assms by (cases i) (auto simp: mod_add_left_eq)
qed simp

lemma ring_mod_less:
  assumes "k < j" and "j < m"
  shows "(f + k) mod m \<noteq> (f + j) mod (m::nat)"
proof
  assume "(f + k) mod m = (f + j) mod m"
  then have "m dvd (f + j) - (f + k)"
    using assms by (metis mod_eq_dvd_iff_nat less_imp_le nat_add_left_cancel_le)
  with assms show False by (auto dest: dvd_imp_le)
qed

lemma ring_mod_neq:
  assumes "k < m" and "(j::nat) < m" and "k \<noteq> j"
  shows "(f + k) mod m \<noteq> (f + j) mod m"
  using assms ring_mod_less [of k j m f] ring_mod_less [of j k m f] by (metis linorder_neqE_nat)

lemma ring_slice_update_outside:
  assumes "n < length xs"
  shows "ring_slice (xs[(f + n) mod length xs := v]) f n = ring_slice xs f n"
proof (rule nth_equalityI)
  fix i assume "i < length (ring_slice (xs[(f + n) mod length xs := v]) f n)"
  then have i: "i < n" by simp
  then have "(f + i) mod length xs \<noteq> (f + n) mod length xs"
    using assms by (intro ring_mod_neq) auto
  with i show "ring_slice (xs[(f + n) mod length xs := v]) f n ! i = ring_slice xs f n ! i"
    by simp
qed simp

section \<open>Runs of a system that keeps an invariant\<close>

text \<open>
  A system whose steps keep an invariant and move a state forward in a preorder; both then hold
  along runs.
\<close>

locale safe_system =
  fixes inv :: "'s \<Rightarrow> bool" and step :: "'s \<Rightarrow> 's \<Rightarrow> bool" and forward :: "'s \<Rightarrow> 's \<Rightarrow> bool"
  assumes step_inv: "inv s \<Longrightarrow> step s s' \<Longrightarrow> inv s'"
    and step_forward: "inv s \<Longrightarrow> step s s' \<Longrightarrow> forward s s'"
    and forward_refl: "forward s s"
    and forward_trans: "forward s s' \<Longrightarrow> forward s' s'' \<Longrightarrow> forward s s''"
begin

lemma run_inv: "step\<^sup>*\<^sup>* s s' \<Longrightarrow> inv s \<Longrightarrow> inv s'"
  by (induction rule: rtranclp_induct) (auto intro: step_inv)

lemma run_forward: "step\<^sup>*\<^sup>* s s' \<Longrightarrow> inv s \<Longrightarrow> forward s s'"
proof (induction rule: rtranclp_induct)
  case (step t t')
  then have "inv t" using run_inv by blast
  with step show ?case using forward_trans step_forward by blast
qed (rule forward_refl)

text \<open>A history: at every moment one step or none.\<close>

lemma history_run:
  assumes "\<And>n. step (h n) (h (Suc n)) \<or> h (Suc n) = h n" and "m \<le> n"
  shows "step\<^sup>*\<^sup>* (h m) (h n)"
  using assms(2)
proof (induction n rule: dec_induct)
  case (step n)
  then show ?case using assms(1) [of n] by (metis rtranclp.rtrancl_into_rtrancl)
qed simp

lemma history_forward:
  assumes "\<And>n. step (h n) (h (Suc n)) \<or> h (Suc n) = h n" and "inv (h 0)" and "m \<le> n"
  shows "forward (h m) (h n)"
proof -
  have "step\<^sup>*\<^sup>* (h 0) (h m)" "step\<^sup>*\<^sup>* (h m) (h n)"
    using history_run [where h = h] assms(1,3) by simp_all
  then show ?thesis using assms(2) run_inv run_forward by blast
qed

end

end
