(* ===== verification/Raft_Types.thy ===== *)
theory Raft_Types
  imports Prelude
begin

text \<open>
  The data of the Raft library: log entries, the messages servers exchange, the return codes
  and the callbacks the user registers (\<^verbatim>\<open>include/raft.h\<close>, \<^verbatim>\<open>include/raft_types.h\<close>). Terms and
  indexes are C \<^verbatim>\<open>long int\<close>s and are modelled by \<open>int\<close>; the places where the code stores one of
  them in a 32-bit \<^verbatim>\<open>int\<close> apply \<open>int32\<close>. A \<^verbatim>\<open>void*\<close> the library only stores and hands back is
  an address of type \<open>nat\<close>, with 0 for \<^verbatim>\<open>NULL\<close>.
\<close>

type_synonym voidp = nat

type_synonym node_ref = nat

type_synonym raft_entry_id_t = int

type_synonym raft_term_t = int

type_synonym raft_index_t = int

type_synonym raft_node_id_t = int

section \<open>Return codes and enumerations\<close>

definition RAFT_ERR_NOT_LEADER :: int where "RAFT_ERR_NOT_LEADER = -2"

definition RAFT_ERR_ONE_VOTING_CHANGE_ONLY :: int where "RAFT_ERR_ONE_VOTING_CHANGE_ONLY = -3"

definition RAFT_ERR_SHUTDOWN :: int where "RAFT_ERR_SHUTDOWN = -4"

definition RAFT_ERR_NOMEM :: int where "RAFT_ERR_NOMEM = -5"

definition RAFT_ERR_NEEDS_SNAPSHOT :: int where "RAFT_ERR_NEEDS_SNAPSHOT = -6"

definition RAFT_ERR_SNAPSHOT_IN_PROGRESS :: int where "RAFT_ERR_SNAPSHOT_IN_PROGRESS = -7"

definition RAFT_ERR_SNAPSHOT_ALREADY_LOADED :: int where "RAFT_ERR_SNAPSHOT_ALREADY_LOADED = -8"

lemmas raft_errs =
  RAFT_ERR_NOT_LEADER_def RAFT_ERR_ONE_VOTING_CHANGE_ONLY_def RAFT_ERR_SHUTDOWN_def
  RAFT_ERR_NOMEM_def RAFT_ERR_NEEDS_SNAPSHOT_def RAFT_ERR_SNAPSHOT_IN_PROGRESS_def
  RAFT_ERR_SNAPSHOT_ALREADY_LOADED_def

datatype raft_membership_e = RAFT_MEMBERSHIP_ADD | RAFT_MEMBERSHIP_REMOVE

definition RAFT_REQUESTVOTE_ERR_GRANTED :: int where "RAFT_REQUESTVOTE_ERR_GRANTED = 1"

definition RAFT_REQUESTVOTE_ERR_NOT_GRANTED :: int where "RAFT_REQUESTVOTE_ERR_NOT_GRANTED = 0"

definition RAFT_REQUESTVOTE_ERR_UNKNOWN_NODE :: int where "RAFT_REQUESTVOTE_ERR_UNKNOWN_NODE = -1"

lemmas raft_vote_codes =
  RAFT_REQUESTVOTE_ERR_GRANTED_def RAFT_REQUESTVOTE_ERR_NOT_GRANTED_def
  RAFT_REQUESTVOTE_ERR_UNKNOWN_NODE_def

datatype raft_state_e =
  RAFT_STATE_NONE | RAFT_STATE_FOLLOWER | RAFT_STATE_CANDIDATE | RAFT_STATE_LEADER

datatype raft_node_status =
    RAFT_NODE_STATUS_DISCONNECTED
  | RAFT_NODE_STATUS_CONNECTED
  | RAFT_NODE_STATUS_CONNECTING
  | RAFT_NODE_STATUS_DISCONNECTING

definition RAFT_SNAPSHOT_NONBLOCKING_APPLY :: "32 word" where "RAFT_SNAPSHOT_NONBLOCKING_APPLY = 1"

definition RAFT_LOGTYPE_NORMAL :: int where "RAFT_LOGTYPE_NORMAL = 0"

definition RAFT_LOGTYPE_ADD_NONVOTING_NODE :: int where "RAFT_LOGTYPE_ADD_NONVOTING_NODE = 1"

definition RAFT_LOGTYPE_ADD_NODE :: int where "RAFT_LOGTYPE_ADD_NODE = 2"

definition RAFT_LOGTYPE_DEMOTE_NODE :: int where "RAFT_LOGTYPE_DEMOTE_NODE = 3"

definition RAFT_LOGTYPE_REMOVE_NODE :: int where "RAFT_LOGTYPE_REMOVE_NODE = 4"

lemmas raft_logtypes =
  RAFT_LOGTYPE_NORMAL_def RAFT_LOGTYPE_ADD_NONVOTING_NODE_def RAFT_LOGTYPE_ADD_NODE_def
  RAFT_LOGTYPE_DEMOTE_NODE_def RAFT_LOGTYPE_REMOVE_NODE_def

section \<open>Entries and messages\<close>

record raft_entry_data =
  buf :: voidp
  len :: "32 word"

record raft_entry =
  ety_term :: raft_term_t
  ety_id :: raft_entry_id_t
  ety_type :: int
  ety_data :: raft_entry_data

text \<open>The bytes \<^verbatim>\<open>calloc\<close> leaves in a fresh array of entries.\<close>

definition zero_entry :: raft_entry where
  "zero_entry = \<lparr>ety_term = 0, ety_id = 0, ety_type = 0, ety_data = \<lparr>buf = 0, len = 0\<rparr>\<rparr>"

record msg_entry_response =
  er_id :: raft_entry_id_t
  er_term :: raft_term_t
  er_idx :: raft_index_t

record msg_requestvote =
  rv_term :: raft_term_t
  rv_candidate_id :: raft_node_id_t
  rv_last_log_idx :: raft_index_t
  rv_last_log_term :: raft_term_t

record msg_requestvote_response =
  rvr_term :: raft_term_t
  rvr_vote_granted :: int

text \<open>The array \<^verbatim>\<open>entries\<close> and its length \<^verbatim>\<open>n_entries\<close> are one list.\<close>

record msg_appendentries =
  ae_term :: raft_term_t
  ae_prev_log_idx :: raft_index_t
  ae_prev_log_term :: raft_term_t
  ae_leader_commit :: raft_index_t
  ae_entries :: "raft_entry list"

record msg_appendentries_response =
  aer_term :: raft_term_t
  aer_success :: int
  aer_current_idx :: raft_index_t
  aer_first_idx :: raft_index_t

section \<open>Peers\<close>

text \<open>\<^verbatim>\<open>raft_node_private_t\<close>; the six status bits of \<^verbatim>\<open>flags\<close> are defined with its operations.\<close>

record raft_node =
  node_udata :: voidp
  next_idx :: raft_index_t
  match_idx :: raft_index_t
  flags :: "32 word"
  node_id :: raft_node_id_t

section \<open>Callbacks\<close>

text \<open>
  \<^verbatim>\<open>raft_cbs_t\<close>: the functions the user registers, none of which is part of the library. Each is
  optional (\<open>None\<close> is a null function pointer) and acts on the user's own state \<open>'u\<close> (the
  \<^verbatim>\<open>udata\<close> the library passes along), so a theorem that quantifies over the record holds for
  every registered callback. The callbacks for offered, polled and popped entries may replace
  the entry's data pointer, as the header allows, and return it. The type records the
  discipline the header asks of callbacks: they do not call back into the server. The debug
  callback \<^verbatim>\<open>log\<close> only receives formatted text and is left out.
\<close>

type_synonym 'u func_send_requestvote_f = "'u \<Rightarrow> raft_node \<Rightarrow> msg_requestvote \<Rightarrow> int \<times> 'u"

type_synonym 'u func_send_appendentries_f = "'u \<Rightarrow> raft_node \<Rightarrow> msg_appendentries \<Rightarrow> int \<times> 'u"

type_synonym 'u func_send_snapshot_f = "'u \<Rightarrow> raft_node \<Rightarrow> int \<times> 'u"

type_synonym 'u func_node_has_sufficient_logs_f = "'u \<Rightarrow> raft_node \<Rightarrow> int \<times> 'u"

type_synonym 'u func_persist_vote_f = "'u \<Rightarrow> raft_node_id_t \<Rightarrow> int \<times> 'u"

type_synonym 'u func_persist_term_f = "'u \<Rightarrow> raft_term_t \<Rightarrow> raft_node_id_t \<Rightarrow> int \<times> 'u"

type_synonym 'u func_logentry_event_f = "'u \<Rightarrow> raft_entry \<Rightarrow> raft_index_t \<Rightarrow> int \<times> raft_entry_data \<times> 'u"

type_synonym 'u func_membership_event_f =
  "'u \<Rightarrow> raft_node option \<Rightarrow> raft_entry option \<Rightarrow> raft_membership_e \<Rightarrow> 'u"

text \<open>
  Applying, clearing and naming the node of an entry use the same C type of function, but the
  documentation lets only the other three change the entry, and the result of clearing is not
  read.
\<close>

record 'u raft_cbs =
  send_requestvote :: "'u func_send_requestvote_f option"
  send_appendentries :: "'u func_send_appendentries_f option"
  send_snapshot :: "'u func_send_snapshot_f option"
  applylog :: "('u \<Rightarrow> raft_entry \<Rightarrow> raft_index_t \<Rightarrow> int \<times> 'u) option"
  persist_vote :: "'u func_persist_vote_f option"
  persist_term :: "'u func_persist_term_f option"
  log_offer :: "'u func_logentry_event_f option"
  log_poll_cb :: "'u func_logentry_event_f option"
  log_pop :: "'u func_logentry_event_f option"
  log_clear_cb :: "('u \<Rightarrow> raft_entry \<Rightarrow> raft_index_t \<Rightarrow> 'u) option"
  log_get_node_id :: "('u \<Rightarrow> raft_entry \<Rightarrow> raft_index_t \<Rightarrow> raft_node_id_t \<times> 'u) option"
  node_has_sufficient_logs :: "'u func_node_has_sufficient_logs_f option"
  notify_membership_event :: "'u func_membership_event_f option"

text \<open>A zero-filled \<^verbatim>\<open>raft_cbs_t\<close>: no callback registered.\<close>

definition no_cbs :: "'u raft_cbs" where
  "no_cbs = \<lparr>send_requestvote = None, send_appendentries = None, send_snapshot = None,
     applylog = None, persist_vote = None, persist_term = None, log_offer = None,
     log_poll_cb = None, log_pop = None, log_clear_cb = None, log_get_node_id = None,
     node_has_sufficient_logs = None, notify_membership_event = None\<rparr>"

section \<open>Kinds of entries\<close>

definition raft_entry_is_voting_cfg_change :: "raft_entry \<Rightarrow> bool" where
  "raft_entry_is_voting_cfg_change ety \<longleftrightarrow>
     RAFT_LOGTYPE_ADD_NODE = ety_type ety \<or> RAFT_LOGTYPE_DEMOTE_NODE = ety_type ety"

definition raft_entry_is_cfg_change :: "raft_entry \<Rightarrow> bool" where
  "raft_entry_is_cfg_change ety \<longleftrightarrow>
     RAFT_LOGTYPE_ADD_NODE = ety_type ety \<or>
     RAFT_LOGTYPE_ADD_NONVOTING_NODE = ety_type ety \<or>
     RAFT_LOGTYPE_DEMOTE_NODE = ety_type ety \<or>
     RAFT_LOGTYPE_REMOVE_NODE = ety_type ety"

lemma voting_cfg_change_is_cfg_change:
  "raft_entry_is_voting_cfg_change ety \<Longrightarrow> raft_entry_is_cfg_change ety"
  by (auto simp: raft_entry_is_voting_cfg_change_def raft_entry_is_cfg_change_def)

text \<open>Changing an entry's data leaves its kind alone.\<close>

lemma cfg_change_data [simp]:
  "raft_entry_is_cfg_change (ety\<lparr>ety_data := d\<rparr>) = raft_entry_is_cfg_change ety"
  "raft_entry_is_voting_cfg_change (ety\<lparr>ety_data := d\<rparr>) = raft_entry_is_voting_cfg_change ety"
  by (simp_all add: raft_entry_is_voting_cfg_change_def raft_entry_is_cfg_change_def)

end
