(* ===== verification/Raft_Node.thy ===== *)
theory Raft_Node
  imports Raft_Types
begin

unbundle bit_operations_syntax

text \<open>
  The representation of a peer (\<^verbatim>\<open>raft/raft_node.c\<close>). Six booleans live in one 32-bit word of
  flags; the locale \<open>flag_ops\<close> states the contract of a setter and getter pair over one bit of
  it, and is interpreted for every pair the source has.
\<close>

section \<open>Operations\<close>

definition RAFT_NODE_VOTED_FOR_ME :: "32 word" where "RAFT_NODE_VOTED_FOR_ME = push_bit 0 1"

definition RAFT_NODE_VOTING :: "32 word" where "RAFT_NODE_VOTING = push_bit 1 1"

definition RAFT_NODE_HAS_SUFFICIENT_LOG :: "32 word" where
  "RAFT_NODE_HAS_SUFFICIENT_LOG = push_bit 2 1"

definition RAFT_NODE_INACTIVE :: "32 word" where "RAFT_NODE_INACTIVE = push_bit 3 1"

definition RAFT_NODE_VOTING_COMMITTED :: "32 word" where
  "RAFT_NODE_VOTING_COMMITTED = push_bit 4 1"

definition RAFT_NODE_ADDITION_COMMITTED :: "32 word" where
  "RAFT_NODE_ADDITION_COMMITTED = push_bit 5 1"

lemmas raft_node_flags =
  RAFT_NODE_VOTED_FOR_ME_def RAFT_NODE_VOTING_def RAFT_NODE_HAS_SUFFICIENT_LOG_def
  RAFT_NODE_INACTIVE_def RAFT_NODE_VOTING_COMMITTED_def RAFT_NODE_ADDITION_COMMITTED_def

text \<open>The fields \<^verbatim>\<open>raft_node_new\<close> stores; the allocation itself is in the server's theory.\<close>

definition raft_node_init :: "voidp \<Rightarrow> int \<Rightarrow> raft_node" where
  "raft_node_init udata nid =
     \<lparr>node_udata = udata, next_idx = 1, match_idx = 0, flags = RAFT_NODE_VOTING, node_id = nid\<rparr>"

definition raft_node_get_next_idx :: "raft_node \<Rightarrow> int" where
  "raft_node_get_next_idx me = next_idx me"

definition raft_node_set_next_idx :: "raft_node \<Rightarrow> int \<Rightarrow> raft_node" where
  "raft_node_set_next_idx me nextIdx = me\<lparr>next_idx := (if nextIdx < 1 then 1 else nextIdx)\<rparr>"

definition raft_node_get_match_idx :: "raft_node \<Rightarrow> int" where
  "raft_node_get_match_idx me = match_idx me"

definition raft_node_set_match_idx :: "raft_node \<Rightarrow> int \<Rightarrow> raft_node" where
  "raft_node_set_match_idx me matchIdx = me\<lparr>match_idx := matchIdx\<rparr>"

definition raft_node_get_udata :: "raft_node \<Rightarrow> voidp" where
  "raft_node_get_udata me = node_udata me"

definition raft_node_set_udata :: "raft_node \<Rightarrow> voidp \<Rightarrow> raft_node" where
  "raft_node_set_udata me udata = me\<lparr>node_udata := udata\<rparr>"

definition raft_node_vote_for_me :: "raft_node \<Rightarrow> bool \<Rightarrow> raft_node" where
  "raft_node_vote_for_me me vote =
     (if vote then me\<lparr>flags := flags me OR RAFT_NODE_VOTED_FOR_ME\<rparr>
      else me\<lparr>flags := flags me AND NOT RAFT_NODE_VOTED_FOR_ME\<rparr>)"

definition raft_node_has_vote_for_me :: "raft_node \<Rightarrow> bool" where
  "raft_node_has_vote_for_me me \<longleftrightarrow> flags me AND RAFT_NODE_VOTED_FOR_ME \<noteq> 0"

definition raft_node_is_voting :: "raft_node \<Rightarrow> bool" where
  "raft_node_is_voting me \<longleftrightarrow> flags me AND RAFT_NODE_VOTING \<noteq> 0"

text \<open>The two assertions of \<^verbatim>\<open>raft_node_set_voting\<close>: the flag must really change.\<close>

definition raft_node_set_voting :: "raft_node \<Rightarrow> bool \<Rightarrow> fault + raft_node" where
  "raft_node_set_voting me voting =
     (if voting
      then rbind (rassert (\<not> raft_node_is_voting me))
             (\<lambda>_. Inr (me\<lparr>flags := flags me OR RAFT_NODE_VOTING\<rparr>))
      else rbind (rassert (raft_node_is_voting me))
             (\<lambda>_. Inr (me\<lparr>flags := flags me AND NOT RAFT_NODE_VOTING\<rparr>)))"

definition raft_node_has_sufficient_logs :: "raft_node \<Rightarrow> bool" where
  "raft_node_has_sufficient_logs me \<longleftrightarrow> flags me AND RAFT_NODE_HAS_SUFFICIENT_LOG \<noteq> 0"

definition raft_node_set_has_sufficient_logs :: "raft_node \<Rightarrow> raft_node" where
  "raft_node_set_has_sufficient_logs me = me\<lparr>flags := flags me OR RAFT_NODE_HAS_SUFFICIENT_LOG\<rparr>"

definition raft_node_set_active :: "raft_node \<Rightarrow> bool \<Rightarrow> raft_node" where
  "raft_node_set_active me active =
     (if \<not> active then me\<lparr>flags := flags me OR RAFT_NODE_INACTIVE\<rparr>
      else me\<lparr>flags := flags me AND NOT RAFT_NODE_INACTIVE\<rparr>)"

definition raft_node_is_active :: "raft_node \<Rightarrow> bool" where
  "raft_node_is_active me \<longleftrightarrow> flags me AND RAFT_NODE_INACTIVE = 0"

definition raft_node_set_voting_committed :: "raft_node \<Rightarrow> bool \<Rightarrow> raft_node" where
  "raft_node_set_voting_committed me voting =
     (if voting then me\<lparr>flags := flags me OR RAFT_NODE_VOTING_COMMITTED\<rparr>
      else me\<lparr>flags := flags me AND NOT RAFT_NODE_VOTING_COMMITTED\<rparr>)"

definition raft_node_is_voting_committed :: "raft_node \<Rightarrow> bool" where
  "raft_node_is_voting_committed me \<longleftrightarrow> flags me AND RAFT_NODE_VOTING_COMMITTED \<noteq> 0"

definition raft_node_get_id :: "raft_node \<Rightarrow> int" where
  "raft_node_get_id me = node_id me"

definition raft_node_set_addition_committed :: "raft_node \<Rightarrow> bool \<Rightarrow> raft_node" where
  "raft_node_set_addition_committed me committed =
     (if committed then me\<lparr>flags := flags me OR RAFT_NODE_ADDITION_COMMITTED\<rparr>
      else me\<lparr>flags := flags me AND NOT RAFT_NODE_ADDITION_COMMITTED\<rparr>)"

definition raft_node_is_addition_committed :: "raft_node \<Rightarrow> bool" where
  "raft_node_is_addition_committed me \<longleftrightarrow> flags me AND RAFT_NODE_ADDITION_COMMITTED \<noteq> 0"

section \<open>Flags as independent booleans\<close>

lemma bit_flag_masks:
  "bit RAFT_NODE_VOTED_FOR_ME j \<longleftrightarrow> j = 0"
  "bit RAFT_NODE_VOTING j \<longleftrightarrow> j = 1"
  "bit RAFT_NODE_HAS_SUFFICIENT_LOG j \<longleftrightarrow> j = 2"
  "bit RAFT_NODE_INACTIVE j \<longleftrightarrow> j = 3"
  "bit RAFT_NODE_VOTING_COMMITTED j \<longleftrightarrow> j = 4"
  "bit RAFT_NODE_ADDITION_COMMITTED j \<longleftrightarrow> j = 5"
  unfolding raft_node_flags bit_push_bit_iff bit_1_iff by auto

lemma and_mask_eq_0: "(w AND push_bit k 1 = 0) \<longleftrightarrow> \<not> bit (w::32 word) k"
  by (metis bit_iff_and_push_bit_not_eq_0)

lemma and_flag_masks:
  "(w AND RAFT_NODE_VOTED_FOR_ME = 0) \<longleftrightarrow> \<not> bit w 0"
  "(w AND RAFT_NODE_VOTING = 0) \<longleftrightarrow> \<not> bit w 1"
  "(w AND RAFT_NODE_HAS_SUFFICIENT_LOG = 0) \<longleftrightarrow> \<not> bit w 2"
  "(w AND RAFT_NODE_INACTIVE = 0) \<longleftrightarrow> \<not> bit w 3"
  "(w AND RAFT_NODE_VOTING_COMMITTED = 0) \<longleftrightarrow> \<not> bit w 4"
  "(w AND RAFT_NODE_ADDITION_COMMITTED = 0) \<longleftrightarrow> \<not> bit w 5"
  unfolding raft_node_flags by (rule and_mask_eq_0)+

lemmas flag_simps =
  bit_flag_masks and_flag_masks bit_or_iff bit_and_iff bit_not_iff possible_bit_word

text \<open>
  The contract of one flag: \<open>put n b\<close> writes \<open>b\<close> into bit \<open>k\<close> (or its negation, for the flag
  stored inverted) and nothing else; \<open>get\<close> reads it back.
\<close>

locale flag_ops =
  fixes put :: "raft_node \<Rightarrow> bool \<Rightarrow> raft_node"
    and get :: "raft_node \<Rightarrow> bool"
    and k :: nat
    and inverted :: bool
  assumes width: "k < 32"
    and put_flags: "bit (flags (put n b)) j = (if j = k then b \<noteq> inverted else bit (flags n) j)"
    and put_rest: "put n b = n\<lparr>flags := flags (put n b)\<rparr>"
    and get_bit: "get n = (bit (flags n) k \<noteq> inverted)"
begin

lemma get_put: "get (put n b) = b"
  by (auto simp: get_bit put_flags)

lemma put_fields:
  "node_udata (put n b) = node_udata n" "next_idx (put n b) = next_idx n"
  "match_idx (put n b) = match_idx n" "node_id (put n b) = node_id n"
  by (subst put_rest, simp)+

lemma put_get: "put n (get n) = n"
proof -
  have "flags (put n (get n)) = flags n"
    by (rule bit_eqI) (auto simp: put_flags get_bit)
  then show ?thesis by (auto simp: put_fields intro: raft_node.equality)
qed

lemma put_put: "put (put n b) c = put n c"
proof -
  have "flags (put (put n b) c) = flags (put n c)"
    by (rule bit_eqI) (simp add: put_flags)
  then show ?thesis by (auto simp: put_fields intro: raft_node.equality)
qed

lemma put_other: "j \<noteq> k \<Longrightarrow> bit (flags (put n b)) j = bit (flags n) j"
  by (simp add: put_flags)

end

text \<open>
  \<^verbatim>\<open>raft_node_set_voting\<close> asserts that it changes the flag, so its contract is that of the
  unguarded write where the assertion holds.
\<close>

definition put_voting :: "raft_node \<Rightarrow> bool \<Rightarrow> raft_node" where
  "put_voting n b =
     (if b then n\<lparr>flags := flags n OR RAFT_NODE_VOTING\<rparr>
      else n\<lparr>flags := flags n AND NOT RAFT_NODE_VOTING\<rparr>)"

interpretation voted: flag_ops raft_node_vote_for_me raft_node_has_vote_for_me 0 False
  by unfold_locales
    (auto simp: raft_node_vote_for_me_def raft_node_has_vote_for_me_def flag_simps
       dest: bit_imp_le_length)

interpretation voting: flag_ops put_voting raft_node_is_voting 1 False
  by unfold_locales
    (auto simp: put_voting_def raft_node_is_voting_def flag_simps dest: bit_imp_le_length)

interpretation active: flag_ops raft_node_set_active raft_node_is_active 3 True
  by unfold_locales
    (auto simp: raft_node_set_active_def raft_node_is_active_def flag_simps
       dest: bit_imp_le_length)

interpretation vcommitted: flag_ops raft_node_set_voting_committed raft_node_is_voting_committed 4 False
  by unfold_locales
    (auto simp: raft_node_set_voting_committed_def raft_node_is_voting_committed_def flag_simps
       dest: bit_imp_le_length)

interpretation acommitted: flag_ops raft_node_set_addition_committed raft_node_is_addition_committed 5 False
  by unfold_locales
    (auto simp: raft_node_set_addition_committed_def raft_node_is_addition_committed_def flag_simps
       dest: bit_imp_le_length)

lemma raft_node_set_voting_eq:
  "raft_node_set_voting n b =
     (if raft_node_is_voting n = b then Inl Assertion_failed else Inr (put_voting n b))"
  by (auto simp: raft_node_set_voting_def put_voting_def)

section \<open>What each operation reads after each write\<close>

lemmas node_getters =
  raft_node_has_vote_for_me_def raft_node_is_voting_def raft_node_has_sufficient_logs_def
  raft_node_is_active_def raft_node_is_voting_committed_def raft_node_is_addition_committed_def

lemmas node_index_ops =
  raft_node_get_next_idx_def raft_node_set_next_idx_def raft_node_get_match_idx_def
  raft_node_set_match_idx_def raft_node_get_id_def raft_node_get_udata_def raft_node_set_udata_def

lemmas put_fields_all [simp] =
  voted.put_fields voting.put_fields active.put_fields vcommitted.put_fields acommitted.put_fields

lemma sufficient_fields [simp]:
  "node_udata (raft_node_set_has_sufficient_logs n) = node_udata n"
  "next_idx (raft_node_set_has_sufficient_logs n) = next_idx n"
  "match_idx (raft_node_set_has_sufficient_logs n) = match_idx n"
  "node_id (raft_node_set_has_sufficient_logs n) = node_id n"
  by (simp_all add: raft_node_set_has_sufficient_logs_def)

lemma voting_after [simp]:
  "raft_node_is_voting (raft_node_vote_for_me n b) = raft_node_is_voting n"
  "raft_node_is_voting (put_voting n b) = b"
  "raft_node_is_voting (raft_node_set_active n b) = raft_node_is_voting n"
  "raft_node_is_voting (raft_node_set_voting_committed n b) = raft_node_is_voting n"
  "raft_node_is_voting (raft_node_set_addition_committed n b) = raft_node_is_voting n"
  "raft_node_is_voting (raft_node_set_has_sufficient_logs n) = raft_node_is_voting n"
  "raft_node_is_voting (raft_node_set_next_idx n i) = raft_node_is_voting n"
  "raft_node_is_voting (raft_node_set_match_idx n i) = raft_node_is_voting n"
  by (simp_all add: voting.get_bit voting.put_flags voted.put_other active.put_other
      vcommitted.put_other acommitted.put_other raft_node_set_has_sufficient_logs_def flag_simps
      node_index_ops)

lemma active_after [simp]:
  "raft_node_is_active (raft_node_vote_for_me n b) = raft_node_is_active n"
  "raft_node_is_active (put_voting n b) = raft_node_is_active n"
  "raft_node_is_active (raft_node_set_active n b) = b"
  "raft_node_is_active (raft_node_set_voting_committed n b) = raft_node_is_active n"
  "raft_node_is_active (raft_node_set_addition_committed n b) = raft_node_is_active n"
  "raft_node_is_active (raft_node_set_has_sufficient_logs n) = raft_node_is_active n"
  "raft_node_is_active (raft_node_set_next_idx n i) = raft_node_is_active n"
  "raft_node_is_active (raft_node_set_match_idx n i) = raft_node_is_active n"
  by (simp_all add: active.get_bit active.put_flags voted.put_other voting.put_other
      vcommitted.put_other acommitted.put_other raft_node_set_has_sufficient_logs_def flag_simps
      node_index_ops)

lemma voted_after [simp]:
  "raft_node_has_vote_for_me (raft_node_vote_for_me n b) = b"
  "raft_node_has_vote_for_me (put_voting n b) = raft_node_has_vote_for_me n"
  "raft_node_has_vote_for_me (raft_node_set_active n b) = raft_node_has_vote_for_me n"
  "raft_node_has_vote_for_me (raft_node_set_voting_committed n b) = raft_node_has_vote_for_me n"
  "raft_node_has_vote_for_me (raft_node_set_addition_committed n b) = raft_node_has_vote_for_me n"
  "raft_node_has_vote_for_me (raft_node_set_has_sufficient_logs n) = raft_node_has_vote_for_me n"
  "raft_node_has_vote_for_me (raft_node_set_next_idx n i) = raft_node_has_vote_for_me n"
  "raft_node_has_vote_for_me (raft_node_set_match_idx n i) = raft_node_has_vote_for_me n"
  by (simp_all add: voted.get_bit voted.put_flags voting.put_other active.put_other
      vcommitted.put_other acommitted.put_other raft_node_set_has_sufficient_logs_def flag_simps
      node_index_ops)

text \<open>The six booleans together, and the rest of a node.\<close>

definition node_flags :: "raft_node \<Rightarrow> bool \<times> bool \<times> bool \<times> bool \<times> bool \<times> bool" where
  "node_flags n =
     (raft_node_has_vote_for_me n, raft_node_is_voting n, raft_node_has_sufficient_logs n,
      raft_node_is_active n, raft_node_is_voting_committed n, raft_node_is_addition_committed n)"

definition node_data :: "raft_node \<Rightarrow> voidp \<times> int \<times> int \<times> int" where
  "node_data n = (node_udata n, next_idx n, match_idx n, node_id n)"

lemma node_flags_bits:
  "node_flags n =
     (bit (flags n) 0, bit (flags n) 1, bit (flags n) 2, \<not> bit (flags n) 3, bit (flags n) 4, bit (flags n) 5)"
  by (simp add: node_flags_def node_getters and_flag_masks)

lemma sufficient_bits: "bit (flags (raft_node_set_has_sufficient_logs n)) j \<longleftrightarrow> j = 2 \<or> bit (flags n) j"
  by (auto simp: raft_node_set_has_sufficient_logs_def flag_simps)

lemmas node_writes =
  voted.put_flags voting.put_flags active.put_flags vcommitted.put_flags acommitted.put_flags sufficient_bits

lemma index_after [simp]:
  "next_idx (raft_node_set_next_idx n i) = max 1 i"
  "match_idx (raft_node_set_next_idx n i) = match_idx n"
  "node_id (raft_node_set_next_idx n i) = node_id n"
  "next_idx (raft_node_set_match_idx n i) = next_idx n"
  "match_idx (raft_node_set_match_idx n i) = i"
  "node_id (raft_node_set_match_idx n i) = node_id n"
  by (auto simp: node_index_ops)

lemma raft_node_init_fields [simp]:
  "node_id (raft_node_init u i) = i" "next_idx (raft_node_init u i) = 1"
  "match_idx (raft_node_init u i) = 0"
  "raft_node_is_voting (raft_node_init u i)" "raft_node_is_active (raft_node_init u i)"
  "\<not> raft_node_has_vote_for_me (raft_node_init u i)"
  by (simp_all add: raft_node_init_def voting.get_bit active.get_bit voted.get_bit bit_flag_masks)

end
