(* ===== verification/Raft_Process.thy ===== *)
theory Raft_Process
  imports Raft_Types
begin

text \<open>
  What the library asks of the C runtime: memory (\<^verbatim>\<open>__raft_calloc\<close>, \<^verbatim>\<open>__raft_realloc\<close>, which may
  return \<^verbatim>\<open>NULL\<close> at any call) and random numbers (\<^verbatim>\<open>rand\<close>). Both are oracles: the \<open>n\<close>-th call
  gets the \<open>n\<close>-th answer of an arbitrary sequence, so a theorem about every \<open>process\<close> covers
  every pattern of allocation failures and every random sequence. The sequence of random
  numbers has type \<open>nat\<close> because \<^verbatim>\<open>rand\<close> never returns a negative number.
\<close>

record process =
  alloc_seq :: "nat \<Rightarrow> bool"
  alloc_no :: nat
  rand_seq :: "nat \<Rightarrow> nat"
  rand_no :: nat

definition raft_alloc :: "'p process_scheme \<Rightarrow> bool \<times> 'p process_scheme" where
  "raft_alloc p = (alloc_seq p (alloc_no p), p\<lparr>alloc_no := alloc_no p + 1\<rparr>)"

definition c_rand :: "'p process_scheme \<Rightarrow> int \<times> 'p process_scheme" where
  "c_rand p = (int (rand_seq p (rand_no p)), p\<lparr>rand_no := rand_no p + 1\<rparr>)"

text \<open>A process whose allocations all succeed and whose \<^verbatim>\<open>rand\<close> returns 0, for examples.\<close>

definition calm_process :: process where
  "calm_process = \<lparr>alloc_seq = (\<lambda>_. True), alloc_no = 0, rand_seq = (\<lambda>_. 0), rand_no = 0\<rparr>"

lemma c_rand_nonneg: "0 \<le> fst (c_rand p)"
  by (simp add: c_rand_def)

end
