(* ===== verification/Raft_Log.thy ===== *)
theory Raft_Log
  imports Raft_Process
begin

text \<open>
  The log of entries (\<^verbatim>\<open>raft/raft_log.c\<close>): a growing ring buffer whose oldest entry has the index
  \<^verbatim>\<open>base + 1\<close>. This theory holds the structure and the operations that touch nothing but the log
  and the user's state; the appending and deleting operations, which also call into the
  server, are built from \<open>log_write_back\<close>, \<open>log_bump\<close> and \<open>log_pop_back\<close> in
  \<^verbatim>\<open>Raft_Log_Ops\<close>. The lemmas relate the ring to the plain list \<open>log_list\<close> of its entries; the
  locale \<open>indexed_log\<close> is the contract the server relies on.
\<close>

section \<open>The structure\<close>

text \<open>
  \<^verbatim>\<open>log_private_t\<close>. The pointers \<^verbatim>\<open>cb\<close> and \<^verbatim>\<open>raft\<close> are null until \<^verbatim>\<open>log_set_callbacks\<close> is called,
  which the server does with its own callback record and itself; two booleans record whether
  they are set.
\<close>

record raft_log =
  lg_size :: int
  lg_count :: int
  lg_front :: int
  lg_back :: int
  lg_base :: int
  lg_entries :: "raft_entry list"
  lg_cb :: bool
  lg_raft :: bool

definition INITIAL_CAPACITY :: int where "INITIAL_CAPACITY = 10"

text \<open>\<^verbatim>\<open>static int mod(raft_index_t a, raft_index_t b)\<close>: the result passes through an \<^verbatim>\<open>int\<close>.\<close>

definition log_mod :: "int \<Rightarrow> int \<Rightarrow> fault + int" where
  "log_mod a b =
     rbind (c_rem a b) (\<lambda>m. let r = int32 m in Inr (int32 (if r < 0 then r + b else r)))"

section \<open>Operations\<close>

text \<open>The copying loop of \<^verbatim>\<open>__ensurecapacity\<close>; \<open>n\<close> is the number of iterations left.\<close>

primrec ensurecapacity_copy ::
  "raft_entry list \<Rightarrow> int \<Rightarrow> nat \<Rightarrow> int \<Rightarrow> int \<Rightarrow> raft_entry list \<Rightarrow> fault + raft_entry list" where
  "ensurecapacity_copy ents sz 0 i j temp = Inr temp"
| "ensurecapacity_copy ents sz (Suc n) i j temp =
     (let j' = (if j = sz then 0 else j) in
      rbind (arr_get ents j') (\<lambda>e.
      rbind (arr_set temp i e) (\<lambda>temp'.
      ensurecapacity_copy ents sz n (i + 1) (j' + 1) temp')))"

definition ensurecapacity ::
  "raft_log \<Rightarrow> 'p process_scheme \<Rightarrow> fault + int \<times> raft_log \<times> 'p process_scheme" where
  "ensurecapacity me p =
     (if lg_count me < lg_size me then Inr (0, me, p)
      else case raft_alloc p of (ok, p') \<Rightarrow>
        if \<not> ok then Inr (RAFT_ERR_NOMEM, me, p')
        else
          rbind (ensurecapacity_copy (lg_entries me) (lg_size me) (nat (lg_count me)) 0 (lg_front me)
                   (replicate (nat (lg_size me * 2)) zero_entry)) (\<lambda>temp.
          Inr (0, me\<lparr>lg_size := lg_size me * 2, lg_entries := temp, lg_front := 0,
                     lg_back := lg_count me\<rparr>, p')))"

definition log_clear :: "raft_log \<Rightarrow> raft_log" where
  "log_clear me = me\<lparr>lg_count := 0, lg_back := 0, lg_front := 0, lg_base := 0\<rparr>"

definition log_alloc :: "int \<Rightarrow> 'p process_scheme \<Rightarrow> raft_log option \<times> 'p process_scheme" where
  "log_alloc initial_size p =
     (case raft_alloc p of (ok, p1) \<Rightarrow>
      if \<not> ok then (None, p1)
      else
        let me = log_clear \<lparr>lg_size = initial_size, lg_count = 0, lg_front = 0, lg_back = 0,
                    lg_base = 0, lg_entries = [], lg_cb = False, lg_raft = False\<rparr> in
        case raft_alloc p1 of (ok2, p2) \<Rightarrow>
        if \<not> ok2 then (None, p2)
        else (Some (me\<lparr>lg_entries := replicate (nat (lg_size me)) zero_entry\<rparr>), p2))"

definition log_new :: "'p process_scheme \<Rightarrow> raft_log option \<times> 'p process_scheme" where
  "log_new p = log_alloc INITIAL_CAPACITY p"

definition log_set_callbacks :: "raft_log \<Rightarrow> raft_log" where
  "log_set_callbacks me = me\<lparr>lg_raft := True, lg_cb := True\<rparr>"

text \<open>
  The loop of \<^verbatim>\<open>log_clear_entries\<close> runs from \<^verbatim>\<open>base\<close> to \<^verbatim>\<open>base + count\<close> inclusive; \<open>n\<close> is the
  number of iterations left.
\<close>

primrec log_clear_loop ::
  "raft_log \<Rightarrow> ('u \<Rightarrow> raft_entry \<Rightarrow> int \<Rightarrow> 'u) \<Rightarrow> nat \<Rightarrow> int \<Rightarrow> 'u \<Rightarrow> fault + 'u" where
  "log_clear_loop me f 0 i u = Inr u"
| "log_clear_loop me f (Suc n) i u =
     rbind (c_rem (lg_front me + i - lg_base me) (lg_size me)) (\<lambda>k.
     rbind (arr_get (lg_entries me) k) (\<lambda>e.
     log_clear_loop me f n (i + 1) (f u e i)))"

definition log_clear_entries :: "raft_log \<Rightarrow> 'u raft_cbs \<Rightarrow> 'u \<Rightarrow> fault + 'u" where
  "log_clear_entries me cbs u =
     (if lg_count me = 0 \<or> \<not> lg_cb me then Inr u
      else case log_clear_cb cbs of
        None \<Rightarrow> Inr u
      | Some f \<Rightarrow> log_clear_loop me f (nat (lg_count me + 1)) (lg_base me) u)"

definition log_load_from_snapshot ::
  "raft_log \<Rightarrow> int \<Rightarrow> int \<Rightarrow> 'u raft_cbs \<Rightarrow> 'u \<Rightarrow> fault + int \<times> raft_log \<times> 'u" where
  "log_load_from_snapshot me idx trm cbs u =
     rbind (log_clear_entries me cbs u) (\<lambda>u'.
     let me' = log_clear me in Inr (0, me'\<lparr>lg_base := idx\<rparr>, u'))"

text \<open>
  The two halves of \<^verbatim>\<open>log_append_entry\<close> that touch the log: storing the entry in the cell at
  \<^verbatim>\<open>back\<close>, and taking the cell into the log.
\<close>

definition log_write_back :: "raft_log \<Rightarrow> raft_entry \<Rightarrow> fault + raft_log" where
  "log_write_back me ety =
     rbind (arr_set (lg_entries me) (lg_back me) ety) (\<lambda>es. Inr (me\<lparr>lg_entries := es\<rparr>))"

definition log_bump :: "raft_log \<Rightarrow> fault + raft_log" where
  "log_bump me =
     rbind (c_rem (lg_back me + 1) (lg_size me)) (\<lambda>b.
     Inr (me\<lparr>lg_count := lg_count me + 1, lg_back := b\<rparr>))"

definition log_get_from_idx :: "raft_log \<Rightarrow> int \<Rightarrow> fault + raft_entry list option \<times> int" where
  "log_get_from_idx me idx =
     rbind (rassert (0 \<le> idx - 1)) (\<lambda>_.
     if lg_base me + lg_count me < idx \<or> idx \<le> lg_base me then Inr (None, 0)
     else
       rbind (c_rem (lg_front me + (idx - 1) - lg_base me) (lg_size me)) (\<lambda>i.
       let n = int32 (if i < lg_back me then lg_back me - i else lg_size me - i) in
       Inr (Some (take (nat n) (drop (nat i) (lg_entries me))), n)))"

definition log_get_at_idx :: "raft_log \<Rightarrow> int \<Rightarrow> fault + raft_entry option" where
  "log_get_at_idx me idx =
     (if idx = 0 then Inr None
      else if lg_base me + lg_count me < idx \<or> idx \<le> lg_base me then Inr None
      else
        rbind (c_rem (lg_front me + (idx - 1) - lg_base me) (lg_size me)) (\<lambda>i.
        rbind (arr_get (lg_entries me) i) (\<lambda>e. Inr (Some e))))"

definition log_count :: "raft_log \<Rightarrow> int" where
  "log_count me = lg_count me"

text \<open>One iteration of the loop of \<^verbatim>\<open>log_delete\<close>: the position of the youngest entry, and its removal.\<close>

definition log_last_pos :: "raft_log \<Rightarrow> fault + int" where
  "log_last_pos me = log_mod (lg_back me - 1) (lg_size me)"

definition log_pop_back :: "raft_log \<Rightarrow> int \<Rightarrow> raft_log" where
  "log_pop_back me pos = me\<lparr>lg_back := pos, lg_count := lg_count me - 1\<rparr>"

definition log_poll ::
  "raft_log \<Rightarrow> 'u raft_cbs \<Rightarrow> 'u \<Rightarrow> fault + int \<times> raft_entry option \<times> raft_log \<times> 'u" where
  "log_poll me cbs u =
     (let idx = lg_base me + 1 in
      if lg_count me = 0 then Inr (-1, None, me, u)
      else
        rbind (arr_get (lg_entries me) (lg_front me)) (\<lambda>elem.
        let (e, me1, u1) =
          (if lg_cb me then
             (case log_poll_cb cbs of
                None \<Rightarrow> (0, me, u)
              | Some f \<Rightarrow>
                  (case f u elem idx of (e, d, u') \<Rightarrow>
                     (e, me\<lparr>lg_entries := (lg_entries me)[nat (lg_front me) := elem\<lparr>ety_data := d\<rparr>]\<rparr>, u')))
           else (0, me, u))
        in
        if e \<noteq> 0 then Inr (e, None, me1, u1)
        else
          rbind (c_rem (lg_front me1 + 1) (lg_size me1)) (\<lambda>fr.
          Inr (0, Some (lg_entries me1 ! nat (lg_front me1)),
               me1\<lparr>lg_front := fr, lg_count := lg_count me1 - 1, lg_base := lg_base me1 + 1\<rparr>, u1))))"

definition log_peektail :: "raft_log \<Rightarrow> fault + raft_entry option" where
  "log_peektail me =
     (if lg_count me = 0 then Inr None
      else if lg_back me = 0
      then rbind (arr_get (lg_entries me) (lg_size me - 1)) (\<lambda>e. Inr (Some e))
      else rbind (arr_get (lg_entries me) (lg_back me - 1)) (\<lambda>e. Inr (Some e)))"

definition log_empty :: "raft_log \<Rightarrow> raft_log" where
  "log_empty me = me\<lparr>lg_front := 0, lg_back := 0, lg_count := 0\<rparr>"

definition log_get_current_idx :: "raft_log \<Rightarrow> int" where
  "log_get_current_idx me = log_count me + lg_base me"

definition log_get_base :: "raft_log \<Rightarrow> int" where
  "log_get_base me = lg_base me"

section \<open>Invariant and abstraction\<close>

definition log_inv :: "raft_log \<Rightarrow> bool" where
  "log_inv me \<longleftrightarrow>
     0 < lg_size me \<and> int (length (lg_entries me)) = lg_size me \<and>
     0 \<le> lg_count me \<and> lg_count me \<le> lg_size me \<and>
     0 \<le> lg_front me \<and> lg_front me < lg_size me \<and>
     lg_back me = (lg_front me + lg_count me) mod lg_size me \<and>
     0 \<le> lg_base me"

text \<open>The entries of the log, oldest first.\<close>

definition log_list :: "raft_log \<Rightarrow> raft_entry list" where
  "log_list me = ring_slice (lg_entries me) (nat (lg_front me)) (nat (lg_count me))"

text \<open>The entry with a given index, over the list.\<close>

definition list_at :: "int \<Rightarrow> raft_entry list \<Rightarrow> int \<Rightarrow> raft_entry option" where
  "list_at base es idx =
     (if base < idx \<and> idx \<le> base + int (length es) then Some (es ! nat (idx - base - 1)) else None)"

section \<open>Arithmetic of the ring\<close>

lemma log_inv_back_range: "log_inv me \<Longrightarrow> 0 \<le> lg_back me \<and> lg_back me < lg_size me"
  by (simp add: log_inv_def)

lemma nat_ring_pos:
  assumes "log_inv me" and "0 \<le> k"
  shows "nat ((lg_front me + k) mod lg_size me) = (nat (lg_front me) + nat k) mod length (lg_entries me)"
proof -
  have "nat (lg_size me) = length (lg_entries me)"
    using assms(1) by (auto simp: log_inv_def)
  then show ?thesis
    using assms by (simp add: log_inv_def nat_mod_distrib nat_add_distrib)
qed

lemma length_log_list [simp]: "length (log_list me) = nat (lg_count me)"
  by (simp add: log_list_def)

lemma nat_back_less: "log_inv me \<Longrightarrow> nat (lg_back me) < length (lg_entries me)"
  using log_inv_back_range [of me] unfolding log_inv_def by linarith

lemma log_list_eq_Nil: "log_inv me \<Longrightarrow> log_list me = [] \<longleftrightarrow> lg_count me = 0"
  by (metis log_inv_def length_0_conv length_log_list nat_0_iff order_antisym order_refl)

lemma log_list_nth:
  assumes "log_inv me" and "k < nat (lg_count me)"
  shows "log_list me ! k = lg_entries me ! nat ((lg_front me + int k) mod lg_size me)"
  using assms by (simp add: log_list_def nat_ring_pos)

section \<open>Allocation and growth\<close>

lemma log_alloc_spec:
  assumes "0 < n" and "log_alloc n p = (Some me, p')"
  shows "log_inv me" and "log_list me = []" and "lg_base me = 0" and "lg_size me = n"
    and "\<not> lg_cb me" and "\<not> lg_raft me"
  using assms
  by (auto simp: log_alloc_def log_clear_def log_inv_def log_list_def Let_def
      split: prod.splits if_splits)

lemma log_clear_inv: "log_inv me \<Longrightarrow> log_inv (log_clear me)"
  by (simp add: log_inv_def log_clear_def)

lemma log_clear_list [simp]: "log_list (log_clear me) = []" "lg_base (log_clear me) = 0"
  by (simp_all add: log_list_def log_clear_def)

lemma log_empty_inv: "log_inv me \<Longrightarrow> log_inv (log_empty me)"
  by (simp add: log_inv_def log_empty_def)

lemma log_empty_list [simp]: "log_list (log_empty me) = []" "lg_base (log_empty me) = lg_base me"
  by (simp_all add: log_list_def log_empty_def)

lemma ensurecapacity_copy_spec:
  assumes sz: "0 < sz" "int (length ents) = sz"
    and i: "0 \<le> i" "i + int n \<le> int (length temp)"
    and j: "0 \<le> j" "j \<le> sz"
  shows "ensurecapacity_copy ents sz n i j temp =
    Inr (take (nat i) temp @ ring_slice ents (nat j) n @ drop (nat i + n) temp)"
  using i j
proof (induction n arbitrary: i j temp)
  case 0
  then show ?case by simp
next
  case (Suc n)
  define j' where "j' = (if j = sz then 0 else j)"
  have j': "0 \<le> j'" "j' < sz" using Suc.prems sz by (auto simp: j'_def)
  have same: "nat j mod length ents = nat j'"
    using Suc.prems sz j' by (auto simp: j'_def)
  define t where "t = temp[nat i := ents ! nat j']"
  have "ensurecapacity_copy ents sz (Suc n) i j temp = ensurecapacity_copy ents sz n (i + 1) (j' + 1) t"
    using Suc.prems sz j' by (simp add: j'_def [symmetric] t_def Let_def)
  also have "\<dots> = Inr (take (nat (i + 1)) t @ ring_slice ents (nat (j' + 1)) n @ drop (nat (i + 1) + n) t)"
    using Suc.prems j' by (intro Suc.IH) (auto simp: t_def)
  also have "take (nat (i + 1)) t = take (nat i) temp @ [ents ! nat j']"
    using Suc.prems by (simp add: t_def nat_add_distrib take_Suc_conv_app_nth)
  also have "drop (nat (i + 1) + n) t = drop (nat i + Suc n) temp"
    using Suc.prems by (simp add: t_def nat_add_distrib)
  also have "ring_slice ents (nat j) (Suc n) = ents ! nat j' # ring_slice ents (nat (j' + 1)) n"
  proof -
    have "ring_slice ents (nat j) (Suc n) = ring_slice ents (nat j') (Suc n)"
      by (rule nth_equalityI) (auto simp: same [symmetric] mod_add_left_eq)
    also have "\<dots> = ents ! nat j' # ring_slice ents (Suc (nat j') mod length ents) n"
      using sz j' by (intro ring_slice_Cons) auto
    also have "ring_slice ents (Suc (nat j') mod length ents) n = ring_slice ents (nat (j' + 1)) n"
      using j' by (intro nth_equalityI) (auto simp: mod_add_left_eq nat_add_distrib)
    finally show ?thesis .
  qed
  ultimately show ?case by simp
qed

text \<open>Growing the ring: the same entries in the same order, and a free cell.\<close>

lemma ensurecapacity_spec:
  assumes inv: "log_inv me"
  obtains e me' p' where "ensurecapacity me p = Inr (e, me', p')"
    and "log_inv me'" and "log_list me' = log_list me" and "lg_base me' = lg_base me"
    and "lg_count me' = lg_count me" and "lg_cb me' = lg_cb me" and "lg_raft me' = lg_raft me"
    and "e = 0 \<Longrightarrow> lg_count me' < lg_size me'" and "e \<noteq> 0 \<Longrightarrow> me' = me \<and> e = RAFT_ERR_NOMEM"
    and "lg_size me \<le> lg_size me' \<and> lg_size me' \<le> 2 * lg_size me"
proof (cases "lg_count me < lg_size me")
  case True
  with inv show ?thesis by (intro that [of 0 me p]) (auto simp: ensurecapacity_def log_inv_def)
next
  case False
  then have full: "lg_count me = lg_size me" using inv by (simp add: log_inv_def)
  show ?thesis
  proof (cases "fst (raft_alloc p)")
    case False
    with full inv show ?thesis
      by (intro that [of RAFT_ERR_NOMEM me "snd (raft_alloc p)"])
        (auto simp: ensurecapacity_def log_inv_def raft_errs split: prod.splits)
  next
    case True
    define n where "n = nat (lg_count me)"
    define temp where "temp = log_list me @ replicate n zero_entry"
    have "ensurecapacity_copy (lg_entries me) (lg_size me) n 0 (lg_front me)
            (replicate (nat (lg_size me * 2)) zero_entry) =
          Inr (take (nat 0) (replicate (nat (lg_size me * 2)) zero_entry) @
               ring_slice (lg_entries me) (nat (lg_front me)) n @
               drop (nat 0 + n) (replicate (nat (lg_size me * 2)) zero_entry))"
      using inv full by (intro ensurecapacity_copy_spec) (auto simp: log_inv_def n_def)
    also have "\<dots> = Inr temp"
      using inv full by (simp add: temp_def log_list_def n_def log_inv_def nat_mult_distrib)
    finally have copy: "ensurecapacity_copy (lg_entries me) (lg_size me) n 0 (lg_front me)
            (replicate (nat (lg_size me * 2)) zero_entry) = Inr temp" .
    define me' where "me' = me\<lparr>lg_size := lg_size me * 2, lg_entries := temp, lg_front := 0,
                     lg_back := lg_count me\<rparr>"
    have "log_list me' = log_list me"
      using inv by (intro nth_equalityI) (auto simp: me'_def log_list_def temp_def n_def nth_append)
    moreover have "log_inv me'"
      using inv full by (simp add: log_inv_def me'_def temp_def n_def)
    moreover have "ensurecapacity me p = Inr (0, me', snd (raft_alloc p))"
      using True full copy by (auto simp: ensurecapacity_def me'_def n_def split: prod.splits)
    ultimately show ?thesis
      using inv full by (intro that [of 0 me' "snd (raft_alloc p)"]) (auto simp: me'_def log_inv_def)
  qed
qed

section \<open>Appending, popping, polling\<close>

lemma log_write_back_spec:
  assumes "log_inv me"
  shows "log_write_back me ety = Inr (me\<lparr>lg_entries := (lg_entries me)[nat (lg_back me) := ety]\<rparr>)"
  using assms log_inv_back_range [OF assms] by (simp add: log_write_back_def log_inv_def)

lemma log_inv_set_cell: "log_inv me \<Longrightarrow> log_inv (me\<lparr>lg_entries := (lg_entries me)[k := ety]\<rparr>)"
  by (simp add: log_inv_def)

text \<open>Writing the cell behind the youngest entry does not change the entries of the log.\<close>

lemma log_list_set_back:
  assumes "log_inv me" and "lg_count me < lg_size me"
  shows "log_list (me\<lparr>lg_entries := (lg_entries me)[nat (lg_back me) := ety]\<rparr>) = log_list me"
proof -
  have "nat (lg_back me) = (nat (lg_front me) + nat (lg_count me)) mod length (lg_entries me)"
    using assms nat_ring_pos [of me "lg_count me"] by (simp add: log_inv_def)
  moreover have "nat (lg_count me) < length (lg_entries me)"
    using assms by (auto simp: log_inv_def)
  ultimately show ?thesis
    using ring_slice_update_outside [of "nat (lg_count me)" "lg_entries me" "nat (lg_front me)" ety]
    by (simp add: log_list_def)
qed

lemma log_bump_spec:
  assumes "log_inv me" and "lg_count me < lg_size me"
  obtains me' where "log_bump me = Inr me'" and "log_inv me'"
    and "log_list me' = log_list me @ [lg_entries me ! nat (lg_back me)]"
    and "lg_base me' = lg_base me" and "lg_count me' = lg_count me + 1"
    and "lg_size me' = lg_size me" and "lg_cb me' = lg_cb me" and "lg_raft me' = lg_raft me"
proof -
  define b where "b = (lg_back me + 1) mod lg_size me"
  define me' where "me' = me\<lparr>lg_count := lg_count me + 1, lg_back := b\<rparr>"
  have range: "0 \<le> lg_back me" using log_inv_back_range [OF assms(1)] by simp
  have "log_bump me = Inr me'"
    using assms range by (simp add: log_bump_def me'_def b_def log_inv_def)
  moreover have "log_inv me'"
    using assms by (simp add: log_inv_def me'_def b_def mod_simps add.assoc)
  moreover have "log_list me' = log_list me @ [lg_entries me ! nat (lg_back me)]"
  proof -
    have "nat (lg_count me + 1) = Suc (nat (lg_count me))"
      using assms by (auto simp: log_inv_def)
    moreover have "nat (lg_back me) = (nat (lg_front me) + nat (lg_count me)) mod length (lg_entries me)"
      using assms nat_ring_pos [of me "lg_count me"] by (simp add: log_inv_def)
    ultimately show ?thesis by (simp add: log_list_def me'_def ring_slice_Suc)
  qed
  ultimately show ?thesis by (intro that [of me']) (auto simp: me'_def)
qed

lemma log_mod_spec:
  assumes "- 1 \<le> a" and "a < b" and "0 < b" and "b \<le> 2 ^ 31"
  shows "log_mod a b = Inr (a mod b)"
proof (cases "a = - 1")
  case True
  show ?thesis
  proof (cases "b = 1")
    case True
    then show ?thesis using \<open>a = - 1\<close> by (simp add: log_mod_def c_rem_def int32_def)
  next
    case False
    with assms True have b: "1 < b" by simp
    then have "(- 1) smod b = (- 1 :: int)"
      by (simp add: signed_modulo_int_def)
    moreover have "int32 (- 1) = - 1" "int32 (b - 1) = b - 1"
      using assms b by (simp_all add: int32_id)
    moreover have "(- 1) mod b = b - 1"
      using b by (simp add: zmod_minus1)
    ultimately show ?thesis using True b by (simp add: log_mod_def c_rem_def)
  qed
next
  case False
  with assms have "0 \<le> a" by simp
  with assms show ?thesis by (simp add: log_mod_def int32_id)
qed

lemma log_pop_back_spec:
  assumes "log_inv me" and "0 < lg_count me" and "lg_size me \<le> 2 ^ 31"
  obtains pos where "log_last_pos me = Inr pos" and "0 \<le> pos" and "pos < lg_size me"
    and "lg_entries me ! nat pos = last (log_list me)"
    and "log_inv (log_pop_back me pos)" and "log_list (log_pop_back me pos) = butlast (log_list me)"
proof -
  define n where "n = nat (lg_count me) - 1"
  have cnt: "lg_count me = int n + 1" using assms(2) by (simp add: n_def)
  define pos where "pos = (lg_front me + int n) mod lg_size me"
  have sz: "0 < lg_size me" using assms(1) by (simp add: log_inv_def)
  have "(lg_back me - 1) mod lg_size me = pos"
    using assms(1) cnt by (simp add: log_inv_def pos_def mod_simps)
  moreover have "- 1 \<le> lg_back me - 1 \<and> lg_back me - 1 < lg_size me"
    using log_inv_back_range [OF assms(1)] by simp
  ultimately have pos: "log_last_pos me = Inr pos"
    using assms(3) sz by (simp add: log_last_pos_def log_mod_spec)
  have suc: "nat (lg_count me) = Suc n" using cnt by simp
  have npos: "nat pos = (nat (lg_front me) + n) mod length (lg_entries me)"
    using nat_ring_pos [OF assms(1), of "int n"] by (simp add: pos_def)
  have list: "log_list me = ring_slice (lg_entries me) (nat (lg_front me)) n @ [lg_entries me ! nat pos]"
    by (simp add: log_list_def suc ring_slice_Suc npos)
  have "log_list (log_pop_back me pos) = butlast (log_list me)"
    unfolding list by (simp add: log_list_def log_pop_back_def cnt)
  moreover have "log_inv (log_pop_back me pos)"
    using assms(1) cnt by (simp add: log_inv_def log_pop_back_def pos_def)
  ultimately show ?thesis using pos sz list
    by (intro that [of pos]) (auto simp: pos_def)
qed

lemma log_peektail_spec:
  assumes "log_inv me"
  shows "log_peektail me = Inr (if log_list me = [] then None else Some (last (log_list me)))"
proof (cases "lg_count me = 0")
  case True
  then show ?thesis by (simp add: log_peektail_def log_list_def)
next
  case False
  define n where "n = nat (lg_count me) - 1"
  have cnt: "lg_count me = int n + 1" "nat (lg_count me) = Suc n"
    using False assms by (auto simp: n_def log_inv_def)
  have ne: "log_list me \<noteq> []"
  proof
    assume "log_list me = []"
    then have "nat (lg_count me) = 0" using length_log_list [of me] by simp
    with cnt show False by simp
  qed
  define pos where "pos = (lg_front me + int n) mod lg_size me"
  have "last (log_list me) = lg_entries me ! nat pos"
    using ne log_list_nth [OF assms, of n] cnt(2) by (simp add: last_conv_nth pos_def)
  moreover have range: "0 \<le> pos" "pos < lg_size me" using assms by (simp_all add: log_inv_def pos_def)
  moreover have "pos = (if lg_back me = 0 then lg_size me - 1 else lg_back me - 1)"
  proof -
    have "lg_back me = (lg_front me + (int n + 1)) mod lg_size me"
      using assms cnt(1) by (simp add: log_inv_def)
    also have "\<dots> = (pos + 1) mod lg_size me"
      by (simp add: pos_def mod_add_left_eq add.assoc)
    finally show ?thesis using range by (cases "pos + 1 = lg_size me") auto
  qed
  moreover have "arr_get (lg_entries me) pos = Inr (lg_entries me ! nat pos)"
    using range assms by (simp add: log_inv_def)
  ultimately show ?thesis
    using ne False by (auto simp: log_peektail_def split: if_splits)
qed

lemma log_poll_spec:
  assumes "log_inv me" and "0 < lg_count me"
    and "log_poll me cbs u = Inr (0, ety, me', u')"
  shows "log_inv me'" and "log_list me' = tl (log_list me)" and "lg_base me' = lg_base me + 1"
    and "lg_count me' = lg_count me - 1" and "lg_size me' = lg_size me"
    and "lg_cb me' = lg_cb me" and "lg_raft me' = lg_raft me"
    and "\<exists>d. ety = Some ((hd (log_list me))\<lparr>ety_data := d\<rparr>)"
proof -
  define n where "n = nat (lg_count me) - 1"
  have cnt: "lg_count me = int n + 1" "nat (lg_count me) = Suc n" using assms(2) by (auto simp: n_def)
  define f where "f = nat (lg_front me)"
  have f: "f < length (lg_entries me)" "lg_front me = int f"
    using assms(1) by (auto simp: log_inv_def f_def)
  have sz: "lg_size me = int (length (lg_entries me))" using assms(1) by (simp add: log_inv_def)
  have rem: "c_rem (lg_front me + 1) (lg_size me) = Inr ((lg_front me + 1) mod lg_size me)"
    and get: "arr_get (lg_entries me) (lg_front me) = Inr (lg_entries me ! f)"
    using assms(1) by (simp_all add: log_inv_def f_def)
  define es where "es = lg_entries me'"
  note unf = log_poll_def Let_def rem get f_def [symmetric]
  have me': "lg_front me' = (lg_front me + 1) mod lg_size me" "lg_count me' = lg_count me - 1"
      "lg_base me' = lg_base me + 1" "lg_size me' = lg_size me" "lg_cb me' = lg_cb me"
      "lg_raft me' = lg_raft me" "lg_back me' = lg_back me"
    and ety: "ety = Some (es ! f)"
    and es: "es = lg_entries me \<or> (\<exists>d. es = (lg_entries me)[f := (lg_entries me ! f)\<lparr>ety_data := d\<rparr>])"
    using assms(2,3) f(1) by (auto simp: unf es_def split: if_splits option.splits prod.splits)
  have len: "length es = length (lg_entries me)" using es by auto
  have split: "log_list me = lg_entries me ! f # ring_slice (lg_entries me) (Suc f mod length (lg_entries me)) n"
    using f ring_slice_Cons [OF f(1), of n] by (simp add: log_list_def f_def [symmetric] cnt(2))
  have other: "f \<noteq> (Suc f mod length (lg_entries me) + k) mod length (lg_entries me)" if "k < n" for k
  proof -
    have "(f + Suc k) mod length (lg_entries me) \<noteq> (f + 0) mod length (lg_entries me)"
      using that assms(1) cnt by (intro ring_mod_neq) (auto simp: log_inv_def)
    then show ?thesis using f by (simp add: mod_simps eq_commute)
  qed
  have "nat ((lg_front me + 1) mod lg_size me) = Suc f mod length (lg_entries me)"
    using nat_ring_pos [OF assms(1), of 1] by (simp add: f_def)
  then have "log_list me' = ring_slice es (Suc f mod length es) n"
    by (simp add: log_list_def me' len cnt es_def [symmetric])
  also have "\<dots> = ring_slice (lg_entries me) (Suc f mod length (lg_entries me)) n"
    using es other by (intro nth_equalityI) (auto simp: len other)
  finally show "log_list me' = tl (log_list me)" by (simp add: split)
  show "log_inv me'"
    using assms(1) cnt(1) by (auto simp: log_inv_def me' len mod_simps es_def [symmetric] ac_simps)
  show "\<exists>d. ety = Some ((hd (log_list me))\<lparr>ety_data := d\<rparr>)"
    using es f by (auto simp: ety split intro: exI [of _ "ety_data (lg_entries me ! f)"])
  show "lg_base me' = lg_base me + 1" "lg_count me' = lg_count me - 1" "lg_size me' = lg_size me"
    "lg_cb me' = lg_cb me" "lg_raft me' = lg_raft me"
    by (simp_all add: me')
qed

section \<open>Reading\<close>

lemma log_get_at_idx_spec:
  assumes "log_inv me"
  shows "log_get_at_idx me idx = Inr (list_at (lg_base me) (log_list me) idx)"
proof (cases "lg_base me < idx \<and> idx \<le> lg_base me + lg_count me")
  case True
  define k where "k = nat (idx - lg_base me - 1)"
  have k: "k < nat (lg_count me)" "idx = lg_base me + int k + 1" using True by (auto simp: k_def)
  define i where "i = (lg_front me + int k) mod lg_size me"
  have pos: "lg_front me + (idx - 1) - lg_base me = lg_front me + int k" using k by simp
  have rem: "c_rem (lg_front me + (idx - 1) - lg_base me) (lg_size me) = Inr i"
    unfolding pos i_def using assms by (intro c_rem_nonneg) (auto simp: log_inv_def)
  have "0 \<le> i" "i < int (length (lg_entries me))"
    using assms by (auto simp: log_inv_def i_def)
  then have get: "arr_get (lg_entries me) i = Inr (log_list me ! k)"
    by (simp add: log_list_nth [OF assms k(1)] i_def)
  have "log_get_at_idx me idx = Inr (Some (log_list me ! k))"
    using True assms by (simp add: log_get_at_idx_def rem get log_inv_def)
  moreover have "list_at (lg_base me) (log_list me) idx = Some (log_list me ! k)"
    using True by (simp add: list_at_def k_def)
  ultimately show ?thesis by simp
next
  case False
  then show ?thesis
    using assms by (auto simp: log_get_at_idx_def list_at_def log_inv_def)
qed

text \<open>
  \<^verbatim>\<open>log_get_from_idx\<close> returns a contiguous piece of the array: a non-empty prefix of the entries
  from \<open>idx\<close> on, not necessarily all of them (the ring may wrap).
\<close>

lemma log_get_from_idx_spec:
  assumes inv: "log_inv me" and "1 \<le> idx" and small: "lg_size me < 2 ^ 31"
  shows "log_get_from_idx me idx =
           Inr (None, 0) \<and> list_at (lg_base me) (log_list me) idx = None \<or>
         (\<exists>n. log_get_from_idx me idx =
            Inr (Some (take n (drop (nat (idx - lg_base me - 1)) (log_list me))), int n) \<and>
          0 < n \<and> n \<le> nat (lg_base me + lg_count me - idx + 1) \<and>
          list_at (lg_base me) (log_list me) idx \<noteq> None)"
proof (cases "lg_base me < idx \<and> idx \<le> lg_base me + lg_count me")
  case True
  define k where "k = nat (idx - lg_base me - 1)"
  have k: "k < nat (lg_count me)" "idx = lg_base me + int k + 1" using True by (auto simp: k_def)
  define i where "i = (lg_front me + int k) mod lg_size me"
  have i: "0 \<le> i" "i < lg_size me" using inv by (auto simp: i_def log_inv_def)
  define m where "m = (if i < lg_back me then lg_back me - i else lg_size me - i)"
  have bpos: "lg_back me = (i + (lg_count me - int k)) mod lg_size me"
  proof -
    have "(i + (lg_count me - int k)) mod lg_size me = (lg_front me + int k + (lg_count me - int k)) mod lg_size me"
      by (simp only: i_def mod_add_left_eq)
    with inv show ?thesis by (simp add: log_inv_def)
  qed
  have bk: "0 \<le> lg_back me" "lg_back me < lg_size me" using log_inv_back_range [OF inv] by auto
  have left: "0 < lg_count me - int k" "lg_count me - int k \<le> lg_size me"
    using k inv by (auto simp: log_inv_def)
  have m: "0 < m" "m \<le> lg_count me - int k" "i + m \<le> lg_size me"
  proof -
    show "0 < m" using i by (simp add: m_def)
    show "i + m \<le> lg_size me" using bk by (simp add: m_def)
    show "m \<le> lg_count me - int k"
    proof (cases "i + (lg_count me - int k) < lg_size me")
      case True
      then have "lg_back me = i + (lg_count me - int k)" using bpos i left by simp
      then show ?thesis using left by (simp add: m_def)
    next
      case False
      then have "lg_back me = i + (lg_count me - int k) - lg_size me"
        using bpos i left
          mod_pos_pos_trivial [of "i + (lg_count me - int k) - lg_size me" "lg_size me"]
          minus_mod_self2 [of "i + (lg_count me - int k)" "lg_size me"] by linarith
      then show ?thesis using False left by (simp add: m_def)
    qed
  qed
  have "take (nat m) (drop (nat i) (lg_entries me)) = take (nat m) (drop k (log_list me))"
  proof (rule nth_equalityI)
    show len: "length (take (nat m) (drop (nat i) (lg_entries me))) =
        length (take (nat m) (drop k (log_list me)))"
      using m i inv k by (auto simp: log_inv_def)
    fix j assume "j < length (take (nat m) (drop (nat i) (lg_entries me)))"
    then have j: "j < nat m" "nat i + j < length (lg_entries me)" by auto
    have "log_list me ! (k + j) = lg_entries me ! nat ((lg_front me + int (k + j)) mod lg_size me)"
      using m j by (intro log_list_nth [OF inv]) auto
    also have "(lg_front me + int (k + j)) mod lg_size me = (i + int j) mod lg_size me"
      by (simp add: i_def mod_add_left_eq add.assoc)
    also have "\<dots> = i + int j" using i j m by simp
    finally show "take (nat m) (drop (nat i) (lg_entries me)) ! j = take (nat m) (drop k (log_list me)) ! j"
      using i j k m by (simp add: nat_add_distrib)
  qed
  moreover have "log_get_from_idx me idx = Inr (Some (take (nat m) (drop (nat i) (lg_entries me))), m)"
  proof -
    have pos: "lg_front me + (idx - 1) - lg_base me = lg_front me + int k" using k by simp
    have rem: "c_rem (lg_front me + (idx - 1) - lg_base me) (lg_size me) = Inr i"
      unfolding pos i_def using inv by (intro c_rem_nonneg) (auto simp: log_inv_def)
    have "int32 m = m" using m small left i by (intro int32_id) auto
    then have "int32 (if i < lg_back me then lg_back me - i else lg_size me - i) = m"
      by (simp only: m_def)
    then show ?thesis
      using True assms(2) by (simp add: log_get_from_idx_def rem Let_def del: if_split)
  qed
  moreover have "nat (idx - lg_base me - 1) = k" by (simp add: k_def)
  moreover have "list_at (lg_base me) (log_list me) idx \<noteq> None"
    using True by (simp add: list_at_def)
  moreover have "0 < nat m" "int (nat m) = m" "nat m \<le> nat (lg_base me + lg_count me - idx + 1)"
    using m(1,2) k(2) by auto
  ultimately show ?thesis by (intro disjI2 exI [of _ "nat m"]) simp
next
  case False
  then show ?thesis using assms by (auto simp: log_get_from_idx_def list_at_def)
qed

section \<open>Clearing and reloading\<close>

text \<open>What \<^verbatim>\<open>log_clear_entries\<close> hands to the callback, as the callback would record it.\<close>

lemma log_clear_loop_visits:
  assumes "log_inv me" and "lg_base me \<le> i"
  shows "log_clear_loop me (\<lambda>u e i. u @ [(i, e)]) n i u =
    Inr (u @ map (\<lambda>k. (i + int k, lg_entries me ! nat ((lg_front me + i - lg_base me + int k) mod lg_size me))) [0..<n])"
  using assms(2)
proof (induction n arbitrary: i u)
  case 0
  then show ?case by simp
next
  case (Suc n)
  define j where "j = (lg_front me + i - lg_base me) mod lg_size me"
  have "0 \<le> j" "j < int (length (lg_entries me))" using assms(1) by (auto simp: j_def log_inv_def)
  moreover have "c_rem (lg_front me + i - lg_base me) (lg_size me) = Inr j"
    unfolding j_def using assms(1) Suc.prems by (intro c_rem_nonneg) (auto simp: log_inv_def)
  ultimately have "log_clear_loop me (\<lambda>u e i. u @ [(i, e)]) (Suc n) i u =
      log_clear_loop me (\<lambda>u e i. u @ [(i, e)]) n (i + 1) (u @ [(i, lg_entries me ! nat j)])"
    by simp
  also have "\<dots> = Inr ((u @ [(i, lg_entries me ! nat j)]) @ map (\<lambda>k. (i + 1 + int k,
      lg_entries me ! nat ((lg_front me + (i + 1) - lg_base me + int k) mod lg_size me))) [0..<n])"
    using Suc.prems by (intro Suc.IH) simp
  also have "\<dots> = Inr (u @ map (\<lambda>k. (i + int k,
      lg_entries me ! nat ((lg_front me + i - lg_base me + int k) mod lg_size me))) [0..<Suc n])"
    by (simp add: map_Suc_upt [symmetric] upt_conv_Cons j_def o_def algebra_simps del: upt_Suc)
  finally show ?case .
qed

lemma log_clear_loop_total:
  assumes "log_inv me" and "lg_base me \<le> i"
  shows "\<exists>u'. log_clear_loop me f n i u = Inr u'"
  using assms(2)
proof (induction n arbitrary: i u)
  case 0
  then show ?case by simp
next
  case (Suc n)
  define j where "j = (lg_front me + i - lg_base me) mod lg_size me"
  have "0 \<le> j" "j < int (length (lg_entries me))" using assms(1) by (auto simp: j_def log_inv_def)
  moreover have "c_rem (lg_front me + i - lg_base me) (lg_size me) = Inr j"
    unfolding j_def using assms(1) Suc.prems by (intro c_rem_nonneg) (auto simp: log_inv_def)
  ultimately show ?case using Suc by simp
qed

lemma log_clear_entries_total: "log_inv me \<Longrightarrow> \<exists>u'. log_clear_entries me cbs u = Inr u'"
  by (auto simp: log_clear_entries_def log_clear_loop_total split: option.splits)

lemma log_load_from_snapshot_spec:
  assumes "log_inv me" and "0 \<le> idx"
  obtains me' u' where "log_load_from_snapshot me idx trm cbs u = Inr (0, me', u')"
    and "log_inv me'" and "log_list me' = []" and "lg_base me' = idx"
    and "lg_cb me' = lg_cb me" and "lg_raft me' = lg_raft me" and "lg_size me' = lg_size me"
proof -
  obtain u' where "log_clear_entries me cbs u = Inr u'"
    using log_clear_entries_total [OF assms(1), of cbs u] by blast
  then show ?thesis
    using assms log_clear_inv [OF assms(1)]
    by (intro that [of "(log_clear me)\<lparr>lg_base := idx\<rparr>" u'])
      (auto simp: log_load_from_snapshot_def log_inv_def log_list_def log_clear_def)
qed

section \<open>The contract of the log\<close>

text \<open>
  What a client of the log may rely on: the log is a list of entries behind a base index, an
  entry keeps its index while younger entries come and go and while older entries are
  compacted away.
\<close>

locale indexed_log =
  fixes inv :: "'l \<Rightarrow> bool"
    and contents :: "'l \<Rightarrow> 'e list"
    and base :: "'l \<Rightarrow> int"
    and lookup :: "'l \<Rightarrow> int \<Rightarrow> fault + 'e option"
    and room :: "'l \<Rightarrow> bool"
    and push :: "'l \<Rightarrow> 'e \<Rightarrow> fault + 'l"
    and small :: "'l \<Rightarrow> bool"
    and pop :: "'l \<Rightarrow> fault + 'l"
    and shift :: "'l \<Rightarrow> fault + 'l"
  assumes lookup_law: "inv l \<Longrightarrow> lookup l i =
      Inr (if base l < i \<and> i \<le> base l + int (length (contents l))
           then Some (contents l ! nat (i - base l - 1)) else None)"
    and push_law: "inv l \<Longrightarrow> room l \<Longrightarrow>
      rsafe (push l e) (\<lambda>l'. inv l' \<and> contents l' = contents l @ [e] \<and> base l' = base l)"
    and pop_law: "inv l \<Longrightarrow> small l \<Longrightarrow> contents l \<noteq> [] \<Longrightarrow>
      rsafe (pop l) (\<lambda>l'. inv l' \<and> small l' \<and> contents l' = butlast (contents l) \<and> base l' = base l)"
    and shift_law: "inv l \<Longrightarrow> contents l \<noteq> [] \<Longrightarrow>
      rsafe (shift l) (\<lambda>l'. inv l' \<and> contents l' = tl (contents l) \<and> base l' = base l + 1)"
begin

definition last_index :: "'l \<Rightarrow> int" where
  "last_index l = base l + int (length (contents l))"

lemma lookup_push_new: "inv l \<Longrightarrow> room l \<Longrightarrow> push l e = Inr l' \<Longrightarrow> lookup l' (last_index l + 1) = Inr (Some e)"
  using push_law [of l e] by (auto simp: rsafe_iff lookup_law last_index_def nth_append)

lemma lookup_push_old:
  "inv l \<Longrightarrow> room l \<Longrightarrow> push l e = Inr l' \<Longrightarrow> i \<le> last_index l \<Longrightarrow> lookup l' i = lookup l i"
  using push_law [of l e] by (auto simp: rsafe_iff lookup_law last_index_def nth_append)

lemma pop_push:
  assumes "inv l" "room l" "push l e = Inr l'" "small l'"
  shows "rsafe (pop l') (\<lambda>l''. contents l'' = contents l \<and> base l'' = base l)"
proof -
  have l': "inv l'" "contents l' = contents l @ [e]" "base l' = base l"
    using push_law [OF assms(1,2), of e] assms(3) by simp_all
  show ?thesis
    using pop_law [OF l'(1) assms(4)] by (rule rsafe_mono) (simp_all add: l')
qed

lemma lookup_pop_below:
  assumes "inv l" "small l" "pop l = Inr l'" "contents l \<noteq> []" "i < last_index l"
  shows "lookup l' i = lookup l i"
proof -
  have "inv l'" "contents l' = butlast (contents l)" "base l' = base l"
    using pop_law [OF assms(1,2,4)] assms(3) by auto
  with assms show ?thesis by (auto simp: lookup_law last_index_def nth_butlast)
qed

lemma lookup_shift:
  assumes "inv l" "contents l \<noteq> []" "shift l = Inr l'" "base l + 1 < i"
  shows "lookup l' i = lookup l i" and "last_index l' = last_index l"
proof -
  have l': "inv l'" "contents l' = tl (contents l)" "base l' = base l + 1"
    using shift_law [OF assms(1,2)] assms(3) by auto
  have "contents l ! nat (i - base l - 1) = tl (contents l) ! nat (i - (base l + 1) - 1)"
    if "i \<le> base l + int (length (contents l))"
  proof -
    have "nat (i - base l - 1) = Suc (nat (i - (base l + 1) - 1))" using assms(4) by simp
    then show ?thesis using assms(2) by (cases "contents l") simp_all
  qed
  with l' assms show "lookup l' i = lookup l i" by (auto simp: lookup_law)
  show "last_index l' = last_index l"
    using assms(2) by (cases "contents l") (simp_all add: last_index_def l')
qed

end

definition ring_push :: "raft_log \<Rightarrow> raft_entry \<Rightarrow> fault + raft_log" where
  "ring_push me ety = rbind (log_write_back me ety) log_bump"

definition ring_pop :: "raft_log \<Rightarrow> fault + raft_log" where
  "ring_pop me = rbind (log_last_pos me) (\<lambda>pos. Inr (log_pop_back me pos))"

definition ring_shift :: "raft_log \<Rightarrow> fault + raft_log" where
  "ring_shift me = rbind (log_poll me (no_cbs :: unit raft_cbs) ()) (\<lambda>(_, _, me', _). Inr me')"

lemma ring_push_spec:
  assumes "log_inv me" and "lg_count me < lg_size me"
  shows "rsafe (ring_push me e)
    (\<lambda>me'. log_inv me' \<and> log_list me' = log_list me @ [e] \<and> lg_base me' = lg_base me)"
proof -
  define w where "w = me\<lparr>lg_entries := (lg_entries me)[nat (lg_back me) := e]\<rparr>"
  have w: "log_inv w" "lg_count w < lg_size w" "log_list w = log_list me" "lg_base w = lg_base me"
    using assms log_inv_set_cell log_list_set_back by (auto simp: w_def)
  have "lg_entries w ! nat (lg_back w) = e"
    using nat_back_less [OF assms(1)] by (simp add: w_def)
  with log_bump_spec [OF w(1,2)] obtain me' where "log_bump w = Inr me'" "log_inv me'"
    "log_list me' = log_list me @ [e]" "lg_base me' = lg_base me"
    using w(3,4) by metis
  then show ?thesis by (simp add: ring_push_def log_write_back_spec [OF assms(1)] w_def)
qed

lemma ring_pop_spec:
  assumes "log_inv me" and "lg_size me \<le> 2 ^ 31" and "log_list me \<noteq> []"
  shows "rsafe (ring_pop me) (\<lambda>me'. log_inv me' \<and> lg_size me' \<le> 2 ^ 31 \<and>
    log_list me' = butlast (log_list me) \<and> lg_base me' = lg_base me)"
proof -
  have "0 < lg_count me" using assms(1,3) log_list_eq_Nil [of me] by (simp add: log_inv_def)
  with assms obtain pos where "log_last_pos me = Inr pos" "log_inv (log_pop_back me pos)"
      "log_list (log_pop_back me pos) = butlast (log_list me)"
    by (auto elim: log_pop_back_spec)
  with assms(2) show ?thesis by (simp add: ring_pop_def log_pop_back_def)
qed

lemma ring_shift_spec:
  assumes "log_inv me" and "log_list me \<noteq> []"
  shows "rsafe (ring_shift me) (\<lambda>me'. log_inv me' \<and> log_list me' = tl (log_list me) \<and>
    lg_base me' = lg_base me + 1)"
proof -
  have cnt: "0 < lg_count me" using assms log_list_eq_Nil [of me] by (simp add: log_inv_def)
  obtain ety me' u where poll: "log_poll me (no_cbs :: unit raft_cbs) () = Inr (0, ety, me', u)"
    using assms(1) cnt by (auto simp: log_poll_def Let_def no_cbs_def log_inv_def)
  then show ?thesis
    using log_poll_spec [OF assms(1) cnt poll] by (simp add: ring_shift_def)
qed

interpretation rl: indexed_log log_inv log_list lg_base log_get_at_idx
    "\<lambda>me. lg_count me < lg_size me" ring_push "\<lambda>me. lg_size me \<le> 2 ^ 31" ring_pop ring_shift
proof unfold_locales
  fix l i assume "log_inv l"
  then show "log_get_at_idx l i = Inr (if lg_base l < i \<and> i \<le> lg_base l + int (length (log_list l))
      then Some (log_list l ! nat (i - lg_base l - 1)) else None)"
    by (simp add: log_get_at_idx_spec list_at_def)
qed (use ring_push_spec ring_pop_spec ring_shift_spec in auto)

end
