(* ===== verification/Raft_State.thy ===== *)
theory Raft_State
  imports Raft_Node Raft_Log
begin

unbundle bit_operations_syntax

text \<open>
  The server's state (\<^verbatim>\<open>raft_server_private_t\<close>, \<^verbatim>\<open>include/raft_private.h\<close>) and its accessors
  (\<^verbatim>\<open>raft/raft_server_properties.c\<close>). Peers live in a heap of node objects, and the server holds
  pointers into it: the array \<open>nodes\<close>, its own node \<open>me_node\<close> and \<open>current_leader\<close>. A pointer
  is an \<open>option\<close> (\<open>None\<close> is \<^verbatim>\<open>NULL\<close>), a freed object is absent from the heap, and a read through
  a null or dangling pointer is a fault. Addresses are never reused.
\<close>

section \<open>The state\<close>

text \<open>
  The array \<^verbatim>\<open>nodes\<close> is split at \<^verbatim>\<open>num_nodes\<close>: \<open>nodes\<close> holds the elements in use, \<open>nodes_stale\<close>
  what is left in the allocated array behind them.
\<close>

record 'u raft_server = process +
  heap :: "node_ref \<rightharpoonup> raft_node"
  next_ref :: node_ref
  current_term :: int
  voted_for :: int
  log :: raft_log
  commit_idx :: int
  last_applied_idx :: int
  state :: raft_state_e
  timeout_elapsed :: int
  nodes :: "node_ref list"
  nodes_stale :: "node_ref list"
  election_timeout :: int
  election_timeout_rand :: int
  request_timeout :: int
  current_leader :: "node_ref option"
  cb :: "'u raft_cbs"
  udata :: 'u
  me_node :: "node_ref option"
  voting_cfg_change_log_idx :: int
  connected :: raft_node_status
  snapshot_in_progress :: bool
  snapshot_flags :: "32 word"
  snapshot_last_idx :: int
  snapshot_last_term :: int
  saved_snapshot_last_idx :: int
  saved_snapshot_last_term :: int

section \<open>Node objects\<close>

definition deref :: "'u raft_server \<Rightarrow> node_ref option \<Rightarrow> fault + raft_node" where
  "deref s p =
     (case p of
        None \<Rightarrow> Inl Null_dereference
      | Some r \<Rightarrow> (case heap s r of None \<Rightarrow> Inl Use_after_free | Some n \<Rightarrow> Inr n))"

definition put_node :: "'u raft_server \<Rightarrow> node_ref \<Rightarrow> raft_node \<Rightarrow> 'u raft_server" where
  "put_node s r n = s\<lparr>heap := (heap s)(r \<mapsto> n)\<rparr>"

text \<open>A call \<^verbatim>\<open>raft_node_set_...(node, ...)\<close>: read the object, store the changed one.\<close>

definition mod_node ::
  "'u raft_server \<Rightarrow> node_ref option \<Rightarrow> (raft_node \<Rightarrow> raft_node) \<Rightarrow> fault + 'u raft_server" where
  "mod_node s p f = rbind (deref s p) (\<lambda>n. Inr (put_node s (the p) (f n)))"

section \<open>Accessors\<close>

text \<open>\<^verbatim>\<open>[election_timeout, 2 * election_timeout)\<close>; the remainder faults for a zero timeout.\<close>

definition raft_randomize_election_timeout :: "'u raft_server \<Rightarrow> fault + 'u raft_server" where
  "raft_randomize_election_timeout s =
     (case c_rand s of (x, s1) \<Rightarrow>
      rbind (c_rem x (election_timeout s1)) (\<lambda>m.
      Inr (s1\<lparr>election_timeout_rand := int32 (election_timeout s1 + m)\<rparr>)))"

definition raft_set_election_timeout :: "'u raft_server \<Rightarrow> int \<Rightarrow> fault + 'u raft_server" where
  "raft_set_election_timeout s millisec =
     raft_randomize_election_timeout (s\<lparr>election_timeout := millisec\<rparr>)"

definition raft_set_request_timeout :: "'u raft_server \<Rightarrow> int \<Rightarrow> 'u raft_server" where
  "raft_set_request_timeout s millisec = s\<lparr>request_timeout := millisec\<rparr>"

definition raft_get_nodeid :: "'u raft_server \<Rightarrow> fault + int" where
  "raft_get_nodeid s =
     (if me_node s = None then Inr (-1)
      else rbind (deref s (me_node s)) (\<lambda>n. Inr (raft_node_get_id n)))"

definition raft_get_election_timeout :: "'u raft_server \<Rightarrow> int" where
  [simp]: "raft_get_election_timeout s = election_timeout s"

definition raft_get_request_timeout :: "'u raft_server \<Rightarrow> int" where
  [simp]: "raft_get_request_timeout s = request_timeout s"

definition raft_get_num_nodes :: "'u raft_server \<Rightarrow> int" where
  [simp]: "raft_get_num_nodes s = int (length (nodes s))"

primrec num_voting_loop :: "'u raft_server \<Rightarrow> node_ref list \<Rightarrow> int \<Rightarrow> fault + int" where
  "num_voting_loop s [] num = Inr num"
| "num_voting_loop s (r # rs) num =
     rbind (deref s (Some r)) (\<lambda>n.
     num_voting_loop s rs (if raft_node_is_active n \<and> raft_node_is_voting n then num + 1 else num))"

definition raft_get_num_voting_nodes :: "'u raft_server \<Rightarrow> fault + int" where
  "raft_get_num_voting_nodes s = num_voting_loop s (nodes s) 0"

definition raft_get_timeout_elapsed :: "'u raft_server \<Rightarrow> int" where
  [simp]: "raft_get_timeout_elapsed s = timeout_elapsed s"

definition raft_get_log_count :: "'u raft_server \<Rightarrow> int" where
  [simp]: "raft_get_log_count s = log_count (log s)"

definition raft_get_voted_for :: "'u raft_server \<Rightarrow> int" where
  [simp]: "raft_get_voted_for s = voted_for s"

definition raft_set_current_term :: "'u raft_server \<Rightarrow> int \<Rightarrow> int \<times> 'u raft_server" where
  "raft_set_current_term s trm =
     (if current_term s < trm then
        let voted = -1;
            (e, s1) = (case persist_term (cb s) of
                         None \<Rightarrow> (0, s)
                       | Some f \<Rightarrow> (case f (udata s) trm voted of (e, u) \<Rightarrow> (e, s\<lparr>udata := u\<rparr>)))
        in if e \<noteq> 0 then (e, s1)
           else (0, s1\<lparr>current_term := trm, voted_for := voted\<rparr>)
      else (0, s))"

definition raft_get_current_term :: "'u raft_server \<Rightarrow> int" where
  [simp]: "raft_get_current_term s = current_term s"

definition raft_get_current_idx :: "'u raft_server \<Rightarrow> int" where
  "raft_get_current_idx s = log_get_current_idx (log s)"

definition raft_set_commit_idx :: "'u raft_server \<Rightarrow> int \<Rightarrow> fault + 'u raft_server" where
  "raft_set_commit_idx s idx =
     rbind (rassert (commit_idx s \<le> idx)) (\<lambda>_.
     rbind (rassert (idx \<le> raft_get_current_idx s)) (\<lambda>_.
     Inr (s\<lparr>commit_idx := idx\<rparr>)))"

definition raft_set_last_applied_idx :: "'u raft_server \<Rightarrow> int \<Rightarrow> 'u raft_server" where
  "raft_set_last_applied_idx s idx = s\<lparr>last_applied_idx := idx\<rparr>"

definition raft_get_last_applied_idx :: "'u raft_server \<Rightarrow> int" where
  [simp]: "raft_get_last_applied_idx s = last_applied_idx s"

definition raft_get_commit_idx :: "'u raft_server \<Rightarrow> int" where
  [simp]: "raft_get_commit_idx s = commit_idx s"

definition raft_set_state :: "'u raft_server \<Rightarrow> raft_state_e \<Rightarrow> 'u raft_server" where
  "raft_set_state s st =
     (let s1 = (if st = RAFT_STATE_LEADER then s\<lparr>current_leader := me_node s\<rparr> else s)
      in s1\<lparr>state := st\<rparr>)"

definition raft_get_state :: "'u raft_server \<Rightarrow> raft_state_e" where
  [simp]: "raft_get_state s = state s"

primrec get_node_loop :: "'u raft_server \<Rightarrow> int \<Rightarrow> node_ref list \<Rightarrow> fault + node_ref option" where
  "get_node_loop s nodeid [] = Inr None"
| "get_node_loop s nodeid (r # rs) =
     rbind (deref s (Some r)) (\<lambda>n.
     if nodeid = raft_node_get_id n then Inr (Some r) else get_node_loop s nodeid rs)"

definition raft_get_node :: "'u raft_server \<Rightarrow> int \<Rightarrow> fault + node_ref option" where
  "raft_get_node s nodeid = get_node_loop s nodeid (nodes s)"

primrec get_my_node_loop :: "'u raft_server \<Rightarrow> node_ref list \<Rightarrow> fault + node_ref option" where
  "get_my_node_loop s [] = Inr None"
| "get_my_node_loop s (r # rs) =
     rbind (raft_get_nodeid s) (\<lambda>a.
     rbind (deref s (Some r)) (\<lambda>n.
     if a = raft_node_get_id n then Inr (Some r) else get_my_node_loop s rs))"

definition raft_get_my_node :: "'u raft_server \<Rightarrow> fault + node_ref option" where
  "raft_get_my_node s = get_my_node_loop s (nodes s)"

definition raft_get_node_from_idx :: "'u raft_server \<Rightarrow> int \<Rightarrow> fault + node_ref" where
  "raft_get_node_from_idx s idx = arr_get (nodes s @ nodes_stale s) idx"

definition raft_get_current_leader :: "'u raft_server \<Rightarrow> fault + int" where
  "raft_get_current_leader s =
     (if current_leader s \<noteq> None
      then rbind (deref s (current_leader s)) (\<lambda>n. Inr (raft_node_get_id n))
      else Inr (-1))"

definition raft_get_current_leader_node :: "'u raft_server \<Rightarrow> node_ref option" where
  "raft_get_current_leader_node s = current_leader s"

definition raft_get_udata :: "'u raft_server \<Rightarrow> 'u" where
  [simp]: "raft_get_udata s = udata s"

definition raft_is_follower :: "'u raft_server \<Rightarrow> bool" where
  [simp]: "raft_is_follower s \<longleftrightarrow> raft_get_state s = RAFT_STATE_FOLLOWER"

definition raft_is_leader :: "'u raft_server \<Rightarrow> bool" where
  [simp]: "raft_is_leader s \<longleftrightarrow> raft_get_state s = RAFT_STATE_LEADER"

definition raft_is_candidate :: "'u raft_server \<Rightarrow> bool" where
  [simp]: "raft_is_candidate s \<longleftrightarrow> raft_get_state s = RAFT_STATE_CANDIDATE"

definition raft_get_entry_from_idx :: "'u raft_server \<Rightarrow> int \<Rightarrow> fault + raft_entry option" where
  "raft_get_entry_from_idx s etyidx = log_get_at_idx (log s) etyidx"

definition raft_get_last_log_term :: "'u raft_server \<Rightarrow> fault + int" where
  "raft_get_last_log_term s =
     (let current_idx = raft_get_current_idx s in
      if 0 < current_idx then
        rbind (raft_get_entry_from_idx s current_idx) (\<lambda>ety.
        case ety of Some e \<Rightarrow> Inr (ety_term e) | None \<Rightarrow> Inr 0)
      else Inr 0)"

definition raft_is_connected :: "'u raft_server \<Rightarrow> raft_node_status" where
  "raft_is_connected s = connected s"

definition raft_snapshot_is_in_progress :: "'u raft_server \<Rightarrow> bool" where
  [simp]: "raft_snapshot_is_in_progress s = snapshot_in_progress s"

definition raft_is_apply_allowed :: "'u raft_server \<Rightarrow> bool" where
  "raft_is_apply_allowed s \<longleftrightarrow>
     \<not> raft_snapshot_is_in_progress s \<or>
     snapshot_flags s AND RAFT_SNAPSHOT_NONBLOCKING_APPLY \<noteq> 0"

definition raft_get_last_applied_entry :: "'u raft_server \<Rightarrow> fault + raft_entry option" where
  "raft_get_last_applied_entry s =
     (if raft_get_last_applied_idx s = 0 then Inr None
      else log_get_at_idx (log s) (raft_get_last_applied_idx s))"

definition raft_get_snapshot_last_idx :: "'u raft_server \<Rightarrow> int" where
  [simp]: "raft_get_snapshot_last_idx s = snapshot_last_idx s"

definition raft_get_snapshot_last_term :: "'u raft_server \<Rightarrow> int" where
  [simp]: "raft_get_snapshot_last_term s = snapshot_last_term s"

definition raft_set_snapshot_metadata :: "'u raft_server \<Rightarrow> int \<Rightarrow> int \<Rightarrow> 'u raft_server" where
  "raft_set_snapshot_metadata s trm idx =
     s\<lparr>saved_snapshot_last_term := snapshot_last_term s,
       saved_snapshot_last_idx := snapshot_last_idx s,
       snapshot_last_term := trm,
       snapshot_last_idx := idx\<rparr>"

section \<open>Well-formed membership\<close>

text \<open>
  The nodes of the array are allocated and pairwise different objects with different ids, the
  server's own node is one of them, and the allocator's next address is fresh. A freed
  \<open>current_leader\<close> is allowed: the code compares that pointer but reads through it only in
  \<^verbatim>\<open>raft_get_current_leader\<close>.
\<close>

definition nodes_inv :: "'u raft_server \<Rightarrow> bool" where
  "nodes_inv s \<longleftrightarrow>
     (\<forall>r \<in> set (nodes s). heap s r \<noteq> None) \<and>
     distinct (nodes s) \<and>
     distinct (map (\<lambda>r. node_id (the (heap s r))) (nodes s)) \<and>
     (\<forall>r. me_node s = Some r \<longrightarrow> r \<in> set (nodes s)) \<and>
     (\<forall>r. next_ref s \<le> r \<longrightarrow> heap s r = None)"

abbreviation node_of :: "'u raft_server \<Rightarrow> node_ref \<Rightarrow> raft_node" where
  "node_of s r \<equiv> the (heap s r)"

text \<open>The nodes that count in a majority.\<close>

definition is_voter :: "'u raft_server \<Rightarrow> node_ref \<Rightarrow> bool" where
  "is_voter s r \<longleftrightarrow> raft_node_is_active (node_of s r) \<and> raft_node_is_voting (node_of s r)"

definition voters :: "'u raft_server \<Rightarrow> node_ref list" where
  "voters s = filter (is_voter s) (nodes s)"

section \<open>Reading nodes that are allocated\<close>

lemma deref_live [simp]: "heap s r = Some n \<Longrightarrow> deref s (Some r) = Inr n"
  by (simp add: deref_def)

lemma deref_eq_Inr: "deref s p = Inr n \<longleftrightarrow> (\<exists>r. p = Some r \<and> heap s r = Some n)"
  by (auto simp: deref_def split: option.splits)

lemma deref_node: "nodes_inv s \<Longrightarrow> r \<in> set (nodes s) \<Longrightarrow> deref s (Some r) = Inr (node_of s r)"
  by (auto simp: nodes_inv_def deref_def)

lemma mod_node_eq_Inr:
  "mod_node s p f = Inr s' \<longleftrightarrow> (\<exists>r n. p = Some r \<and> heap s r = Some n \<and> s' = put_node s r (f n))"
  by (auto simp: mod_node_def rbind_eq_Inr deref_eq_Inr)

lemma mod_node_live [simp]: "heap s r = Some n \<Longrightarrow> mod_node s (Some r) f = Inr (put_node s r (f n))"
  by (simp add: mod_node_def)

lemma num_voting_loop_spec:
  "\<forall>r \<in> set rs. heap s r \<noteq> None \<Longrightarrow>
   num_voting_loop s rs k = Inr (k + int (length (filter (is_voter s) rs)))"
  by (induction rs arbitrary: k) (auto simp: is_voter_def)

lemma raft_get_num_voting_nodes_spec:
  "nodes_inv s \<Longrightarrow> raft_get_num_voting_nodes s = Inr (int (length (voters s)))"
  by (simp add: raft_get_num_voting_nodes_def num_voting_loop_spec nodes_inv_def voters_def)

lemma get_node_loop_spec:
  "\<forall>r \<in> set rs. heap s r \<noteq> None \<Longrightarrow>
   get_node_loop s i rs = Inr (find (\<lambda>r. node_id (node_of s r) = i) rs)"
  by (induction rs) (auto simp: raft_node_get_id_def)

lemma raft_get_node_spec:
  "nodes_inv s \<Longrightarrow> raft_get_node s i = Inr (find (\<lambda>r. node_id (node_of s r) = i) (nodes s))"
  by (simp add: raft_get_node_def get_node_loop_spec nodes_inv_def)

lemma raft_get_nodeid_spec:
  assumes "nodes_inv s"
  shows "raft_get_nodeid s = Inr (case me_node s of None \<Rightarrow> -1 | Some r \<Rightarrow> node_id (node_of s r))"
proof (cases "me_node s")
  case (Some r)
  with assms have "r \<in> set (nodes s)" by (simp add: nodes_inv_def)
  with Some show ?thesis
    by (simp add: raft_get_nodeid_def deref_node [OF assms] raft_node_get_id_def)
qed (simp add: raft_get_nodeid_def)

lemma get_my_node_loop_eq:
  "raft_get_nodeid s = Inr i \<Longrightarrow> get_my_node_loop s rs = get_node_loop s i rs"
  by (induction rs) (simp_all cong: if_cong)

text \<open>The search for the own node finds exactly the object the server points to.\<close>

lemma raft_get_my_node_spec:
  assumes "nodes_inv s" and "me_node s = Some r"
  shows "raft_get_my_node s = Inr (Some r)"
proof -
  have "raft_get_nodeid s = Inr (node_id (node_of s r))"
    using assms by (simp add: raft_get_nodeid_spec)
  then have "raft_get_my_node s = Inr (find (\<lambda>q. node_id (node_of s q) = node_id (node_of s r)) (nodes s))"
    using assms(1) by (simp add: raft_get_my_node_def get_my_node_loop_eq raft_get_node_def [symmetric]
        raft_get_node_spec)
  moreover have "find (\<lambda>q. node_id (node_of s q) = node_id (node_of s r)) (nodes s) = Some r"
    using assms by (intro find_distinct_map) (auto simp: nodes_inv_def)
  ultimately show ?thesis by simp
qed

end
