(* ===== verification/Raft_Membership.thy ===== *)
theory Raft_Membership
  imports Raft_State
begin

text \<open>
  Membership of the cluster: adding and removing peers, and the hooks \<^verbatim>\<open>raft_offer_log\<close> and
  \<^verbatim>\<open>raft_pop_log\<close> that apply or revert a configuration entry as it enters or leaves the log
  (\<^verbatim>\<open>raft/raft_server.c\<close>). The lemmas show that the hooks touch the membership and the user's
  state only, and that adding a node keeps the array of nodes well formed.
\<close>

section \<open>Operations\<close>

definition raft_node_new :: "'u raft_server \<Rightarrow> voidp \<Rightarrow> int \<Rightarrow> node_ref option \<times> 'u raft_server" where
  "raft_node_new s ud nid =
     (case raft_alloc s of (ok, s1) \<Rightarrow>
      if \<not> ok then (None, s1)
      else (Some (next_ref s1),
            (put_node s1 (next_ref s1) (raft_node_init ud nid))\<lparr>next_ref := next_ref s1 + 1\<rparr>))"

definition raft_node_free :: "'u raft_server \<Rightarrow> node_ref \<Rightarrow> 'u raft_server" where
  "raft_node_free s r = s\<lparr>heap := (heap s)(r := None)\<rparr>"

text \<open>\<^verbatim>\<open>me->cb.notify_membership_event\<close>, if registered; the node may be null or dangling.\<close>

definition notify_membership ::
  "'u raft_server \<Rightarrow> node_ref option \<Rightarrow> raft_entry option \<Rightarrow> raft_membership_e \<Rightarrow> 'u raft_server" where
  "notify_membership s node ety typ =
     (case notify_membership_event (cb s) of
        None \<Rightarrow> s
      | Some f \<Rightarrow> s\<lparr>udata := f (raft_get_udata s) (Option.bind node (heap s)) ety typ\<rparr>)"

definition raft_add_node_internal ::
  "'u raft_server \<Rightarrow> raft_entry option \<Rightarrow> voidp \<Rightarrow> int \<Rightarrow> bool \<Rightarrow>
   fault + node_ref option \<times> 'u raft_server" where
  "raft_add_node_internal s ety ud nid is_self =
     rbind (raft_get_node s nid) (\<lambda>node.
     case node of
       Some r \<Rightarrow>
         rbind (deref s (Some r)) (\<lambda>n.
         if \<not> raft_node_is_voting n
         then rbind (raft_node_set_voting n True) (\<lambda>n'. Inr (Some r, put_node s r n'))
         else Inr (None, s))
     | None \<Rightarrow>
         (case raft_node_new s ud nid of
            (None, s1) \<Rightarrow> Inr (None, s1)
          | (Some r, s1) \<Rightarrow>
              (case raft_alloc s1 of (ok, s2) \<Rightarrow>
               if \<not> ok then Inr (None, raft_node_free s2 r)
               else
                 let s3 = s2\<lparr>nodes := nodes s2 @ [r], nodes_stale := []\<rparr>;
                     s4 = (if is_self then s3\<lparr>me_node := Some r\<rparr> else s3)
                 in Inr (Some r, notify_membership s4 (Some r) ety RAFT_MEMBERSHIP_ADD))))"

definition raft_add_node ::
  "'u raft_server \<Rightarrow> voidp \<Rightarrow> int \<Rightarrow> bool \<Rightarrow> fault + node_ref option \<times> 'u raft_server" where
  "raft_add_node s ud nid is_self = raft_add_node_internal s None ud nid is_self"

definition raft_add_non_voting_node_internal ::
  "'u raft_server \<Rightarrow> raft_entry option \<Rightarrow> voidp \<Rightarrow> int \<Rightarrow> bool \<Rightarrow>
   fault + node_ref option \<times> 'u raft_server" where
  "raft_add_non_voting_node_internal s ety ud nid is_self =
     rbind (raft_get_node s nid) (\<lambda>found.
     if found \<noteq> None then Inr (None, s)
     else
       rbind (raft_add_node_internal s ety ud nid is_self) (\<lambda>(node, s1).
       case node of
         None \<Rightarrow> Inr (None, s1)
       | Some r \<Rightarrow>
           rbind (deref s1 (Some r)) (\<lambda>n.
           rbind (raft_node_set_voting n False) (\<lambda>n'. Inr (Some r, put_node s1 r n')))))"

definition raft_add_non_voting_node ::
  "'u raft_server \<Rightarrow> voidp \<Rightarrow> int \<Rightarrow> bool \<Rightarrow> fault + node_ref option \<times> 'u raft_server" where
  "raft_add_non_voting_node s ud nid is_self = raft_add_non_voting_node_internal s None ud nid is_self"

text \<open>
  The array after \<^verbatim>\<open>memmove\<close>: the elements behind position \<open>i\<close> move up, and the last one is
  left in the cell that is no longer in use.
\<close>

definition raft_remove_node :: "'u raft_server \<Rightarrow> node_ref option \<Rightarrow> fault + 'u raft_server" where
  "raft_remove_node s node =
     (let s1 = notify_membership s node None RAFT_MEMBERSHIP_REMOVE in
      rbind (rassert (node \<noteq> None)) (\<lambda>_.
      let r = the node; ns = nodes s1; i = length (takeWhile (\<lambda>q. q \<noteq> r) ns) in
      rbind (rassert (i < length ns)) (\<lambda>_.
      let s2 = s1\<lparr>nodes := take i ns @ drop (i + 1) ns, nodes_stale := last ns # nodes_stale s1\<rparr>
      in Inr (raft_node_free s2 r))))"

text \<open>\<^verbatim>\<open>me->cb.log_get_node_id(...)\<close>: called without a null check.\<close>

definition call_log_get_node_id ::
  "'u raft_server \<Rightarrow> raft_entry \<Rightarrow> int \<Rightarrow> fault + int \<times> 'u raft_server" where
  "call_log_get_node_id s ety idx =
     (case log_get_node_id (cb s) of
        None \<Rightarrow> Inl Null_dereference
      | Some f \<Rightarrow> (case f (raft_get_udata s) ety idx of (i, u) \<Rightarrow> Inr (i, s\<lparr>udata := u\<rparr>)))"

text \<open>\<^verbatim>\<open>raft_node_set_voting(node, v)\<close> through a pointer.\<close>

definition set_voting_at :: "'u raft_server \<Rightarrow> node_ref option \<Rightarrow> bool \<Rightarrow> fault + 'u raft_server" where
  "set_voting_at s p v =
     rbind (deref s p) (\<lambda>n. rbind (raft_node_set_voting n v) (\<lambda>n'. Inr (put_node s (the p) n')))"

definition raft_offer_log :: "'u raft_server \<Rightarrow> raft_entry \<Rightarrow> int \<Rightarrow> fault + 'u raft_server" where
  "raft_offer_log s ety idx =
     (if \<not> raft_entry_is_cfg_change ety then Inr s
      else
        rbind (call_log_get_node_id s ety idx) (\<lambda>(nid, s1).
        rbind (raft_get_node s1 nid) (\<lambda>node.
        rbind (raft_get_nodeid s1) (\<lambda>me_id.
        let is_self = (nid = me_id) in
        if ety_type ety = RAFT_LOGTYPE_ADD_NONVOTING_NODE then
          (if \<not> is_self then
             (case node of
                Some r \<Rightarrow>
                  rbind (deref s1 (Some r)) (\<lambda>n.
                  if \<not> raft_node_is_active n then Inr (put_node s1 r (raft_node_set_active n True))
                  else Inr s1)
              | None \<Rightarrow>
                  rbind (raft_add_non_voting_node_internal s1 (Some ety) 0 nid is_self) (\<lambda>(added, s2).
                  rbind (rassert (added \<noteq> None)) (\<lambda>_. Inr s2)))
           else Inr s1)
        else if ety_type ety = RAFT_LOGTYPE_ADD_NODE then
          rbind (raft_add_node_internal s1 (Some ety) 0 nid is_self) (\<lambda>(added, s2).
          rbind (rassert (added \<noteq> None)) (\<lambda>_.
          rbind (deref s2 added) (\<lambda>n.
          rbind (rassert (raft_node_is_voting n)) (\<lambda>_. Inr s2))))
        else if ety_type ety = RAFT_LOGTYPE_DEMOTE_NODE then
          (if node \<noteq> None then set_voting_at s1 node False else Inr s1)
        else if ety_type ety = RAFT_LOGTYPE_REMOVE_NODE then
          (if node \<noteq> None then mod_node s1 node (\<lambda>n. raft_node_set_active n False) else Inr s1)
        else Inl Assertion_failed))))"

definition raft_pop_log :: "'u raft_server \<Rightarrow> raft_entry \<Rightarrow> int \<Rightarrow> fault + 'u raft_server" where
  "raft_pop_log s ety idx =
     (if \<not> raft_entry_is_cfg_change ety then Inr s
      else
        rbind (call_log_get_node_id s ety idx) (\<lambda>(nid, s1).
        if ety_type ety = RAFT_LOGTYPE_DEMOTE_NODE then
          rbind (raft_get_node s1 nid) (\<lambda>node. set_voting_at s1 node True)
        else if ety_type ety = RAFT_LOGTYPE_REMOVE_NODE then
          rbind (raft_get_node s1 nid) (\<lambda>node. mod_node s1 node (\<lambda>n. raft_node_set_active n True))
        else if ety_type ety = RAFT_LOGTYPE_ADD_NONVOTING_NODE then
          rbind (raft_get_nodeid s1) (\<lambda>me_id.
          rbind (raft_get_node s1 nid) (\<lambda>node.
          rbind (raft_remove_node s1 node) (\<lambda>s2.
          if nid = me_id then Inl Assertion_failed else Inr s2)))
        else if ety_type ety = RAFT_LOGTYPE_ADD_NODE then
          rbind (raft_get_node s1 nid) (\<lambda>node. set_voting_at s1 node False)
        else Inl Assertion_failed))"

section \<open>What membership operations leave alone\<close>

text \<open>Every field but the node heap, the node array, the own node, the allocator and the user's state.\<close>

definition same_core :: "'u raft_server \<Rightarrow> 'u raft_server \<Rightarrow> bool" where
  "same_core s s' \<longleftrightarrow>
     current_term s' = current_term s \<and> voted_for s' = voted_for s \<and> log s' = log s \<and>
     commit_idx s' = commit_idx s \<and> last_applied_idx s' = last_applied_idx s \<and>
     state s' = state s \<and> timeout_elapsed s' = timeout_elapsed s \<and>
     election_timeout s' = election_timeout s \<and>
     election_timeout_rand s' = election_timeout_rand s \<and>
     request_timeout s' = request_timeout s \<and> current_leader s' = current_leader s \<and>
     cb s' = cb s \<and> voting_cfg_change_log_idx s' = voting_cfg_change_log_idx s \<and>
     connected s' = connected s \<and> snapshot_in_progress s' = snapshot_in_progress s \<and>
     snapshot_flags s' = snapshot_flags s \<and> snapshot_last_idx s' = snapshot_last_idx s \<and>
     snapshot_last_term s' = snapshot_last_term s \<and>
     saved_snapshot_last_idx s' = saved_snapshot_last_idx s \<and>
     saved_snapshot_last_term s' = saved_snapshot_last_term s \<and>
     rand_seq s' = rand_seq s \<and> rand_no s' = rand_no s \<and> alloc_seq s' = alloc_seq s"

lemma same_core_refl [simp]: "same_core s s"
  by (simp add: same_core_def)

lemma same_core_trans [trans]: "same_core s s' \<Longrightarrow> same_core s' s'' \<Longrightarrow> same_core s s''"
  by (simp add: same_core_def)

lemma same_core_upd [simp]:
  "same_core s (put_node t r n) = same_core s t"
  "same_core s (t\<lparr>udata := u\<rparr>) = same_core s t"
  "same_core s (t\<lparr>nodes := ns\<rparr>) = same_core s t"
  "same_core s (t\<lparr>nodes_stale := ns\<rparr>) = same_core s t"
  "same_core s (t\<lparr>me_node := m\<rparr>) = same_core s t"
  "same_core s (t\<lparr>next_ref := nr\<rparr>) = same_core s t"
  "same_core s (t\<lparr>heap := h\<rparr>) = same_core s t"
  "same_core s (t\<lparr>alloc_no := k\<rparr>) = same_core s t"
  by (simp_all add: same_core_def put_node_def)

lemma same_core_notify [simp]: "same_core s (notify_membership t p e k) = same_core s t"
  by (simp add: notify_membership_def split: option.splits)

lemma same_core_free [simp]: "same_core s (raft_node_free t r) = same_core s t"
  by (simp add: raft_node_free_def)

lemma raft_add_node_internal_core [frame]:
  "rok (raft_add_node_internal s ety ud nid is_self) (\<lambda>(_, s'). same_core s s')"
  by (rule rokI)
    (auto simp: raft_add_node_internal_def rbind_eq_Inr raft_node_new_def raft_alloc_def Let_def
      split: option.splits if_splits prod.splits)

lemma raft_add_non_voting_node_internal_core [frame]:
  "rok (raft_add_non_voting_node_internal s ety ud nid is_self) (\<lambda>(_, s'). same_core s s')"
  using raft_add_node_internal_core [of s ety ud nid is_self]
  by (auto simp: raft_add_non_voting_node_internal_def intro!: rokI dest!: rokD
      simp: rbind_eq_Inr split: option.splits if_splits prod.splits)

lemma raft_remove_node_core [frame]: "rok (raft_remove_node s node) (same_core s)"
  by (auto simp: raft_remove_node_def Let_def)

lemma set_voting_at_core [frame]: "rok (set_voting_at s p v) (same_core s)"
  by (rule rokI) (auto simp: set_voting_at_def rbind_eq_Inr)

lemma mod_node_core [frame]: "rok (mod_node s p f) (same_core s)"
  by (rule rokI) (auto simp: mod_node_eq_Inr)

lemma call_log_get_node_id_core [frame]:
  "rok (call_log_get_node_id s ety idx) (\<lambda>(_, s'). \<exists>u. s' = s\<lparr>udata := u\<rparr>)"
  by (auto simp: call_log_get_node_id_def split: option.splits prod.splits)

text \<open>The same facts with the reference state fixed, so that they chain along a handler.\<close>

lemma core_steps:
  "same_core s t \<Longrightarrow> (\<And>x t'. same_core s t' \<Longrightarrow> P (x, t')) \<Longrightarrow> rok (raft_add_node_internal t ety ud nid is_self) P"
  "same_core s t \<Longrightarrow> (\<And>x t'. same_core s t' \<Longrightarrow> P (x, t')) \<Longrightarrow>
    rok (raft_add_non_voting_node_internal t ety ud nid is_self) P"
  "same_core s t \<Longrightarrow> (\<And>t'. same_core s t' \<Longrightarrow> Q t') \<Longrightarrow> rok (raft_remove_node t node) Q"
  "same_core s t \<Longrightarrow> (\<And>t'. same_core s t' \<Longrightarrow> Q t') \<Longrightarrow> rok (set_voting_at t p v) Q"
  "same_core s t \<Longrightarrow> (\<And>t'. same_core s t' \<Longrightarrow> Q t') \<Longrightarrow> rok (mod_node t p f) Q"
  "same_core s t \<Longrightarrow> (\<And>i t'. same_core s t' \<Longrightarrow> R (i, t')) \<Longrightarrow> rok (call_log_get_node_id t e k) R"
  by (rule rok_mono [OF raft_add_node_internal_core], clarsimp, blast intro: same_core_trans,
      rule rok_mono [OF raft_add_non_voting_node_internal_core], clarsimp, blast intro: same_core_trans,
      rule rok_mono [OF raft_remove_node_core], blast intro: same_core_trans,
      rule rok_mono [OF set_voting_at_core], blast intro: same_core_trans,
      rule rok_mono [OF mod_node_core], blast intro: same_core_trans,
      rule rok_mono [OF call_log_get_node_id_core], auto)

text \<open>Reading operations have no effect, whatever they return.\<close>

lemma rok_reads:
  "(\<And>x. P x) \<Longrightarrow> rok (raft_get_node s nid) P"
  "(\<And>i. Q i) \<Longrightarrow> rok (raft_get_nodeid s) Q"
  "(\<And>n. R n) \<Longrightarrow> rok (deref s p) R"
  by (auto intro: rokI)

lemma raft_offer_log_core [frame]: "rok (raft_offer_log s ety idx) (same_core s)"
  unfolding raft_offer_log_def
  by (auto simp: Let_def intro!: core_steps [of s] rok_reads split: option.splits)

lemma raft_pop_log_core [frame]: "rok (raft_pop_log s ety idx) (same_core s)"
  unfolding raft_pop_log_def
  by (auto simp: Let_def intro!: core_steps [of s] rok_reads split: option.splits)

section \<open>The node array stays well formed\<close>

lemma nodes_inv_udata [simp]: "nodes_inv (s\<lparr>udata := u\<rparr>) = nodes_inv s"
  by (simp add: nodes_inv_def)

lemma nodes_inv_ids_cong:
  assumes "nodes s' = nodes s" and "me_node s' = me_node s" and "next_ref s' = next_ref s"
    and "\<And>r. map_option node_id (heap s' r) = map_option node_id (heap s r)"
  shows "nodes_inv s' = nodes_inv s"
proof -
  have none: "heap s' r = None \<longleftrightarrow> heap s r = None" for r
    using assms(4) [of r] by (metis map_option_is_None)
  have "node_id (node_of s' r) = node_id (node_of s r)" if "heap s r \<noteq> None" for r
    using assms(4) [of r] that none [of r] by auto
  then have ids: "map (\<lambda>r. node_id (node_of s' r)) (nodes s) = map (\<lambda>r. node_id (node_of s r)) (nodes s)"
    if "\<forall>r \<in> set (nodes s). heap s r \<noteq> None"
    using that by (intro map_cong) auto
  show ?thesis
  proof (cases "\<forall>r \<in> set (nodes s). heap s r \<noteq> None")
    case True
    show ?thesis
      unfolding nodes_inv_def assms(1-3) ids [OF True] by (simp add: none)
  next
    case False
    then show ?thesis by (auto simp: nodes_inv_def assms(1) none)
  qed
qed

lemma nodes_inv_put_node:
  assumes "nodes_inv s" and "heap s r = Some n" and "node_id n' = node_id n"
  shows "nodes_inv (put_node s r n')"
  using assms by (subst nodes_inv_ids_cong [of _ s]) (auto simp: put_node_def)

lemma mod_node_inv:
  assumes "nodes_inv s" and "\<And>n. node_id (f n) = node_id n"
  shows "rok (mod_node s p f) nodes_inv"
  using nodes_inv_put_node [OF assms(1)] assms(2) by (intro rokI) (auto simp: mod_node_eq_Inr)

lemma set_voting_at_inv:
  assumes "nodes_inv s"
  shows "rok (set_voting_at s p v) nodes_inv"
  using nodes_inv_put_node [OF assms]
  by (intro rokI)
    (auto simp: set_voting_at_def rbind_eq_Inr deref_eq_Inr raft_node_set_voting_eq split: if_splits)

lemma nodes_inv_notify [simp]: "nodes_inv (notify_membership s p e k) = nodes_inv s"
  by (simp add: notify_membership_def split: option.splits)

lemma nodes_inv_alloc [simp]: "nodes_inv (s\<lparr>alloc_no := k\<rparr>) = nodes_inv s"
  by (simp add: nodes_inv_def)

text \<open>A fresh object at the end of the array, which becomes the own node when \<open>b\<close> holds.\<close>

lemma nodes_inv_add:
  assumes inv: "nodes_inv s" and "find (\<lambda>r. node_id (node_of s r) = nid) (nodes s) = None"
    and "nodes s' = nodes s @ [next_ref s]" and "next_ref s' = next_ref s + 1"
    and "me_node s' = (if b then Some (next_ref s) else me_node s)"
    and h: "heap s' = (heap s)(next_ref s \<mapsto> raft_node_init ud nid)"
  shows "nodes_inv s'"
proof -
  have fresh: "next_ref s \<notin> set (nodes s)"
    using inv by (auto simp: nodes_inv_def)
  have ids: "map (\<lambda>r. node_id (node_of s' r)) (nodes s) = map (\<lambda>r. node_id (node_of s r)) (nodes s)"
    using fresh by (intro map_cong) (auto simp: h)
  have "distinct (map (\<lambda>r. node_id (node_of s' r)) (nodes s'))"
    unfolding assms(3) map_append ids distinct_append
    using inv assms(2) by (auto simp: nodes_inv_def find_None_iff_all h)
  then show ?thesis
    using inv fresh assms by (auto simp: nodes_inv_def)
qed

text \<open>
  Adding a node keeps the array well formed; when it returns a node, that node has the id
  asked for, is allocated, votes and is in the array.
\<close>

lemma raft_add_node_internal_inv:
  assumes "nodes_inv s"
  shows "rok (raft_add_node_internal s ety ud nid is_self) (\<lambda>(node, s'). nodes_inv s' \<and>
    (\<forall>r. node = Some r \<longrightarrow> r \<in> set (nodes s') \<and> node_id (node_of s' r) = nid \<and>
       raft_node_is_voting (node_of s' r)))"
proof (cases "find (\<lambda>r. node_id (node_of s r) = nid) (nodes s)")
  case (Some r)
  then have r: "r \<in> set (nodes s)" "node_id (node_of s r) = nid" by (auto dest: find_Some_in_set)
  then obtain n where n: "heap s r = Some n" using assms by (auto simp: nodes_inv_def)
  show ?thesis
    using r n assms nodes_inv_put_node [OF assms n]
    by (simp add: raft_add_node_internal_def raft_get_node_spec Some raft_node_set_voting_eq put_node_def)
next
  case None
  note add = nodes_inv_add [OF assms None]
  have freed: "nodes_inv (raft_node_free s2 (next_ref s))"
    if "heap s2 = (heap s)(next_ref s \<mapsto> n)" "nodes s2 = nodes s" "me_node s2 = me_node s"
      "next_ref s2 = next_ref s + 1" for s2 n
  proof -
    have "heap s (next_ref s) = None" using assms by (simp add: nodes_inv_def)
    then have "heap (raft_node_free s2 (next_ref s)) = heap s"
      using that by (auto simp: raft_node_free_def)
    then show ?thesis using assms that by (auto simp: nodes_inv_def raft_node_free_def)
  qed
  show ?thesis
    using assms
    by (auto simp: raft_add_node_internal_def raft_get_node_spec None raft_node_new_def raft_alloc_def
        Let_def put_node_def intro!: add freed split: option.splits)
      (auto simp: notify_membership_def split: option.splits)
qed

end
