(* ===== verification/Raft_Log_Ops.thy ===== *)
theory Raft_Log_Ops
  imports Raft_Membership
begin

text \<open>
  Appending to and deleting from the log with everything these operations do: the callbacks,
  and the hooks into the server that apply or revert a configuration entry
  (\<^verbatim>\<open>log_append_entry\<close>, \<^verbatim>\<open>log_delete\<close> of \<^verbatim>\<open>raft/raft_log.c\<close>, and the server's wrappers
  \<^verbatim>\<open>raft_append_entry\<close>, \<^verbatim>\<open>raft_delete_entry_from_idx\<close>, \<^verbatim>\<open>raft_poll_entry\<close> of
  \<^verbatim>\<open>raft/raft_server.c\<close>). The lemmas state the effect of each on the list of entries, on every
  return path, and that the rest of the server is left alone.
\<close>

section \<open>Operations\<close>

definition log_append_entry :: "'u raft_server \<Rightarrow> raft_entry \<Rightarrow> fault + int \<times> 'u raft_server" where
  "log_append_entry s ety =
     (let idx = lg_base (log s) + lg_count (log s) + 1 in
      rbind (ensurecapacity (log s) s) (\<lambda>(e, me, s1).
      if e \<noteq> 0 then Inr (e, s1\<lparr>log := me\<rparr>)
      else
        rbind (log_write_back me ety) (\<lambda>me1.
        case (if lg_cb me1 then log_offer (cb s1) else None) of
          None \<Rightarrow> rbind (log_bump me1) (\<lambda>me2. Inr (0, s1\<lparr>log := me2\<rparr>))
        | Some f \<Rightarrow>
            (case f (raft_get_udata s1) ety idx of (e1, d, u) \<Rightarrow>
             let offered = ety\<lparr>ety_data := d\<rparr> in
             rbind (log_write_back me1 offered) (\<lambda>me2.
             let s2 = s1\<lparr>log := me2, udata := u\<rparr> in
             if e1 \<noteq> 0 then Inr (e1, s2)
             else
               rbind (raft_offer_log s2 offered idx) (\<lambda>s3.
               rbind (log_bump (log s3)) (\<lambda>me3. Inr (0, s3\<lparr>log := me3\<rparr>))))))))"

text \<open>\<^verbatim>\<open>raft_pop_log(me->raft, ...)\<close>: before \<^verbatim>\<open>log_set_callbacks\<close> the server pointer is null.\<close>

definition log_pop_hook :: "'u raft_server \<Rightarrow> raft_entry \<Rightarrow> int \<Rightarrow> fault + 'u raft_server" where
  "log_pop_hook s ety idx =
     (if lg_raft (log s) then raft_pop_log s ety idx
      else if raft_entry_is_cfg_change ety then Inl Null_dereference
      else Inr s)"

text \<open>The \<^verbatim>\<open>log_pop\<close> callback on the cell at \<open>pos\<close>, if registered.\<close>

definition log_pop_call :: "'u raft_server \<Rightarrow> int \<Rightarrow> raft_entry \<Rightarrow> int \<Rightarrow> int \<times> raft_entry \<times> 'u raft_server" where
  "log_pop_call s pos ety idx =
     (case (if lg_cb (log s) then log_pop (cb s) else None) of
        None \<Rightarrow> (0, ety, s)
      | Some f \<Rightarrow>
          (case f (raft_get_udata s) ety idx of (e, d, u) \<Rightarrow>
             (e, ety\<lparr>ety_data := d\<rparr>,
              s\<lparr>log := (log s)\<lparr>lg_entries := (lg_entries (log s))[nat pos := ety\<lparr>ety_data := d\<rparr>]\<rparr>,
                udata := u\<rparr>)))"

text \<open>
  The loop of \<^verbatim>\<open>log_delete\<close>. Every iteration takes one entry off, so \<open>n\<close> is started at the
  number of entries.
\<close>

primrec log_delete_loop :: "nat \<Rightarrow> 'u raft_server \<Rightarrow> int \<Rightarrow> fault + int \<times> 'u raft_server" where
  "log_delete_loop 0 s idx = Inr (0, s)"
| "log_delete_loop (Suc n) s idx =
     (let me = log s; idx_tmp = lg_base me + lg_count me in
      if idx \<le> lg_base me + lg_count me \<and> lg_count me \<noteq> 0 then
        rbind (log_last_pos me) (\<lambda>pos.
        rbind (arr_get (lg_entries me) pos) (\<lambda>ety.
        case log_pop_call s pos ety idx_tmp of (e, ety1, s1) \<Rightarrow>
        if e \<noteq> 0 then Inr (e, s1)
        else
          rbind (log_pop_hook s1 ety1 idx_tmp) (\<lambda>s2.
          log_delete_loop n (s2\<lparr>log := log_pop_back (log s2) pos\<rparr>) idx)))
      else Inr (0, s))"

definition log_delete :: "'u raft_server \<Rightarrow> int \<Rightarrow> fault + int \<times> 'u raft_server" where
  "log_delete s idx =
     (if idx = 0 then Inr (-1, s)
      else
        let idx1 = (if idx < lg_base (log s) then lg_base (log s) else idx)
        in log_delete_loop (nat (lg_count (log s))) s idx1)"

definition raft_delete_entry_from_idx :: "'u raft_server \<Rightarrow> int \<Rightarrow> fault + int \<times> 'u raft_server" where
  "raft_delete_entry_from_idx s idx =
     rbind (rassert (raft_get_commit_idx s < idx)) (\<lambda>_.
     let s1 = (if idx \<le> voting_cfg_change_log_idx s then s\<lparr>voting_cfg_change_log_idx := -1\<rparr> else s)
     in log_delete s1 idx)"

definition raft_append_entry :: "'u raft_server \<Rightarrow> raft_entry \<Rightarrow> fault + int \<times> 'u raft_server" where
  "raft_append_entry s ety =
     (let s1 = (if raft_entry_is_voting_cfg_change ety
                then s\<lparr>voting_cfg_change_log_idx := raft_get_current_idx s\<rparr> else s)
      in log_append_entry s1 ety)"

definition raft_poll_entry :: "'u raft_server \<Rightarrow> fault + int \<times> raft_entry option \<times> 'u raft_server" where
  "raft_poll_entry s =
     rbind (log_poll (log s) (cb s) (raft_get_udata s)) (\<lambda>(e, ety, me, u).
     let s1 = s\<lparr>log := me, udata := u\<rparr> in
     if e \<noteq> 0 then Inr (e, None, s1)
     else rbind (rassert (ety \<noteq> None)) (\<lambda>_. Inr (0, ety, s1)))"

definition raft_get_entries_from_idx :: "'u raft_server \<Rightarrow> int \<Rightarrow> fault + raft_entry list option \<times> int" where
  "raft_get_entries_from_idx s idx = log_get_from_idx (log s) idx"

section \<open>What the log operations leave alone\<close>

text \<open>Every field of \<open>same_core\<close> but the log.\<close>

definition same_but_log :: "'u raft_server \<Rightarrow> 'u raft_server \<Rightarrow> bool" where
  "same_but_log s s' \<longleftrightarrow> same_core (s\<lparr>log := log s'\<rparr>) s'"

lemma same_but_log_refl [simp]: "same_but_log s s"
  by (simp add: same_but_log_def)

lemma same_but_log_trans [trans]: "same_but_log s s' \<Longrightarrow> same_but_log s' s'' \<Longrightarrow> same_but_log s s''"
  by (simp add: same_but_log_def same_core_def)

lemma same_core_but_log: "same_core s s' \<Longrightarrow> same_but_log s s'"
  by (simp add: same_but_log_def same_core_def)

lemma same_but_log_upd [simp]:
  "same_but_log s (t\<lparr>log := l\<rparr>) = same_but_log s t"
  "same_but_log s (t\<lparr>udata := u\<rparr>) = same_but_log s t"
  by (simp_all add: same_but_log_def same_core_def)

section \<open>The effect on the list of entries\<close>

text \<open>
  \<open>log_becomes me me' es\<close>: a well-formed log over the same base, wired to the same server, with
  the entries \<open>es\<close>.
\<close>

definition log_becomes :: "raft_log \<Rightarrow> raft_log \<Rightarrow> raft_entry list \<Rightarrow> bool" where
  "log_becomes me me' es \<longleftrightarrow>
     log_inv me' \<and> lg_base me' = lg_base me \<and> lg_cb me' = lg_cb me \<and> lg_raft me' = lg_raft me \<and>
     log_list me' = es"

lemma log_becomes_trans: "log_becomes me me' es \<Longrightarrow> log_becomes me' me'' es' \<Longrightarrow> log_becomes me me'' es'"
  by (simp add: log_becomes_def)

lemma log_becomes_refl: "log_inv me \<Longrightarrow> log_becomes me me (log_list me)"
  by (simp add: log_becomes_def)

lemma ensurecapacity_same:
  "ensurecapacity me (s :: 'u raft_server) = Inr (e, me', s') \<Longrightarrow>
   s' = s \<or> s' = s\<lparr>alloc_no := alloc_no s + 1\<rparr>"
  by (auto simp: ensurecapacity_def raft_alloc_def rbind_eq_Inr split: if_splits)

text \<open>Storing an entry in the free cell and taking it in.\<close>

lemma log_write_bump:
  assumes "log_inv me" and "lg_count me < lg_size me"
  shows "rsafe (rbind (log_write_back me ety) log_bump) (\<lambda>me'. log_becomes me me' (log_list me @ [ety]))"
proof -
  define w where "w = me\<lparr>lg_entries := (lg_entries me)[nat (lg_back me) := ety]\<rparr>"
  have w: "log_inv w" "lg_count w < lg_size w" "log_list w = log_list me" "lg_base w = lg_base me"
      "lg_cb w = lg_cb me" "lg_raft w = lg_raft me"
    using assms log_inv_set_cell log_list_set_back by (auto simp: w_def)
  have "lg_entries w ! nat (lg_back w) = ety"
    using nat_back_less [OF assms(1)] by (simp add: w_def)
  moreover obtain me' where "log_bump w = Inr me'" "log_inv me'"
    "log_list me' = log_list w @ [lg_entries w ! nat (lg_back w)]" "lg_base me' = lg_base w"
    "lg_cb me' = lg_cb w" "lg_raft me' = lg_raft w"
    using log_bump_spec [OF w(1,2)] by metis
  ultimately show ?thesis
    by (simp add: log_write_back_spec [OF assms(1)] w_def [symmetric] log_becomes_def w)
qed

lemma log_write_write:
  "log_inv me \<Longrightarrow> rbind (log_write_back me a) (\<lambda>me1. rbind (log_write_back me1 b) f) = rbind (log_write_back me b) f"
  by (simp add: log_write_back_spec log_inv_set_cell)

lemma log_write_back_keeps:
  assumes "log_inv me" and "lg_count me < lg_size me" and "log_write_back me ety = Inr me'"
  shows "log_becomes me me' (log_list me)"
  using assms log_inv_set_cell [OF assms(1)] log_list_set_back [OF assms(1,2)]
  by (auto simp: log_write_back_spec log_becomes_def)

text \<open>The data an appended entry has in the log: its own, or what the callback for offered entries left.\<close>

definition offered_data :: "'u raft_server \<Rightarrow> raft_entry \<Rightarrow> raft_entry_data" where
  "offered_data s ety =
     (case (if lg_cb (log s) then log_offer (cb s) else None) of
        None \<Rightarrow> ety_data ety
      | Some f \<Rightarrow> fst (snd (f (udata s) ety (lg_base (log s) + lg_count (log s) + 1))))"

lemma log_append_entry_spec:
  assumes inv: "log_inv (log s)"
  shows "rok (log_append_entry s ety) (\<lambda>(e, s'). same_but_log s s' \<and>
    (e = 0 \<longrightarrow> log_becomes (log s) (log s') (log_list (log s) @ [ety\<lparr>ety_data := offered_data s ety\<rparr>])) \<and>
    (e \<noteq> 0 \<longrightarrow> log_becomes (log s) (log s') (log_list (log s))))"
proof -
  obtain e me s1 where cap: "ensurecapacity (log s) s = Inr (e, me, s1)" "log_inv me"
      "log_list me = log_list (log s)" "lg_base me = lg_base (log s)" "lg_cb me = lg_cb (log s)"
      "lg_raft me = lg_raft (log s)" "e = 0 \<Longrightarrow> lg_count me < lg_size me"
    using ensurecapacity_spec [OF inv, of s] by metis
  have s1: "same_but_log s s1" "cb s1 = cb s" "udata s1 = udata s"
    using ensurecapacity_same [OF cap(1)] by (auto simp: same_core_but_log)
  have me: "log_becomes (log s) me (log_list (log s))" using cap by (simp add: log_becomes_def)
  show ?thesis
  proof (cases "e = 0")
    case False
    then show ?thesis using s1 me by (simp add: log_append_entry_def cap(1))
  next
    case True
    note room = cap(7) [OF True]
    define stored where "stored x = me\<lparr>lg_entries := (lg_entries me)[nat (lg_back me) := x]\<rparr>" for x
    have st: "log_write_back me x = Inr (stored x)" "log_write_back (stored y) x = Inr (stored x)"
        "lg_cb (stored x) = lg_cb (log s)" for x y
      using cap(2,5) by (simp_all add: log_write_back_spec log_inv_set_cell stored_def)
    have grow: "rok (log_bump (stored x)) (\<lambda>me'. log_becomes (log s) me' (log_list (log s) @ [x]))" for x
      using log_write_bump [OF cap(2) room, of x] cap(3-6) st(1)
      by (intro rokI) (auto simp: log_becomes_def rsafe_iff)
    have keep: "log_becomes (log s) (stored x) (log_list (log s))" for x
      using log_write_back_keeps [OF cap(2) room st(1)] me by (auto simp: log_becomes_def)
    show ?thesis
    proof (cases "if lg_cb (log s) then log_offer (cb s) else None")
      case None
      then have "ety\<lparr>ety_data := offered_data s ety\<rparr> = ety" by (simp add: offered_data_def)
      then show ?thesis
        using None True s1 grow [of ety]
        by (auto simp: log_append_entry_def cap(1) st elim!: rok_mono)
    next
      case (Some f)
      obtain e1 d u where f: "f (udata s) ety (lg_base (log s) + lg_count (log s) + 1) = (e1, d, u)"
        by (metis prod_cases3)
      then have d: "offered_data s ety = d" using Some by (simp add: offered_data_def)
      define s2 where "s2 = s1\<lparr>log := stored (ety\<lparr>ety_data := d\<rparr>), udata := u\<rparr>"
      have offered: "rok (raft_offer_log s2 x i) (\<lambda>s3. rok (log_bump (log s3)) (\<lambda>me3.
          same_but_log s s3 \<and>
          log_becomes (log s) me3 (log_list (log s) @ [ety\<lparr>ety_data := d\<rparr>])))" for x i
      proof (rule rok_mono [OF raft_offer_log_core])
        fix s3 assume "same_core s2 s3"
        then have "same_but_log s s3" "log s3 = stored (ety\<lparr>ety_data := d\<rparr>)"
          using s1(1) by (auto simp: s2_def same_but_log_def same_core_def)
        then show "rok (log_bump (log s3)) (\<lambda>me3. same_but_log s s3 \<and>
            log_becomes (log s) me3 (log_list (log s) @ [ety\<lparr>ety_data := d\<rparr>]))"
          using grow [of "ety\<lparr>ety_data := d\<rparr>"] by (auto elim: rok_mono)
      qed
      then show ?thesis
        using Some True s1 f keep
        by (auto simp: d log_append_entry_def cap(1) st Let_def s2_def)
    qed
  qed
qed

text \<open>What an entry is, apart from the data a callback may have replaced.\<close>

definition ety_key :: "raft_entry \<Rightarrow> int \<times> int \<times> int" where
  "ety_key e = (ety_term e, ety_id e, ety_type e)"

lemma ety_key_data [simp]: "ety_key (e\<lparr>ety_data := d\<rparr>) = ety_key e"
  by (simp add: ety_key_def)

lemma ring_slice_key_update:
  "k < length xs \<Longrightarrow> ety_key x = ety_key (xs ! k) \<Longrightarrow>
   map ety_key (ring_slice (xs[k := x]) f n) = map ety_key (ring_slice xs f n)"
  by (auto simp: ring_slice_def nth_list_update)

text \<open>The callback on the youngest entry may change its data, and nothing else of the log.\<close>

lemma log_pop_call_spec:
  assumes "ety = lg_entries (log s) ! nat pos" and "log_pop_call s pos ety i = (e, ety1, s1)"
  shows "same_but_log s s1"
    and "\<exists>x. log s1 = (log s)\<lparr>lg_entries := (lg_entries (log s))[nat pos := x]\<rparr> \<and> ety_key x = ety_key ety"
  using assms
  by (auto simp: log_pop_call_def split: option.splits prod.splits if_splits
      intro: exI [of _ "lg_entries (log s) ! nat pos"])

abbreviation log_keys :: "raft_log \<Rightarrow> (int \<times> int \<times> int) list" where
  "log_keys me \<equiv> map ety_key (log_list me)"

lemma log_pop_back_set:
  assumes "log_inv me" and "0 < lg_count me" and "log_inv (log_pop_back me pos)"
  shows "log_inv (log_pop_back (me\<lparr>lg_entries := (lg_entries me)[nat pos := x]\<rparr>) pos)"
    and "log_list (log_pop_back (me\<lparr>lg_entries := (lg_entries me)[nat pos := x]\<rparr>) pos) =
      log_list (log_pop_back me pos)"
proof -
  define popped where "popped = log_pop_back me pos"
  have eq: "log_pop_back (me\<lparr>lg_entries := (lg_entries me)[nat pos := x]\<rparr>) pos =
      popped\<lparr>lg_entries := (lg_entries popped)[nat (lg_back popped) := x]\<rparr>"
    by (simp add: popped_def log_pop_back_def)
  have "lg_count popped < lg_size popped" "log_inv popped"
    using assms by (auto simp: popped_def log_pop_back_def log_inv_def)
  then show "log_inv (log_pop_back (me\<lparr>lg_entries := (lg_entries me)[nat pos := x]\<rparr>) pos)"
    "log_list (log_pop_back (me\<lparr>lg_entries := (lg_entries me)[nat pos := x]\<rparr>) pos) =
      log_list (log_pop_back me pos)"
    unfolding eq by (simp_all add: log_inv_set_cell log_list_set_back popped_def)
qed

lemma log_pop_hook_core [frame]: "rok (log_pop_hook s ety idx) (same_core s)"
  using raft_pop_log_core [of s ety idx] by (simp add: log_pop_hook_def)

text \<open>What a deletion down to index \<open>idx\<close> that returned \<open>e\<close> did to the log.\<close>

definition deleted_to :: "int \<Rightarrow> int \<Rightarrow> raft_log \<Rightarrow> raft_log \<Rightarrow> bool" where
  "deleted_to idx e me me' \<longleftrightarrow>
     log_inv me' \<and> lg_base me' = lg_base me \<and> lg_cb me' = lg_cb me \<and> lg_raft me' = lg_raft me \<and>
     lg_size me' = lg_size me \<and>
     (e = 0 \<longrightarrow> log_list me' = take (nat (idx - lg_base me - 1)) (log_list me)) \<and>
     (\<exists>k. nat (idx - lg_base me - 1) \<le> k \<and> log_keys me' = take k (log_keys me))"

lemma deleted_to_butlast:
  assumes "deleted_to idx e me1 me'" and "log_list me1 = butlast (log_list me)"
    and "lg_base me1 = lg_base me" "lg_cb me1 = lg_cb me" "lg_raft me1 = lg_raft me" "lg_size me1 = lg_size me"
    and "idx \<le> lg_base me + lg_count me" and "0 < lg_count me"
  shows "deleted_to idx e me me'"
proof -
  have len: "nat (idx - lg_base me - 1) \<le> length (log_list me) - 1"
    using assms(7,8) by auto
  obtain k where k: "nat (idx - lg_base me - 1) \<le> k" "log_keys me' = take k (log_keys me1)"
    using assms(1,3) by (auto simp: deleted_to_def)
  have "log_keys me' = take (min k (length (log_list me) - 1)) (log_keys me)"
    by (simp add: k(2) assms(2) butlast_conv_take take_map)
  then have "\<exists>k. nat (idx - lg_base me - 1) \<le> k \<and> log_keys me' = take k (log_keys me)"
    using k(1) len by (intro exI [of _ "min k (length (log_list me) - 1)"]) simp
  then show ?thesis
    using assms(1-6) len by (auto simp: deleted_to_def butlast_conv_take min_absorb1)
qed

lemma log_delete_loop_spec:
  "log_inv (log s) \<Longrightarrow> lg_size (log s) \<le> 2 ^ 31 \<Longrightarrow> n = nat (lg_count (log s)) \<Longrightarrow>
   rok (log_delete_loop n s idx) (\<lambda>(e, s'). same_but_log s s' \<and> deleted_to idx e (log s) (log s'))"
proof (induction n arbitrary: s)
  case 0
  then have "log_list (log s) = []" by (simp add: log_list_def)
  with 0 show ?case by (auto simp: deleted_to_def)
next
  case (Suc n)
  then have cnt: "0 < lg_count (log s)" by linarith
  show ?case
  proof (cases "idx \<le> lg_base (log s) + lg_count (log s)")
    case False
    then have "nat (lg_count (log s)) \<le> nat (idx - lg_base (log s) - 1)" by linarith
    then show ?thesis using False Suc.prems(1) by (auto simp: deleted_to_def)
  next
    case True
    obtain pos where pos: "log_last_pos (log s) = Inr pos" "0 \<le> pos" "pos < lg_size (log s)"
        "log_inv (log_pop_back (log s) pos)" "log_list (log_pop_back (log s) pos) = butlast (log_list (log s))"
      using log_pop_back_spec [OF Suc.prems(1) cnt Suc.prems(2)] by metis
    have inside: "nat pos < length (lg_entries (log s))"
      using Suc.prems(1) pos(2,3) by (auto simp: log_inv_def)
    have get: "arr_get (lg_entries (log s)) pos = Inr (lg_entries (log s) ! nat pos)"
      using inside pos(2) by simp
    obtain e ety1 s1 where call: "log_pop_call s pos (lg_entries (log s) ! nat pos)
        (lg_base (log s) + lg_count (log s)) = (e, ety1, s1)"
      by (metis prod_cases3)
    obtain x where s1: "same_but_log s s1"
        "log s1 = (log s)\<lparr>lg_entries := (lg_entries (log s))[nat pos := x]\<rparr>"
        "ety_key x = ety_key (lg_entries (log s) ! nat pos)"
      using log_pop_call_spec [OF refl call] by blast
    have stopped: "deleted_to idx e (log s) (log s1)" if "e \<noteq> 0"
      using that Suc.prems(1) s1(2) inside cnt True
      by (auto simp: deleted_to_def log_inv_set_cell log_list_def ring_slice_key_update s1(3)
          intro!: exI [of _ "nat (lg_count (log s))"])
    have go: "rok (log_delete_loop n (s2\<lparr>log := log_pop_back (log s2) pos\<rparr>) idx)
        (\<lambda>(e, s'). same_but_log s s' \<and> deleted_to idx e (log s) (log s'))" if "same_core s1 s2" for s2
    proof -
      define s3 where "s3 = s2\<lparr>log := log_pop_back (log s2) pos\<rparr>"
      have log3: "log s3 = log_pop_back ((log s)\<lparr>lg_entries := (lg_entries (log s))[nat pos := x]\<rparr>) pos"
        using that s1(2) by (simp add: s3_def same_core_def)
      have inv3: "log_inv (log s3)" "log_list (log s3) = butlast (log_list (log s))"
        using log_pop_back_set [OF Suc.prems(1) cnt pos(4), of x] pos(5) by (simp_all add: log3)
      have f3: "lg_base (log s3) = lg_base (log s)" "lg_cb (log s3) = lg_cb (log s)"
          "lg_raft (log s3) = lg_raft (log s)" "lg_size (log s3) = lg_size (log s)"
          "n = nat (lg_count (log s3))"
        using Suc.prems(3) by (auto simp: log3 log_pop_back_def)
      have same3: "same_but_log s s3"
        using s1(1) same_core_but_log [OF that] by (auto simp: s3_def intro: same_but_log_trans)
      show ?thesis
        unfolding s3_def [symmetric]
        by (rule rok_mono [OF Suc.IH [OF inv3(1) _ f3(5)]])
          (use Suc.prems(2) f3 same3 in
            \<open>auto intro: same_but_log_trans deleted_to_butlast [OF _ inv3(2) f3(1-4) True cnt]\<close>)
    qed
    have "rok (log_pop_hook s1 ety1 i) (\<lambda>s2. rok (log_delete_loop n (s2\<lparr>log := log_pop_back (log s2) pos\<rparr>) idx)
        (\<lambda>(e, s'). same_but_log s s' \<and> deleted_to idx e (log s) (log s')))" for i
      by (rule rok_mono [OF log_pop_hook_core]) (rule go)
    then show ?thesis
      using True cnt s1(1) stopped by (simp add: Let_def pos(1) get call)
  qed
qed

lemma log_delete_spec:
  assumes "log_inv (log s)" and "lg_size (log s) \<le> 2 ^ 31" and "0 < idx"
  shows "rok (log_delete s idx) (\<lambda>(e, s'). same_but_log s s' \<and> deleted_to idx e (log s) (log s'))"
  using log_delete_loop_spec [OF assms(1,2) refl, of idx]
    log_delete_loop_spec [OF assms(1,2) refl, of "lg_base (log s)"] assms(3)
  by (auto simp: log_delete_def Let_def deleted_to_def)

section \<open>The server's wrappers\<close>

text \<open>Every field of \<open>same_core\<close> but the log and the index of the pending configuration change.\<close>

definition same_but_cfg :: "'u raft_server \<Rightarrow> 'u raft_server \<Rightarrow> bool" where
  "same_but_cfg s s' \<longleftrightarrow>
     same_but_log (s\<lparr>voting_cfg_change_log_idx := voting_cfg_change_log_idx s'\<rparr>) s'"

lemma same_but_cfg_refl [simp]: "same_but_cfg s s"
  by (simp add: same_but_cfg_def)

lemma same_but_cfg_trans [trans]: "same_but_cfg s s' \<Longrightarrow> same_but_cfg s' s'' \<Longrightarrow> same_but_cfg s s''"
  by (simp add: same_but_cfg_def same_but_log_def same_core_def)

lemma same_but_log_cfg: "same_but_log (s\<lparr>voting_cfg_change_log_idx := v\<rparr>) s' \<Longrightarrow> same_but_cfg s s'"
  by (simp add: same_but_cfg_def same_but_log_def same_core_def)

lemma same_but_log_cfg': "same_but_log s s' \<Longrightarrow> same_but_cfg s s'"
  by (simp add: same_but_cfg_def same_but_log_def same_core_def)

lemma same_but_cfgD:
  assumes "same_but_cfg s s'"
  shows "current_term s' = current_term s" "voted_for s' = voted_for s" "commit_idx s' = commit_idx s"
    "last_applied_idx s' = last_applied_idx s" "state s' = state s" "cb s' = cb s"
    "snapshot_last_idx s' = snapshot_last_idx s" "snapshot_last_term s' = snapshot_last_term s"
    "snapshot_in_progress s' = snapshot_in_progress s" "current_leader s' = current_leader s"
    "election_timeout s' = election_timeout s" "timeout_elapsed s' = timeout_elapsed s"
  using assms by (simp_all add: same_but_cfg_def same_but_log_def same_core_def)

lemma raft_append_entry_data:
  assumes "log_inv (log s)"
  shows "rok (raft_append_entry s ety) (\<lambda>(e, s'). same_but_cfg s s' \<and>
    (e = 0 \<longrightarrow> log_becomes (log s) (log s') (log_list (log s) @ [ety\<lparr>ety_data := offered_data s ety\<rparr>])) \<and>
    (e \<noteq> 0 \<longrightarrow> log_becomes (log s) (log s') (log_list (log s))))"
proof -
  define s1 where "s1 = (if raft_entry_is_voting_cfg_change ety
      then s\<lparr>voting_cfg_change_log_idx := raft_get_current_idx s\<rparr> else s)"
  have "log s1 = log s" "offered_data s1 ety = offered_data s ety" and s1: "\<And>s'. same_but_log s1 s' \<Longrightarrow> same_but_cfg s s'"
    by (auto simp: s1_def offered_data_def intro: same_but_log_cfg same_but_log_cfg' split: if_splits option.split)
  then show ?thesis
    using log_append_entry_spec [of s1 ety] assms
    by (auto simp: raft_append_entry_def s1_def [symmetric] elim!: rok_mono)
qed

lemma raft_append_entry_spec:
  assumes "log_inv (log s)"
  shows "rok (raft_append_entry s ety) (\<lambda>(e, s'). same_but_cfg s s' \<and>
    (e = 0 \<longrightarrow> (\<exists>d. log_becomes (log s) (log s') (log_list (log s) @ [ety\<lparr>ety_data := d\<rparr>]))) \<and>
    (e \<noteq> 0 \<longrightarrow> log_becomes (log s) (log s') (log_list (log s))))"
  by (rule rok_mono [OF raft_append_entry_data [OF assms]]) auto

lemma raft_delete_entry_from_idx_spec:
  assumes "log_inv (log s)" and "lg_size (log s) \<le> 2 ^ 31" and "0 \<le> commit_idx s"
  shows "rok (raft_delete_entry_from_idx s idx)
    (\<lambda>(e, s'). commit_idx s < idx \<and> same_but_cfg s s' \<and> deleted_to idx e (log s) (log s'))"
proof -
  define s1 where "s1 = (if idx \<le> voting_cfg_change_log_idx s then s\<lparr>voting_cfg_change_log_idx := -1\<rparr> else s)"
  have "log s1 = log s" and "\<And>s'. same_but_log s1 s' \<Longrightarrow> same_but_cfg s s'"
    by (auto simp: s1_def intro: same_but_log_cfg same_but_log_cfg' split: if_splits)
  then show ?thesis
    using log_delete_spec [of s1 idx] assms
    by (auto simp: raft_delete_entry_from_idx_def s1_def [symmetric] Let_def elim!: rok_mono)
qed

lemma raft_poll_entry_spec:
  assumes "log_inv (log s)"
  shows "rok (raft_poll_entry s) (\<lambda>(e, ety, s'). same_but_log s s' \<and>
    (e = 0 \<longrightarrow> log_inv (log s') \<and> log_list (log s) \<noteq> [] \<and> log_list (log s') = tl (log_list (log s)) \<and>
      lg_base (log s') = lg_base (log s) + 1 \<and> lg_size (log s') = lg_size (log s) \<and>
      lg_cb (log s') = lg_cb (log s) \<and> lg_raft (log s') = lg_raft (log s)))"
proof (cases "lg_count (log s) = 0")
  case True
  then show ?thesis by (simp add: raft_poll_entry_def log_poll_def)
next
  case False
  then have cnt: "0 < lg_count (log s)" using assms by (simp add: log_inv_def)
  then have "log_list (log s) \<noteq> []" by (simp add: log_list_eq_Nil [OF assms])
  have "rok (log_poll (log s) (cb s) (udata s)) (\<lambda>(e, ety, me, u). e = 0 \<longrightarrow>
      log_inv me \<and> log_list me = tl (log_list (log s)) \<and> lg_base me = lg_base (log s) + 1 \<and>
      lg_size me = lg_size (log s) \<and> lg_cb me = lg_cb (log s) \<and> lg_raft me = lg_raft (log s))"
    by (rule rokI, clarify) (intro conjI; rule log_poll_spec [OF assms cnt], assumption)
  then show ?thesis
    unfolding raft_poll_entry_def using \<open>log_list (log s) \<noteq> []\<close>
    by (auto simp: Let_def elim!: rok_mono)
qed

section \<open>Entries that are not configuration changes cannot stop the program\<close>

lemma raft_append_entry_normal:
  assumes "log_inv (log s)" and "\<not> raft_entry_is_cfg_change ety"
  shows "rsafe (raft_append_entry s ety) (\<lambda>_. True)"
proof -
  have cfg: "\<not> raft_entry_is_voting_cfg_change ety"
    using assms(2) by (auto simp: raft_entry_is_cfg_change_def raft_entry_is_voting_cfg_change_def)
  have hook: "raft_offer_log t (ety\<lparr>ety_data := d\<rparr>) i = Inr t" for t :: "'a raft_server" and d i
    using assms(2) by (simp add: raft_offer_log_def raft_entry_is_cfg_change_def)
  obtain e me s1 where cap: "ensurecapacity (log s) s = Inr (e, me, s1)" "log_inv me"
      "e = 0 \<Longrightarrow> lg_count me < lg_size me"
    using ensurecapacity_spec [OF assms(1), of s] by metis
  have bump: "rsafe (log_bump (me\<lparr>lg_entries := (lg_entries me)[nat (lg_back me) := x]\<rparr>)) (\<lambda>_. True)"
    if "e = 0" for x
    using log_write_bump [OF cap(2) cap(3) [OF that], of x]
    by (auto simp: log_write_back_spec [OF cap(2)] elim: rsafe_mono)
  show ?thesis
    using bump
    by (auto simp: raft_append_entry_def cfg log_append_entry_def cap(1) log_write_back_spec cap(2)
        log_inv_set_cell hook Let_def split: option.splits prod.splits)
qed

lemma raft_entry_is_cfg_change_key:
  "ety_key a = ety_key b \<Longrightarrow> raft_entry_is_cfg_change a = raft_entry_is_cfg_change b"
  by (simp add: ety_key_def raft_entry_is_cfg_change_def)

lemma log_pop_call_key: "log_pop_call s pos ety i = (e, ety1, s1) \<Longrightarrow> ety_key ety1 = ety_key ety"
  by (auto simp: log_pop_call_def split: option.splits prod.splits if_splits)

lemma log_delete_loop_normal:
  "log_inv (log s) \<Longrightarrow> lg_size (log s) \<le> 2 ^ 31 \<Longrightarrow> n = nat (lg_count (log s)) \<Longrightarrow>
   \<forall>e \<in> set (log_list (log s)). \<not> raft_entry_is_cfg_change e \<Longrightarrow>
   \<exists>e s'. log_delete_loop n s idx = Inr (e, s')"
proof (induction n arbitrary: s)
  case (Suc n)
  then have cnt: "0 < lg_count (log s)" by linarith
  show ?case
  proof (cases "idx \<le> lg_base (log s) + lg_count (log s)")
    case True
    obtain pos where pos: "log_last_pos (log s) = Inr pos" "0 \<le> pos" "pos < lg_size (log s)"
        "lg_entries (log s) ! nat pos = last (log_list (log s))"
        "log_inv (log_pop_back (log s) pos)" "log_list (log_pop_back (log s) pos) = butlast (log_list (log s))"
      using log_pop_back_spec [OF Suc.prems(1) cnt Suc.prems(2)] by metis
    have get: "arr_get (lg_entries (log s)) pos = Inr (lg_entries (log s) ! nat pos)"
      using Suc.prems(1) pos(2,3) by (simp add: log_inv_def)
    have ne: "log_list (log s) \<noteq> []" using cnt by (simp add: log_list_eq_Nil [OF Suc.prems(1)])
    obtain e ety1 s1 where call: "log_pop_call s pos (lg_entries (log s) ! nat pos)
        (lg_base (log s) + lg_count (log s)) = (e, ety1, s1)"
      by (metis prod_cases3)
    obtain x where s1: "log s1 = (log s)\<lparr>lg_entries := (lg_entries (log s))[nat pos := x]\<rparr>"
      using log_pop_call_spec(2) [OF refl call] by blast
    have "\<not> raft_entry_is_cfg_change (last (log_list (log s)))" using Suc.prems(4) ne by simp
    then have normal: "\<not> raft_entry_is_cfg_change ety1"
      using raft_entry_is_cfg_change_key [OF log_pop_call_key [OF call]] pos(4) by simp
    have hook: "log_pop_hook s1 ety1 i = Inr s1" for i
      using normal by (simp add: log_pop_hook_def raft_pop_log_def)
    define s3 where "s3 = s1\<lparr>log := log_pop_back (log s1) pos\<rparr>"
    have "log_inv (log s3)" "log_list (log s3) = butlast (log_list (log s))"
      using log_pop_back_set [OF Suc.prems(1) cnt pos(5), of x] pos(6) by (simp_all add: s3_def s1)
    moreover have "n = nat (lg_count (log s3))" "lg_size (log s3) \<le> 2 ^ 31"
      using Suc.prems(2,3) by (auto simp: s3_def s1 log_pop_back_def)
    ultimately have "\<exists>e s'. log_delete_loop n s3 idx = Inr (e, s')"
      using Suc.prems(4) in_set_butlastD by (intro Suc.IH) fastforce+
    then show ?thesis
      using True cnt by (auto simp: Let_def pos(1) get call hook s3_def)
  qed simp
qed simp

lemma raft_delete_entry_normal:
  assumes "log_inv (log s)" and "lg_size (log s) \<le> 2 ^ 31" and "commit_idx s < idx"
    and "\<forall>e \<in> set (log_list (log s)). \<not> raft_entry_is_cfg_change e"
  shows "\<exists>e s'. raft_delete_entry_from_idx s idx = Inr (e, s')"
proof -
  define s1 where "s1 = (if idx \<le> voting_cfg_change_log_idx s then s\<lparr>voting_cfg_change_log_idx := -1\<rparr> else s)"
  have "log s1 = log s" by (simp add: s1_def)
  then have "\<exists>e s'. log_delete_loop (nat (lg_count (log s1))) s1 i = Inr (e, s')" for i
    using assms by (intro log_delete_loop_normal) simp_all
  then show ?thesis
    using assms(3) by (auto simp: raft_delete_entry_from_idx_def s1_def [symmetric] log_delete_def Let_def)
qed

end
