(* ===== verification/Raft_Send.thy ===== *)
theory Raft_Send
  imports Raft_Log_Ops
begin

text \<open>
  The messages a server sends (\<^verbatim>\<open>raft_send_requestvote\<close>, \<^verbatim>\<open>raft_send_appendentries\<close> and
  \<^verbatim>\<open>raft_send_appendentries_all\<close> of \<^verbatim>\<open>raft/raft_server.c\<close>). The lemmas state what a message
  carries, that sending changes nothing but the user's state, and that it cannot fault on a
  well-formed server.
\<close>

section \<open>Operations\<close>

definition raft_send_requestvote :: "'u raft_server \<Rightarrow> node_ref option \<Rightarrow> fault + int \<times> 'u raft_server" where
  "raft_send_requestvote s node =
     rbind (rassert (node \<noteq> None)) (\<lambda>_.
     rbind (rassert (node \<noteq> me_node s)) (\<lambda>_.
     rbind (raft_get_last_log_term s) (\<lambda>lt.
     rbind (raft_get_nodeid s) (\<lambda>me_id.
     let rv = \<lparr>rv_term = current_term s, rv_candidate_id = me_id,
               rv_last_log_idx = raft_get_current_idx s, rv_last_log_term = lt\<rparr> in
     case send_requestvote (cb s) of
       None \<Rightarrow> Inr (0, s)
     | Some f \<Rightarrow>
         rbind (deref s node) (\<lambda>n.
         case f (udata s) n rv of (e, u) \<Rightarrow> Inr (e, s\<lparr>udata := u\<rparr>))))))"

text \<open>The index and term of the entry before the ones sent.\<close>

definition ae_prev :: "'u raft_server \<Rightarrow> int \<Rightarrow> fault + int \<times> int" where
  "ae_prev s nxt =
     (if 1 < nxt then
        rbind (raft_get_entry_from_idx s (nxt - 1)) (\<lambda>prev_ety.
        case prev_ety of
          None \<Rightarrow> Inr (snapshot_last_idx s, snapshot_last_term s)
        | Some p \<Rightarrow> Inr (nxt - 1, ety_term p))
      else Inr (0, 0))"

definition raft_send_appendentries :: "'u raft_server \<Rightarrow> node_ref option \<Rightarrow> fault + int \<times> 'u raft_server" where
  "raft_send_appendentries s node =
     rbind (rassert (node \<noteq> None)) (\<lambda>_.
     rbind (rassert (node \<noteq> me_node s)) (\<lambda>_.
     case send_appendentries (cb s) of
       None \<Rightarrow> Inr (-1, s)
     | Some f \<Rightarrow>
         rbind (deref s node) (\<lambda>n.
         let nxt = raft_node_get_next_idx n in
         if 0 < snapshot_last_idx s \<and> nxt < snapshot_last_idx s then
           (case send_snapshot (cb s) of
              None \<Rightarrow> Inr (RAFT_ERR_NEEDS_SNAPSHOT, s)
            | Some g \<Rightarrow> (case g (udata s) n of (_, u) \<Rightarrow> Inr (RAFT_ERR_NEEDS_SNAPSHOT, s\<lparr>udata := u\<rparr>)))
         else
           rbind (raft_get_entries_from_idx s nxt) (\<lambda>(es, n_es).
           rbind (rassert (es = None \<and> 0 = n_es \<or> es \<noteq> None \<and> 0 < n_es)) (\<lambda>_.
           rbind (ae_prev s nxt) (\<lambda>(pidx, ptrm).
           let ae = \<lparr>ae_term = current_term s, ae_prev_log_idx = pidx, ae_prev_log_term = ptrm,
                     ae_leader_commit = raft_get_commit_idx s,
                     ae_entries = (case es of None \<Rightarrow> [] | Some l \<Rightarrow> l)\<rparr> in
           case f (udata s) n ae of (e, u) \<Rightarrow> Inr (e, s\<lparr>udata := u\<rparr>)))))))"

text \<open>\<^verbatim>\<open>me->node == node || !raft_node_is_active(node)\<close>, the test of the sending loops.\<close>

definition skip_node :: "'u raft_server \<Rightarrow> node_ref \<Rightarrow> fault + bool" where
  "skip_node s r =
     (if me_node s = Some r then Inr True
      else rbind (deref s (Some r)) (\<lambda>n. Inr (\<not> raft_node_is_active n)))"

primrec send_all_loop :: "'u raft_server \<Rightarrow> node_ref list \<Rightarrow> fault + int \<times> 'u raft_server" where
  "send_all_loop s [] = Inr (0, s)"
| "send_all_loop s (r # rs) =
     rbind (skip_node s r) (\<lambda>skip.
     if skip then send_all_loop s rs
     else
       rbind (raft_send_appendentries s (Some r)) (\<lambda>(e, s1).
       if e \<noteq> 0 then Inr (e, s1) else send_all_loop s1 rs))"

definition raft_send_appendentries_all :: "'u raft_server \<Rightarrow> fault + int \<times> 'u raft_server" where
  "raft_send_appendentries_all s =
     (let s1 = s\<lparr>timeout_elapsed := 0\<rparr> in send_all_loop s1 (nodes s1))"

section \<open>Sending changes the user's state only\<close>

definition same_but_udata :: "'u raft_server \<Rightarrow> 'u raft_server \<Rightarrow> bool" where
  "same_but_udata s s' \<longleftrightarrow> (\<exists>u. s' = s\<lparr>udata := u\<rparr>)"

lemma same_but_udata_refl [simp]: "same_but_udata s s"
  unfolding same_but_udata_def by (rule exI [of _ "udata s"]) simp

lemma same_but_udata_upd [simp]: "same_but_udata s (s\<lparr>udata := u\<rparr>)"
  by (auto simp: same_but_udata_def)

lemma same_but_udata_trans [trans]: "same_but_udata s s' \<Longrightarrow> same_but_udata s' s'' \<Longrightarrow> same_but_udata s s''"
  by (auto simp: same_but_udata_def)

lemma same_but_udata_core: "same_but_udata s s' \<Longrightarrow> same_core s s'"
  by (auto simp: same_but_udata_def)

lemma same_but_udataD:
  "same_but_udata s s' \<Longrightarrow> heap s' = heap s" "same_but_udata s s' \<Longrightarrow> nodes s' = nodes s"
  "same_but_udata s s' \<Longrightarrow> me_node s' = me_node s" "same_but_udata s s' \<Longrightarrow> log s' = log s"
  "same_but_udata s s' \<Longrightarrow> nodes_inv s' = nodes_inv s"
  by (auto simp: same_but_udata_def)

lemma raft_send_requestvote_frame [frame]:
  "rok (raft_send_requestvote s node) (\<lambda>(_, s'). same_but_udata s s')"
  by (auto simp: raft_send_requestvote_def Let_def intro!: rok_all split: option.splits prod.splits)

lemma raft_send_appendentries_frame [frame]:
  "rok (raft_send_appendentries s node) (\<lambda>(_, s'). same_but_udata s s')"
  by (auto simp: raft_send_appendentries_def Let_def intro!: rok_all split: option.splits prod.splits)

lemma send_all_loop_frame [frame]: "rok (send_all_loop s rs) (\<lambda>(_, s'). same_but_udata s s')"
proof (induction rs arbitrary: s)
  case (Cons r rs)
  have later: "rok (send_all_loop s1 rs) (\<lambda>(_, s'). same_but_udata s s')" if "same_but_udata s s1" for s1
    by (rule rok_mono [OF Cons.IH]) (use that in \<open>auto intro: same_but_udata_trans\<close>)
  have "rok (raft_send_appendentries s (Some r)) (\<lambda>(e, s1). same_but_udata s s1 \<and>
      rok (send_all_loop s1 rs) (\<lambda>(_, s'). same_but_udata s s'))"
    by (rule rok_mono [OF raft_send_appendentries_frame]) (use later in auto)
  then have "rok (raft_send_appendentries s (Some r)) (\<lambda>(e, s1).
      rok (if e \<noteq> 0 then Inr (e, s1) else send_all_loop s1 rs) (\<lambda>(_, s'). same_but_udata s s'))"
    by (rule rok_mono) auto
  then show ?case using Cons.IH [of s] by (auto simp: case_prod_unfold intro!: rok_all)
qed simp

section \<open>Sending cannot fault\<close>

text \<open>
  The part of the invariant that sending needs: a well-formed log that fits in a C \<^verbatim>\<open>int\<close>, and
  peers whose next index is positive.
\<close>

definition peers_ok :: "'u raft_server \<Rightarrow> bool" where
  "peers_ok s \<longleftrightarrow> (\<forall>r \<in> set (nodes s). 1 \<le> next_idx (node_of s r) \<and> 0 \<le> match_idx (node_of s r))"

lemma raft_get_entry_total [simp]:
  "log_inv (log s) \<Longrightarrow> raft_get_entry_from_idx s i = Inr (list_at (lg_base (log s)) (log_list (log s)) i)"
  by (simp add: raft_get_entry_from_idx_def log_get_at_idx_spec)

lemma raft_get_last_log_term_total: "log_inv (log s) \<Longrightarrow> rsafe (raft_get_last_log_term s) (\<lambda>_. True)"
  by (simp add: raft_get_last_log_term_def Let_def split: option.split)

lemma ae_prev_total: "log_inv (log s) \<Longrightarrow> rsafe (ae_prev s i) (\<lambda>_. True)"
  by (simp add: ae_prev_def split: option.split)

lemma raft_send_requestvote_total:
  assumes "log_inv (log s)" and "nodes_inv s" and "r \<in> set (nodes s)" and "me_node s \<noteq> Some r"
  shows "rsafe (raft_send_requestvote s (Some r)) (\<lambda>(_, s'). same_but_udata s s')"
proof -
  obtain n where "deref s (Some r) = Inr n" using assms(2,3) by (simp add: deref_node)
  then show ?thesis
    using assms raft_get_last_log_term_total [OF assms(1)]
    by (auto simp: raft_send_requestvote_def raft_get_nodeid_spec Let_def rsafe_iff
        split: option.splits prod.splits)
qed

lemma raft_send_appendentries_total:
  assumes "log_inv (log s)" and "lg_size (log s) < 2 ^ 31" and "nodes_inv s"
    and "1 \<le> next_idx (node_of s r)" and "r \<in> set (nodes s)" and "me_node s \<noteq> Some r"
  shows "rsafe (raft_send_appendentries s (Some r)) (\<lambda>(_, s'). same_but_udata s s')"
proof -
  define n where "n = node_of s r"
  have n: "deref s (Some r) = Inr n" "1 \<le> next_idx n"
    using assms(3-5) by (auto simp: deref_node n_def)
  have "rsafe (raft_get_entries_from_idx s (next_idx n))
      (\<lambda>(es, k). es = None \<and> 0 = k \<or> es \<noteq> None \<and> 0 < k)"
    using log_get_from_idx_spec [OF assms(1) n(2) assms(2)] by (auto simp: raft_get_entries_from_idx_def)
  moreover have "rsafe (ae_prev s (next_idx n)) (\<lambda>_. True)" by (rule ae_prev_total [OF assms(1)])
  ultimately show ?thesis
    using assms(6) n
    by (auto simp: raft_send_appendentries_def raft_node_get_next_idx_def Let_def rsafe_iff
        split: option.splits prod.splits)
qed

section \<open>What an appendentries message carries\<close>

text \<open>
  The entries of a message are consecutive entries of the log from the peer's next index on,
  and the previous index and term are those of the entry right before them, or of the
  snapshot when that entry has been compacted away.
\<close>

definition ae_sound :: "'u raft_server \<Rightarrow> int \<Rightarrow> msg_appendentries \<Rightarrow> bool" where
  "ae_sound s nxt ae \<longleftrightarrow>
     ae_term ae = current_term s \<and> ae_leader_commit ae = commit_idx s \<and>
     (\<forall>k < length (ae_entries ae).
        list_at (lg_base (log s)) (log_list (log s)) (nxt + int k) = Some (ae_entries ae ! k)) \<and>
     (ae_entries ae = [] \<longleftrightarrow> list_at (lg_base (log s)) (log_list (log s)) nxt = None) \<and>
     (if nxt = 1 then ae_prev_log_idx ae = 0 \<and> ae_prev_log_term ae = 0
      else case list_at (lg_base (log s)) (log_list (log s)) (nxt - 1) of
        Some p \<Rightarrow> ae_prev_log_idx ae = nxt - 1 \<and> ae_prev_log_term ae = ety_term p
      | None \<Rightarrow> ae_prev_log_idx ae = snapshot_last_idx s \<and> ae_prev_log_term ae = snapshot_last_term s)"

text \<open>
  A recording callback: the message handed to \<^verbatim>\<open>send_appendentries\<close>, seen through a user state
  that keeps the last message.
\<close>

definition record_ae :: "msg_appendentries option \<Rightarrow> raft_node \<Rightarrow> msg_appendentries \<Rightarrow>
    int \<times> msg_appendentries option" where
  "record_ae u n ae = (0, Some ae)"

lemma list_at_suffix:
  assumes "k < length (take n (drop (nat (i - b - 1)) es))" and "b < i"
  shows "list_at b es (i + int k) = Some (take n (drop (nat (i - b - 1)) es) ! k)"
proof -
  have "nat (i + int k - b - 1) = nat (i - b - 1) + k" using assms(2) by simp
  with assms show ?thesis by (auto simp: list_at_def)
qed

lemma ae_sound_sent:
  assumes inv: "log_inv (log s)" and small: "lg_size (log s) < 2 ^ 31" and "nodes_inv s" and "peers_ok s"
    and "r \<in> set (nodes s)" and "me_node s \<noteq> Some r"
    and "send_appendentries (cb s) = Some record_ae"
    and "\<not> (0 < snapshot_last_idx s \<and> next_idx (node_of s r) < snapshot_last_idx s)"
  shows "\<exists>ae. raft_send_appendentries s (Some r) = Inr (0, s\<lparr>udata := Some ae\<rparr>) \<and>
    ae_sound s (next_idx (node_of s r)) ae"
proof -
  define n where "n = node_of s r"
  define i where "i = next_idx n"
  have n: "deref s (Some r) = Inr n" and i: "1 \<le> i"
    using assms(3-5) by (auto simp: deref_node n_def peers_ok_def i_def)
  obtain es k where get: "raft_get_entries_from_idx s i = Inr (es, k)"
      and ok: "es = None \<and> 0 = k \<or> es \<noteq> None \<and> 0 < k"
      and carried: "\<forall>j < length (case es of None \<Rightarrow> [] | Some l \<Rightarrow> l).
        list_at (lg_base (log s)) (log_list (log s)) (i + int j) = Some ((case es of None \<Rightarrow> [] | Some l \<Rightarrow> l) ! j)"
      and none: "(case es of None \<Rightarrow> [] | Some l \<Rightarrow> l) = [] \<longleftrightarrow>
        list_at (lg_base (log s)) (log_list (log s)) i = None"
    using log_get_from_idx_spec [OF inv i small]
  proof (elim disjE exE conjE)
    fix m assume g: "log_get_from_idx (log s) i =
        Inr (Some (take m (drop (nat (i - lg_base (log s) - 1)) (log_list (log s)))), int m)"
      and m: "0 < m" "list_at (lg_base (log s)) (log_list (log s)) i \<noteq> None"
    have b: "lg_base (log s) < i" "i \<le> lg_base (log s) + lg_count (log s)"
      using m(2) inv by (auto simp: list_at_def log_inv_def split: if_splits)
    show thesis
      by (rule that [of "Some (take m (drop (nat (i - lg_base (log s) - 1)) (log_list (log s))))" "int m"])
        (use g m b list_at_suffix [OF _ b(1)] in \<open>auto simp: raft_get_entries_from_idx_def\<close>)
  qed (auto simp: raft_get_entries_from_idx_def intro: that [of None 0])
  obtain pidx ptrm where prev: "ae_prev s i = Inr (pidx, ptrm)"
      "if i = 1 then pidx = 0 \<and> ptrm = 0
       else case list_at (lg_base (log s)) (log_list (log s)) (i - 1) of
         Some p \<Rightarrow> pidx = i - 1 \<and> ptrm = ety_term p
       | None \<Rightarrow> pidx = snapshot_last_idx s \<and> ptrm = snapshot_last_term s"
    using inv i by (cases "i = 1"; cases "list_at (lg_base (log s)) (log_list (log s)) (i - 1)")
      (simp_all add: ae_prev_def)
  define ae where "ae = \<lparr>ae_term = current_term s, ae_prev_log_idx = pidx, ae_prev_log_term = ptrm,
      ae_leader_commit = commit_idx s, ae_entries = (case es of None \<Rightarrow> [] | Some l \<Rightarrow> l)\<rparr>"
  have some: "Some r \<noteq> me_node s" using assms(6) by simp
  have need: "\<not> (0 < snapshot_last_idx s \<and> raft_node_get_next_idx n < snapshot_last_idx s)"
    using assms(8) by (simp add: n_def raft_node_get_next_idx_def)
  have get': "raft_get_entries_from_idx s (raft_node_get_next_idx n) = Inr (es, k)"
    and prev': "ae_prev s (raft_node_get_next_idx n) = Inr (pidx, ptrm)"
    using get prev(1) by (simp_all add: i_def raft_node_get_next_idx_def)
  have "raft_send_appendentries s (Some r) = Inr (0, s\<lparr>udata := Some ae\<rparr>)"
    using ok unfolding raft_send_appendentries_def assms(7)
    by (simp add: some n Let_def need get' prev' record_ae_def ae_def)
  moreover have "ae_sound s i ae"
  proof -
    have ae: "ae_term ae = current_term s" "ae_leader_commit ae = commit_idx s" "ae_prev_log_idx ae = pidx"
        "ae_prev_log_term ae = ptrm" "ae_entries ae = (case es of None \<Rightarrow> [] | Some l \<Rightarrow> l)"
      by (simp_all add: ae_def)
    show ?thesis
      unfolding ae_sound_def ae using carried none prev(2) by blast
  qed
  ultimately show ?thesis by (auto simp: i_def n_def)
qed

end
