(* ===== verification/Raft_Election.thy ===== *)
theory Raft_Election
  imports Raft_Send
begin

text \<open>
  Elections (\<^verbatim>\<open>raft/raft_server.c\<close>): the three roles and the transitions between them, voting,
  and the handlers of requestvote messages and their responses. The lemmas show that terms
  only grow, that a server votes at most once in a term, to whom it gives its vote, when a
  candidate becomes leader, and that the handlers do not fault on a well-formed server.
\<close>

section \<open>Voting\<close>

definition raft_already_voted :: "'u raft_server \<Rightarrow> bool" where
  "raft_already_voted s \<longleftrightarrow> voted_for s \<noteq> -1"

definition raft_vote_for_nodeid :: "'u raft_server \<Rightarrow> int \<Rightarrow> int \<times> 'u raft_server" where
  "raft_vote_for_nodeid s nodeid =
     (case persist_vote (cb s) of
        None \<Rightarrow> (0, s\<lparr>voted_for := nodeid\<rparr>)
      | Some f \<Rightarrow>
          (case f (udata s) nodeid of (e, u) \<Rightarrow>
             if e \<noteq> 0 then (e, s\<lparr>udata := u\<rparr>)
             else (0, s\<lparr>udata := u, voted_for := nodeid\<rparr>)))"

definition raft_vote :: "'u raft_server \<Rightarrow> node_ref option \<Rightarrow> fault + int \<times> 'u raft_server" where
  "raft_vote s node =
     (case node of
        None \<Rightarrow> Inr (raft_vote_for_nodeid s (-1))
      | Some r \<Rightarrow> rbind (deref s (Some r)) (\<lambda>n. Inr (raft_vote_for_nodeid s (raft_node_get_id n))))"

primrec nvotes_loop :: "'u raft_server \<Rightarrow> node_ref list \<Rightarrow> int \<Rightarrow> fault + int" where
  "nvotes_loop s [] votes = Inr votes"
| "nvotes_loop s (r # rs) votes =
     (if me_node s = Some r then nvotes_loop s rs votes
      else
        rbind (deref s (Some r)) (\<lambda>n.
        nvotes_loop s rs
          (if raft_node_is_active n \<and> raft_node_is_voting n \<and> raft_node_has_vote_for_me n
           then votes + 1 else votes)))"

definition raft_get_nvotes_for_me :: "'u raft_server \<Rightarrow> fault + int" where
  "raft_get_nvotes_for_me s =
     rbind (nvotes_loop s (nodes s) 0) (\<lambda>votes.
     rbind (raft_get_nodeid s) (\<lambda>me_id.
     Inr (if voted_for s = me_id then votes + 1 else votes)))"

definition raft_votes_is_majority :: "int \<Rightarrow> int \<Rightarrow> bool" where
  "raft_votes_is_majority num_nodes nvotes \<longleftrightarrow>
     \<not> num_nodes < nvotes \<and> num_nodes sdiv 2 + 1 \<le> nvotes"

section \<open>Roles\<close>

definition raft_become_follower :: "'u raft_server \<Rightarrow> fault + 'u raft_server" where
  "raft_become_follower s =
     rbind (raft_randomize_election_timeout (raft_set_state s RAFT_STATE_FOLLOWER)) (\<lambda>s1.
     Inr (s1\<lparr>timeout_elapsed := 0\<rparr>))"

primrec become_leader_loop :: "'u raft_server \<Rightarrow> node_ref list \<Rightarrow> fault + 'u raft_server" where
  "become_leader_loop s [] = Inr s"
| "become_leader_loop s (r # rs) =
     rbind (skip_node s r) (\<lambda>skip.
     if skip then become_leader_loop s rs
     else
       rbind (mod_node s (Some r) (\<lambda>n. raft_node_set_next_idx n (raft_get_current_idx s + 1))) (\<lambda>s1.
       rbind (mod_node s1 (Some r) (\<lambda>n. raft_node_set_match_idx n 0)) (\<lambda>s2.
       rbind (raft_send_appendentries s2 (Some r)) (\<lambda>(_, s3). become_leader_loop s3 rs))))"

definition raft_become_leader :: "'u raft_server \<Rightarrow> fault + 'u raft_server" where
  "raft_become_leader s =
     (let s1 = (raft_set_state s RAFT_STATE_LEADER)\<lparr>timeout_elapsed := 0\<rparr>
      in become_leader_loop s1 (nodes s1))"

primrec forget_votes_loop :: "'u raft_server \<Rightarrow> node_ref list \<Rightarrow> fault + 'u raft_server" where
  "forget_votes_loop s [] = Inr s"
| "forget_votes_loop s (r # rs) =
     rbind (mod_node s (Some r) (\<lambda>n. raft_node_vote_for_me n False)) (\<lambda>s1. forget_votes_loop s1 rs)"

primrec request_votes_loop :: "'u raft_server \<Rightarrow> node_ref list \<Rightarrow> fault + 'u raft_server" where
  "request_votes_loop s [] = Inr s"
| "request_votes_loop s (r # rs) =
     (if me_node s = Some r then request_votes_loop s rs
      else
        rbind (deref s (Some r)) (\<lambda>n.
        if raft_node_is_active n \<and> raft_node_is_voting n
        then rbind (raft_send_requestvote s (Some r)) (\<lambda>(_, s1). request_votes_loop s1 rs)
        else request_votes_loop s rs))"

definition raft_become_candidate :: "'u raft_server \<Rightarrow> fault + int \<times> 'u raft_server" where
  "raft_become_candidate s =
     (case raft_set_current_term s (raft_get_current_term s + 1) of (e, s1) \<Rightarrow>
      if e \<noteq> 0 then Inr (e, s1)
      else
        rbind (forget_votes_loop s1 (nodes s1)) (\<lambda>s2.
        rbind (raft_vote s2 (me_node s2)) (\<lambda>(_, s3).
        rbind (raft_randomize_election_timeout
                 (raft_set_state (s3\<lparr>current_leader := None\<rparr>) RAFT_STATE_CANDIDATE)) (\<lambda>s4.
        let s5 = s4\<lparr>timeout_elapsed := 0\<rparr> in
        rbind (request_votes_loop s5 (nodes s5)) (\<lambda>s6. Inr (0, s6))))))"

definition raft_election_start :: "'u raft_server \<Rightarrow> fault + int \<times> 'u raft_server" where
  "raft_election_start s = raft_become_candidate s"

section \<open>Handlers\<close>

definition should_grant_vote :: "'u raft_server \<Rightarrow> msg_requestvote \<Rightarrow> fault + bool" where
  "should_grant_vote s vr =
     rbind (raft_get_my_node s) (\<lambda>my.
     rbind (deref s my) (\<lambda>n.
     if \<not> raft_node_is_voting n then Inr False
     else if rv_term vr < raft_get_current_term s then Inr False
     else if raft_already_voted s then Inr False
     else
       let current_idx = raft_get_current_idx s in
       if 0 = current_idx then Inr True
       else
         rbind (raft_get_entry_from_idx s current_idx) (\<lambda>ety.
         let trm = (case ety of
                      Some e \<Rightarrow> Some (int32 (ety_term e))
                    | None \<Rightarrow> if snapshot_last_idx s = current_idx
                              then Some (int32 (snapshot_last_term s)) else None) in
         case trm of
           None \<Rightarrow> Inr False
         | Some ety_trm \<Rightarrow>
             if ety_trm < rv_last_log_term vr then Inr True
             else if rv_last_log_term vr = ety_trm \<and> current_idx \<le> rv_last_log_idx vr then Inr True
             else Inr False)))"

text \<open>The label \<^verbatim>\<open>done\<close>: the response carries the term the server ends in.\<close>

definition rv_done :: "'u raft_server \<Rightarrow> int \<Rightarrow> int \<Rightarrow> int \<times> msg_requestvote_response \<times> 'u raft_server" where
  "rv_done s e granted = (e, \<lparr>rvr_term = raft_get_current_term s, rvr_vote_granted = granted\<rparr>, s)"

text \<open>The part after the term has been adopted.\<close>

definition rv_decide ::
  "'u raft_server \<Rightarrow> node_ref option \<Rightarrow> msg_requestvote \<Rightarrow>
   fault + int \<times> msg_requestvote_response \<times> 'u raft_server" where
  "rv_decide s node vr =
     rbind (should_grant_vote s vr) (\<lambda>grant.
     if grant then
       rbind (rassert (\<not> (raft_is_leader s \<or> raft_is_candidate s))) (\<lambda>_.
       case raft_vote_for_nodeid s (rv_candidate_id vr) of (e, s1) \<Rightarrow>
       Inr (rv_done (s1\<lparr>current_leader := None, timeout_elapsed := 0\<rparr>) e (if e = 0 then 1 else 0)))
     else if node = None then Inr (rv_done s 0 RAFT_REQUESTVOTE_ERR_UNKNOWN_NODE)
     else Inr (rv_done s 0 0))"

definition raft_recv_requestvote ::
  "'u raft_server \<Rightarrow> node_ref option \<Rightarrow> msg_requestvote \<Rightarrow>
   fault + int \<times> msg_requestvote_response \<times> 'u raft_server" where
  "raft_recv_requestvote s node0 vr =
     rbind (if node0 = None then raft_get_node s (rv_candidate_id vr) else Inr node0) (\<lambda>node.
     if current_leader s \<noteq> None \<and> current_leader s \<noteq> node \<and> timeout_elapsed s < election_timeout s
     then Inr (rv_done s 0 0)
     else if raft_get_current_term s < rv_term vr then
       (case raft_set_current_term s (rv_term vr) of (e, s1) \<Rightarrow>
        if e \<noteq> 0 then Inr (rv_done s1 e 0)
        else rbind (raft_become_follower s1) (\<lambda>s2. rv_decide (s2\<lparr>current_leader := None\<rparr>) node vr))
     else rv_decide s node vr)"

text \<open>The case \<^verbatim>\<open>RAFT_REQUESTVOTE_ERR_GRANTED\<close>.\<close>

definition rvr_granted :: "'u raft_server \<Rightarrow> node_ref option \<Rightarrow> fault + int \<times> 'u raft_server" where
  "rvr_granted s node =
     rbind (if node = None then Inr s else mod_node s node (\<lambda>n. raft_node_vote_for_me n True)) (\<lambda>s1.
     rbind (raft_get_nvotes_for_me s1) (\<lambda>votes.
     rbind (raft_get_num_voting_nodes s1) (\<lambda>num.
     if raft_votes_is_majority num votes
     then rbind (raft_become_leader s1) (\<lambda>s2. Inr (0, s2))
     else Inr (0, s1))))"

definition raft_recv_requestvote_response ::
  "'u raft_server \<Rightarrow> node_ref option \<Rightarrow> msg_requestvote_response \<Rightarrow> fault + int \<times> 'u raft_server" where
  "raft_recv_requestvote_response s node r =
     (if \<not> raft_is_candidate s then Inr (0, s)
      else if raft_get_current_term s < rvr_term r then
        (case raft_set_current_term s (rvr_term r) of (e, s1) \<Rightarrow>
         if e \<noteq> 0 then Inr (e, s1)
         else rbind (raft_become_follower s1) (\<lambda>s2. Inr (0, s2\<lparr>current_leader := None\<rparr>)))
      else if raft_get_current_term s \<noteq> rvr_term r then Inr (0, s)
      else if rvr_vote_granted r = RAFT_REQUESTVOTE_ERR_GRANTED then
        rvr_granted s node
      else if rvr_vote_granted r = RAFT_REQUESTVOTE_ERR_NOT_GRANTED then Inr (0, s)
      else if rvr_vote_granted r = RAFT_REQUESTVOTE_ERR_UNKNOWN_NODE then
        rbind (raft_get_my_node s) (\<lambda>my.
        rbind (deref s my) (\<lambda>n.
        if raft_node_is_voting n \<and> connected s = RAFT_NODE_STATUS_DISCONNECTING
        then Inr (RAFT_ERR_SHUTDOWN, s) else Inr (0, s)))
      else Inl Assertion_failed)"

section \<open>What the transitions change\<close>

text \<open>
  Each transition as an explicit update of the state. Only vote marks and replication
  progress of node objects change during elections: their id, activity and voting right stay
  (\<open>shape_eq\<close>).
\<close>

definition node_shape :: "raft_node \<Rightarrow> int \<times> bool \<times> bool" where
  "node_shape n = (node_id n, raft_node_is_active n, raft_node_is_voting n)"

definition shape_eq :: "(node_ref \<rightharpoonup> raft_node) \<Rightarrow> (node_ref \<rightharpoonup> raft_node) \<Rightarrow> bool" where
  "shape_eq h h' \<longleftrightarrow> (\<forall>r. map_option node_shape (h' r) = map_option node_shape (h r))"

lemma shape_eq_refl [simp]: "shape_eq h h"
  by (simp add: shape_eq_def)

lemma shape_eq_trans [trans]: "shape_eq h h' \<Longrightarrow> shape_eq h' h'' \<Longrightarrow> shape_eq h h''"
  by (simp add: shape_eq_def)

lemma shape_eq_upd: "h r = Some n \<Longrightarrow> node_shape n' = node_shape n \<Longrightarrow> shape_eq h (h(r \<mapsto> n'))"
  by (simp add: shape_eq_def)

lemma node_shape_ops [simp]:
  "node_shape (raft_node_vote_for_me n v) = node_shape n"
  "node_shape (raft_node_set_next_idx n i) = node_shape n"
  "node_shape (raft_node_set_match_idx n i) = node_shape n"
  by (simp_all add: node_shape_def)

lemma randomize_spec:
  "rok (raft_randomize_election_timeout s) (\<lambda>s'. \<exists>k x. s' = s\<lparr>rand_no := k, election_timeout_rand := x\<rparr>)"
  by (auto simp: raft_randomize_election_timeout_def c_rand_def intro!: rok_all)

lemma raft_become_follower_spec:
  "rok (raft_become_follower s) (\<lambda>s'. \<exists>k x.
     s' = s\<lparr>state := RAFT_STATE_FOLLOWER, rand_no := k, election_timeout_rand := x, timeout_elapsed := 0\<rparr>)"
  unfolding raft_become_follower_def
  by (simp, rule rok_mono [OF randomize_spec]) (auto simp: raft_set_state_def)

lemma raft_set_current_term_cases:
  assumes "raft_set_current_term s t = (e, s')"
  obtains "t \<le> current_term s" and "e = 0" and "s' = s"
  | u where "current_term s < t" and "e \<noteq> 0" and "s' = s\<lparr>udata := u\<rparr>"
  | u where "current_term s < t" and "e = 0" and "s' = s\<lparr>udata := u, current_term := t, voted_for := -1\<rparr>"
proof (cases "persist_term (cb s)")
  case None
  then show ?thesis
    using assms that(1) that(3) [of "udata s"]
    by (simp add: raft_set_current_term_def Let_def split: if_splits)
next
  case (Some f)
  obtain e1 u where "f (udata s) t (-1) = (e1, u)" by fastforce
  with Some show ?thesis
    using assms that(1) that(2) [of u] that(3) [of u]
    by (simp add: raft_set_current_term_def Let_def split: if_splits)
qed

lemma raft_vote_for_nodeid_cases:
  assumes "raft_vote_for_nodeid s i = (e, s')"
  obtains u where "e \<noteq> 0" and "s' = s\<lparr>udata := u\<rparr>"
  | u where "e = 0" and "s' = s\<lparr>udata := u, voted_for := i\<rparr>"
proof (cases "persist_vote (cb s)")
  case None
  then show ?thesis using assms that(2) [of "udata s"] by (simp add: raft_vote_for_nodeid_def)
next
  case (Some f)
  obtain e1 u where "f (udata s) i = (e1, u)" by fastforce
  with Some show ?thesis
    using assms that(1) [of u] that(2) [of u] by (simp add: raft_vote_for_nodeid_def split: if_splits)
qed

text \<open>The loops over the peers change node objects and the user's state only.\<close>

definition peers_change :: "'u raft_server \<Rightarrow> 'u raft_server \<Rightarrow> bool" where
  "peers_change s s' \<longleftrightarrow> (\<exists>h u. s' = s\<lparr>heap := h, udata := u\<rparr> \<and> shape_eq (heap s) h)"

lemma peers_changeI: "s' = s\<lparr>heap := h, udata := u\<rparr> \<Longrightarrow> shape_eq (heap s) h \<Longrightarrow> peers_change s s'"
  unfolding peers_change_def by blast

lemma peers_changeE:
  assumes "peers_change s s'"
  obtains h u where "s' = s\<lparr>heap := h, udata := u\<rparr>" and "shape_eq (heap s) h"
  using assms unfolding peers_change_def by blast

lemma peers_change_refl [simp]: "peers_change s s"
  by (rule peers_changeI [where h = "heap s" and u = "udata s"]) simp_all

lemma peers_change_trans [trans]:
  assumes "peers_change s s'" and "peers_change s' s''"
  shows "peers_change s s''"
proof -
  obtain h u h' u' where "s' = s\<lparr>heap := h, udata := u\<rparr>" "shape_eq (heap s) h"
      "s'' = s'\<lparr>heap := h', udata := u'\<rparr>" "shape_eq (heap s') h'"
    using assms by (elim peers_changeE)
  then show ?thesis by (intro peers_changeI [where h = h' and u = u']) (auto intro: shape_eq_trans)
qed

lemma peers_change_udata:
  assumes "same_but_udata s s'"
  shows "peers_change s s'"
proof -
  obtain u where "s' = s\<lparr>udata := u\<rparr>" using assms unfolding same_but_udata_def by blast
  then show ?thesis by (intro peers_changeI [where h = "heap s" and u = u]) simp_all
qed

lemma peers_change_put:
  "heap s r = Some n \<Longrightarrow> node_shape n' = node_shape n \<Longrightarrow> peers_change s (put_node s r n')"
  by (rule peers_changeI [where h = "(heap s)(r \<mapsto> n')" and u = "udata s"])
    (simp_all add: put_node_def shape_eq_upd)

lemma peers_steps:
  assumes "peers_change s t"
  shows "(\<And>n. node_shape (f n) = node_shape n) \<Longrightarrow> (\<And>t'. peers_change s t' \<Longrightarrow> P t') \<Longrightarrow> rok (mod_node t p f) P"
    and "(\<And>e t'. peers_change s t' \<Longrightarrow> Q (e, t')) \<Longrightarrow> rok (raft_send_appendentries t p) Q"
    and "(\<And>e t'. peers_change s t' \<Longrightarrow> Q (e, t')) \<Longrightarrow> rok (raft_send_requestvote t p) Q"
proof -
  show "rok (mod_node t p f) P"
    if "\<And>n. node_shape (f n) = node_shape n" "\<And>t'. peers_change s t' \<Longrightarrow> P t'"
    using that(1)
    by (intro rokI that(2)) (auto simp: mod_node_eq_Inr intro: peers_change_trans [OF assms] peers_change_put)
  show "rok (raft_send_appendentries t p) Q" if "\<And>e t'. peers_change s t' \<Longrightarrow> Q (e, t')"
    by (rule rok_mono [OF raft_send_appendentries_frame])
      (use that assms peers_change_udata peers_change_trans in \<open>auto, blast\<close>)
  show "rok (raft_send_requestvote t p) Q" if "\<And>e t'. peers_change s t' \<Longrightarrow> Q (e, t')"
    by (rule rok_mono [OF raft_send_requestvote_frame])
      (use that assms peers_change_udata peers_change_trans in \<open>auto, blast\<close>)
qed

lemma become_leader_loop_spec: "peers_change s t \<Longrightarrow> rok (become_leader_loop t rs) (peers_change s)"
  by (induction rs arbitrary: t) (auto intro!: rokI [of "skip_node t r" for t r] peers_steps)

lemma forget_votes_loop_spec: "peers_change s t \<Longrightarrow> rok (forget_votes_loop t rs) (peers_change s)"
  by (induction rs arbitrary: t) (auto intro!: peers_steps)

lemma request_votes_loop_spec: "peers_change s t \<Longrightarrow> rok (request_votes_loop t rs) (peers_change s)"
  by (induction rs arbitrary: t) (auto intro!: rok_reads peers_steps)

text \<open>
  Everything an election leaves alone: the log and what is committed and applied, the
  callbacks, the snapshot, the membership (the timeouts' settings included).
\<close>

definition election_frame :: "'u raft_server \<Rightarrow> 'u raft_server \<Rightarrow> bool" where
  "election_frame s s' \<longleftrightarrow>
     log s' = log s \<and> commit_idx s' = commit_idx s \<and> last_applied_idx s' = last_applied_idx s \<and>
     cb s' = cb s \<and> voting_cfg_change_log_idx s' = voting_cfg_change_log_idx s \<and>
     connected s' = connected s \<and> election_timeout s' = election_timeout s \<and>
     request_timeout s' = request_timeout s \<and> snapshot_in_progress s' = snapshot_in_progress s \<and>
     snapshot_flags s' = snapshot_flags s \<and> snapshot_last_idx s' = snapshot_last_idx s \<and>
     snapshot_last_term s' = snapshot_last_term s \<and>
     saved_snapshot_last_idx s' = saved_snapshot_last_idx s \<and>
     saved_snapshot_last_term s' = saved_snapshot_last_term s \<and>
     nodes s' = nodes s \<and> nodes_stale s' = nodes_stale s \<and> me_node s' = me_node s \<and>
     next_ref s' = next_ref s \<and> shape_eq (heap s) (heap s')"

lemma election_frame_refl [simp]: "election_frame s s"
  by (simp add: election_frame_def)

lemma election_frame_trans [trans]: "election_frame s s' \<Longrightarrow> election_frame s' s'' \<Longrightarrow> election_frame s s''"
  by (auto simp: election_frame_def intro: shape_eq_trans)

lemma election_frame_upd [simp]:
  "election_frame s (t\<lparr>udata := u\<rparr>) = election_frame s t"
  "election_frame s (t\<lparr>current_term := trm\<rparr>) = election_frame s t"
  "election_frame s (t\<lparr>voted_for := v\<rparr>) = election_frame s t"
  "election_frame s (t\<lparr>state := st\<rparr>) = election_frame s t"
  "election_frame s (t\<lparr>timeout_elapsed := te\<rparr>) = election_frame s t"
  "election_frame s (t\<lparr>current_leader := cl\<rparr>) = election_frame s t"
  "election_frame s (t\<lparr>election_timeout_rand := x\<rparr>) = election_frame s t"
  "election_frame s (t\<lparr>rand_no := k\<rparr>) = election_frame s t"
  by (simp_all add: election_frame_def)

lemma peers_change_frame:
  assumes "peers_change s s'"
  shows "election_frame s s'" and "current_term s' = current_term s" and "voted_for s' = voted_for s"
    and "state s' = state s" and "current_leader s' = current_leader s"
    and "timeout_elapsed s' = timeout_elapsed s" and "election_timeout_rand s' = election_timeout_rand s"
    and "rand_seq s' = rand_seq s" and "alloc_seq s' = alloc_seq s"
  using assms by (auto elim!: peers_changeE simp: election_frame_def)

section \<open>Terms grow and a vote is given once\<close>

text \<open>
  \<open>vote_step s s'\<close>: the term does not go back, and within a term a vote that was given stays.
\<close>

definition vote_step :: "'u raft_server \<Rightarrow> 'u raft_server \<Rightarrow> bool" where
  "vote_step s s' \<longleftrightarrow>
     current_term s \<le> current_term s' \<and>
     (current_term s' = current_term s \<longrightarrow> voted_for s \<noteq> -1 \<longrightarrow> voted_for s' = voted_for s)"

lemma vote_step_refl [simp]: "vote_step s s"
  by (simp add: vote_step_def)

lemma vote_step_trans [trans]: "vote_step s s' \<Longrightarrow> vote_step s' s'' \<Longrightarrow> vote_step s s''"
  by (auto simp: vote_step_def)

lemma vote_step_same: "current_term s' = current_term s \<Longrightarrow> voted_for s' = voted_for s \<Longrightarrow> vote_step s s'"
  by (simp add: vote_step_def)

lemma raft_become_leader_spec:
  "rok (raft_become_leader s) (\<lambda>s'. election_frame s s' \<and> current_term s' = current_term s \<and>
     voted_for s' = voted_for s \<and> state s' = RAFT_STATE_LEADER \<and> current_leader s' = me_node s \<and>
     timeout_elapsed s' = 0)"
proof -
  define s1 where "s1 = (raft_set_state s RAFT_STATE_LEADER)\<lparr>timeout_elapsed := 0\<rparr>"
  have s1: "election_frame s s1" "current_term s1 = current_term s" "voted_for s1 = voted_for s"
      "state s1 = RAFT_STATE_LEADER" "current_leader s1 = me_node s" "timeout_elapsed s1 = 0"
    by (simp_all add: s1_def raft_set_state_def)
  show ?thesis
    unfolding raft_become_leader_def Let_def s1_def [symmetric]
    by (rule rok_mono [OF become_leader_loop_spec [OF peers_change_refl]])
      (use s1 in \<open>auto simp: peers_change_frame intro: election_frame_trans peers_change_frame(1)\<close>)
qed

text \<open>A new candidacy: the next term, with a vote for itself unless storing it failed.\<close>

definition became_candidate :: "'u raft_server \<Rightarrow> 'u raft_server \<Rightarrow> bool" where
  "became_candidate s s' \<longleftrightarrow>
     election_frame s s' \<and> current_term s' = current_term s + 1 \<and> state s' = RAFT_STATE_CANDIDATE \<and>
     current_leader s' = None \<and> timeout_elapsed s' = 0 \<and>
     (voted_for s' = -1 \<or> raft_get_nodeid s = Inr (voted_for s'))"

lemma raft_get_nodeid_shape:
  assumes "me_node s' = me_node s" and "shape_eq (heap s) (heap s')"
  shows "raft_get_nodeid s' = raft_get_nodeid s"
proof (cases "me_node s")
  case (Some r)
  have "map_option node_shape (heap s' r) = map_option node_shape (heap s r)"
    using assms(2) by (simp add: shape_eq_def)
  then show ?thesis
    by (cases "heap s r"; cases "heap s' r")
      (simp_all add: raft_get_nodeid_def assms(1) Some deref_def node_shape_def raft_node_get_id_def)
qed (simp add: raft_get_nodeid_def assms(1))

lemma raft_vote_self_spec:
  "rok (raft_vote s (me_node s)) (\<lambda>(e, s'). \<exists>u v. s' = s\<lparr>udata := u, voted_for := v\<rparr> \<and>
     (v = voted_for s \<or> raft_get_nodeid s = Inr v))"
proof (rule rokI, clarify)
  fix e s' assume "raft_vote s (me_node s) = Inr (e, s')"
  then obtain i where i: "raft_vote_for_nodeid s i = (e, s')" "raft_get_nodeid s = Inr i"
    by (auto simp: raft_vote_def raft_get_nodeid_def rbind_eq_Inr split: option.splits)
  from i(1) show "\<exists>u v. s' = s\<lparr>udata := u, voted_for := v\<rparr> \<and> (v = voted_for s \<or> raft_get_nodeid s = Inr v)"
  proof (cases rule: raft_vote_for_nodeid_cases)
    case (1 u)
    then show ?thesis by (intro exI [of _ u] exI [of _ "voted_for s"]) simp
  next
    case (2 u)
    then show ?thesis using i(2) by (intro exI [of _ u] exI [of _ i]) simp
  qed
qed

lemma raft_become_candidate_spec:
  "rok (raft_become_candidate s) (\<lambda>(e, s'). if e = 0 then became_candidate s s' else same_but_udata s s')"
proof (cases "raft_set_current_term s (current_term s + 1)")
  case (Pair e s1)
  from Pair show ?thesis
  proof (cases rule: raft_set_current_term_cases)
    case (3 u)
    have ask: "rok (raft_randomize_election_timeout (raft_set_state (s3\<lparr>current_leader := None\<rparr>) RAFT_STATE_CANDIDATE))
        (\<lambda>s4. \<forall>rs. rok (request_votes_loop (s4\<lparr>timeout_elapsed := 0\<rparr>) rs) (became_candidate s))"
      if s2: "peers_change s1 s2" and s3: "s3 = s2\<lparr>udata := w, voted_for := v\<rparr>"
        "v = voted_for s2 \<or> raft_get_nodeid s2 = Inr v" for s2 s3 w v
    proof (rule rok_mono [OF randomize_spec], clarify)
      fix k x rs
      define s5 where "s5 = (raft_set_state (s3\<lparr>current_leader := None\<rparr>) RAFT_STATE_CANDIDATE)
        \<lparr>rand_no := k, election_timeout_rand := x, timeout_elapsed := 0\<rparr>"
      note p = peers_change_frame [OF s2]
      have f: "election_frame s s2" using p(1) 3 by (simp add: election_frame_def)
      then have id: "raft_get_nodeid s2 = raft_get_nodeid s"
        by (intro raft_get_nodeid_shape) (simp_all add: election_frame_def)
      have "became_candidate s s5"
        using f p 3 s3 id by (auto simp: s5_def raft_set_state_def became_candidate_def)
      then show "rok (request_votes_loop ((raft_set_state (s3\<lparr>current_leader := None\<rparr>) RAFT_STATE_CANDIDATE)
          \<lparr>rand_no := k, election_timeout_rand := x, timeout_elapsed := 0\<rparr>) rs) (became_candidate s)"
        unfolding s5_def [symmetric]
        by (intro rok_mono [OF request_votes_loop_spec [OF peers_change_refl]])
          (auto simp: became_candidate_def peers_change_frame
            intro: election_frame_trans peers_change_frame(1))
    qed
    have "rok (raft_vote s2 (me_node s2)) (\<lambda>(e, s3).
        rok (raft_randomize_election_timeout (raft_set_state (s3\<lparr>current_leader := None\<rparr>) RAFT_STATE_CANDIDATE))
        (\<lambda>s4. rok (request_votes_loop (s4\<lparr>timeout_elapsed := 0\<rparr>) (nodes s4)) (became_candidate s)))"
      if "peers_change s1 s2" for s2
      by (rule rok_mono [OF raft_vote_self_spec], clarify) (rule rok_mono [OF ask [OF that refl]], auto)
    then have "rok (forget_votes_loop s1 (nodes s1)) (\<lambda>s2. rok (raft_vote s2 (me_node s2)) (\<lambda>(e, s3).
        rok (raft_randomize_election_timeout (raft_set_state (s3\<lparr>current_leader := None\<rparr>) RAFT_STATE_CANDIDATE))
        (\<lambda>s4. rok (request_votes_loop (s4\<lparr>timeout_elapsed := 0\<rparr>) (nodes s4)) (became_candidate s))))"
      by (intro rok_mono [OF forget_votes_loop_spec [OF peers_change_refl]])
    then show ?thesis
      using 3 Pair by (simp add: raft_become_candidate_def Let_def case_prod_unfold)
  qed (use Pair in \<open>auto simp: raft_become_candidate_def\<close>)
qed

lemma raft_become_candidate_vote_step:
  "rok (raft_become_candidate s) (\<lambda>(e, s'). election_frame s s' \<and> vote_step s s')"
  by (rule rok_mono [OF raft_become_candidate_spec])
    (auto simp: became_candidate_def vote_step_def same_but_udata_def split: if_splits)

text \<open>
  The vote a candidate records, if its id is \<open>i\<close>: its own id, unless the callback that stores the
  vote, run on what the callback that stores the term left, reports an error.
\<close>

definition self_vote :: "'u raft_server \<Rightarrow> int \<Rightarrow> int" where
  "self_vote s i =
     (case persist_vote (cb s) of
        None \<Rightarrow> i
      | Some f \<Rightarrow>
          if fst (f (case persist_term (cb s) of
                       None \<Rightarrow> udata s
                     | Some g \<Rightarrow> snd (g (udata s) (current_term s + 1) (-1))) i) = 0 then i else -1)"

lemma forget_votes_udata: "rok (forget_votes_loop s rs) (\<lambda>s'. udata s' = udata s)"
proof (induction rs arbitrary: s)
  case (Cons r rs)
  have call: "rok (mod_node s (Some r) f) (\<lambda>s1. udata s1 = udata s)" for f
    by (rule rokI) (auto simp: mod_node_eq_Inr put_node_def)
  have "rok (forget_votes_loop s1 rs) (\<lambda>s'. udata s' = udata s)" if "udata s1 = udata s" for s1
    using Cons.IH [of s1] that by simp
  then show ?case by (auto intro!: rok_mono [OF call])
qed simp

lemma raft_become_candidate_vote:
  "rok (raft_become_candidate s) (\<lambda>(e, s'). e = 0 \<longrightarrow> (\<exists>i. raft_get_nodeid s = Inr i \<and> voted_for s' = self_vote s i))"
proof (rule rokI, clarify)
  fix s' assume run: "raft_become_candidate s = Inr (0, s')"
  define u where "u = (case persist_term (cb s) of None \<Rightarrow> udata s
    | Some g \<Rightarrow> snd (g (udata s) (current_term s + 1) (-1)))"
  define s1 where "s1 = s\<lparr>udata := u, current_term := current_term s + 1, voted_for := -1\<rparr>"
  have "raft_set_current_term s (current_term s + 1) = (0, s1) \<or> fst (raft_set_current_term s (current_term s + 1)) \<noteq> 0"
    by (auto simp: raft_set_current_term_def Let_def u_def s1_def split: option.splits prod.splits)
  then obtain s2 e s3 s4 where s2: "forget_votes_loop s1 (nodes s1) = Inr s2"
      and s3: "raft_vote s2 (me_node s2) = Inr (e, s3)"
      and s4: "raft_randomize_election_timeout (raft_set_state (s3\<lparr>current_leader := None\<rparr>) RAFT_STATE_CANDIDATE) = Inr s4"
      and s': "request_votes_loop (s4\<lparr>timeout_elapsed := 0\<rparr>) (nodes s4) = Inr s'"
    using run by (auto simp: raft_become_candidate_def rbind_eq_Inr Let_def split: prod.splits if_splits)
  have p: "peers_change s1 s2" using rokD [OF forget_votes_loop_spec [OF peers_change_refl] s2] .
  have "udata s2 = u" using rokD [OF forget_votes_udata s2] by (simp add: s1_def)
  moreover have "cb s2 = cb s" "voted_for s2 = -1" using p by (auto simp: peers_change_def s1_def)
  moreover have "raft_get_nodeid s2 = raft_get_nodeid s"
    using p by (intro raft_get_nodeid_shape) (auto simp: peers_change_def s1_def)
  moreover obtain i where "raft_vote_for_nodeid s2 i = (e, s3)" "raft_get_nodeid s2 = Inr i"
    using s3 by (auto simp: raft_vote_def raft_get_nodeid_def rbind_eq_Inr split: option.splits)
  ultimately have "raft_get_nodeid s = Inr i" "voted_for s3 = self_vote s i"
    by (auto simp: self_vote_def u_def raft_vote_for_nodeid_def split: option.splits prod.splits if_splits)
  moreover have "voted_for s4 = voted_for s3"
    using rokD [OF randomize_spec s4] by (auto simp: raft_set_state_def)
  moreover have "voted_for s' = voted_for s4"
    using rokD [OF request_votes_loop_spec [OF peers_change_refl] s'] by (auto simp: peers_change_def)
  ultimately show "\<exists>i. raft_get_nodeid s = Inr i \<and> voted_for s' = self_vote s i" by auto
qed

lemma raft_vote_for_nodeid_step:
  assumes "raft_vote_for_nodeid s i = (e, s')" and "voted_for s = -1"
  shows "election_frame s s'" and "vote_step s s'" and "current_term s' = current_term s"
    and "voted_for s' = (if e = 0 then i else voted_for s)" and "state s' = state s"
  using assms(1) by (cases rule: raft_vote_for_nodeid_cases; simp add: vote_step_def assms(2))+

section \<open>Whom a server votes for\<close>

text \<open>
  The term of the last entry of the log, as \<^verbatim>\<open>__should_grant_vote\<close> reads it (through an \<^verbatim>\<open>int\<close>);
  \<open>None\<close> when the log was compacted away and the snapshot does not end there.
\<close>

definition own_last_term :: "'u raft_server \<Rightarrow> int option" where
  "own_last_term s =
     (case list_at (lg_base (log s)) (log_list (log s)) (raft_get_current_idx s) of
        Some e \<Rightarrow> Some (int32 (ety_term e))
      | None \<Rightarrow> if snapshot_last_idx s = raft_get_current_idx s
                then Some (int32 (snapshot_last_term s)) else None)"

text \<open>The candidate's log is at least as up to date as the server's.\<close>

definition up_to_date :: "'u raft_server \<Rightarrow> msg_requestvote \<Rightarrow> bool" where
  "up_to_date s vr \<longleftrightarrow>
     raft_get_current_idx s = 0 \<or>
     (\<exists>t. own_last_term s = Some t \<and>
        (t < rv_last_log_term vr \<or>
         t = rv_last_log_term vr \<and> raft_get_current_idx s \<le> rv_last_log_idx vr))"

lemma should_grant_vote_spec:
  assumes "log_inv (log s)" and "nodes_inv s" and "me_node s = Some r"
  shows "should_grant_vote s vr =
    Inr (raft_node_is_voting (node_of s r) \<and> current_term s \<le> rv_term vr \<and>
         \<not> raft_already_voted s \<and> up_to_date s vr)"
proof -
  have "r \<in> set (nodes s)" using assms(2,3) by (simp add: nodes_inv_def)
  then have n: "deref s (Some r) = Inr (node_of s r)" by (rule deref_node [OF assms(2)])
  show ?thesis
    using assms(1)
    by (auto simp: should_grant_vote_def raft_get_my_node_spec [OF assms(2,3)] n Let_def
        up_to_date_def own_last_term_def split: option.splits)
qed

text \<open>A granted vote, seen without any assumption on the server.\<close>

lemma should_grant_vote_grants:
  "rok (should_grant_vote s vr) (\<lambda>g. g \<longrightarrow> current_term s \<le> rv_term vr \<and> voted_for s = -1)"
  by (auto simp: should_grant_vote_def raft_already_voted_def Let_def intro!: rok_all split: option.splits)

text \<open>A decision: nothing but the vote, the leader and the timer may change, and the term stays.\<close>

definition decided :: "'u raft_server \<Rightarrow> msg_requestvote \<Rightarrow> msg_requestvote_response \<Rightarrow> 'u raft_server \<Rightarrow> bool" where
  "decided s vr r s' \<longleftrightarrow>
     election_frame s s' \<and> vote_step s s' \<and> current_term s' = current_term s \<and>
     rvr_term r = current_term s' \<and> state s' = state s \<and>
     (rvr_vote_granted r = 1 \<longrightarrow> voted_for s = -1 \<and> voted_for s' = rv_candidate_id vr \<and>
        current_term s' \<le> rv_term vr \<and> state s \<noteq> RAFT_STATE_LEADER \<and> state s \<noteq> RAFT_STATE_CANDIDATE)"

lemma rv_decide_step: "rok (rv_decide s node vr) (\<lambda>(e, r, s'). decided s vr r s')"
proof -
  have refuse: "decided s vr \<lparr>rvr_term = current_term s, rvr_vote_granted = g\<rparr> s" if "g \<noteq> 1" for g
    using that by (simp add: decided_def)
  have grant: "decided s vr \<lparr>rvr_term = current_term s1, rvr_vote_granted = (if e = 0 then 1 else 0)\<rparr>
      (s1\<lparr>current_leader := None, timeout_elapsed := 0\<rparr>)"
    if "raft_vote_for_nodeid s (rv_candidate_id vr) = (e, s1)" "current_term s \<le> rv_term vr" "voted_for s = -1"
      "state s \<noteq> RAFT_STATE_LEADER" "state s \<noteq> RAFT_STATE_CANDIDATE" for e s1
    using raft_vote_for_nodeid_step [OF that(1,3)] that(2-5)
    by (simp add: decided_def vote_step_def split: if_splits)
  show ?thesis
    unfolding rv_decide_def rok_simps
    by (rule rok_mono [OF should_grant_vote_grants])
      (use refuse grant in \<open>auto simp: rv_done_def raft_vote_codes split: prod.splits\<close>)
qed

lemma raft_recv_requestvote_step:
  "rok (raft_recv_requestvote s node vr) (\<lambda>(e, r, s'). election_frame s s' \<and> vote_step s s' \<and>
     rvr_term r = current_term s' \<and>
     (rvr_vote_granted r = 1 \<longrightarrow> voted_for s' = rv_candidate_id vr \<and> current_term s' = rv_term vr \<and>
        (current_term s = rv_term vr \<longrightarrow> voted_for s = -1)))" (is "rok _ ?Q")
proof -
  have stay: "rok (rv_decide s node' vr) ?Q" if "\<not> current_term s < rv_term vr" for node'
    by (rule rok_mono [OF rv_decide_step]) (use that in \<open>auto simp: decided_def\<close>)
  have adopt: "rok (raft_become_follower s1) (\<lambda>s2. rok (rv_decide (s2\<lparr>current_leader := None\<rparr>) node' vr) ?Q)"
    if "current_term s < rv_term vr" "s1 = s\<lparr>udata := u, current_term := rv_term vr, voted_for := -1\<rparr>"
    for s1 u node'
  proof (rule rok_mono [OF raft_become_follower_spec], clarify)
    fix k x
    define t where "t = s1\<lparr>state := RAFT_STATE_FOLLOWER, rand_no := k, election_timeout_rand := x,
      timeout_elapsed := 0, current_leader := None\<rparr>"
    have t: "election_frame s t" "current_term t = rv_term vr" "voted_for t = -1"
      using that(2) by (simp_all add: t_def)
    show "rok (rv_decide (s1\<lparr>state := RAFT_STATE_FOLLOWER, rand_no := k, election_timeout_rand := x,
        timeout_elapsed := 0, current_leader := None\<rparr>) node' vr) ?Q"
      unfolding t_def [symmetric]
      by (rule rok_mono [OF rv_decide_step])
        (use t that(1) in \<open>auto simp: decided_def vote_step_def intro: election_frame_trans\<close>)
  qed
  show ?thesis
  proof (cases "current_term s < rv_term vr")
    case False
    then show ?thesis
      using stay by (auto simp: raft_recv_requestvote_def rv_done_def intro!: rok_all)
  next
    case True
    obtain e s1 where st: "raft_set_current_term s (rv_term vr) = (e, s1)" by fastforce
    from st show ?thesis
    proof (cases rule: raft_set_current_term_cases)
      case (2 u)
      then show ?thesis
        using True st by (auto simp: raft_recv_requestvote_def rv_done_def vote_step_def intro!: rok_all)
    next
      case (3 u)
      then show ?thesis
        using True st adopt [OF True 3(3)]
        by (auto simp: raft_recv_requestvote_def rv_done_def vote_step_def intro!: rok_reads)
    qed (use True in simp)
  qed
qed

definition responded :: "'u raft_server \<Rightarrow> 'u raft_server \<Rightarrow> bool" where
  "responded s s' \<longleftrightarrow>
     election_frame s s' \<and> vote_step s s' \<and>
     (current_term s' = current_term s \<longrightarrow> voted_for s' = voted_for s) \<and>
     (state s' = state s \<or> state s' = RAFT_STATE_FOLLOWER \<or> state s' = RAFT_STATE_LEADER)"

lemma rvr_granted_step: "rok (rvr_granted s node) (\<lambda>(e, s'). responded s s')"
proof -
  have lead: "rok (raft_become_leader s1) (responded s)" if "peers_change s s1" for s1
    using peers_change_frame [OF that]
    by (intro rok_mono [OF raft_become_leader_spec])
      (auto simp: responded_def vote_step_def intro: election_frame_trans)
  have keep: "responded s s1" if "peers_change s s1" for s1
    using peers_change_frame [OF that] by (simp add: responded_def vote_step_def)
  have "rok (if node = None then Inr s else mod_node s node (\<lambda>n. raft_node_vote_for_me n True)) (peers_change s)"
    by (auto intro!: peers_steps)
  then show ?thesis
    unfolding rvr_granted_def rok_simps
    by (rule rok_mono) (rule rok_all, rule rok_all, simp add: lead keep)
qed

lemma rvr_granted_keeps_term: "rok (rvr_granted s node) (\<lambda>(e, s'). current_term s' = current_term s)"
proof -
  have "rok (if node = None then Inr s else mod_node s node (\<lambda>n. raft_node_vote_for_me n True)) (peers_change s)"
    by (auto intro!: peers_steps)
  then show ?thesis
    unfolding rvr_granted_def rok_simps
  proof (rule rok_mono)
    fix s1 assume "peers_change s s1"
    then have s1: "current_term s1 = current_term s" by (rule peers_change_frame)
    then have lead: "rok (raft_become_leader s1) (\<lambda>s2. current_term s2 = current_term s)"
      by (intro rok_mono [OF raft_become_leader_spec]) simp
    show "rok (raft_get_nvotes_for_me s1) (\<lambda>votes. rok (raft_get_num_voting_nodes s1) (\<lambda>num.
        rok (if raft_votes_is_majority num votes then rbind (raft_become_leader s1) (\<lambda>s2. Inr (0, s2)) else Inr (0, s1))
          (\<lambda>(e, s'). current_term s' = current_term s)))"
      by - (rule rok_all, rule rok_all, simp add: s1 lead)
  qed
qed

lemma rvr_adopt_step:
  assumes "current_term s < t" and "raft_set_current_term s t = (e, s1)"
  shows "e \<noteq> 0 \<Longrightarrow> responded s s1" and "e = 0 \<Longrightarrow> rok (raft_become_follower s1) (\<lambda>s2. responded s (s2\<lparr>current_leader := c\<rparr>))"
proof -
  show "responded s s1" if "e \<noteq> 0"
    using assms(2) that by (cases rule: raft_set_current_term_cases) (auto simp: responded_def vote_step_def)
  show "rok (raft_become_follower s1) (\<lambda>s2. responded s (s2\<lparr>current_leader := c\<rparr>))" if "e = 0"
    using assms(2)
  proof (cases rule: raft_set_current_term_cases)
    case (3 u)
    then show ?thesis
      using assms(1) by (intro rok_mono [OF raft_become_follower_spec]) (auto simp: responded_def vote_step_def)
  qed (use assms(1) that in simp_all)
qed

lemma raft_recv_requestvote_response_step:
  "rok (raft_recv_requestvote_response s node r) (\<lambda>(e, s'). responded s s')"
proof -
  have stay: "responded s s" by (simp add: responded_def)
  have unknown: "rok (raft_get_my_node s) (\<lambda>my. rok (deref s my) (\<lambda>n. responded s s))"
    by (rule rok_all, rule rok_all) (rule stay)
  show ?thesis
    using rvr_granted_step [of s node] rvr_adopt_step [of s "rvr_term r"] stay unknown
    by (auto simp: raft_recv_requestvote_response_def split: prod.splits intro!: rok_all)
qed

section \<open>Counting votes\<close>

text \<open>The peers whose vote counts: active voters other than the server that granted theirs.\<close>

definition granted_by :: "'u raft_server \<Rightarrow> node_ref list" where
  "granted_by s = filter (\<lambda>r. me_node s \<noteq> Some r \<and> is_voter s r \<and> raft_node_has_vote_for_me (node_of s r)) (nodes s)"

lemma nvotes_loop_spec:
  "\<forall>r \<in> set rs. heap s r \<noteq> None \<Longrightarrow>
   nvotes_loop s rs k = Inr (k + int (length (filter (\<lambda>r. me_node s \<noteq> Some r \<and> is_voter s r \<and>
     raft_node_has_vote_for_me (node_of s r)) rs)))"
  by (induction rs arbitrary: k) (auto simp: is_voter_def)

lemma raft_get_nvotes_for_me_spec:
  assumes "nodes_inv s" and "me_node s = Some r"
  shows "raft_get_nvotes_for_me s =
    Inr (int (length (granted_by s)) + (if voted_for s = node_id (node_of s r) then 1 else 0))"
  using assms
  by (simp add: raft_get_nvotes_for_me_def nvotes_loop_spec nodes_inv_def [of s] granted_by_def
      raft_get_nodeid_spec)

lemma raft_votes_is_majority_iff:
  "0 \<le> n \<Longrightarrow> raft_votes_is_majority n k \<longleftrightarrow> k \<le> n \<and> n < 2 * k"
  by (auto simp: raft_votes_is_majority_def)

section \<open>The transitions cannot fault\<close>

definition well_formed :: "'u raft_server \<Rightarrow> bool" where
  "well_formed s \<longleftrightarrow>
     log_inv (log s) \<and> lg_size (log s) < 2 ^ 31 \<and> nodes_inv s \<and> me_node s \<noteq> None \<and> 0 < election_timeout s"

lemma election_frame_well_formed:
  assumes "election_frame s s'"
  shows "well_formed s' = well_formed s"
proof -
  have "map_option node_id (heap s' r) = map_option node_id (heap s r)" for r
  proof -
    have "map_option node_shape (heap s' r) = map_option node_shape (heap s r)"
      using assms by (simp add: election_frame_def shape_eq_def)
    then show ?thesis by (cases "heap s r"; cases "heap s' r") (simp_all add: node_shape_def)
  qed
  then have "nodes_inv s' = nodes_inv s"
    using assms by (intro nodes_inv_ids_cong) (simp_all add: election_frame_def)
  with assms show ?thesis by (simp add: well_formed_def election_frame_def)
qed

lemmas peers_change_well_formed = election_frame_well_formed [OF peers_change_frame(1)]

lemma randomize_total:
  "0 < election_timeout s \<Longrightarrow>
   rsafe (raft_randomize_election_timeout s) (\<lambda>s'. \<exists>k x. s' = s\<lparr>rand_no := k, election_timeout_rand := x\<rparr>)"
  by (auto simp: raft_randomize_election_timeout_def c_rand_def)

lemma raft_become_follower_total: "0 < election_timeout s \<Longrightarrow> \<exists>s'. raft_become_follower s = Inr s'"
  using randomize_total [of "raft_set_state s RAFT_STATE_FOLLOWER"]
  by (auto simp: raft_become_follower_def raft_set_state_def rsafe_iff)

lemma well_formed_live:
  "well_formed s \<Longrightarrow> r \<in> set (nodes s) \<Longrightarrow> \<exists>n. heap s r = Some n"
  by (auto simp: well_formed_def nodes_inv_def)

lemma skip_node_total: "well_formed s \<Longrightarrow> r \<in> set (nodes s) \<Longrightarrow>
    skip_node s r = Inr (me_node s = Some r \<or> \<not> raft_node_is_active (node_of s r))"
  by (auto simp: skip_node_def dest: well_formed_live)

lemma become_leader_loop_total:
  "well_formed s \<Longrightarrow> set rs \<subseteq> set (nodes s) \<Longrightarrow> \<exists>s'. become_leader_loop s rs = Inr s'"
proof (induction rs arbitrary: s)
  case (Cons r rs)
  then have r: "r \<in> set (nodes s)" by simp
  obtain n where n: "heap s r = Some n" using well_formed_live [OF Cons.prems(1) r] by blast
  show ?case
  proof (cases "me_node s = Some r \<or> \<not> raft_node_is_active n")
    case True
    then show ?thesis using Cons n by (simp add: skip_node_total r)
  next
    case False
    define n' where "n' = raft_node_set_match_idx (raft_node_set_next_idx n (raft_get_current_idx s + 1)) 0"
    define s2 where "s2 = put_node s r n'"
    have mods: "rbind (mod_node s (Some r) (\<lambda>n. raft_node_set_next_idx n (raft_get_current_idx s + 1)))
        (\<lambda>s1. mod_node s1 (Some r) (\<lambda>n. raft_node_set_match_idx n 0)) = Inr s2"
      using n by (simp add: s2_def n'_def put_node_def mod_node_def)
    have wf: "well_formed s2"
      using Cons.prems(1) peers_change_put [OF n, of n'] peers_change_well_formed by (auto simp: s2_def n'_def)
    have s2: "nodes s2 = nodes s" "me_node s2 = me_node s" "node_of s2 r = n'"
      by (simp_all add: s2_def put_node_def)
    have "1 \<le> next_idx n'" by (simp add: n'_def raft_node_set_next_idx_def raft_node_set_match_idx_def)
    then have "rsafe (raft_send_appendentries s2 (Some r)) (\<lambda>(_, s3). same_but_udata s2 s3)"
      using wf False r s2 by (intro raft_send_appendentries_total) (auto simp: well_formed_def)
    then obtain e s3 where send: "raft_send_appendentries s2 (Some r) = Inr (e, s3)" "same_but_udata s2 s3"
      by (auto simp: rsafe_iff)
    have "\<exists>s'. become_leader_loop s3 rs = Inr s'"
      using Cons.prems(2) wf peers_change_well_formed [OF peers_change_udata [OF send(2)]] send(2)
      by (intro Cons.IH) (auto simp: same_but_udataD s2)
    then show ?thesis
      using False n mods send(1)
      by (auto simp: skip_node_total [OF Cons.prems(1) r] rbind_assoc [symmetric])
  qed
qed simp

lemma forget_votes_loop_total:
  "well_formed s \<Longrightarrow> set rs \<subseteq> set (nodes s) \<Longrightarrow> \<exists>s'. forget_votes_loop s rs = Inr s'"
proof (induction rs arbitrary: s)
  case (Cons r rs)
  then obtain n where n: "heap s r = Some n" using well_formed_live [of s r] by auto
  define s1 where "s1 = put_node s r (raft_node_vote_for_me n False)"
  have "peers_change s s1" unfolding s1_def by (rule peers_change_put [OF n]) simp
  then have "\<exists>s'. forget_votes_loop s1 rs = Inr s'"
    using Cons.prems peers_change_well_formed [of s s1] by (intro Cons.IH) (auto simp: s1_def put_node_def)
  with n show ?case by (simp add: s1_def)
qed simp

lemma request_votes_loop_total:
  "well_formed s \<Longrightarrow> set rs \<subseteq> set (nodes s) \<Longrightarrow> \<exists>s'. request_votes_loop s rs = Inr s'"
proof (induction rs arbitrary: s)
  case (Cons r rs)
  then have r: "r \<in> set (nodes s)" by simp
  obtain n where n: "heap s r = Some n" using well_formed_live [OF Cons.prems(1) r] by blast
  have skip: "\<exists>s'. request_votes_loop s rs = Inr s'" using Cons by simp
  have ask: "\<exists>e s1. raft_send_requestvote s (Some r) = Inr (e, s1) \<and> (\<exists>s'. request_votes_loop s1 rs = Inr s')"
    if ne: "me_node s \<noteq> Some r"
  proof -
    obtain e s1 where send: "raft_send_requestvote s (Some r) = Inr (e, s1)" "same_but_udata s s1"
      using raft_send_requestvote_total [OF _ _ r ne] Cons.prems(1) by (auto simp: rsafe_iff well_formed_def)
    then have "\<exists>s'. request_votes_loop s1 rs = Inr s'"
      using Cons.prems peers_change_well_formed [OF peers_change_udata [OF send(2)]]
      by (intro Cons.IH) (auto simp: same_but_udataD)
    with send(1) show ?thesis by blast
  qed
  show ?case using skip ask n by fastforce
qed simp

lemma raft_become_leader_total:
  assumes "well_formed s"
  shows "\<exists>s'. raft_become_leader s = Inr s'"
proof -
  define s1 where "s1 = (raft_set_state s RAFT_STATE_LEADER)\<lparr>timeout_elapsed := 0\<rparr>"
  have "election_frame s s1" by (simp add: s1_def raft_set_state_def)
  then have "well_formed s1" using assms election_frame_well_formed by blast
  then show ?thesis
    using become_leader_loop_total [of s1 "nodes s1"] by (simp add: raft_become_leader_def s1_def Let_def)
qed

lemma raft_become_candidate_total:
  assumes wf: "well_formed s"
  shows "\<exists>e s'. raft_become_candidate s = Inr (e, s')"
proof -
  obtain e s1 where st: "raft_set_current_term s (current_term s + 1) = (e, s1)" by fastforce
  then have f1: "election_frame s s1" by (cases rule: raft_set_current_term_cases) auto
  then have wf1: "well_formed s1" using wf election_frame_well_formed by blast
  obtain s2 where s2: "forget_votes_loop s1 (nodes s1) = Inr s2"
    using forget_votes_loop_total [OF wf1] by blast
  then have p2: "peers_change s1 s2"
    using rokD [OF forget_votes_loop_spec [OF peers_change_refl]] by blast
  then have wf2: "well_formed s2" using wf1 peers_change_well_formed by blast
  obtain r where me: "me_node s2 = Some r" "r \<in> set (nodes s2)"
    using wf2 by (auto simp: well_formed_def nodes_inv_def)
  then obtain n where "heap s2 r = Some n" using well_formed_live [OF wf2] by blast
  then obtain e3 s3 where s3: "raft_vote s2 (me_node s2) = Inr (e3, s3)"
    using me by (cases "raft_vote_for_nodeid s2 (raft_node_get_id n)") (simp add: raft_vote_def)
  have f3: "election_frame s2 s3"
    using rokD [OF raft_vote_self_spec s3] by auto
  define c where "c = raft_set_state (s3\<lparr>current_leader := None\<rparr>) RAFT_STATE_CANDIDATE"
  have fc: "election_frame s2 c" using f3 by (simp add: c_def raft_set_state_def)
  then have wfc: "well_formed c" using wf2 election_frame_well_formed by blast
  obtain k x where s4: "raft_randomize_election_timeout c = Inr (c\<lparr>rand_no := k, election_timeout_rand := x\<rparr>)"
    using randomize_total [of c] wfc by (auto simp: rsafe_iff well_formed_def)
  define s5 where "s5 = c\<lparr>rand_no := k, election_timeout_rand := x, timeout_elapsed := 0\<rparr>"
  have "election_frame c s5" by (simp add: s5_def)
  then have "well_formed s5" using wfc election_frame_well_formed by blast
  then obtain s6 where "request_votes_loop s5 (nodes s5) = Inr s6"
    using request_votes_loop_total by blast
  then show ?thesis
    using st s2 s3 s4 by (auto simp: raft_become_candidate_def Let_def c_def [symmetric] s5_def)
qed

text \<open>
  A leader or candidate has voted in its term. The code relies on it when it asserts that
  neither ever grants a vote; it holds unless storing the candidate's own vote failed.
\<close>

definition role_voted :: "'u raft_server \<Rightarrow> bool" where
  "role_voted s \<longleftrightarrow> (state s = RAFT_STATE_LEADER \<or> state s = RAFT_STATE_CANDIDATE \<longrightarrow> voted_for s \<noteq> -1)"

lemma rv_decide_total:
  assumes "well_formed s" and "role_voted s"
  shows "\<exists>e r s'. rv_decide s node vr = Inr (e, r, s')"
proof -
  obtain m where m: "me_node s = Some m" using assms(1) by (auto simp: well_formed_def)
  have "log_inv (log s)" "nodes_inv s" using assms(1) by (simp_all add: well_formed_def)
  then show ?thesis
    using assms(2)
    by (auto simp: rv_decide_def should_grant_vote_spec [OF _ _ m] rv_done_def role_voted_def
        raft_already_voted_def split: prod.splits)
qed

lemma raft_recv_requestvote_total:
  assumes "well_formed s" and "role_voted s"
  shows "\<exists>e r s'. raft_recv_requestvote s node vr = Inr (e, r, s')"
proof -
  have inv: "nodes_inv s" using assms(1) by (simp add: well_formed_def)
  obtain e s1 where st: "raft_set_current_term s (rv_term vr) = (e, s1)" by fastforce
  then have f1: "election_frame s s1" by (cases rule: raft_set_current_term_cases) auto
  then have wf1: "well_formed s1" using assms(1) election_frame_well_formed by blast
  then obtain s2 where s2: "raft_become_follower s1 = Inr s2"
    using raft_become_follower_total by (auto simp: well_formed_def)
  define t where "t = s2\<lparr>current_leader := None\<rparr>"
  have "election_frame s1 t" "state t = RAFT_STATE_FOLLOWER"
    using rokD [OF raft_become_follower_spec s2] by (auto simp: t_def)
  then have "well_formed t" "role_voted t"
    using wf1 election_frame_well_formed by (auto simp: role_voted_def)
  then have t: "\<exists>e r s'. rv_decide t node' vr = Inr (e, r, s')" for node' by (rule rv_decide_total)
  have "\<exists>e r s'. rv_decide s node' vr = Inr (e, r, s')" for node' using assms by (rule rv_decide_total)
  with t st s2 show ?thesis
    by (auto simp: raft_recv_requestvote_def raft_get_node_spec [OF inv] rv_done_def t_def)
qed

text \<open>The votes a candidate counts when the peer \<open>node\<close> grants it one.\<close>

definition votes_with :: "'u raft_server \<Rightarrow> node_ref option \<Rightarrow> int" where
  "votes_with s node =
     int (length (filter (\<lambda>r. me_node s \<noteq> Some r \<and> is_voter s r \<and>
       (node = Some r \<or> raft_node_has_vote_for_me (node_of s r))) (nodes s))) +
     (if raft_get_nodeid s = Inr (voted_for s) then 1 else 0)"

lemma voters_shape:
  assumes "election_frame s s'" and "nodes_inv s"
  shows "voters s' = voters s"
proof -
  have "is_voter s' r = is_voter s r" if "r \<in> set (nodes s)" for r
  proof -
    have "map_option node_shape (heap s' r) = map_option node_shape (heap s r)" "heap s r \<noteq> None"
      using assms that by (auto simp: election_frame_def shape_eq_def nodes_inv_def)
    then show ?thesis by (auto simp: is_voter_def node_shape_def)
  qed
  then show ?thesis
    using assms(1) by (auto simp: voters_def election_frame_def intro!: filter_cong)
qed

lemma rvr_granted_spec:
  assumes wf: "well_formed s" and live: "\<And>r. node = Some r \<Longrightarrow> heap s r \<noteq> None"
  shows "rsafe (rvr_granted s node) (\<lambda>(e, s'). e = 0 \<and> responded s s' \<and>
    state s' = (if raft_votes_is_majority (int (length (voters s))) (votes_with s node)
                then RAFT_STATE_LEADER else state s))"
proof -
  have inv: "nodes_inv s" using wf by (simp add: well_formed_def)
  define s1 where "s1 = (case node of None \<Rightarrow> s | Some r \<Rightarrow> put_node s r (raft_node_vote_for_me (node_of s r) True))"
  have mark: "(if node = None then Inr s else mod_node s node (\<lambda>n. raft_node_vote_for_me n True)) = Inr s1"
    using live by (auto simp: s1_def split: option.split)
  have p1: "peers_change s s1"
  proof (cases node)
    case (Some r)
    then obtain n where "heap s r = Some n" using live by blast
    then show ?thesis using peers_change_put [of s r n "raft_node_vote_for_me n True"] Some by (simp add: s1_def)
  qed (simp add: s1_def)
  then have wf1: "well_formed s1" using wf peers_change_well_formed by blast
  note f1 = peers_change_frame [OF p1]
  obtain m where m: "me_node s = Some m" using wf by (auto simp: well_formed_def)
  have m1: "me_node s1 = Some m" and n1: "nodes s1 = nodes s" using f1(1) m by (simp_all add: election_frame_def)
  have inv1: "nodes_inv s1" using wf1 by (simp add: well_formed_def)
  have num: "raft_get_num_voting_nodes s1 = Inr (int (length (voters s)))"
    by (simp add: raft_get_num_voting_nodes_spec [OF inv1] voters_shape [OF f1(1) inv])
  have mark_iff: "(is_voter s1 r \<and> raft_node_has_vote_for_me (node_of s1 r)) =
      (is_voter s r \<and> (node = Some r \<or> raft_node_has_vote_for_me (node_of s r)))" for r
    by (auto simp: s1_def put_node_def is_voter_def split: option.split)
  have "raft_get_nodeid s1 = raft_get_nodeid s"
    using f1(1) by (intro raft_get_nodeid_shape) (simp_all add: election_frame_def)
  then have "(voted_for s1 = node_id (node_of s1 m)) = (raft_get_nodeid s = Inr (voted_for s))"
    using f1(3) by (auto simp: raft_get_nodeid_spec [OF inv1] m1)
  then have votes: "raft_get_nvotes_for_me s1 = Inr (votes_with s node)"
    by (simp add: raft_get_nvotes_for_me_spec [OF inv1 m1] votes_with_def granted_by_def n1 m m1 mark_iff)
  obtain s2 where s2: "raft_become_leader s1 = Inr s2" using raft_become_leader_total [OF wf1] by blast
  have lead: "state s2 = RAFT_STATE_LEADER" using rokD [OF raft_become_leader_spec s2] by simp
  have run: "rvr_granted s node =
      Inr (0, if raft_votes_is_majority (int (length (voters s))) (votes_with s node) then s2 else s1)"
    by (simp add: rvr_granted_def mark votes num s2)
  show ?thesis
    using rokD [OF rvr_granted_step run] lead f1(4) unfolding run by simp
qed

lemma raft_recv_requestvote_response_total:
  assumes wf: "well_formed s" and "\<And>r. node = Some r \<Longrightarrow> heap s r \<noteq> None"
    and "rvr_vote_granted r \<in> {-1, 0, 1}"
  shows "\<exists>e s'. raft_recv_requestvote_response s node r = Inr (e, s')"
proof -
  obtain e s1 where st: "raft_set_current_term s (rvr_term r) = (e, s1)" by fastforce
  then have "election_frame s s1" by (cases rule: raft_set_current_term_cases) auto
  then have "well_formed s1" using wf election_frame_well_formed by blast
  then obtain s2 where s2: "raft_become_follower s1 = Inr s2"
    using raft_become_follower_total by (auto simp: well_formed_def)
  obtain s3 where s3: "rvr_granted s node = Inr (0, s3)"
    using rvr_granted_spec [OF wf assms(2)] by (auto simp: rsafe_iff)
  obtain m where m: "me_node s = Some m" "m \<in> set (nodes s)" "nodes_inv s"
    using wf by (auto simp: well_formed_def nodes_inv_def)
  then show ?thesis
    using st s2 s3 assms(3)
    by (auto simp: raft_recv_requestvote_response_def raft_get_my_node_spec deref_node raft_vote_codes)
qed

text \<open>
  The term of the last entry of the log or snapshot. It is what the code compares as long as it
  fits in a C \<^verbatim>\<open>int\<close>.
\<close>

definition last_entry_term :: "'u raft_server \<Rightarrow> int option" where
  "last_entry_term s =
     (case list_at (lg_base (log s)) (log_list (log s)) (raft_get_current_idx s) of
        Some e \<Rightarrow> Some (ety_term e)
      | None \<Rightarrow> if snapshot_last_idx s = raft_get_current_idx s then Some (snapshot_last_term s) else None)"

lemma own_last_term_eq: "own_last_term s = map_option int32 (last_entry_term s)"
  by (simp add: own_last_term_def last_entry_term_def split: option.split)

lemma up_to_date_frame: "election_frame s s' \<Longrightarrow> up_to_date s' vr = up_to_date s vr"
  by (simp add: up_to_date_def own_last_term_def election_frame_def raft_get_current_idx_def cong: option.case_cong)

lemma rv_decide_grants:
  assumes "well_formed s"
  shows "rok (rv_decide s node vr) (\<lambda>(e, r, s'). rvr_vote_granted r = 1 \<longrightarrow> up_to_date s vr)"
proof -
  obtain m where m: "me_node s = Some m" using assms by (auto simp: well_formed_def)
  have "log_inv (log s)" "nodes_inv s" using assms by (simp_all add: well_formed_def)
  then show ?thesis
    by (auto simp: rv_decide_def should_grant_vote_spec [OF _ _ m] rv_done_def raft_vote_codes split: prod.splits)
qed

lemma raft_recv_requestvote_grants:
  assumes wf: "well_formed s"
  shows "rok (raft_recv_requestvote s node vr) (\<lambda>(e, r, s'). rvr_vote_granted r = 1 \<longrightarrow> up_to_date s vr)"
    (is "rok _ ?Q")
proof -
  obtain e s1 where st: "raft_set_current_term s (rv_term vr) = (e, s1)" by fastforce
  then have f1: "election_frame s s1" by (cases rule: raft_set_current_term_cases) auto
  have "rok (raft_become_follower s1) (\<lambda>s2. rok (rv_decide (s2\<lparr>current_leader := None\<rparr>) n vr) ?Q)" for n
  proof (rule rok_mono [OF raft_become_follower_spec])
    fix s2 assume "\<exists>k x. s2 = s1\<lparr>state := RAFT_STATE_FOLLOWER, rand_no := k, election_timeout_rand := x,
        timeout_elapsed := 0\<rparr>"
    then have "election_frame s (s2\<lparr>current_leader := None\<rparr>)" using f1 by auto
    then have "well_formed (s2\<lparr>current_leader := None\<rparr>)"
        "up_to_date (s2\<lparr>current_leader := None\<rparr>) vr = up_to_date s vr"
      using wf election_frame_well_formed up_to_date_frame by blast+
    then show "rok (rv_decide (s2\<lparr>current_leader := None\<rparr>) n vr) ?Q"
      using rv_decide_grants [of "s2\<lparr>current_leader := None\<rparr>" n vr] by simp
  qed
  then show ?thesis
    using rv_decide_grants [OF wf, of _ vr]
    by (auto simp: raft_recv_requestvote_def st rv_done_def intro!: rok_reads)
qed

section \<open>Majorities\<close>

text \<open>
  What an election relies on: a quorum is a set of voters, and two quorums over the same voters
  have one in common. If every voter gives at most one vote, only one candidate can collect a
  quorum.
\<close>

locale quorum_system =
  fixes quorum :: "'v set \<Rightarrow> 'v set \<Rightarrow> bool"
  assumes quorum_subset: "quorum V Q \<Longrightarrow> Q \<subseteq> V"
    and quorum_meet: "quorum V Q \<Longrightarrow> quorum V Q' \<Longrightarrow> Q \<inter> Q' \<noteq> {}"
begin

lemma unique_winner:
  assumes "quorum V {v \<in> V. vote v a}" and "quorum V {v \<in> V. vote v b}"
    and "\<And>v. v \<in> V \<Longrightarrow> vote v a \<Longrightarrow> vote v b \<Longrightarrow> a = b"
  shows "a = b"
  using quorum_meet [OF assms(1,2)] assms(3) by blast

lemma quorum_nonempty: "quorum V Q \<Longrightarrow> Q \<noteq> {}"
  using quorum_meet [of V Q Q] by blast

end

definition majority_of :: "'v set \<Rightarrow> 'v set \<Rightarrow> bool" where
  "majority_of V Q \<longleftrightarrow> finite V \<and> Q \<subseteq> V \<and> raft_votes_is_majority (int (card V)) (int (card Q))"

lemma majority_of_meet:
  assumes "majority_of V Q" and "majority_of V Q'"
  shows "Q \<inter> Q' \<noteq> {}"
proof
  assume empty: "Q \<inter> Q' = {}"
  have fin: "finite V" "Q \<subseteq> V" "Q' \<subseteq> V" using assms by (simp_all add: majority_of_def)
  then have "card Q + card Q' = card (Q \<union> Q')"
    using empty finite_subset by (metis card_Un_disjoint)
  also have "\<dots> \<le> card V" using fin by (simp add: card_mono)
  finally show False
    using assms by (auto simp: majority_of_def raft_votes_is_majority_iff)
qed

interpretation mq: quorum_system majority_of
  by unfold_locales (simp_all add: majority_of_meet, simp add: majority_of_def)

end
