(* ===== verification/Raft_Apply.thy ===== *)
theory Raft_Apply
  imports Raft_Election
begin

text \<open>
  Applying committed entries to the user's state machine (\<^verbatim>\<open>raft_apply_entry\<close>,
  \<^verbatim>\<open>raft_apply_all\<close> of \<^verbatim>\<open>raft/raft_server.c\<close>). The lemmas show that entries are applied one by
  one in the order of their indexes and never past the commit index, that the loop ends, and
  what it hands to the \<^verbatim>\<open>applylog\<close> callback.
\<close>

section \<open>Operations\<close>

text \<open>The effect of a committed configuration entry on the membership: the \<^verbatim>\<open>switch\<close>.\<close>

definition apply_cfg :: "'u raft_server \<Rightarrow> raft_entry \<Rightarrow> int \<Rightarrow> fault + int \<times> 'u raft_server" where
  "apply_cfg s ety log_idx =
     rbind (call_log_get_node_id s ety log_idx) (\<lambda>(nid, s1).
     rbind (raft_get_node s1 nid) (\<lambda>node.
     if ety_type ety = RAFT_LOGTYPE_ADD_NODE then
       rbind (mod_node s1 node (\<lambda>n. raft_node_set_addition_committed n True)) (\<lambda>s2.
       rbind (mod_node s2 node (\<lambda>n. raft_node_set_voting_committed n True)) (\<lambda>s3.
       rbind (mod_node s3 node raft_node_set_has_sufficient_logs) (\<lambda>s4.
       rbind (raft_get_nodeid s4) (\<lambda>me_id.
       Inr (0, if nid = me_id then s4\<lparr>connected := RAFT_NODE_STATUS_CONNECTED\<rparr> else s4)))))
     else if ety_type ety = RAFT_LOGTYPE_ADD_NONVOTING_NODE then
       rbind (mod_node s1 node (\<lambda>n. raft_node_set_addition_committed n True)) (\<lambda>s2. Inr (0, s2))
     else if ety_type ety = RAFT_LOGTYPE_DEMOTE_NODE then
       (if node \<noteq> None
        then rbind (mod_node s1 node (\<lambda>n. raft_node_set_voting_committed n False)) (\<lambda>s2. Inr (0, s2))
        else Inr (0, s1))
     else if ety_type ety = RAFT_LOGTYPE_REMOVE_NODE then
       (if node \<noteq> None then rbind (raft_remove_node s1 node) (\<lambda>s2. Inr (0, s2)) else Inr (0, s1))
     else Inr (0, s1)))"

text \<open>The call of \<^verbatim>\<open>applylog\<close>, if registered.\<close>

definition call_applylog :: "'u raft_server \<Rightarrow> raft_entry \<Rightarrow> int \<Rightarrow> int \<times> 'u raft_server" where
  "call_applylog s ety idx =
     (case applylog (cb s) of
        None \<Rightarrow> (0, s)
      | Some f \<Rightarrow> (case f (udata s) ety idx of (e, u) \<Rightarrow> (e, s\<lparr>udata := u\<rparr>)))"

definition raft_apply_entry :: "'u raft_server \<Rightarrow> fault + int \<times> 'u raft_server" where
  "raft_apply_entry s =
     (if \<not> raft_is_apply_allowed s then Inr (-1, s)
      else if last_applied_idx s = raft_get_commit_idx s then Inr (-1, s)
      else
        let log_idx = last_applied_idx s + 1 in
        rbind (raft_get_entry_from_idx s log_idx) (\<lambda>found.
        case found of
          None \<Rightarrow> Inr (-1, s)
        | Some ety \<Rightarrow>
            let s1 = s\<lparr>last_applied_idx := last_applied_idx s + 1\<rparr> in
            case call_applylog s1 ety (last_applied_idx s1) of (e, s2) \<Rightarrow>
            if e = RAFT_ERR_SHUTDOWN then Inr (RAFT_ERR_SHUTDOWN, s2)
            else
              let s3 = (if log_idx = voting_cfg_change_log_idx s2
                        then s2\<lparr>voting_cfg_change_log_idx := -1\<rparr> else s2) in
              if \<not> raft_entry_is_cfg_change ety then Inr (0, s3)
              else apply_cfg s3 ety log_idx))"

section \<open>One entry\<close>

text \<open>
  Fields an application leaves alone: all but the membership, the user's state, the applied
  index, the pending configuration change and the connection status.
\<close>

definition apply_frame :: "'u raft_server \<Rightarrow> 'u raft_server \<Rightarrow> bool" where
  "apply_frame s s' \<longleftrightarrow>
     same_core (s\<lparr>last_applied_idx := last_applied_idx s', connected := connected s',
       voting_cfg_change_log_idx := voting_cfg_change_log_idx s'\<rparr>) s'"

lemma apply_frame_refl [simp]: "apply_frame s s"
  by (simp add: apply_frame_def)

lemma apply_frame_trans [trans]: "apply_frame s s' \<Longrightarrow> apply_frame s' s'' \<Longrightarrow> apply_frame s s''"
  by (simp add: apply_frame_def same_core_def)

lemma apply_frame_core: "same_core s s' \<Longrightarrow> apply_frame s s'"
  by (simp add: apply_frame_def same_core_def)

lemma apply_frame_upd [simp]:
  "apply_frame s (t\<lparr>last_applied_idx := i\<rparr>) = apply_frame s t"
  "apply_frame s (t\<lparr>connected := c\<rparr>) = apply_frame s t"
  "apply_frame s (t\<lparr>voting_cfg_change_log_idx := v\<rparr>) = apply_frame s t"
  "apply_frame s (t\<lparr>udata := u\<rparr>) = apply_frame s t"
  by (simp_all add: apply_frame_def same_core_def)

lemma apply_frameD:
  assumes "apply_frame s s'"
  shows "current_term s' = current_term s" "voted_for s' = voted_for s" "log s' = log s"
    "commit_idx s' = commit_idx s" "state s' = state s" "cb s' = cb s"
    "snapshot_in_progress s' = snapshot_in_progress s" "snapshot_flags s' = snapshot_flags s"
    "snapshot_last_idx s' = snapshot_last_idx s" "snapshot_last_term s' = snapshot_last_term s"
    "election_timeout s' = election_timeout s"
  using assms by (simp_all add: apply_frame_def same_core_def)

definition cfg_applied :: "'u raft_server \<Rightarrow> 'u raft_server \<Rightarrow> bool" where
  "cfg_applied s s' \<longleftrightarrow> apply_frame s s' \<and> last_applied_idx s' = last_applied_idx s"

lemma cfg_applied_core: "same_core s s' \<Longrightarrow> cfg_applied s s'"
  by (simp add: cfg_applied_def apply_frame_core same_core_def)

lemma cfg_applied_connected [simp]: "cfg_applied s (t\<lparr>connected := c\<rparr>) = cfg_applied s t"
  by (simp add: cfg_applied_def)

lemma apply_cfg_frame [frame]: "rok (apply_cfg s ety i) (\<lambda>(e, s'). e = 0 \<and> cfg_applied s s')"
  unfolding apply_cfg_def
  by (auto intro!: core_steps [of s] rok_reads cfg_applied_core)

text \<open>
  \<open>applied_one s s'\<close>: the entry after the last applied one, which is committed, was handed to the
  state machine.
\<close>

definition applied_one :: "'u raft_server \<Rightarrow> 'u raft_server \<Rightarrow> bool" where
  "applied_one s s' \<longleftrightarrow>
     apply_frame s s' \<and> last_applied_idx s' = last_applied_idx s + 1 \<and>
     last_applied_idx s \<noteq> commit_idx s \<and> raft_is_apply_allowed s"

lemma raft_apply_entry_step:
  "rok (raft_apply_entry s) (\<lambda>(e, s'). applied_one s s' \<or> e \<noteq> 0 \<and> s' = s)"
proof -
  have call: "apply_frame s s2 \<and> last_applied_idx s2 = j"
    if "call_applylog (s\<lparr>last_applied_idx := j\<rparr>) ety i = (e, s2)" for j ety i e s2
    using that by (auto simp: call_applylog_def split: option.splits prod.splits)
  have cfg: "rok (apply_cfg s2 ety i) (\<lambda>(e, s'). apply_frame s s' \<and> last_applied_idx s' = j \<or> e \<noteq> 0 \<and> s' = s)"
    if "apply_frame s s2" "last_applied_idx s2 = j" for s2 ety i j
    by (rule rok_mono [OF apply_cfg_frame])
      (use that in \<open>auto simp: cfg_applied_def intro: apply_frame_trans\<close>)
  show ?thesis
    unfolding raft_apply_entry_def
    by (auto simp: Let_def applied_one_def split: option.splits prod.splits
        intro!: rokI [of "raft_get_entry_from_idx s i" for i] cfg dest!: call)
qed

section \<open>All committed entries\<close>

text \<open>The loop of \<^verbatim>\<open>raft_apply_all\<close>; each round without an error applies one entry.\<close>

function apply_all_loop :: "'u raft_server \<Rightarrow> fault + int \<times> 'u raft_server" where
  "apply_all_loop s =
     (if raft_get_last_applied_idx s < raft_get_commit_idx s then
        rbind (raft_apply_entry s) (\<lambda>(e, s1). if e \<noteq> 0 then Inr (e, s1) else apply_all_loop s1)
      else Inr (0, s))"
  by pat_completeness auto

termination
proof (relation "measure (\<lambda>s. nat (commit_idx s - last_applied_idx s))")
  fix s :: "'u raft_server" and x e s1
  assume "raft_get_last_applied_idx s < raft_get_commit_idx s" "raft_apply_entry s = Inr x" "(e, s1) = x" "\<not> e \<noteq> 0"
  then have "applied_one s s1" using rokD [OF raft_apply_entry_step [of s], of x] by auto
  then show "(s1, s) \<in> measure (\<lambda>s. nat (commit_idx s - last_applied_idx s))"
    using \<open>raft_get_last_applied_idx s < raft_get_commit_idx s\<close>
    by (auto simp: applied_one_def apply_frameD)
qed simp

declare apply_all_loop.simps [simp del]

definition raft_apply_all :: "'u raft_server \<Rightarrow> fault + int \<times> 'u raft_server" where
  "raft_apply_all s = (if \<not> raft_is_apply_allowed s then Inr (0, s) else apply_all_loop s)"

definition applied_some :: "'u raft_server \<Rightarrow> 'u raft_server \<Rightarrow> bool" where
  "applied_some s s' \<longleftrightarrow>
     apply_frame s s' \<and> last_applied_idx s \<le> last_applied_idx s' \<and>
     (last_applied_idx s \<le> commit_idx s \<longrightarrow> last_applied_idx s' \<le> commit_idx s)"

lemma applied_some_refl [simp]: "applied_some s s"
  by (simp add: applied_some_def)

lemma applied_some_step: "applied_one s s1 \<Longrightarrow> applied_some s1 s' \<Longrightarrow> applied_some s s'"
  by (auto simp: applied_one_def applied_some_def apply_frameD intro: apply_frame_trans)

lemma applied_one_some: "applied_one s s1 \<Longrightarrow> applied_some s s1"
  by (auto simp: applied_one_def applied_some_def)

lemma apply_all_loop_step:
  "rok (apply_all_loop s) (\<lambda>(e, s'). applied_some s s' \<and> (e = 0 \<longrightarrow> commit_idx s \<le> last_applied_idx s'))"
proof (induction s rule: apply_all_loop.induct)
  case (1 s)
  show ?case
  proof (cases "last_applied_idx s < commit_idx s")
    case False
    then show ?thesis by (subst apply_all_loop.simps) simp
  next
    case True
    have "rok (if e \<noteq> 0 then Inr (e, s1) else apply_all_loop s1)
        (\<lambda>(e, s'). applied_some s s' \<and> (e = 0 \<longrightarrow> commit_idx s \<le> last_applied_idx s'))"
      if run: "raft_apply_entry s = Inr (e, s1)" and one: "applied_one s s1 \<or> e \<noteq> 0 \<and> s1 = s" for e s1
    proof (cases "e = 0")
      case False
      then show ?thesis using one applied_one_some by auto
    next
      case e: True
      then have one': "applied_one s s1" using one by simp
      then have "commit_idx s1 = commit_idx s" by (simp add: applied_one_def apply_frameD)
      with e show ?thesis
        using "1.IH" [of "(e, s1)" e s1] True run applied_some_step [OF one'] by (auto elim!: rok_mono)
    qed
    then show ?thesis
      by (subst apply_all_loop.simps) (use True in \<open>auto intro!: rok_mono [OF raft_apply_entry_step]\<close>)
  qed
qed

lemma raft_apply_all_step: "rok (raft_apply_all s) (\<lambda>(e, s'). applied_some s s')"
  using apply_all_loop_step [of s] by (auto simp: raft_apply_all_def elim!: rok_mono)

section \<open>What the state machine sees\<close>

text \<open>The entries with indexes \<open>i + 1\<close> to \<open>j\<close>, each with its index.\<close>

definition indexed_entries :: "raft_log \<Rightarrow> int \<Rightarrow> int \<Rightarrow> (int \<times> raft_entry) list" where
  "indexed_entries me i j = map (\<lambda>k. (k, the (list_at (lg_base me) (log_list me) k))) [i + 1..j]"

text \<open>The user's state after \<^verbatim>\<open>applylog\<close> was called on each of them in turn.\<close>

definition apply_seq :: "('u \<Rightarrow> raft_entry \<Rightarrow> int \<Rightarrow> int \<times> 'u) \<Rightarrow> (int \<times> raft_entry) list \<Rightarrow> 'u \<Rightarrow> 'u" where
  "apply_seq f = fold (\<lambda>(i, e) u. snd (f u e i))"

lemma indexed_entries_Cons:
  "i < j \<Longrightarrow> indexed_entries me i j =
     (i + 1, the (list_at (lg_base me) (log_list me) (i + 1))) # indexed_entries me (i + 1) j"
  by (simp add: indexed_entries_def upto_rec1)

lemma indexed_entries_Nil: "j \<le> i \<Longrightarrow> indexed_entries me i j = []"
  by (simp add: indexed_entries_def)

lemma list_at_Some: "b < i \<Longrightarrow> i \<le> b + int (length es) \<Longrightarrow> list_at b es i = Some (the (list_at b es i))"
  by (simp add: list_at_def)

lemma raft_apply_entry_normal:
  assumes "log_inv (log s)" and "raft_is_apply_allowed s"
    and "lg_base (log s) \<le> last_applied_idx s" and "last_applied_idx s < commit_idx s"
    and "commit_idx s \<le> raft_get_current_idx s"
    and "applylog (cb s) = Some f" and "ety = the (list_at (lg_base (log s)) (log_list (log s)) (last_applied_idx s + 1))"
    and "\<not> raft_entry_is_cfg_change ety" and "fst (f (udata s) ety (last_applied_idx s + 1)) \<noteq> RAFT_ERR_SHUTDOWN"
  obtains v where "raft_apply_entry s = Inr (0, s\<lparr>last_applied_idx := last_applied_idx s + 1,
      udata := snd (f (udata s) ety (last_applied_idx s + 1)), voting_cfg_change_log_idx := v\<rparr>)"
proof -
  have cur: "last_applied_idx s + 1 \<le> lg_base (log s) + int (length (log_list (log s)))"
    using assms(1,4,5) by (auto simp: raft_get_current_idx_def log_get_current_idx_def log_count_def log_inv_def)
  have at: "list_at (lg_base (log s)) (log_list (log s)) (last_applied_idx s + 1) = Some ety"
    unfolding assms(7) using assms(3) cur by (intro list_at_Some) auto
  obtain e u where f: "f (udata s) ety (last_applied_idx s + 1) = (e, u)" by fastforce
  define s1 where "s1 = s\<lparr>last_applied_idx := last_applied_idx s + 1, udata := u\<rparr>"
  have call: "call_applylog (s\<lparr>last_applied_idx := last_applied_idx s + 1\<rparr>) ety (last_applied_idx s + 1) = (e, s1)"
    by (simp add: call_applylog_def assms(6) f s1_def)
  define v where "v = (if last_applied_idx s + 1 = voting_cfg_change_log_idx s then -1 else voting_cfg_change_log_idx s)"
  have "raft_apply_entry s = Inr (0, s1\<lparr>voting_cfg_change_log_idx := v\<rparr>)"
    using assms(2,4,8,9) f at
    by (simp add: raft_apply_entry_def assms(1) call v_def) (simp add: s1_def)
  then show ?thesis using that f by (simp add: s1_def)
qed

lemma apply_all_loop_normal:
  assumes "log_inv (log s)" and "raft_is_apply_allowed s"
    and "lg_base (log s) \<le> last_applied_idx s" and "last_applied_idx s \<le> commit_idx s"
    and "commit_idx s \<le> raft_get_current_idx s" and "applylog (cb s) = Some f"
    and "\<And>i ety. (i, ety) \<in> set (indexed_entries (log s) (last_applied_idx s) (commit_idx s)) \<Longrightarrow>
      \<not> raft_entry_is_cfg_change ety"
    and "\<And>u i ety. fst (f u ety i) \<noteq> RAFT_ERR_SHUTDOWN"
  shows "\<exists>s'. apply_all_loop s = Inr (0, s') \<and> last_applied_idx s' = commit_idx s \<and> apply_frame s s' \<and>
    udata s' = apply_seq f (indexed_entries (log s) (last_applied_idx s) (commit_idx s)) (udata s)"
  using assms
proof (induction "nat (commit_idx s - last_applied_idx s)" arbitrary: s)
  case 0
  then show ?case
    by (subst apply_all_loop.simps) (simp add: indexed_entries_Nil apply_seq_def)
next
  case (Suc n)
  then have less: "last_applied_idx s < commit_idx s" by linarith
  define ety where "ety = the (list_at (lg_base (log s)) (log_list (log s)) (last_applied_idx s + 1))"
  note split = indexed_entries_Cons [OF less, of "log s", folded ety_def]
  have normal: "\<not> raft_entry_is_cfg_change ety" using Suc.prems(7) by (auto simp: split)
  obtain v where one: "raft_apply_entry s = Inr (0, s\<lparr>last_applied_idx := last_applied_idx s + 1,
      udata := snd (f (udata s) ety (last_applied_idx s + 1)), voting_cfg_change_log_idx := v\<rparr>)"
    using raft_apply_entry_normal [OF Suc.prems(1-3) less Suc.prems(5,6) ety_def normal Suc.prems(8)] by blast
  define s1 where "s1 = s\<lparr>last_applied_idx := last_applied_idx s + 1,
      udata := snd (f (udata s) ety (last_applied_idx s + 1)), voting_cfg_change_log_idx := v\<rparr>"
  have s1: "log s1 = log s" "commit_idx s1 = commit_idx s" "cb s1 = cb s"
      "last_applied_idx s1 = last_applied_idx s + 1" "apply_frame s s1"
      "raft_is_apply_allowed s1 = raft_is_apply_allowed s"
      "udata s1 = snd (f (udata s) ety (last_applied_idx s + 1))"
      "raft_get_current_idx s1 = raft_get_current_idx s"
    by (simp_all add: s1_def raft_is_apply_allowed_def raft_get_current_idx_def)
  have "\<exists>s'. apply_all_loop s1 = Inr (0, s') \<and> last_applied_idx s' = commit_idx s1 \<and> apply_frame s1 s' \<and>
      udata s' = apply_seq f (indexed_entries (log s1) (last_applied_idx s1) (commit_idx s1)) (udata s1)"
    using Suc.prems Suc.hyps(2) less by (intro Suc.hyps(1)) (auto simp: s1 split)
  then show ?case
    using less one
    by (subst apply_all_loop.simps)
      (auto simp: s1_def [symmetric] s1(1-4,7) split apply_seq_def intro: apply_frame_trans [OF s1(5)])
qed

end
