(* ===== verification/Raft_Replication.thy ===== *)
theory Raft_Replication
  imports Raft_Apply
begin

text \<open>
  Log replication (\<^verbatim>\<open>raft/raft_server.c\<close>): the follower's handler of appendentries, the leader's
  handler of the response, and the entry point for client entries. The lemmas state how each
  changes the log, that what is committed is never changed and the commit index never moves
  back or past the end of the log, and when a leader commits.
\<close>

section \<open>The follower\<close>

text \<open>
  The handler has five parts. A part that ends in \<^verbatim>\<open>goto out\<close> returns \<open>Some e\<close> with the error
  code, a part that goes on returns \<open>None\<close>. First the comparison of terms.
\<close>

definition ae_check_term :: "'u raft_server \<Rightarrow> msg_appendentries \<Rightarrow> fault + int option \<times> 'u raft_server" where
  "ae_check_term s ae =
     (if raft_is_candidate s \<and> current_term s = ae_term ae then
        rbind (raft_become_follower s) (\<lambda>s1. Inr (None, s1))
      else if current_term s < ae_term ae then
        (case raft_set_current_term s (ae_term ae) of (e, s1) \<Rightarrow>
         if e \<noteq> 0 then Inr (Some e, s1)
         else rbind (raft_become_follower s1) (\<lambda>s2. Inr (None, s2)))
      else if ae_term ae < current_term s then Inr (Some 0, s)
      else Inr (None, s))"

text \<open>The entry before the new ones must be known here with the same term.\<close>

definition ae_check_prev :: "'u raft_server \<Rightarrow> msg_appendentries \<Rightarrow> fault + int option \<times> 'u raft_server" where
  "ae_check_prev s ae =
     (if 0 < ae_prev_log_idx ae then
        rbind (raft_get_entry_from_idx s (ae_prev_log_idx ae)) (\<lambda>found.
        if ae_prev_log_idx ae = snapshot_last_idx s then
          (if snapshot_last_term s \<noteq> ae_prev_log_term ae then Inr (Some RAFT_ERR_SHUTDOWN, s)
           else Inr (None, s))
        else
          (case found of
             None \<Rightarrow> Inr (Some 0, s)
           | Some ety \<Rightarrow>
               if ety_term ety \<noteq> ae_prev_log_term ae then
                 (if ae_prev_log_idx ae \<le> raft_get_commit_idx s then Inr (Some RAFT_ERR_SHUTDOWN, s)
                  else rbind (raft_delete_entry_from_idx s (ae_prev_log_idx ae)) (\<lambda>(e, s1). Inr (Some e, s1)))
               else Inr (None, s)))
      else Inr (None, s))"

text \<open>
  The loop over the entries that are already in the log: \<open>idx\<close> is the index of the first
  remaining entry and \<open>cur\<close> the response's \<^verbatim>\<open>current_idx\<close>. It returns the entries that remain to
  be appended.
\<close>

primrec ae_match_loop ::
  "raft_entry list \<Rightarrow> 'u raft_server \<Rightarrow> int \<Rightarrow> int \<Rightarrow>
   fault + int option \<times> raft_entry list \<times> int \<times> int \<times> 'u raft_server" where
  "ae_match_loop [] s idx cur = Inr (None, [], idx, cur, s)"
| "ae_match_loop (ety # rest) s idx cur =
     rbind (raft_get_entry_from_idx s idx) (\<lambda>existing.
     case existing of
       Some x \<Rightarrow>
         if ety_term x \<noteq> ety_term ety then
           (if idx \<le> raft_get_commit_idx s then Inr (Some RAFT_ERR_SHUTDOWN, ety # rest, idx, cur, s)
            else
              rbind (raft_delete_entry_from_idx s idx) (\<lambda>(e, s1).
              Inr (if e \<noteq> 0 then Some e else None, ety # rest, idx, cur, s1)))
         else ae_match_loop rest s (idx + 1) idx
     | None \<Rightarrow> Inr (None, ety # rest, idx, cur, s))"

primrec ae_append_loop ::
  "raft_entry list \<Rightarrow> 'u raft_server \<Rightarrow> int \<Rightarrow> int \<Rightarrow> fault + int \<times> int \<times> 'u raft_server" where
  "ae_append_loop [] s idx cur = Inr (0, cur, s)"
| "ae_append_loop (ety # rest) s idx cur =
     rbind (raft_append_entry s ety) (\<lambda>(e, s1).
     if e \<noteq> 0 then Inr (e, cur, s1) else ae_append_loop rest s1 (idx + 1) idx)"

definition ae_commit :: "'u raft_server \<Rightarrow> msg_appendentries \<Rightarrow> fault + 'u raft_server" where
  "ae_commit s ae =
     (if raft_get_commit_idx s < ae_leader_commit ae then
        let last_log_idx = max (raft_get_current_idx s) 1
        in raft_set_commit_idx s (min last_log_idx (ae_leader_commit ae))
      else Inr s)"

text \<open>The label \<^verbatim>\<open>out\<close>.\<close>

definition ae_out ::
  "'u raft_server \<Rightarrow> msg_appendentries \<Rightarrow> int \<Rightarrow> int \<Rightarrow> int \<Rightarrow>
   int \<times> msg_appendentries_response \<times> 'u raft_server" where
  "ae_out s ae e success cur =
     (e, \<lparr>aer_term = current_term s, aer_success = success,
          aer_current_idx = (if success = 0 then raft_get_current_idx s else cur),
          aer_first_idx = ae_prev_log_idx ae + 1\<rparr>, s)"

text \<open>From \<^verbatim>\<open>r->success = 1\<close> on.\<close>

definition ae_accept ::
  "'u raft_server \<Rightarrow> msg_appendentries \<Rightarrow> fault + int \<times> msg_appendentries_response \<times> 'u raft_server" where
  "ae_accept s ae =
     rbind (ae_match_loop (ae_entries ae) s (ae_prev_log_idx ae + 1) (ae_prev_log_idx ae))
       (\<lambda>(stop, rest, idx, cur, s1).
     case stop of
       Some e \<Rightarrow> Inr (ae_out s1 ae e 1 cur)
     | None \<Rightarrow>
         rbind (ae_append_loop rest s1 idx cur) (\<lambda>(e, cur', s2).
         if e \<noteq> 0 then Inr (ae_out s2 ae e 1 cur')
         else rbind (ae_commit s2 ae) (\<lambda>s3. Inr (ae_out s3 ae 0 1 cur'))))"

definition raft_recv_appendentries ::
  "'u raft_server \<Rightarrow> node_ref option \<Rightarrow> msg_appendentries \<Rightarrow>
   fault + int \<times> msg_appendentries_response \<times> 'u raft_server" where
  "raft_recv_appendentries s node ae =
     rbind (ae_check_term s ae) (\<lambda>(stop1, s1).
     case stop1 of
       Some e \<Rightarrow> Inr (ae_out s1 ae e 0 0)
     | None \<Rightarrow>
         let s2 = s1\<lparr>current_leader := node, timeout_elapsed := 0\<rparr> in
         rbind (ae_check_prev s2 ae) (\<lambda>(stop2, s3).
         case stop2 of
           Some e \<Rightarrow> Inr (ae_out s3 ae e 0 0)
         | None \<Rightarrow> ae_accept s3 ae))"

section \<open>The leader\<close>

definition raft_voting_change_is_in_progress :: "'u raft_server \<Rightarrow> bool" where
  "raft_voting_change_is_in_progress s \<longleftrightarrow> voting_cfg_change_log_idx s \<noteq> -1"

text \<open>A non-voting peer that has caught up is reported to the user once.\<close>

definition aer_sufficient :: "'u raft_server \<Rightarrow> node_ref option \<Rightarrow> msg_appendentries_response \<Rightarrow> fault + 'u raft_server" where
  "aer_sufficient s node r =
     rbind (deref s node) (\<lambda>n.
     case node_has_sufficient_logs (cb s) of
       None \<Rightarrow> Inr s
     | Some f \<Rightarrow>
         if \<not> raft_node_is_voting n \<and> \<not> raft_voting_change_is_in_progress s \<and>
            raft_get_current_idx s \<le> aer_current_idx r + 1 \<and> \<not> raft_node_is_voting_committed n \<and>
            \<not> raft_node_has_sufficient_logs n
         then
           (case f (udata s) n of (e, u) \<Rightarrow>
            let s1 = s\<lparr>udata := u\<rparr> in
            if e = 0 then mod_node s1 node raft_node_set_has_sufficient_logs else Inr s1)
         else Inr s)"

primrec aer_count_loop :: "'u raft_server \<Rightarrow> int \<Rightarrow> node_ref list \<Rightarrow> int \<Rightarrow> fault + int" where
  "aer_count_loop s point [] votes = Inr votes"
| "aer_count_loop s point (r # rs) votes =
     (if me_node s = Some r then aer_count_loop s point rs votes
      else
        rbind (deref s (Some r)) (\<lambda>n.
        aer_count_loop s point rs
          (if raft_node_is_active n \<and> raft_node_is_voting n \<and> point \<le> raft_node_get_match_idx n
           then votes + 1 else votes)))"

text \<open>The update of the commit index; \<open>ety->term\<close> is read only if the index is not committed yet.\<close>

definition aer_commit :: "'u raft_server \<Rightarrow> int \<Rightarrow> fault + 'u raft_server" where
  "aer_commit s point =
     (if point \<noteq> 0 then
        rbind (raft_get_entry_from_idx s point) (\<lambda>found.
        if raft_get_commit_idx s < point then
          (case found of
             None \<Rightarrow> Inl Null_dereference
           | Some ety \<Rightarrow>
               if ety_term ety = current_term s then
                 rbind (aer_count_loop s point (nodes s) 1) (\<lambda>votes.
                 rbind (raft_get_num_voting_nodes s) (\<lambda>num.
                 if num sdiv 2 < votes then raft_set_commit_idx s point else Inr s))
               else Inr s)
        else Inr s)
      else Inr s)"

text \<open>A rejected message: go back in the peer's log and try again.\<close>

definition aer_retry ::
  "'u raft_server \<Rightarrow> node_ref option \<Rightarrow> raft_node \<Rightarrow> msg_appendentries_response \<Rightarrow> fault + int \<times> 'u raft_server" where
  "aer_retry s node n r =
     (let nxt = raft_node_get_next_idx n in
      rbind (rassert (0 < nxt)) (\<lambda>_.
      if aer_current_idx r < raft_node_get_match_idx n then Inr (0, s)
      else
        rbind (mod_node s node (\<lambda>n. raft_node_set_next_idx n
                 (if aer_current_idx r < nxt - 1
                  then min (aer_current_idx r + 1) (raft_get_current_idx s) else nxt - 1))) (\<lambda>s1.
        rbind (raft_send_appendentries s1 node) (\<lambda>(_, s2). Inr (0, s2)))))"

definition aer_progress ::
  "'u raft_server \<Rightarrow> node_ref option \<Rightarrow> msg_appendentries_response \<Rightarrow> fault + int \<times> 'u raft_server" where
  "aer_progress s node r =
     rbind (rassert (aer_current_idx r \<le> raft_get_current_idx s)) (\<lambda>_.
     rbind (mod_node s node (\<lambda>n. raft_node_set_next_idx n (aer_current_idx r + 1))) (\<lambda>s1.
     rbind (mod_node s1 node (\<lambda>n. raft_node_set_match_idx n (aer_current_idx r))) (\<lambda>s2.
     rbind (aer_commit s2 (aer_current_idx r)) (\<lambda>s3.
     rbind (deref s3 node) (\<lambda>n.
     rbind (raft_get_entry_from_idx s3 (raft_node_get_next_idx n)) (\<lambda>more.
     if more \<noteq> None
     then rbind (raft_send_appendentries s3 node) (\<lambda>(_, s4). Inr (0, s4))
     else Inr (0, s3)))))))"

definition raft_recv_appendentries_response ::
  "'u raft_server \<Rightarrow> node_ref option \<Rightarrow> msg_appendentries_response \<Rightarrow> fault + int \<times> 'u raft_server" where
  "raft_recv_appendentries_response s node r =
     (if node = None then Inr (-1, s)
      else if \<not> raft_is_leader s then Inr (RAFT_ERR_NOT_LEADER, s)
      else if current_term s < aer_term r then
        (case raft_set_current_term s (aer_term r) of (e, s1) \<Rightarrow>
         if e \<noteq> 0 then Inr (e, s1)
         else rbind (raft_become_follower s1) (\<lambda>s2. Inr (0, s2\<lparr>current_leader := None\<rparr>)))
      else if current_term s \<noteq> aer_term r then Inr (0, s)
      else
        rbind (deref s node) (\<lambda>n.
        if 0 = aer_success r then aer_retry s node n r
        else
          rbind (aer_sufficient s node r) (\<lambda>s1.
          if aer_current_idx r \<le> raft_node_get_match_idx n then Inr (0, s1)
          else aer_progress s1 node r)))"

section \<open>Clients\<close>

primrec recv_entry_loop :: "'u raft_server \<Rightarrow> node_ref list \<Rightarrow> fault + 'u raft_server" where
  "recv_entry_loop s [] = Inr s"
| "recv_entry_loop s (r # rs) =
     (if me_node s = Some r then recv_entry_loop s rs
      else
        rbind (deref s (Some r)) (\<lambda>n.
        if \<not> raft_node_is_active n \<or> \<not> raft_node_is_voting n then recv_entry_loop s rs
        else if raft_node_get_next_idx n = raft_get_current_idx s
        then rbind (raft_send_appendentries s (Some r)) (\<lambda>(_, s1). recv_entry_loop s1 rs)
        else recv_entry_loop s rs))"

text \<open>
  The response is written on success only. The handler also stores the term in the client's
  entry, which is the second component of the result.
\<close>

definition raft_recv_entry ::
  "'u raft_server \<Rightarrow> raft_entry \<Rightarrow>
   fault + int \<times> raft_entry \<times> msg_entry_response option \<times> 'u raft_server" where
  "raft_recv_entry s ety =
     (if raft_entry_is_voting_cfg_change ety \<and> raft_voting_change_is_in_progress s
      then Inr (RAFT_ERR_ONE_VOTING_CHANGE_ONLY, ety, None, s)
      else if raft_entry_is_voting_cfg_change ety \<and> \<not> raft_is_apply_allowed s
      then Inr (RAFT_ERR_SNAPSHOT_IN_PROGRESS, ety, None, s)
      else if \<not> raft_is_leader s then Inr (RAFT_ERR_NOT_LEADER, ety, None, s)
      else
        let ety1 = ety\<lparr>ety_term := current_term s\<rparr> in
        rbind (raft_append_entry s ety1) (\<lambda>(e, s1).
        if e \<noteq> 0 then Inr (e, ety1, None, s1)
        else
          rbind (recv_entry_loop s1 (nodes s1)) (\<lambda>s2.
          rbind (raft_get_num_voting_nodes s2) (\<lambda>num.
          rbind (if 1 = num then raft_set_commit_idx s2 (raft_get_current_idx s2) else Inr s2) (\<lambda>s3.
          let r = \<lparr>er_id = ety_id ety1, er_term = current_term s3, er_idx = raft_get_current_idx s3\<rparr>;
              s4 = (if raft_entry_is_voting_cfg_change ety1
                    then s3\<lparr>voting_cfg_change_log_idx := raft_get_current_idx s3\<rparr> else s3)
          in Inr (0, ety1, Some r, s4))))))"

definition raft_msg_entry_response_committed :: "'u raft_server \<Rightarrow> msg_entry_response \<Rightarrow> fault + int" where
  "raft_msg_entry_response_committed s r =
     rbind (raft_get_entry_from_idx s (er_idx r)) (\<lambda>found.
     case found of
       None \<Rightarrow> Inr 0
     | Some ety \<Rightarrow>
         if er_term r \<noteq> ety_term ety then Inr (-1)
         else Inr (if er_idx r \<le> raft_get_commit_idx s then 1 else 0))"

section \<open>The log seen by index\<close>

text \<open>Term, id and type of the entry with index \<open>i\<close>, if the log holds it.\<close>

definition key_at :: "raft_log \<Rightarrow> int \<Rightarrow> (int \<times> int \<times> int) option" where
  "key_at me i = map_option ety_key (list_at (lg_base me) (log_list me) i)"

lemma key_at_keys:
  "key_at me i = (if lg_base me < i \<and> i \<le> lg_base me + int (length (log_keys me))
     then Some (log_keys me ! nat (i - lg_base me - 1)) else None)"
  by (auto simp: key_at_def list_at_def)

lemma current_idx_length: "log_inv me \<Longrightarrow> log_get_current_idx me = lg_base me + int (length (log_list me))"
  by (simp add: log_get_current_idx_def log_count_def log_inv_def)

lemma key_at_None:
  "log_inv me \<Longrightarrow> key_at me i = None \<longleftrightarrow> i \<le> lg_base me \<or> log_get_current_idx me < i"
  by (auto simp: key_at_def list_at_def current_idx_length)

lemma key_at_lookup: "log_inv me \<Longrightarrow> log_get_at_idx me i = Inr x \<Longrightarrow> map_option ety_key x = key_at me i"
  by (simp add: log_get_at_idx_spec key_at_def)

lemma deleted_to_current:
  assumes "deleted_to idx e me me'" and "log_inv me" and "lg_base me < idx" and "idx \<le> log_get_current_idx me"
  shows "idx - 1 \<le> log_get_current_idx me'" and "log_get_current_idx me' \<le> log_get_current_idx me"
    and "e = 0 \<Longrightarrow> log_get_current_idx me' = idx - 1"
proof -
  obtain k where k: "nat (idx - lg_base me - 1) \<le> k" "log_keys me' = take k (log_keys me)" "log_inv me'"
      "lg_base me' = lg_base me"
    using assms(1) by (auto simp: deleted_to_def)
  note cur = current_idx_length [OF assms(2)] current_idx_length [OF k(3)]
  have len: "length (log_list me') = min k (length (log_list me))"
    using arg_cong [OF k(2), of length] by (simp del: length_log_list)
  show "idx - 1 \<le> log_get_current_idx me'" "log_get_current_idx me' \<le> log_get_current_idx me"
    using k(1) assms(3,4) unfolding cur k(4) len by linarith+
  show "log_get_current_idx me' = idx - 1" if "e = 0"
  proof -
    have "log_list me' = take (nat (idx - lg_base me - 1)) (log_list me)"
      using assms(1) that by (simp add: deleted_to_def)
    moreover have "nat (idx - lg_base me - 1) \<le> length (log_list me)"
      using assms(4) unfolding cur by linarith
    ultimately show ?thesis
      using assms(3) unfolding cur k(4) by (simp del: length_log_list)
  qed
qed

lemma deleted_to_key:
  assumes "deleted_to idx e me me'" and "i < idx"
  shows "key_at me' i = key_at me i"
proof -
  obtain k where k: "nat (idx - lg_base me - 1) \<le> k" "log_keys me' = take k (log_keys me)"
      "lg_base me' = lg_base me"
    using assms(1) by (auto simp: deleted_to_def)
  have "nat (i - lg_base me - 1) < k" if "lg_base me < i" using that k(1) assms(2) by linarith
  then show ?thesis
    unfolding key_at_keys k(2,3) by auto
qed

lemma log_becomes_append:
  assumes "log_becomes me me' (log_list me @ [e])" and "log_inv me"
  shows "log_get_current_idx me' = log_get_current_idx me + 1"
    and "key_at me' (log_get_current_idx me + 1) = Some (ety_key e)"
    and "i \<le> log_get_current_idx me \<Longrightarrow> key_at me' i = key_at me i"
proof -
  have me': "log_inv me'" "lg_base me' = lg_base me" "log_list me' = log_list me @ [e]"
    using assms(1) by (simp_all add: log_becomes_def)
  note cur = current_idx_length [OF assms(2)] current_idx_length [OF me'(1)]
  show "log_get_current_idx me' = log_get_current_idx me + 1"
    unfolding cur me' by simp
  show "key_at me' (log_get_current_idx me + 1) = Some (ety_key e)"
    unfolding cur key_at_def me' by (simp add: list_at_def del: length_log_list)
  show "key_at me' i = key_at me i" if "i \<le> log_get_current_idx me"
  proof -
    have "nat (i - lg_base me - 1) < length (log_list me)" if "lg_base me < i"
      using that \<open>i \<le> log_get_current_idx me\<close> unfolding cur by linarith
    then show ?thesis
      using that unfolding cur key_at_def me' by (auto simp: list_at_def nth_append simp del: length_log_list)
  qed
qed

lemma log_becomes_same:
  assumes "log_becomes me me' (log_list me)" and "log_inv me"
  shows "log_get_current_idx me' = log_get_current_idx me" and "key_at me' i = key_at me i"
  using assms by (auto simp: log_becomes_def current_idx_length key_at_def)

section \<open>The two loops of the follower\<close>

text \<open>What every step of the replication keeps: base and wiring of the log, and the other fields.\<close>

definition repl_frame :: "'u raft_server \<Rightarrow> 'u raft_server \<Rightarrow> bool" where
  "repl_frame s s' \<longleftrightarrow> same_but_cfg s s' \<and> log_inv (log s') \<and> lg_base (log s') = lg_base (log s)"

lemma repl_frame_refl: "log_inv (log s) \<Longrightarrow> repl_frame s s"
  by (simp add: repl_frame_def)

lemma repl_frame_trans [trans]: "repl_frame s s' \<Longrightarrow> repl_frame s' s'' \<Longrightarrow> repl_frame s s''"
  by (auto simp: repl_frame_def intro: same_but_cfg_trans)

text \<open>
  The result of the first loop: the first \<open>k\<close> entries of the message were found with their
  terms, and unless the loop stopped with an error, the rest belongs right behind the log.
\<close>

definition ae_matched ::
  "'u raft_server \<Rightarrow> raft_entry list \<Rightarrow> int \<Rightarrow> int \<Rightarrow>
   int option \<times> raft_entry list \<times> int \<times> int \<times> 'u raft_server \<Rightarrow> bool" where
  "ae_matched s es idx cur res \<longleftrightarrow>
     (case res of (stop, rest, idx', cur', s') \<Rightarrow>
      repl_frame s s' \<and>
      (\<exists>k \<le> length es. rest = drop k es \<and> idx' = idx + int k \<and>
         cur' = (if k = 0 then cur else idx + int k - 1) \<and>
         (\<forall>j < k. map_option fst (key_at (log s') (idx + int j)) = Some (ety_term (es ! j)))) \<and>
      (\<forall>i. i < idx' \<or> i \<le> commit_idx s \<longrightarrow> key_at (log s') i = key_at (log s) i) \<and>
      idx' \<le> raft_get_current_idx s' + 1 \<and> commit_idx s \<le> raft_get_current_idx s' \<and>
      (stop = None \<longrightarrow> rest = [] \<or> idx' = raft_get_current_idx s' + 1) \<and>
      (\<forall>e. stop = Some e \<longrightarrow> e \<noteq> 0))"

lemma ae_matched_here:
  assumes "repl_frame s s'" and "\<And>i. i < idx \<or> i \<le> commit_idx s \<Longrightarrow> key_at (log s') i = key_at (log s) i"
    and "idx \<le> raft_get_current_idx s' + 1" and "commit_idx s \<le> raft_get_current_idx s'"
    and "stop = None \<Longrightarrow> es = [] \<or> idx = raft_get_current_idx s' + 1" and "\<And>e. stop = Some e \<Longrightarrow> e \<noteq> 0"
  shows "ae_matched s es idx cur (stop, es, idx, cur, s')"
  using assms by (auto simp: ae_matched_def intro!: exI [of _ 0])

lemma ae_matched_Cons:
  assumes "ae_matched s rest (idx + 1) idx res" and "map_option fst (key_at (log s) idx) = Some (ety_term ety)"
  shows "ae_matched s (ety # rest) idx cur res"
proof -
  obtain stop rest' idx' cur' s' where res: "res = (stop, rest', idx', cur', s')" by (cases res) auto
  obtain k where k: "k \<le> length rest" "rest' = drop k rest" "idx' = idx + 1 + int k"
      "cur' = (if k = 0 then idx else idx + 1 + int k - 1)"
      "\<forall>j < k. map_option fst (key_at (log s') (idx + 1 + int j)) = Some (ety_term (rest ! j))"
    and same: "\<forall>i. i < idx' \<or> i \<le> commit_idx s \<longrightarrow> key_at (log s') i = key_at (log s) i"
    using assms(1) by (auto simp: ae_matched_def res)
  have found: "map_option fst (key_at (log s') (idx + int j)) = Some (ety_term ((ety # rest) ! j))" if "j < Suc k" for j
  proof (cases j)
    case 0
    then show ?thesis using same assms(2) k(3) by simp
  next
    case (Suc i)
    then show ?thesis using k(5) that by (simp add: ac_simps)
  qed
  have "\<exists>k \<le> length (ety # rest). rest' = drop k (ety # rest) \<and> idx' = idx + int k \<and>
      cur' = (if k = 0 then cur else idx + int k - 1) \<and>
      (\<forall>j < k. map_option fst (key_at (log s') (idx + int j)) = Some (ety_term ((ety # rest) ! j)))"
    by (rule exI [of _ "Suc k"]) (use k(1-4) found in auto)
  then show ?thesis using assms(1) by (simp add: ae_matched_def res)
qed

lemma ae_match_loop_spec:
  assumes inv: "log_inv (log s)" and small: "lg_size (log s) \<le> 2 ^ 31" and pos: "0 \<le> commit_idx s"
    and com: "commit_idx s \<le> raft_get_current_idx s"
    and "lg_base (log s) < idx" and "idx \<le> raft_get_current_idx s + 1"
  shows "rok (ae_match_loop es s idx cur) (ae_matched s es idx cur)"
  using assms(5,6)
proof (induction es arbitrary: idx cur)
  case Nil
  then show ?case using com ae_matched_here [OF repl_frame_refl [OF inv], of idx None "[]"] by simp
next
  case (Cons ety rest)
  show ?case
  proof (cases "list_at (lg_base (log s)) (log_list (log s)) idx")
    case None
    then have "idx = raft_get_current_idx s + 1"
      using Cons.prems inv by (auto simp: list_at_def raft_get_current_idx_def current_idx_length split: if_splits)
    then show ?thesis
      using None com ae_matched_here [OF repl_frame_refl [OF inv], of idx None "ety # rest"] by (simp add: inv)
  next
    case (Some x)
    have in_log: "idx \<le> raft_get_current_idx s"
      using Some inv by (auto simp: list_at_def raft_get_current_idx_def current_idx_length split: if_splits)
    have stop: "ae_matched s (ety # rest) idx cur (Some RAFT_ERR_SHUTDOWN, ety # rest, idx, cur, s)"
      using Cons.prems com by (intro ae_matched_here) (auto simp: repl_frame_refl inv raft_errs)
    show ?thesis
    proof (cases "ety_term x = ety_term ety")
      case True
      have "map_option fst (key_at (log s) idx) = Some (ety_term ety)"
        using Some True by (simp add: key_at_def ety_key_def)
      moreover have "rok (ae_match_loop rest s (idx + 1) idx) (ae_matched s rest (idx + 1) idx)"
        using Cons.prems in_log by (intro Cons.IH) auto
      ultimately have "rok (ae_match_loop rest s (idx + 1) idx) (ae_matched s (ety # rest) idx cur)"
        by (auto elim!: rok_mono intro: ae_matched_Cons)
      then show ?thesis using Some True by (simp add: inv)
    next
      case False
      have cut: "ae_matched s (ety # rest) idx cur (if e \<noteq> 0 then Some e else None, ety # rest, idx, cur, s1)"
        if "same_but_cfg s s1" "deleted_to idx e (log s) (log s1)" "commit_idx s < idx" for e s1
      proof (rule ae_matched_here)
        show "repl_frame s s1" using that(1,2) by (simp add: repl_frame_def deleted_to_def)
      qed (use that(3) in_log deleted_to_key [OF that(2)]
          deleted_to_current [OF that(2) inv Cons.prems(1)] in
          \<open>auto simp: raft_get_current_idx_def split: if_splits\<close>)
      have "rok (raft_delete_entry_from_idx s idx) (\<lambda>(e, s1). ae_matched s (ety # rest) idx cur
          (if e \<noteq> 0 then Some e else None, ety # rest, idx, cur, s1))"
        by (rule rok_mono [OF raft_delete_entry_from_idx_spec [OF inv small pos]]) (auto intro: cut)
      then show ?thesis using Some False stop by (simp add: inv case_prod_unfold)
    qed
  qed
qed

definition ae_appended ::
  "'u raft_server \<Rightarrow> raft_entry list \<Rightarrow> int \<Rightarrow> int \<Rightarrow> int \<times> int \<times> 'u raft_server \<Rightarrow> bool" where
  "ae_appended s es idx cur res \<longleftrightarrow>
     (case res of (e, cur', s') \<Rightarrow>
      repl_frame s s' \<and> raft_get_current_idx s \<le> raft_get_current_idx s' \<and>
      (\<forall>i \<le> raft_get_current_idx s. key_at (log s') i = key_at (log s) i) \<and>
      (e = 0 \<longrightarrow>
         cur' = (if es = [] then cur else idx + int (length es) - 1) \<and>
         raft_get_current_idx s' = raft_get_current_idx s + int (length es) \<and>
         (\<forall>j < length es. key_at (log s') (raft_get_current_idx s + 1 + int j) = Some (ety_key (es ! j)))))"

lemma ae_appended_Cons:
  assumes s1: "repl_frame s s1" "raft_get_current_idx s1 = raft_get_current_idx s + 1"
      "\<And>i. i \<le> raft_get_current_idx s \<Longrightarrow> key_at (log s1) i = key_at (log s) i"
      "key_at (log s1) (raft_get_current_idx s + 1) = Some (ety_key ety)"
    and rest: "ae_appended s1 rest (idx + 1) idx (e, cur', s')"
  shows "ae_appended s (ety # rest) idx cur (e, cur', s')"
proof -
  have "key_at (log s') (raft_get_current_idx s + 1 + int j) = Some (ety_key ((ety # rest) ! j))"
    if "e = 0" "j < length (ety # rest)" for j
    using rest that s1(2,4) by (cases j) (auto simp: ae_appended_def algebra_simps)
  then show ?thesis
    using rest s1(1-3) by (auto simp: ae_appended_def intro: repl_frame_trans)
qed

lemma ae_append_loop_spec:
  "log_inv (log s) \<Longrightarrow> rok (ae_append_loop es s idx cur) (ae_appended s es idx cur)"
proof (induction es arbitrary: s idx cur)
  case Nil
  then show ?case by (simp add: ae_appended_def repl_frame_refl)
next
  case (Cons ety rest)
  have failed: "ae_appended s (ety # rest) idx cur (e, cur, s1)"
    if "same_but_cfg s s1" "log_becomes (log s) (log s1) (log_list (log s))" "e \<noteq> 0" for e s1
    using that log_becomes_same [OF that(2) Cons.prems]
    by (auto simp: ae_appended_def repl_frame_def raft_get_current_idx_def log_becomes_def)
  have grown: "rok (ae_append_loop rest s1 (idx + 1) idx) (ae_appended s (ety # rest) idx cur)"
    if "same_but_cfg s s1" "log_becomes (log s) (log s1) (log_list (log s) @ [ety\<lparr>ety_data := d\<rparr>])" for s1 d
  proof -
    have "log_inv (log s1)" "repl_frame s s1"
      using that by (simp_all add: log_becomes_def repl_frame_def)
    then show ?thesis
      using log_becomes_append [OF that(2) Cons.prems]
      by (intro rok_mono [OF Cons.IH]) (auto simp: raft_get_current_idx_def intro: ae_appended_Cons)
  qed
  have "rok (raft_append_entry s ety) (\<lambda>(e, s1).
      rok (if e \<noteq> 0 then Inr (e, cur, s1) else ae_append_loop rest s1 (idx + 1) idx)
        (ae_appended s (ety # rest) idx cur))"
    by (rule rok_mono [OF raft_append_entry_spec [OF Cons.prems, of ety]]) (auto intro: failed grown)
  then show ?case by (simp add: case_prod_unfold)
qed

section \<open>Safety of the log\<close>

text \<open>
  The server's invariant: a well-formed log, of which a prefix is committed, a prefix of that
  is applied, and only applied entries have been compacted away or belong to a snapshot.
\<close>

definition raft_inv :: "'u raft_server \<Rightarrow> bool" where
  "raft_inv s \<longleftrightarrow>
     log_inv (log s) \<and> lg_base (log s) \<le> last_applied_idx s \<and> last_applied_idx s \<le> commit_idx s \<and>
     commit_idx s \<le> raft_get_current_idx s \<and>
     snapshot_last_idx s \<le> last_applied_idx s \<and> saved_snapshot_last_idx s \<le> last_applied_idx s"

text \<open>
  \<open>log_safe s s'\<close>: the commit index, the applied index and the base of the log do not move back,
  and committed entries stay as they are until they are compacted away.
\<close>

definition log_safe :: "'u raft_server \<Rightarrow> 'u raft_server \<Rightarrow> bool" where
  "log_safe s s' \<longleftrightarrow>
     commit_idx s \<le> commit_idx s' \<and> last_applied_idx s \<le> last_applied_idx s' \<and>
     lg_base (log s) \<le> lg_base (log s') \<and>
     (\<forall>i. lg_base (log s') < i \<and> i \<le> commit_idx s \<longrightarrow> key_at (log s') i = key_at (log s) i)"

lemma log_safe_refl [simp]: "log_safe s s"
  by (simp add: log_safe_def)

lemma log_safe_trans [trans]: "log_safe s s' \<Longrightarrow> log_safe s' s'' \<Longrightarrow> log_safe s s''"
  unfolding log_safe_def by (auto intro: order_trans)

lemma raft_inv_commit_nonneg: "raft_inv s \<Longrightarrow> 0 \<le> commit_idx s"
  by (simp add: raft_inv_def log_inv_def)

text \<open>Steps that touch none of the fields involved.\<close>

definition log_fields :: "'u raft_server \<Rightarrow> raft_log \<times> int \<times> int \<times> int \<times> int" where
  "log_fields s = (log s, commit_idx s, last_applied_idx s, snapshot_last_idx s, saved_snapshot_last_idx s)"

lemma log_fields_eq:
  assumes "log_fields s' = log_fields s"
  shows "raft_inv s' = raft_inv s" and "log_safe s s'" and "log_safe s' s" and "log_safe s'' s' = log_safe s'' s"
  using assms by (simp_all add: log_fields_def raft_inv_def log_safe_def raft_get_current_idx_def)

lemma log_fields_frame: "election_frame s s' \<Longrightarrow> log_fields s' = log_fields s"
  by (simp add: log_fields_def election_frame_def)

text \<open>Replication steps keep the invariant when they keep the committed entries.\<close>

lemma repl_frame_inv:
  assumes "repl_frame s s'" and "raft_inv s" and "commit_idx s \<le> raft_get_current_idx s'"
    and "\<And>i. i \<le> commit_idx s \<Longrightarrow> key_at (log s') i = key_at (log s) i"
  shows "raft_inv s'" and "log_safe s s'"
proof -
  have "saved_snapshot_last_idx s' = saved_snapshot_last_idx s"
    using assms(1) by (simp add: repl_frame_def same_but_cfg_def same_but_log_def same_core_def)
  then show "raft_inv s'" "log_safe s s'"
    using assms same_but_cfgD [of s s'] by (auto simp: repl_frame_def raft_inv_def log_safe_def)
qed

definition same_role :: "'u raft_server \<Rightarrow> 'u raft_server \<Rightarrow> bool" where
  "same_role s s' \<longleftrightarrow> current_term s' = current_term s \<and> voted_for s' = voted_for s \<and> state s' = state s"

lemma same_role_trans [trans]: "same_role s s' \<Longrightarrow> same_role s' s'' \<Longrightarrow> same_role s s''"
  by (simp add: same_role_def)

lemma repl_frame_role: "repl_frame s s' \<Longrightarrow> same_role s s'"
  using same_but_cfgD [of s s'] by (simp add: repl_frame_def same_role_def)

lemma ae_match_loop_safe:
  assumes "raft_inv s" and "lg_size (log s) \<le> 2 ^ 31"
  shows "rok (ae_match_loop es s idx cur) (\<lambda>(_, _, _, _, s'). raft_inv s' \<and> log_safe s s' \<and> same_role s s')"
proof (cases "lg_base (log s) < idx \<and> idx \<le> raft_get_current_idx s + 1")
  case True
  have "rok (ae_match_loop es s idx cur) (ae_matched s es idx cur)"
    using assms True by (intro ae_match_loop_spec) (auto simp: raft_inv_def log_inv_def)
  then show ?thesis
    by (rule rok_mono)
      (use repl_frame_inv [OF _ assms(1)] repl_frame_role in \<open>auto simp: ae_matched_def\<close>)
next
  case False
  then have "key_at (log s) idx = None"
    using assms(1) by (auto simp: raft_inv_def key_at_None raft_get_current_idx_def)
  then have "list_at (lg_base (log s)) (log_list (log s)) idx = None" by (simp add: key_at_def)
  then show ?thesis
    using assms(1) by (cases es) (simp_all add: raft_inv_def same_role_def)
qed

lemma ae_append_loop_safe:
  assumes "raft_inv s"
  shows "rok (ae_append_loop es s idx cur) (\<lambda>(_, _, s'). raft_inv s' \<and> log_safe s s' \<and> same_role s s')"
proof -
  have "rok (ae_append_loop es s idx cur) (ae_appended s es idx cur)"
    using assms by (intro ae_append_loop_spec) (simp add: raft_inv_def)
  moreover have "commit_idx s \<le> raft_get_current_idx s" using assms by (simp add: raft_inv_def)
  ultimately show ?thesis
    by (elim rok_mono)
      (use repl_frame_inv [OF _ assms] repl_frame_role in \<open>fastforce simp: ae_appended_def\<close>)
qed

lemma raft_set_commit_idx_step:
  assumes "raft_inv s"
  shows "rok (raft_set_commit_idx s c) (\<lambda>s'. s' = s\<lparr>commit_idx := c\<rparr> \<and> commit_idx s \<le> c \<and>
    c \<le> raft_get_current_idx s \<and> raft_inv s' \<and> log_safe s s' \<and> same_role s s')"
  using assms
  by (auto simp: raft_set_commit_idx_def raft_inv_def log_safe_def same_role_def raft_get_current_idx_def)

lemma ae_commit_step:
  assumes "raft_inv s"
  shows "rok (ae_commit s ae) (\<lambda>s'. raft_inv s' \<and> log_safe s s' \<and> same_role s s' \<and> log s' = log s \<and>
    commit_idx s' = (if commit_idx s < ae_leader_commit ae
                     then min (max (raft_get_current_idx s) 1) (ae_leader_commit ae) else commit_idx s))"
  using assms unfolding ae_commit_def Let_def
  by (auto intro!: rok_mono [OF raft_set_commit_idx_step] simp: same_role_def)

lemma ae_accept_safe:
  assumes "raft_inv s" and "lg_size (log s) \<le> 2 ^ 31"
  shows "rok (ae_accept s ae) (\<lambda>(_, _, s'). raft_inv s' \<and> log_safe s s' \<and> same_role s s')" (is "rok _ ?Q")
proof -
  have commit: "rok (ae_commit s2 ae) (\<lambda>s3. ?Q (ae_out s3 ae e k cur'))"
    if "raft_inv s2" "log_safe s s2" "same_role s s2" for s2 e k cur'
    by (rule rok_mono [OF ae_commit_step [OF that(1)]])
      (use that in \<open>auto simp: ae_out_def intro: log_safe_trans same_role_trans\<close>)
  have append: "rok (ae_append_loop rest s1 idx cur) (\<lambda>(e, cur', s2).
      rok (if e \<noteq> 0 then Inr (ae_out s2 ae e 1 cur')
           else rbind (ae_commit s2 ae) (\<lambda>s3. Inr (ae_out s3 ae 0 1 cur'))) ?Q)"
    if s1: "raft_inv s1" "log_safe s s1" "same_role s s1" for rest s1 idx cur
  proof (rule rok_mono [OF ae_append_loop_safe [OF s1(1)]], clarify)
    fix e cur' s2 assume "raft_inv s2" "log_safe s1 s2" "same_role s1 s2"
    then have s2: "raft_inv s2" "log_safe s s2" "same_role s s2"
      using s1 by (auto intro: log_safe_trans same_role_trans)
    then show "rok (if e \<noteq> 0 then Inr (ae_out s2 ae e 1 cur')
        else rbind (ae_commit s2 ae) (\<lambda>s3. Inr (ae_out s3 ae 0 1 cur'))) ?Q"
      using commit [OF s2, of 0 1 cur'] by (simp add: ae_out_def)
  qed
  show ?thesis
    unfolding ae_accept_def rok_simps
  proof (rule rok_mono [OF ae_match_loop_safe [OF assms]], clarify)
    fix stop rest idx cur s1
    assume s1: "raft_inv s1" "log_safe s s1" "same_role s s1"
    show "rok (case stop of Some e \<Rightarrow> Inr (ae_out s1 ae e 1 cur)
        | None \<Rightarrow> rbind (ae_append_loop rest s1 idx cur) (\<lambda>(e, cur', s2).
            if e \<noteq> 0 then Inr (ae_out s2 ae e 1 cur')
            else rbind (ae_commit s2 ae) (\<lambda>s3. Inr (ae_out s3 ae 0 1 cur')))) ?Q"
      using s1 append [OF s1] by (auto simp: ae_out_def case_prod_unfold split: option.split)
  qed
qed

lemma ae_check_term_step:
  "rok (ae_check_term s ae) (\<lambda>(stop, s1). election_frame s s1 \<and> vote_step s s1 \<and>
     (stop = None \<longrightarrow> current_term s1 = ae_term ae \<and> state s1 \<noteq> RAFT_STATE_CANDIDATE))"
proof -
  consider "current_term s = ae_term ae" | "current_term s < ae_term ae" | "ae_term ae < current_term s"
    by linarith
  then show ?thesis
  proof cases
    case 1
    then show ?thesis
      by (auto simp: ae_check_term_def vote_step_def intro!: rok_mono [OF raft_become_follower_spec])
  next
    case 2
    obtain e s1 where st: "raft_set_current_term s (ae_term ae) = (e, s1)" by fastforce
    from st show ?thesis
    proof (cases rule: raft_set_current_term_cases)
      case (3 u)
      then have "rok (raft_become_follower s1) (\<lambda>s2. election_frame s s2 \<and> vote_step s s2 \<and>
          current_term s2 = ae_term ae \<and> state s2 \<noteq> RAFT_STATE_CANDIDATE)"
        by (intro rok_mono [OF raft_become_follower_spec]) (auto simp: vote_step_def)
      then show ?thesis using 2 3 st by (simp add: ae_check_term_def)
    qed (use 2 st in \<open>auto simp: ae_check_term_def vote_step_def\<close>)
  next
    case 3
    then show ?thesis by (simp add: ae_check_term_def)
  qed
qed

lemma ae_check_prev_safe:
  assumes "raft_inv s" and "lg_size (log s) \<le> 2 ^ 31"
  shows "rok (ae_check_prev s ae) (\<lambda>(stop, s1). raft_inv s1 \<and> log_safe s s1 \<and> same_role s s1 \<and>
    (stop = None \<longrightarrow> s1 = s \<and> (0 < ae_prev_log_idx ae \<longrightarrow> ae_prev_log_idx ae \<le> raft_get_current_idx s)))"
proof -
  have inv: "log_inv (log s)" using assms(1) by (simp add: raft_inv_def)
  have cut: "rok (raft_delete_entry_from_idx s idx) (\<lambda>(e, s1). raft_inv s1 \<and> log_safe s s1 \<and> same_role s s1)"
    if found: "list_at (lg_base (log s)) (log_list (log s)) idx = Some x" and idx: "commit_idx s < idx" for idx x
  proof (rule rok_mono [OF raft_delete_entry_from_idx_spec [OF inv assms(2) raft_inv_commit_nonneg [OF assms(1)]]],
      clarify)
    fix e s1 assume d: "same_but_cfg s s1" "deleted_to idx e (log s) (log s1)"
    have range: "lg_base (log s) < idx" "idx \<le> log_get_current_idx (log s)"
      using found by (auto simp: list_at_def current_idx_length [OF inv] split: if_splits)
    have frame: "repl_frame s s1" using d by (simp add: repl_frame_def deleted_to_def)
    have "commit_idx s \<le> raft_get_current_idx s1"
      using deleted_to_current(1) [OF d(2) inv range] idx by (simp add: raft_get_current_idx_def)
    moreover have "key_at (log s1) i = key_at (log s) i" if "i \<le> commit_idx s" for i
      using deleted_to_key [OF d(2)] that idx by simp
    ultimately show "raft_inv s1 \<and> log_safe s s1 \<and> same_role s s1"
      using repl_frame_inv [OF frame assms(1)] repl_frame_role [OF frame] by blast
  qed
  have role: "same_role s s" by (simp add: same_role_def)
  have cur: "ae_prev_log_idx ae \<le> raft_get_current_idx s"
    if "ae_prev_log_idx ae = snapshot_last_idx s \<or>
        list_at (lg_base (log s)) (log_list (log s)) (ae_prev_log_idx ae) = Some x" for x
    using that assms(1)
    by (auto simp: raft_inv_def list_at_def raft_get_current_idx_def current_idx_length [OF inv] split: if_splits)
  show ?thesis
    unfolding ae_check_prev_def
    using cut [of "ae_prev_log_idx ae"] role cur assms(1)
    by (auto simp: inv split: option.split elim!: rok_mono)
qed

text \<open>The follower's handler keeps the invariant and everything that is committed.\<close>

lemma raft_recv_appendentries_safe:
  assumes "raft_inv s" and "lg_size (log s) \<le> 2 ^ 31"
  shows "rok (raft_recv_appendentries s node ae)
    (\<lambda>(e, r, s'). raft_inv s' \<and> log_safe s s' \<and> vote_step s s' \<and> aer_term r = current_term s')" (is "rok _ ?Q")
proof -
  have accept: "rok (ae_accept s3 ae) ?Q"
    if s3: "raft_inv s3" "log_safe s s3" "vote_step s s3" "lg_size (log s3) \<le> 2 ^ 31" for s3
  proof -
    have out: "rok (ae_accept s3 ae) (\<lambda>(_, r, s'). aer_term r = current_term s')"
      unfolding ae_accept_def
      by (auto simp: ae_out_def split: option.splits intro!: rokI [of "ae_match_loop a b c d" for a b c d]
          rokI [of "ae_append_loop a b c d" for a b c d] rokI [of "ae_commit a b" for a b])
    show ?thesis
    proof (rule rokI, clarify)
      fix e r s' assume run: "ae_accept s3 ae = Inr (e, r, s')"
      show "raft_inv s' \<and> log_safe s s' \<and> vote_step s s' \<and> aer_term r = current_term s'"
        using rokD [OF ae_accept_safe [OF s3(1,4)] run] rokD [OF out run] s3(2,3)
        by (auto simp: same_role_def vote_step_def intro: log_safe_trans)
    qed
  qed
  show ?thesis
    unfolding raft_recv_appendentries_def rok_simps
  proof (rule rok_mono [OF ae_check_term_step], clarify)
    fix stop s1 assume s1: "election_frame s s1" "vote_step s s1"
    define s2 where "s2 = s1\<lparr>current_leader := node, timeout_elapsed := 0\<rparr>"
    have f: "log_fields s1 = log_fields s" "log_fields s2 = log_fields s"
      using log_fields_frame [OF s1(1)] by (simp_all add: s2_def log_fields_def)
    note g = log_fields_eq [OF f(1)] log_fields_eq [OF f(2)]
    have v2: "vote_step s s2" using s1(2) by (simp add: s2_def vote_step_def)
    have l2: "log s2 = log s" using f(2) by (simp add: log_fields_def)
    have pre: "raft_inv s2" "lg_size (log s2) \<le> 2 ^ 31" using g assms l2 by simp_all
    have "rok (ae_check_prev s2 ae) (\<lambda>(stop, s3).
        rok (case stop of Some e \<Rightarrow> Inr (ae_out s3 ae e 0 0) | None \<Rightarrow> ae_accept s3 ae) ?Q)"
    proof (rule rok_mono [OF ae_check_prev_safe [OF pre]], clarify)
      fix stop :: "int option" and s3 assume s3: "raft_inv s3" "log_safe s2 s3" "same_role s2 s3"
        "stop = None \<longrightarrow> s3 = s2 \<and> (0 < ae_prev_log_idx ae \<longrightarrow> ae_prev_log_idx ae \<le> raft_get_current_idx s2)"
      have "log_safe s s3" "vote_step s s3"
        using g(6) s3(2,3) v2 by (auto simp: same_role_def vote_step_def intro: log_safe_trans)
      then show "rok (case stop of Some e \<Rightarrow> Inr (ae_out s3 ae e 0 0) | None \<Rightarrow> ae_accept s3 ae) ?Q"
        using s3(1,4) accept [of s3] assms(2) l2 by (cases stop) (auto simp: ae_out_def)
    qed
    then show "rok (case stop of Some e \<Rightarrow> Inr (ae_out s1 ae e 0 0)
        | None \<Rightarrow> let s2 = s1\<lparr>current_leader := node, timeout_elapsed := 0\<rparr> in
            rbind (ae_check_prev s2 ae) (\<lambda>(stop2, s3).
            case stop2 of Some e \<Rightarrow> Inr (ae_out s3 ae e 0 0) | None \<Rightarrow> ae_accept s3 ae)) ?Q"
      using g assms(1) s1(2)
      by (cases stop) (auto simp: ae_out_def s2_def [symmetric] Let_def case_prod_unfold)
  qed
qed

section \<open>The follower's log agrees with an accepted message\<close>

text \<open>
  \<open>ae_agrees s' ae r\<close>: the log holds an entry with the term of the message's entry at each of
  their indexes, and the response reports the last of them.
\<close>

definition ae_agrees :: "'u raft_server \<Rightarrow> msg_appendentries \<Rightarrow> msg_appendentries_response \<Rightarrow> bool" where
  "ae_agrees s' ae r \<longleftrightarrow>
     aer_current_idx r = ae_prev_log_idx ae + int (length (ae_entries ae)) \<and>
     (\<forall>j < length (ae_entries ae).
        map_option fst (key_at (log s') (ae_prev_log_idx ae + 1 + int j)) = Some (ety_term (ae_entries ae ! j)))"

lemma ae_matched_appended:
  assumes m: "ae_matched s es idx cur (None, rest, idx', cur', s1)"
    and a: "ae_appended s1 rest idx' cur' (0, cur'', s2)" and "cur = idx - 1"
  shows "cur'' = idx + int (length es) - 1"
    and "\<forall>j < length es. map_option fst (key_at (log s2) (idx + int j)) = Some (ety_term (es ! j))"
proof -
  obtain k where k: "k \<le> length es" "rest = drop k es" "idx' = idx + int k"
      "cur' = (if k = 0 then cur else idx + int k - 1)"
      "\<forall>j < k. map_option fst (key_at (log s1) (idx + int j)) = Some (ety_term (es ! j))"
    and le: "idx' \<le> raft_get_current_idx s1 + 1"
    and ends: "rest = [] \<or> idx' = raft_get_current_idx s1 + 1"
    using m by (auto simp: ae_matched_def)
  have old: "key_at (log s2) i = key_at (log s1) i" if "i \<le> raft_get_current_idx s1" for i
    using a that by (simp add: ae_appended_def)
  have new: "key_at (log s2) (raft_get_current_idx s1 + 1 + int j) = Some (ety_key (rest ! j))" if "j < length rest" for j
    using a that by (simp add: ae_appended_def)
  have "cur'' = (if rest = [] then cur' else idx' + int (length rest) - 1)"
    using a by (simp add: ae_appended_def)
  then show "cur'' = idx + int (length es) - 1"
    using k(1-4) assms(3) by (auto simp: of_nat_diff)
  show "\<forall>j < length es. map_option fst (key_at (log s2) (idx + int j)) = Some (ety_term (es ! j))"
  proof (intro allI impI)
    fix j assume j: "j < length es"
    show "map_option fst (key_at (log s2) (idx + int j)) = Some (ety_term (es ! j))"
    proof (cases "j < k")
      case True
      then show ?thesis using old [of "idx + int j"] k(3,5) le by simp
    next
      case False
      then have "rest \<noteq> []" "j - k < length rest" using j k(1,2) by auto
      moreover have "idx + int j = raft_get_current_idx s1 + 1 + int (j - k)"
        using ends k(3) False \<open>rest \<noteq> []\<close> by simp
      moreover have "rest ! (j - k) = es ! j" using k(2) False j by simp
      ultimately show ?thesis using new [of "j - k"] by (simp add: ety_key_def)
    qed
  qed
qed

lemma ae_accept_agrees:
  assumes "raft_inv s" and "lg_size (log s) \<le> 2 ^ 31"
    and "lg_base (log s) \<le> ae_prev_log_idx ae" and "ae_prev_log_idx ae \<le> raft_get_current_idx s"
  shows "rok (ae_accept s ae) (\<lambda>(e, r, s'). e = 0 \<longrightarrow> ae_agrees s' ae r)"
proof -
  let ?p = "ae_prev_log_idx ae"
  have inv: "log_inv (log s)" "0 \<le> commit_idx s" "commit_idx s \<le> raft_get_current_idx s"
    using assms(1) by (auto simp: raft_inv_def log_inv_def)
  have "rok (ae_match_loop (ae_entries ae) s (?p + 1) ?p) (ae_matched s (ae_entries ae) (?p + 1) ?p)"
    using assms(2-4) inv by (intro ae_match_loop_spec) auto
  moreover have "rok (ae_append_loop rest s1 idx cur) (\<lambda>(e, cur', s2).
      rok (if e \<noteq> 0 then Inr (ae_out s2 ae e 1 cur')
           else rbind (ae_commit s2 ae) (\<lambda>s3. Inr (ae_out s3 ae 0 1 cur')))
        (\<lambda>(e, r, s'). e = 0 \<longrightarrow> ae_agrees s' ae r))"
    if m: "ae_matched s (ae_entries ae) (?p + 1) ?p (None, rest, idx, cur, s1)" for rest idx cur s1
  proof -
    have "log_inv (log s1)" using m by (auto simp: ae_matched_def repl_frame_def)
    then show ?thesis
    proof (rule rok_mono [OF ae_append_loop_spec], clarify)
      fix e cur' s2 assume a: "ae_appended s1 rest idx cur (e, cur', s2)"
      have "rok (ae_commit s2 ae) (\<lambda>s3. log s3 = log s2)"
        by (auto simp: ae_commit_def raft_set_commit_idx_def Let_def)
      then show "rok (if e \<noteq> 0 then Inr (ae_out s2 ae e 1 cur')
          else rbind (ae_commit s2 ae) (\<lambda>s3. Inr (ae_out s3 ae 0 1 cur')))
          (\<lambda>(e, r, s'). e = 0 \<longrightarrow> ae_agrees s' ae r)"
        using ae_matched_appended [OF m] a
        by (auto simp: ae_out_def ae_agrees_def elim!: rok_mono)
    qed
  qed
  ultimately show ?thesis
    unfolding ae_accept_def rok_simps
    by (elim rok_mono) (auto simp: ae_out_def ae_matched_def case_prod_unfold split: option.split)
qed

lemma raft_recv_appendentries_agrees:
  assumes "raft_inv s" and "lg_size (log s) \<le> 2 ^ 31" and "lg_base (log s) \<le> ae_prev_log_idx ae"
  shows "rok (raft_recv_appendentries s node ae)
    (\<lambda>(e, r, s'). e = 0 \<and> aer_success r = 1 \<longrightarrow> ae_agrees s' ae r)" (is "rok _ ?Q")
proof -
  have pos: "0 \<le> lg_base (log s)" "lg_base (log s) \<le> raft_get_current_idx s"
    using assms(1) by (auto simp: raft_inv_def log_inv_def)
  show ?thesis
    unfolding raft_recv_appendentries_def rok_simps
  proof (rule rok_mono [OF ae_check_term_step], clarify)
    fix stop s1 assume s1: "election_frame s s1"
    define s2 where "s2 = s1\<lparr>current_leader := node, timeout_elapsed := 0\<rparr>"
    have f: "log_fields s2 = log_fields s"
      using log_fields_frame [OF s1] by (simp add: s2_def log_fields_def)
    then have l2: "log s2 = log s" and cur2: "raft_get_current_idx s2 = raft_get_current_idx s"
      by (simp_all add: log_fields_def raft_get_current_idx_def)
    have pre: "raft_inv s2" "lg_size (log s2) \<le> 2 ^ 31"
      using log_fields_eq [OF f] assms l2 by simp_all
    have "rok (ae_check_prev s2 ae) (\<lambda>(stop, s3).
        rok (case stop of Some e \<Rightarrow> Inr (ae_out s3 ae e 0 0) | None \<Rightarrow> ae_accept s3 ae) ?Q)"
    proof (rule rok_mono [OF ae_check_prev_safe [OF pre]], clarify)
      fix stop :: "int option" and s3
      assume s3: "stop = None \<longrightarrow> s3 = s2 \<and> (0 < ae_prev_log_idx ae \<longrightarrow> ae_prev_log_idx ae \<le> raft_get_current_idx s2)"
      have "rok (ae_accept s2 ae) (\<lambda>(e, r, s'). e = 0 \<longrightarrow> ae_agrees s' ae r)" if "stop = None"
        using s3 that pos assms(3) cur2 l2 by (intro ae_accept_agrees pre) auto
      then show "rok (case stop of Some e \<Rightarrow> Inr (ae_out s3 ae e 0 0) | None \<Rightarrow> ae_accept s3 ae) ?Q"
        using s3 by (cases stop) (auto simp: ae_out_def elim: rok_mono)
    qed
    then show "rok (case stop of Some e \<Rightarrow> Inr (ae_out s1 ae e 0 0)
        | None \<Rightarrow> let s2 = s1\<lparr>current_leader := node, timeout_elapsed := 0\<rparr> in
            rbind (ae_check_prev s2 ae) (\<lambda>(stop2, s3).
            case stop2 of Some e \<Rightarrow> Inr (ae_out s3 ae e 0 0) | None \<Rightarrow> ae_accept s3 ae)) ?Q"
      by (cases stop) (auto simp: ae_out_def s2_def [symmetric] Let_def case_prod_unfold)
  qed
qed

section \<open>When a leader commits\<close>

text \<open>The active voters other than the server that have acknowledged everything up to \<open>point\<close>.\<close>

definition acked :: "'u raft_server \<Rightarrow> int \<Rightarrow> node_ref list" where
  "acked s point = filter (\<lambda>r. me_node s \<noteq> Some r \<and> is_voter s r \<and> point \<le> match_idx (node_of s r)) (nodes s)"

lemma aer_count_loop_spec:
  "\<forall>r \<in> set rs. heap s r \<noteq> None \<Longrightarrow>
   aer_count_loop s point rs k = Inr (k + int (length (filter (\<lambda>r. me_node s \<noteq> Some r \<and> is_voter s r \<and>
     point \<le> match_idx (node_of s r)) rs)))"
  by (induction rs arbitrary: k) (auto simp: is_voter_def raft_node_get_match_idx_def)

text \<open>
  The rule for advancing the commit index: the entry is of the leader's own term, and more
  than half as many voters as there are have it, the leader counting as one.
\<close>

definition commit_rule :: "'u raft_server \<Rightarrow> int \<Rightarrow> bool" where
  "commit_rule s point \<longleftrightarrow>
     map_option fst (key_at (log s) point) = Some (current_term s) \<and>
     int (length (voters s)) < 2 * (1 + int (length (acked s point)))"

lemma aer_commit_spec:
  assumes "raft_inv s"
  shows "rok (aer_commit s point) (\<lambda>s'. s' = s \<or>
    s' = s\<lparr>commit_idx := point\<rparr> \<and> raft_inv s' \<and> log_safe s s' \<and> commit_idx s < point \<and>
    (nodes_inv s \<longrightarrow> commit_rule s point))"
proof -
  have inv: "log_inv (log s)" using assms by (simp add: raft_inv_def)
  have set: "rok (raft_set_commit_idx s point) (\<lambda>s'. s' = s\<lparr>commit_idx := point\<rparr> \<and> raft_inv s' \<and> log_safe s s')"
    by (rule rok_mono [OF raft_set_commit_idx_step [OF assms]]) simp
  have rule: "commit_rule s point"
    if "nodes_inv s" "list_at (lg_base (log s)) (log_list (log s)) point = Some ety" "ety_term ety = current_term s"
      "aer_count_loop s point (nodes s) 1 = Inr votes" "raft_get_num_voting_nodes s = Inr num" "num sdiv 2 < votes"
    for ety votes num
  proof -
    have "votes = 1 + int (length (acked s point))"
      using aer_count_loop_spec [of "nodes s" s point 1] that(1,4) by (auto simp: nodes_inv_def acked_def)
    moreover have "num = int (length (voters s))" using raft_get_num_voting_nodes_spec [OF that(1)] that(5) by simp
    ultimately show ?thesis using that(2,3,6) by (auto simp: commit_rule_def key_at_def ety_key_def)
  qed
  show ?thesis (is "rok _ ?Q")
  proof (cases "point \<noteq> 0 \<and> commit_idx s < point")
    case False
    then show ?thesis by (auto simp: aer_commit_def inv)
  next
    case True
    show ?thesis
    proof (cases "list_at (lg_base (log s)) (log_list (log s)) point")
      case None
      then show ?thesis using True by (simp add: aer_commit_def inv)
    next
      case (Some ety)
      have "rok (aer_count_loop s point (nodes s) 1) (\<lambda>votes. rok (raft_get_num_voting_nodes s) (\<lambda>num.
          rok (if num sdiv 2 < votes then raft_set_commit_idx s point else Inr s) ?Q))"
        if own: "ety_term ety = current_term s"
      proof (rule rokI, rule rokI)
        fix votes num assume cnt: "aer_count_loop s point (nodes s) 1 = Inr votes"
          and num: "raft_get_num_voting_nodes s = Inr num"
        show "rok (if num sdiv 2 < votes then raft_set_commit_idx s point else Inr s) ?Q"
        proof (cases "num sdiv 2 < votes")
          case maj: True
          have "rok (raft_set_commit_idx s point) ?Q"
            by (rule rok_mono [OF set]) (use rule [OF _ Some own cnt num maj] True in blast)
          with maj show ?thesis by simp
        qed simp
      qed
      then show ?thesis using True Some by (simp add: aer_commit_def inv)
    qed
  qed
qed

lemma commit_rule_upd [simp]:
  "commit_rule (s\<lparr>udata := u\<rparr>) p = commit_rule s p" "commit_rule (s\<lparr>commit_idx := c\<rparr>) p = commit_rule s p"
  by (simp_all add: commit_rule_def voters_def acked_def is_voter_def cong: filter_cong)

lemma node_shape_sufficient [simp]: "node_shape (raft_node_set_has_sufficient_logs n) = node_shape n"
  by (simp add: node_shape_def)

lemma peers_change_log_fields: "peers_change s s' \<Longrightarrow> log_fields s' = log_fields s"
  by (rule log_fields_frame) (rule peers_change_frame(1))

lemma peers_change_nodes_inv:
  assumes "peers_change s s'"
  shows "nodes_inv s' = nodes_inv s"
proof (rule nodes_inv_ids_cong)
  show "map_option node_id (heap s' r) = map_option node_id (heap s r)" for r
  proof -
    have "map_option node_shape (heap s' r) = map_option node_shape (heap s r)"
      using peers_change_frame(1) [OF assms] by (simp add: election_frame_def shape_eq_def)
    then show ?thesis by (cases "heap s r"; cases "heap s' r") (simp_all add: node_shape_def)
  qed
qed (use peers_change_frame(1) [OF assms] in \<open>simp_all add: election_frame_def\<close>)

text \<open>What handling a response to appendentries may do to a leader.\<close>

definition aer_step :: "'u raft_server \<Rightarrow> int \<Rightarrow> 'u raft_server \<Rightarrow> bool" where
  "aer_step s point s' \<longleftrightarrow>
     raft_inv s' \<and> log_safe s s' \<and> vote_step s s' \<and> log s' = log s \<and>
     (commit_idx s' \<noteq> commit_idx s \<longrightarrow>
        commit_idx s' = point \<and> state s' = state s \<and> current_term s' = current_term s \<and>
        (nodes_inv s \<longrightarrow> commit_rule s' (commit_idx s')))"

lemma aer_step_peers:
  assumes "raft_inv s" and "peers_change s s'"
  shows "aer_step s point s'"
  using assms log_fields_eq [OF peers_change_log_fields [OF assms(2)]] peers_change_frame [OF assms(2)]
  by (simp add: aer_step_def vote_step_def election_frame_def)

lemma aer_sufficient_step: "rok (aer_sufficient s node r) (peers_change s)"
  unfolding aer_sufficient_def
  by (auto simp: Let_def intro!: rok_reads peers_steps [of s] peers_change_udata [OF same_but_udata_upd]
      split: option.splits prod.splits)

lemma aer_step_after_peers:
  assumes "peers_change s s1" and "aer_step s1 point s'"
  shows "aer_step s point s'"
proof -
  note f = peers_change_frame [OF assms(1)] peers_change_nodes_inv [OF assms(1)]
  have eqs: "log s1 = log s" "commit_idx s1 = commit_idx s" using f(1) by (simp_all add: election_frame_def)
  have "log_safe s s'"
    using assms(2) log_fields_eq(2) [OF peers_change_log_fields [OF assms(1)]]
    by (auto simp: aer_step_def intro: log_safe_trans)
  with assms(2) show ?thesis by (simp add: aer_step_def vote_step_def eqs f(2-4,10))
qed

lemma aer_retry_step:
  assumes "raft_inv s"
  shows "rok (aer_retry s node n r) (\<lambda>(e, s'). aer_step s point s')"
  unfolding aer_retry_def Let_def
  by (auto intro!: peers_steps [of s] aer_step_peers [OF assms])

lemma aer_progress_step:
  assumes inv: "raft_inv s"
  shows "rok (aer_progress s node r) (\<lambda>(e, s'). aer_step s (aer_current_idx r) s')"
proof -
  let ?p = "aer_current_idx r"
  have sent: "aer_step s ?p s4"
    if s2: "peers_change s s2" and s3: "s3 = s2 \<or> s3 = s2\<lparr>commit_idx := ?p\<rparr> \<and> raft_inv s3 \<and> log_safe s2 s3 \<and>
        (nodes_inv s2 \<longrightarrow> commit_rule s2 ?p)" and u: "same_but_udata s3 s4" for s2 s3 s4
  proof -
    obtain u where s4: "s4 = s3\<lparr>udata := u\<rparr>" using u unfolding same_but_udata_def by blast
    have "raft_inv s2" using inv log_fields_eq [OF peers_change_log_fields [OF s2]] by simp
    then have "aer_step s2 ?p s3"
      using s3 by (auto simp: aer_step_def vote_step_def)
    then have s3: "aer_step s ?p s3" by (rule aer_step_after_peers [OF s2])
    have "log_fields s4 = log_fields s3" by (simp add: s4 log_fields_def)
    then show ?thesis
      using s3 log_fields_eq [of s4 s3] by (simp add: aer_step_def s4 vote_step_def)
  qed
  have last: "rok (raft_send_appendentries s3 node) (\<lambda>(e, s4). aer_step s ?p s4)"
    if "peers_change s s2" "s3 = s2 \<or> s3 = s2\<lparr>commit_idx := ?p\<rparr> \<and> raft_inv s3 \<and> log_safe s2 s3 \<and>
        (nodes_inv s2 \<longrightarrow> commit_rule s2 ?p)" for s2 s3
    by (rule rok_mono [OF raft_send_appendentries_frame]) (use sent [OF that] in auto)
  have commit: "rok (aer_commit s2 ?p) (\<lambda>s3. rok (deref s3 node) (\<lambda>n.
      rok (raft_get_entry_from_idx s3 (raft_node_get_next_idx n)) (\<lambda>more.
      rok (if more \<noteq> None then rbind (raft_send_appendentries s3 node) (\<lambda>(_, s4). Inr (0, s4)) else Inr (0, s3))
        (\<lambda>(e, s'). aer_step s ?p s'))))" if s2: "peers_change s s2" for s2
  proof -
    have "raft_inv s2" using inv log_fields_eq [OF peers_change_log_fields [OF s2]] by simp
    then show ?thesis
    proof (rule rok_mono [OF aer_commit_spec])
      fix s3 assume "s3 = s2 \<or> s3 = s2\<lparr>commit_idx := ?p\<rparr> \<and> raft_inv s3 \<and> log_safe s2 s3 \<and>
          commit_idx s2 < ?p \<and> (nodes_inv s2 \<longrightarrow> commit_rule s2 ?p)"
      then have s3: "s3 = s2 \<or> s3 = s2\<lparr>commit_idx := ?p\<rparr> \<and> raft_inv s3 \<and> log_safe s2 s3 \<and>
          (nodes_inv s2 \<longrightarrow> commit_rule s2 ?p)" by blast
      show "rok (deref s3 node) (\<lambda>n. rok (raft_get_entry_from_idx s3 (raft_node_get_next_idx n)) (\<lambda>more.
          rok (if more \<noteq> None then rbind (raft_send_appendentries s3 node) (\<lambda>(_, s4). Inr (0, s4)) else Inr (0, s3))
            (\<lambda>(e, s'). aer_step s ?p s')))"
        by (rule rok_all, rule rok_all)
          (use last [OF s2 s3] sent [OF s2 s3 same_but_udata_refl] in \<open>simp add: case_prod_unfold\<close>)
    qed
  qed
  show ?thesis
    unfolding aer_progress_def rok_simps
    by (intro impI peers_steps(1) [of s] commit) simp_all
qed

lemma raft_recv_appendentries_response_step:
  assumes "raft_inv s"
  shows "rok (raft_recv_appendentries_response s node r) (\<lambda>(e, s'). aer_step s (aer_current_idx r) s')"
proof -
  let ?Q = "\<lambda>(e, s'). aer_step s (aer_current_idx r) s'"
  have stay: "aer_step s (aer_current_idx r) s" by (rule aer_step_peers [OF assms]) simp
  have adopt: "aer_step s (aer_current_idx r) s'" if "responded s s'" for s'
    using that log_fields_eq [OF log_fields_frame, of s s'] assms
    by (simp add: responded_def aer_step_def election_frame_def)
  have move: "rok (aer_sufficient s node r) (\<lambda>s1.
      rok (if aer_current_idx r \<le> raft_node_get_match_idx n then Inr (0, s1) else aer_progress s1 node r) ?Q)" for n
  proof (rule rok_mono [OF aer_sufficient_step])
    fix s1 assume s1: "peers_change s s1"
    have inv1: "raft_inv s1" using assms log_fields_eq [OF peers_change_log_fields [OF s1]] by simp
    have "rok (aer_progress s1 node r) ?Q"
      by (rule rok_mono [OF aer_progress_step [OF inv1]]) (auto intro: aer_step_after_peers [OF s1])
    then show "rok (if aer_current_idx r \<le> raft_node_get_match_idx n then Inr (0, s1) else aer_progress s1 node r) ?Q"
      using aer_step_peers [OF assms s1] by simp
  qed
  have later: "rok (deref s node) (\<lambda>n. rok (if 0 = aer_success r then aer_retry s node n r
      else rbind (aer_sufficient s node r) (\<lambda>s1.
        if aer_current_idx r \<le> raft_node_get_match_idx n then Inr (0, s1) else aer_progress s1 node r)) ?Q)"
    by (rule rok_all) (use move aer_retry_step [OF assms] in simp)
  obtain e s1 where st: "raft_set_current_term s (aer_term r) = (e, s1)" by fastforce
  have behind: "rok (if e \<noteq> 0 then Inr (e, s1)
      else rbind (raft_become_follower s1) (\<lambda>s2. Inr (0, s2\<lparr>current_leader := None\<rparr>))) ?Q"
    if "current_term s < aer_term r"
    using rvr_adopt_step(1) [OF that st] rok_mono [OF rvr_adopt_step(2) [OF that st, of None]] adopt by auto
  show ?thesis
    unfolding raft_recv_appendentries_response_def using stay later behind by (simp add: st)
qed

section \<open>Client entries\<close>

lemma recv_entry_loop_frame: "rok (recv_entry_loop s rs) (same_but_udata s)"
proof (induction rs arbitrary: s)
  case (Cons r rs)
  have "rok (raft_send_appendentries s (Some r)) (\<lambda>(e, s1). rok (recv_entry_loop s1 rs) (same_but_udata s))"
    by (rule rok_mono [OF raft_send_appendentries_frame])
      (auto intro!: rok_mono [OF Cons.IH] intro: same_but_udata_trans)
  then show ?case using Cons.IH [of s] by (auto simp: case_prod_unfold intro!: rok_reads)
qed simp

text \<open>
  The entry a leader took from a client: it is the last of the log, carries the leader's term,
  and the response names its index; nothing that was in the log changed.
\<close>

definition entry_taken :: "'u raft_server \<Rightarrow> raft_entry \<Rightarrow> msg_entry_response \<Rightarrow> 'u raft_server \<Rightarrow> bool" where
  "entry_taken s ety r s' \<longleftrightarrow>
     er_id r = ety_id ety \<and> er_term r = current_term s \<and> er_idx r = raft_get_current_idx s + 1 \<and>
     raft_get_current_idx s' = er_idx r \<and>
     key_at (log s') (er_idx r) = Some (current_term s, ety_id ety, ety_type ety) \<and>
     (\<forall>i \<le> raft_get_current_idx s. key_at (log s') i = key_at (log s) i) \<and>
     (commit_idx s' = commit_idx s \<or> commit_idx s' = raft_get_current_idx s') \<and>
     (raft_entry_is_voting_cfg_change ety \<longrightarrow> voting_cfg_change_log_idx s' = er_idx r)"

definition recv_entry_post ::
  "'u raft_server \<Rightarrow> raft_entry \<Rightarrow> int \<times> raft_entry \<times> msg_entry_response option \<times> 'u raft_server \<Rightarrow> bool" where
  "recv_entry_post s ety res \<longleftrightarrow>
     (case res of (e, ety', r, s') \<Rightarrow>
      raft_inv s' \<and> log_safe s s' \<and> same_role s s' \<and>
      (if e = 0 then state s = RAFT_STATE_LEADER \<and> (\<exists>x. r = Some x \<and> entry_taken s ety x s')
       else r = None \<and> commit_idx s' = commit_idx s \<and> key_at (log s') = key_at (log s)))"

lemma recv_entry_append:
  assumes inv: "raft_inv s"
  shows "rok (raft_append_entry s ety) (\<lambda>(e, s1). raft_inv s1 \<and> log_safe s s1 \<and> same_role s s1 \<and>
    commit_idx s1 = commit_idx s \<and>
    (if e = 0 then raft_get_current_idx s1 = raft_get_current_idx s + 1 \<and>
        key_at (log s1) (raft_get_current_idx s + 1) = Some (ety_key ety) \<and>
        (\<forall>i \<le> raft_get_current_idx s. key_at (log s1) i = key_at (log s) i)
     else key_at (log s1) = key_at (log s)))"
proof -
  have log: "log_inv (log s)" and com: "commit_idx s \<le> raft_get_current_idx s"
    using inv by (simp_all add: raft_inv_def)
  show ?thesis
  proof (rule rok_mono [OF raft_append_entry_spec [OF log]], clarify)
    fix e s1
    assume same: "same_but_cfg s s1"
      and ok: "e = 0 \<longrightarrow> (\<exists>d. log_becomes (log s) (log s1) (log_list (log s) @ [ety\<lparr>ety_data := d\<rparr>]))"
      and ko: "e \<noteq> 0 \<longrightarrow> log_becomes (log s) (log s1) (log_list (log s))"
    have frame: "repl_frame s s1"
      using same ok ko by (cases "e = 0") (auto simp: repl_frame_def log_becomes_def)
    have commit: "commit_idx s1 = commit_idx s" using same_but_cfgD [OF same] by simp
    show "raft_inv s1 \<and> log_safe s s1 \<and> same_role s s1 \<and> commit_idx s1 = commit_idx s \<and>
      (if e = 0 then raft_get_current_idx s1 = raft_get_current_idx s + 1 \<and>
          key_at (log s1) (raft_get_current_idx s + 1) = Some (ety_key ety) \<and>
          (\<forall>i \<le> raft_get_current_idx s. key_at (log s1) i = key_at (log s) i)
       else key_at (log s1) = key_at (log s))"
    proof (cases "e = 0")
      case True
      then obtain d where d: "log_becomes (log s) (log s1) (log_list (log s) @ [ety\<lparr>ety_data := d\<rparr>])"
        using ok by blast
      note grown = log_becomes_append [OF d log]
      then show ?thesis
        using True repl_frame_inv [OF frame inv] repl_frame_role [OF frame] commit com
        by (auto simp: raft_get_current_idx_def)
    next
      case False
      then have "log_becomes (log s) (log s1) (log_list (log s))" using ko by blast
      note kept = log_becomes_same [OF this log]
      then show ?thesis
        using False repl_frame_inv [OF frame inv] repl_frame_role [OF frame] commit com
        by (auto simp: raft_get_current_idx_def)
    qed
  qed
qed

lemma raft_recv_entry_spec:
  assumes inv: "raft_inv s"
  shows "rok (raft_recv_entry s ety) (recv_entry_post s ety)"
proof (cases "raft_entry_is_voting_cfg_change ety \<and> raft_voting_change_is_in_progress s \<or>
    raft_entry_is_voting_cfg_change ety \<and> \<not> raft_is_apply_allowed s \<or> \<not> raft_is_leader s")
  case True
  then show ?thesis
    using inv by (auto simp: raft_recv_entry_def recv_entry_post_def same_role_def raft_errs)
next
  case False
  define ety1 where "ety1 = ety\<lparr>ety_term := current_term s\<rparr>"
  have ety1: "ety_id ety1 = ety_id ety" "ety_key ety1 = (current_term s, ety_id ety, ety_type ety)"
      "raft_entry_is_voting_cfg_change ety1 = raft_entry_is_voting_cfg_change ety"
    by (simp_all add: ety1_def ety_key_def raft_entry_is_voting_cfg_change_def)
  define fin where "fin s3 = (if raft_entry_is_voting_cfg_change ety1
      then s3\<lparr>voting_cfg_change_log_idx := raft_get_current_idx s3\<rparr> else s3)" for s3 :: "'a raft_server"
  have fin: "log_fields (fin s3) = log_fields s3" "current_term (fin s3) = current_term s3"
      "voted_for (fin s3) = voted_for s3" "state (fin s3) = state s3" for s3
    by (simp_all add: fin_def log_fields_def)
  have post: "recv_entry_post s ety (0, ety1, Some \<lparr>er_id = ety_id ety1, er_term = current_term s3,
        er_idx = raft_get_current_idx s3\<rparr>, fin s3)"
    if "raft_inv s3" "log_safe s s3" "same_role s s3" "raft_get_current_idx s3 = raft_get_current_idx s + 1"
      "key_at (log s3) (raft_get_current_idx s + 1) = Some (ety_key ety1)"
      "\<forall>i \<le> raft_get_current_idx s. key_at (log s3) i = key_at (log s) i"
      "commit_idx s3 = commit_idx s \<or> commit_idx s3 = raft_get_current_idx s3" for s3
  proof -
    have eqs: "raft_inv (fin s3) = raft_inv s3" "log_safe s (fin s3) = log_safe s s3" "log (fin s3) = log s3"
        "commit_idx (fin s3) = commit_idx s3" "raft_get_current_idx (fin s3) = raft_get_current_idx s3"
      using log_fields_eq(1,4) [OF fin(1)] by (simp_all add: fin_def raft_get_current_idx_def)
    have "raft_entry_is_voting_cfg_change ety \<longrightarrow> voting_cfg_change_log_idx (fin s3) = raft_get_current_idx s3"
      by (simp add: fin_def ety1)
    then show ?thesis
      using that False ety1 by (simp add: recv_entry_post_def entry_taken_def same_role_def eqs fin)
  qed
  have commit: "rok (if 1 = num then raft_set_commit_idx s2 (raft_get_current_idx s2) else Inr s2)
      (\<lambda>s3. recv_entry_post s ety (0, ety1, Some \<lparr>er_id = ety_id ety1, er_term = current_term s3,
        er_idx = raft_get_current_idx s3\<rparr>, fin s3))"
    if s2: "raft_inv s2" "log_safe s s2" "same_role s s2" "raft_get_current_idx s2 = raft_get_current_idx s + 1"
      "key_at (log s2) (raft_get_current_idx s + 1) = Some (ety_key ety1)"
      "\<forall>i \<le> raft_get_current_idx s. key_at (log s2) i = key_at (log s) i" "commit_idx s2 = commit_idx s" for s2 num
  proof -
    have "rok (raft_set_commit_idx s2 (raft_get_current_idx s2))
      (\<lambda>s3. recv_entry_post s ety (0, ety1, Some \<lparr>er_id = ety_id ety1, er_term = current_term s3,
        er_idx = raft_get_current_idx s3\<rparr>, fin s3))"
    proof (rule rok_mono [OF raft_set_commit_idx_step [OF s2(1)]])
      fix s3 assume s3: "s3 = s2\<lparr>commit_idx := raft_get_current_idx s2\<rparr> \<and> commit_idx s2 \<le> raft_get_current_idx s2 \<and>
          raft_get_current_idx s2 \<le> raft_get_current_idx s2 \<and> raft_inv s3 \<and> log_safe s2 s3 \<and> same_role s2 s3"
      then have "log s3 = log s2" "raft_get_current_idx s3 = raft_get_current_idx s2"
          "commit_idx s3 = raft_get_current_idx s2"
        by (simp_all add: raft_get_current_idx_def)
      moreover have "raft_inv s3" "log_safe s s3" "same_role s s3"
        using s3 s2(2,3) by (blast intro: log_safe_trans same_role_trans)+
      ultimately show "recv_entry_post s ety (0, ety1, Some \<lparr>er_id = ety_id ety1, er_term = current_term s3,
          er_idx = raft_get_current_idx s3\<rparr>, fin s3)"
        using s2(4-6) by (intro post) simp_all
    qed
    then show ?thesis using post [OF s2(1-6)] s2(7) by simp
  qed
  have sent: "rok (recv_entry_loop s1 rs) (\<lambda>s2. rok (raft_get_num_voting_nodes s2) (\<lambda>num.
      rok (if 1 = num then raft_set_commit_idx s2 (raft_get_current_idx s2) else Inr s2)
      (\<lambda>s3. recv_entry_post s ety (0, ety1, Some \<lparr>er_id = ety_id ety1, er_term = current_term s3,
        er_idx = raft_get_current_idx s3\<rparr>, fin s3))))"
    if s1: "raft_inv s1" "log_safe s s1" "same_role s s1" "raft_get_current_idx s1 = raft_get_current_idx s + 1"
      "key_at (log s1) (raft_get_current_idx s + 1) = Some (ety_key ety1)"
      "\<forall>i \<le> raft_get_current_idx s. key_at (log s1) i = key_at (log s) i" "commit_idx s1 = commit_idx s" for s1 rs
  proof (rule rok_mono [OF recv_entry_loop_frame])
    fix s2 assume "same_but_udata s1 s2"
    then obtain u where u: "s2 = s1\<lparr>udata := u\<rparr>" unfolding same_but_udata_def by blast
    then have "log_fields s2 = log_fields s1" by (simp add: log_fields_def)
    note eqs = log_fields_eq(1,4) [OF this]
    show "rok (raft_get_num_voting_nodes s2) (\<lambda>num.
      rok (if 1 = num then raft_set_commit_idx s2 (raft_get_current_idx s2) else Inr s2)
      (\<lambda>s3. recv_entry_post s ety (0, ety1, Some \<lparr>er_id = ety_id ety1, er_term = current_term s3,
        er_idx = raft_get_current_idx s3\<rparr>, fin s3)))"
      by (rule rok_all, rule commit) (use s1 u eqs in \<open>simp_all add: same_role_def raft_get_current_idx_def\<close>)
  qed
  have "rok (raft_append_entry s ety1) (\<lambda>(e, s1). rok (if e \<noteq> 0 then Inr (e, ety1, None, s1)
      else rbind (recv_entry_loop s1 (nodes s1)) (\<lambda>s2. rbind (raft_get_num_voting_nodes s2) (\<lambda>num.
        rbind (if 1 = num then raft_set_commit_idx s2 (raft_get_current_idx s2) else Inr s2) (\<lambda>s3.
        Inr (0, ety1, Some \<lparr>er_id = ety_id ety1, er_term = current_term s3, er_idx = raft_get_current_idx s3\<rparr>,
             fin s3))))) (recv_entry_post s ety))"
    by (rule rok_mono [OF recv_entry_append [OF inv]])
      (use sent in \<open>auto simp: recv_entry_post_def [of _ _ "(_, _, None, _)"]\<close>)
  then show ?thesis
    using False by (simp add: raft_recv_entry_def Let_def ety1_def [symmetric] fin_def case_prod_unfold) blast
qed

section \<open>The follower's handler cannot fault on ordinary entries\<close>

abbreviation normal_entries :: "raft_entry list \<Rightarrow> bool" where
  "normal_entries es \<equiv> \<forall>e \<in> set es. \<not> raft_entry_is_cfg_change e"

lemma ae_append_loop_total:
  "log_inv (log s) \<Longrightarrow> normal_entries es \<Longrightarrow> \<exists>e c s'. ae_append_loop es s idx cur = Inr (e, c, s')"
proof (induction es arbitrary: s idx cur)
  case (Cons ety rest)
  obtain e s1 where run: "raft_append_entry s ety = Inr (e, s1)"
    using raft_append_entry_normal [OF Cons.prems(1), of ety] Cons.prems(2) by (auto simp: rsafe_iff)
  have "log_inv (log s1)"
    using rokD [OF raft_append_entry_spec [OF Cons.prems(1)] run] by (cases "e = 0") (auto simp: log_becomes_def)
  then show ?case using Cons.IH [of s1] Cons.prems(2) by (simp add: run)
qed simp

lemma ae_match_loop_total:
  assumes inv: "raft_inv s" and small: "lg_size (log s) \<le> 2 ^ 31" and normal: "normal_entries (log_list (log s))"
  shows "\<exists>stop rest i c s'. ae_match_loop es s idx cur = Inr (stop, rest, i, c, s') \<and>
    (\<exists>k. rest = drop k es) \<and> (rest = [] \<longrightarrow> s' = s \<and> (es \<noteq> [] \<longrightarrow> 1 \<le> raft_get_current_idx s))"
proof (induction es arbitrary: idx cur)
  case (Cons ety rest)
  have log: "log_inv (log s)" using inv by (simp add: raft_inv_def)
  show ?case
  proof (cases "list_at (lg_base (log s)) (log_list (log s)) idx")
    case None
    then show ?thesis by (auto simp: log intro: exI [of _ 0])
  next
    case (Some x)
    then have one: "1 \<le> raft_get_current_idx s"
      using log by (auto simp: list_at_def raft_get_current_idx_def current_idx_length log_inv_def split: if_splits)
    obtain e s1 where del: "raft_delete_entry_from_idx s idx = Inr (e, s1)" if "commit_idx s < idx"
      using raft_delete_entry_normal [OF log small _ normal] by blast
    obtain stop rest' i c s' where go: "ae_match_loop rest s (idx + 1) idx = Inr (stop, rest', i, c, s')"
        "\<exists>k. rest' = drop k rest" "rest' = [] \<longrightarrow> s' = s"
      using Cons.IH by blast
    from go(2) have "\<exists>k. rest' = drop k (ety # rest)" by (metis drop_Suc_Cons)
    then show ?thesis
      using Some go(1,3) one del by (auto simp: log intro: exI [of _ 0])
  qed
qed (auto intro: exI [of _ 0])

lemma ae_commit_total:
  assumes "raft_inv s" and "1 \<le> raft_get_current_idx s \<or> ae_leader_commit ae \<le> commit_idx s"
  shows "\<exists>s'. ae_commit s ae = Inr s'"
  using assms by (auto simp: ae_commit_def raft_set_commit_idx_def raft_inv_def Let_def)

lemma ae_accept_total:
  assumes inv: "raft_inv s" and small: "lg_size (log s) \<le> 2 ^ 31" and "normal_entries (log_list (log s))"
    and es: "normal_entries (ae_entries ae)"
    and lc: "1 \<le> raft_get_current_idx s \<or> ae_entries ae \<noteq> [] \<or> ae_leader_commit ae \<le> commit_idx s"
  shows "\<exists>e r s'. ae_accept s ae = Inr (e, r, s')"
proof -
  obtain stop rest i c s1 where m: "ae_match_loop (ae_entries ae) s (ae_prev_log_idx ae + 1) (ae_prev_log_idx ae) =
      Inr (stop, rest, i, c, s1)" "\<exists>k. rest = drop k (ae_entries ae)"
      "rest = [] \<longrightarrow> s1 = s \<and> (ae_entries ae \<noteq> [] \<longrightarrow> 1 \<le> raft_get_current_idx s)"
    using ae_match_loop_total [OF inv small assms(3)] by blast
  have inv1: "raft_inv s1" using rokD [OF ae_match_loop_safe [OF inv small] m(1)] by simp
  then have log1: "log_inv (log s1)" by (simp add: raft_inv_def)
  have normal: "normal_entries rest" using m(2) es by (auto dest: in_set_dropD)
  obtain e c' s2 where a: "ae_append_loop rest s1 i c = Inr (e, c', s2)"
    using ae_append_loop_total [OF log1 normal] by blast
  have inv2: "raft_inv s2" using rokD [OF ae_append_loop_safe [OF inv1] a] by simp
  have "1 \<le> raft_get_current_idx s2 \<or> ae_leader_commit ae \<le> commit_idx s2" if "e = 0"
  proof -
    have ap: "ae_appended s1 rest i c (e, c', s2)" using rokD [OF ae_append_loop_spec [OF log1] a] .
    have pos: "0 \<le> raft_get_current_idx s1" using inv1 by (auto simp: raft_inv_def log_inv_def)
    show ?thesis
    proof (cases rest)
      case Nil
      then have "s1 = s" "s2 = s1" using m(3) a by auto
      then show ?thesis using lc m(3) Nil by auto
    next
      case (Cons x xs)
      then show ?thesis using ap that pos by (auto simp: ae_appended_def)
    qed
  qed
  then have "e = 0 \<Longrightarrow> \<exists>s3. ae_commit s2 ae = Inr s3" using ae_commit_total [OF inv2] by blast
  then show ?thesis
    by (cases stop) (auto simp: ae_accept_def m(1) a ae_out_def)
qed

lemma raft_recv_appendentries_total:
  assumes inv: "raft_inv s" and wf: "well_formed s" and normal: "normal_entries (log_list (log s))"
    and es: "normal_entries (ae_entries ae)"
    and lc: "1 \<le> raft_get_current_idx s \<or> ae_entries ae \<noteq> [] \<or> ae_leader_commit ae \<le> commit_idx s"
  shows "\<exists>e r s'. raft_recv_appendentries s node ae = Inr (e, r, s')"
proof -
  have "\<exists>stop s1. ae_check_term s ae = Inr (stop, s1)"
  proof -
    have et: "0 < election_timeout s" using wf by (simp add: well_formed_def)
    obtain e t where st: "raft_set_current_term s (ae_term ae) = (e, t)" by fastforce
    then have "0 < election_timeout t" using et by (cases rule: raft_set_current_term_cases) auto
    then show ?thesis
      using raft_become_follower_total et by (fastforce simp: ae_check_term_def st)
  qed
  then obtain stop s1 where term1: "ae_check_term s ae = Inr (stop, s1)" by blast
  then have f1: "election_frame s s1" using rokD [OF ae_check_term_step term1] by simp
  define s2 where "s2 = s1\<lparr>current_leader := node, timeout_elapsed := 0\<rparr>"
  have f2: "log_fields s2 = log_fields s"
    using log_fields_frame [OF f1] by (simp add: s2_def log_fields_def)
  then have l2: "log s2 = log s" "commit_idx s2 = commit_idx s" "raft_get_current_idx s2 = raft_get_current_idx s"
    by (simp_all add: log_fields_def raft_get_current_idx_def)
  have inv2: "raft_inv s2" using log_fields_eq(1) [OF f2] inv by simp
  have log2: "log_inv (log s2)" and small2: "lg_size (log s2) \<le> 2 ^ 31"
    using wf by (simp_all add: l2 well_formed_def)
  have "\<exists>stop2 s3. ae_check_prev s2 ae = Inr (stop2, s3) \<and> (stop2 = None \<longrightarrow> s3 = s2)"
  proof -
    have del: "\<exists>e s3. raft_delete_entry_from_idx s2 i = Inr (e, s3)" if "commit_idx s2 < i" for i
      using raft_delete_entry_normal [OF log2 small2 that] normal by (simp add: l2)
    show ?thesis
    proof (cases "commit_idx s2 < ae_prev_log_idx ae")
      case True
      then obtain e t where "raft_delete_entry_from_idx s2 (ae_prev_log_idx ae) = Inr (e, t)"
        using del by blast
      with True show ?thesis
        by (auto simp: ae_check_prev_def log2 split: option.splits)
    next
      case False
      then show ?thesis by (auto simp: ae_check_prev_def log2 split: option.splits)
    qed
  qed
  then obtain stop2 s3 where prev: "ae_check_prev s2 ae = Inr (stop2, s3)" "stop2 = None \<longrightarrow> s3 = s2" by blast
  obtain e r s4 where "ae_accept s2 ae = Inr (e, r, s4)"
    using ae_accept_total [OF inv2 small2 _ es] normal lc l2 by auto
  then show ?thesis
    using prev by (cases stop; cases stop2)
      (auto simp: raft_recv_appendentries_def term1 s2_def [symmetric] Let_def ae_out_def)
qed

end
