(* ===== verification/Raft_Snapshot.thy ===== *)
theory Raft_Snapshot
  imports Raft_Replication
begin

text \<open>
  Snapshots (\<^verbatim>\<open>raft/raft_server.c\<close>): taking one and compacting the log, abandoning one, and
  loading one received from a leader. The lemmas show which entries a snapshot covers, that
  compaction keeps the index of every remaining entry, that an abandoned snapshot leaves the
  metadata as it was, and what loading one does to the log, the indexes and the term.
\<close>

section \<open>Operations\<close>

definition raft_get_first_entry_idx :: "'u raft_server \<Rightarrow> fault + int" where
  "raft_get_first_entry_idx s =
     rbind (rassert (0 < raft_get_current_idx s)) (\<lambda>_.
     if snapshot_last_idx s = 0 then Inr 1 else Inr (snapshot_last_idx s))"

definition raft_get_num_snapshottable_logs :: "'u raft_server \<Rightarrow> int" where
  "raft_get_num_snapshottable_logs s =
     (if raft_get_log_count s \<le> 1 then 0 else raft_get_commit_idx s - log_get_base (log s))"

text \<open>
  The pointer \<^verbatim>\<open>ety\<close> is read after the entries have been applied; applying does not touch the
  log, so its term is the one read here.
\<close>

definition raft_begin_snapshot :: "'u raft_server \<Rightarrow> 32 word \<Rightarrow> fault + int \<times> 'u raft_server" where
  "raft_begin_snapshot s flgs =
     (if raft_get_num_snapshottable_logs s = 0 then Inr (-1, s)
      else
        let snapshot_target = raft_get_commit_idx s in
        if snapshot_target = 0 then Inr (-1, s)
        else
          rbind (raft_get_entry_from_idx s snapshot_target) (\<lambda>found.
          case found of
            None \<Rightarrow> Inr (-1, s)
          | Some ety \<Rightarrow>
              rbind (raft_apply_all s) (\<lambda>(e, s1).
              if e \<noteq> 0 then Inr (e, s1)
              else
                rbind (rassert (raft_get_commit_idx s1 = raft_get_last_applied_idx s1)) (\<lambda>_.
                Inr (0, (raft_set_snapshot_metadata s1 (ety_term ety) snapshot_target)
                          \<lparr>snapshot_in_progress := True, snapshot_flags := flgs\<rparr>)))))"

definition raft_cancel_snapshot :: "'u raft_server \<Rightarrow> int \<times> 'u raft_server" where
  "raft_cancel_snapshot s =
     (if \<not> snapshot_in_progress s then (-1, s)
      else (0, s\<lparr>snapshot_last_idx := saved_snapshot_last_idx s,
                 snapshot_last_term := saved_snapshot_last_term s,
                 snapshot_in_progress := False\<rparr>))"

primrec poll_loop :: "nat \<Rightarrow> 'u raft_server \<Rightarrow> fault + int \<times> 'u raft_server" where
  "poll_loop 0 s = Inr (0, s)"
| "poll_loop (Suc n) s =
     rbind (raft_poll_entry s) (\<lambda>(e, _, s1). if e \<noteq> 0 then Inr (-1, s1) else poll_loop n s1)"

primrec send_snapshot_loop :: "'u raft_server \<Rightarrow> node_ref list \<Rightarrow> fault + 'u raft_server" where
  "send_snapshot_loop s [] = Inr s"
| "send_snapshot_loop s (r # rs) =
     rbind (skip_node s r) (\<lambda>skip.
     if skip then send_snapshot_loop s rs
     else
       rbind (deref s (Some r)) (\<lambda>n.
       if 0 < snapshot_last_idx s \<and> raft_node_get_next_idx n < snapshot_last_idx s then
         (case send_snapshot (cb s) of
            None \<Rightarrow> send_snapshot_loop s rs
          | Some f \<Rightarrow> (case f (udata s) n of (_, u) \<Rightarrow> send_snapshot_loop (s\<lparr>udata := u\<rparr>) rs))
       else send_snapshot_loop s rs))"

definition raft_end_snapshot :: "'u raft_server \<Rightarrow> fault + int \<times> 'u raft_server" where
  "raft_end_snapshot s =
     (if \<not> snapshot_in_progress s \<or> snapshot_last_idx s = 0 then Inr (-1, s)
      else
        rbind (rassert (raft_get_num_snapshottable_logs s \<noteq> 0)) (\<lambda>_.
        rbind (rassert (snapshot_last_idx s = raft_get_commit_idx s)) (\<lambda>_.
        rbind (poll_loop (nat (raft_get_num_snapshottable_logs s)) s) (\<lambda>(e, s1).
        if e \<noteq> 0 then Inr (-1, s1)
        else
          let s2 = s1\<lparr>snapshot_in_progress := False\<rparr> in
          if \<not> raft_is_leader s2 then Inr (0, s2)
          else rbind (send_snapshot_loop s2 (nodes s2)) (\<lambda>s3. Inr (0, s3))))))"

text \<open>
  The loop of \<^verbatim>\<open>raft_begin_load_snapshot\<close> over the nodes; \<open>i\<close> is the position of the first
  remaining one and \<open>mine\<close> the last position where the own id was found.
\<close>

primrec deactivate_loop :: "'u raft_server \<Rightarrow> node_ref list \<Rightarrow> nat \<Rightarrow> nat \<Rightarrow> fault + nat \<times> 'u raft_server" where
  "deactivate_loop s [] i mine = Inr (mine, s)"
| "deactivate_loop s (r # rs) i mine =
     rbind (raft_get_nodeid s) (\<lambda>me_id.
     rbind (deref s (Some r)) (\<lambda>n.
     if me_id = raft_node_get_id n then deactivate_loop s rs (i + 1) i
     else
       rbind (mod_node s (Some r) (\<lambda>n. raft_node_set_active n False)) (\<lambda>s1.
       deactivate_loop s1 rs (i + 1) mine)))"

text \<open>
  \<^verbatim>\<open>me->nodes[0] = me->nodes[my_node_by_idx]; me->num_nodes = 1\<close>. The array is null while no
  node was ever added; a cell behind the array's end may be a stale one.
\<close>

definition keep_own_node :: "'u raft_server \<Rightarrow> nat \<Rightarrow> fault + 'u raft_server" where
  "keep_own_node s mine =
     (let cells = nodes s @ nodes_stale s in
      if cells = [] then Inl Null_dereference
      else Inr (s\<lparr>nodes := [cells ! mine], nodes_stale := tl cells\<rparr>))"

definition raft_begin_load_snapshot :: "'u raft_server \<Rightarrow> int \<Rightarrow> int \<Rightarrow> fault + int \<times> 'u raft_server" where
  "raft_begin_load_snapshot s last_included_term last_included_index =
     (if last_included_index = -1 then Inr (-1, s)
      else if last_included_index = 0 \<or> last_included_term = 0 then Inr (-1, s)
      else if last_included_index < last_applied_idx s then Inr (-1, s)
      else if last_included_index < raft_get_current_idx s then Inr (-1, s)
      else if last_included_term = snapshot_last_term s \<and> last_included_index = snapshot_last_idx s
      then Inr (RAFT_ERR_SNAPSHOT_ALREADY_LOADED, s)
      else
        let s1 = (raft_set_state (s\<lparr>current_term := last_included_term, voted_for := -1\<rparr>) RAFT_STATE_FOLLOWER)
                   \<lparr>current_leader := None\<rparr> in
        rbind (log_load_from_snapshot (log s1) last_included_index last_included_term (cb s1) (udata s1))
          (\<lambda>(_, me, u).
        let s2 = s1\<lparr>log := me, udata := u\<rparr> in
        rbind (if raft_get_commit_idx s2 < last_included_index
               then raft_set_commit_idx s2 last_included_index else Inr s2) (\<lambda>s3.
        let s4 = s3\<lparr>last_applied_idx := last_included_index\<rparr>;
            s5 = raft_set_snapshot_metadata s4 last_included_term (last_applied_idx s4) in
        rbind (deactivate_loop s5 (nodes s5) 0 0) (\<lambda>(mine, s6).
        rbind (keep_own_node s6 mine) (\<lambda>s7. Inr (0, s7))))))"

primrec end_load_loop :: "'u raft_server \<Rightarrow> node_ref list \<Rightarrow> fault + 'u raft_server" where
  "end_load_loop s [] = Inr s"
| "end_load_loop s (r # rs) =
     rbind (mod_node s (Some r) (\<lambda>n. raft_node_set_voting_committed n (raft_node_is_voting n))) (\<lambda>s1.
     rbind (mod_node s1 (Some r) (\<lambda>n. raft_node_set_addition_committed n True)) (\<lambda>s2.
     rbind (mod_node s2 (Some r) (\<lambda>n.
       if raft_node_is_voting n then raft_node_set_has_sufficient_logs n else n)) (\<lambda>s3.
     end_load_loop s3 rs)))"

definition raft_end_load_snapshot :: "'u raft_server \<Rightarrow> fault + int \<times> 'u raft_server" where
  "raft_end_load_snapshot s = rbind (end_load_loop s (nodes s)) (\<lambda>s1. Inr (0, s1))"

section \<open>Compaction\<close>

lemma log_poll_failed:
  assumes "log_inv me" and "log_poll me cbs u = Inr (e, ety, me', u')" and "e \<noteq> 0"
  shows "log_inv me'" and "lg_base me' = lg_base me" and "log_keys me' = log_keys me"
proof -
  have get: "arr_get (lg_entries me) (lg_front me) = Inr (lg_entries me ! nat (lg_front me))"
    and front: "nat (lg_front me) < length (lg_entries me)"
    using assms(1) by (auto simp: log_inv_def)
  have "me' = me \<or> (\<exists>d. me' = me\<lparr>lg_entries := (lg_entries me)[nat (lg_front me) :=
      (lg_entries me ! nat (lg_front me))\<lparr>ety_data := d\<rparr>]\<rparr>)"
    using assms(2,3) get
    by (auto simp: log_poll_def Let_def rbind_eq_Inr split: if_splits option.splits prod.splits)
  then consider "me' = me" | d where "me' = me\<lparr>lg_entries := (lg_entries me)[nat (lg_front me) :=
      (lg_entries me ! nat (lg_front me))\<lparr>ety_data := d\<rparr>]\<rparr>"
    by blast
  then show "log_inv me'" "lg_base me' = lg_base me" "log_keys me' = log_keys me"
    using assms(1) front
    by (cases; simp add: log_inv_set_cell log_list_def ring_slice_key_update)+
qed

lemma raft_poll_entry_keys:
  assumes "log_inv (log s)"
  shows "rok (raft_poll_entry s) (\<lambda>(e, ety, s'). same_but_log s s' \<and> log_inv (log s') \<and>
    (if e = 0 then log_keys (log s) \<noteq> [] \<and> log_keys (log s') = tl (log_keys (log s)) \<and>
        lg_base (log s') = lg_base (log s) + 1
     else log_keys (log s') = log_keys (log s) \<and> lg_base (log s') = lg_base (log s)))"
proof (rule rokI, clarify)
  fix e ety s' assume run: "raft_poll_entry s = Inr (e, ety, s')"
  show "same_but_log s s' \<and> log_inv (log s') \<and>
    (if e = 0 then log_keys (log s) \<noteq> [] \<and> log_keys (log s') = tl (log_keys (log s)) \<and>
        lg_base (log s') = lg_base (log s) + 1
     else log_keys (log s') = log_keys (log s) \<and> lg_base (log s') = lg_base (log s))"
  proof (cases "e = 0")
    case True
    then show ?thesis using rokD [OF raft_poll_entry_spec [OF assms] run] by (simp add: map_tl)
  next
    case False
    then obtain ety' me u where "log_poll (log s) (cb s) (udata s) = Inr (e, ety', me, u)" "log s' = me"
      using run by (auto simp: raft_poll_entry_def rbind_eq_Inr Let_def split: if_splits)
    then show ?thesis
      using log_poll_failed [OF assms _ False] rokD [OF raft_poll_entry_spec [OF assms] run] False by auto
  qed
qed

text \<open>The loop takes the oldest entries off; all of them unless the callback refused one.\<close>

lemma poll_loop_spec:
  "log_inv (log s) \<Longrightarrow> rok (poll_loop n s) (\<lambda>(e, s'). same_but_log s s' \<and> log_inv (log s') \<and>
     (\<exists>k \<le> n. k \<le> length (log_keys (log s)) \<and> (e = 0 \<longrightarrow> k = n) \<and>
        log_keys (log s') = drop k (log_keys (log s)) \<and> lg_base (log s') = lg_base (log s) + int k))"
proof (induction n arbitrary: s)
  case 0
  then show ?case by simp
next
  case (Suc n)
  have more: "rok (poll_loop n s1) (\<lambda>(e, s'). same_but_log s s' \<and> log_inv (log s') \<and>
     (\<exists>k \<le> Suc n. k \<le> length (log_keys (log s)) \<and> (e = 0 \<longrightarrow> k = Suc n) \<and>
        log_keys (log s') = drop k (log_keys (log s)) \<and> lg_base (log s') = lg_base (log s) + int k))"
    if s1: "same_but_log s s1" "log_inv (log s1)" "log_keys (log s) \<noteq> []"
      "log_keys (log s1) = tl (log_keys (log s))" "lg_base (log s1) = lg_base (log s) + 1" for s1
  proof (rule rok_mono [OF Suc.IH [OF s1(2)]], clarify)
    fix e s' k
    assume a: "same_but_log s1 s'" "log_inv (log s')" "k \<le> n" "k \<le> length (log_keys (log s1))" "e = 0 \<longrightarrow> k = n"
      "log_keys (log s') = drop k (log_keys (log s1))" "lg_base (log s') = lg_base (log s1) + int k"
    have "Suc k \<le> length (log_keys (log s))"
      using a(4) s1(3,4) by (cases "log_keys (log s)") auto
    moreover have "log_keys (log s') = drop (Suc k) (log_keys (log s))"
      using a(6) s1(4) by (simp add: drop_Suc)
    ultimately show "same_but_log s s' \<and> log_inv (log s') \<and>
       (\<exists>k \<le> Suc n. k \<le> length (log_keys (log s)) \<and> (e = 0 \<longrightarrow> k = Suc n) \<and>
        log_keys (log s') = drop k (log_keys (log s)) \<and> lg_base (log s') = lg_base (log s) + int k)"
      using a s1(1,5) same_but_log_trans [OF s1(1) a(1)] by (intro conjI exI [of _ "Suc k"]) auto
  qed
  show ?case
    unfolding poll_loop.simps rok_simps
  proof (rule rok_mono [OF raft_poll_entry_keys [OF Suc.prems]], clarify)
    fix e ety s1
    assume s1: "same_but_log s s1" "log_inv (log s1)"
      "if e = 0 then log_keys (log s) \<noteq> [] \<and> log_keys (log s1) = tl (log_keys (log s)) \<and>
          lg_base (log s1) = lg_base (log s) + 1
       else log_keys (log s1) = log_keys (log s) \<and> lg_base (log s1) = lg_base (log s)"
    show "rok (if e \<noteq> 0 then Inr (- 1, s1) else poll_loop n s1) (\<lambda>(e, s'). same_but_log s s' \<and> log_inv (log s') \<and>
       (\<exists>k \<le> Suc n. k \<le> length (log_keys (log s)) \<and> (e = 0 \<longrightarrow> k = Suc n) \<and>
        log_keys (log s') = drop k (log_keys (log s)) \<and> lg_base (log s') = lg_base (log s) + int k))"
    proof (cases "e = 0")
      case True
      then show ?thesis using more [OF s1(1,2)] s1(3) by simp
    next
      case False
      then show ?thesis using s1 by (auto intro!: exI [of _ 0])
    qed
  qed
qed

lemma key_at_drop:
  assumes "log_keys me' = drop k (log_keys me)" and "lg_base me' = lg_base me + int k"
    and "k \<le> length (log_keys me)" and "lg_base me' < i"
  shows "key_at me' i = key_at me i"
proof -
  have "nat (i - lg_base me - 1) = k + nat (i - (lg_base me + int k) - 1)"
    using assms(2,4) by linarith
  then show ?thesis
    using assms unfolding key_at_keys assms(1,2) by (auto simp: of_nat_diff simp del: length_map length_log_list)
qed

section \<open>Taking a snapshot\<close>

lemma raft_inv_log: "raft_inv s \<Longrightarrow> log_inv (log s)"
  by (simp add: raft_inv_def)

lemma applied_some_safe:
  assumes "raft_inv s" and "applied_some s s'"
  shows "raft_inv s'" and "log_safe s s'" and "same_role s s'"
proof -
  note d = apply_frameD [of s s']
  have "saved_snapshot_last_idx s' = saved_snapshot_last_idx s"
    using assms(2) by (simp add: applied_some_def apply_frame_def same_core_def)
  with assms d show "raft_inv s'" "log_safe s s'" "same_role s s'"
    by (auto simp: applied_some_def raft_inv_def log_safe_def same_role_def raft_get_current_idx_def)
qed

definition snapshot_begun :: "'u raft_server \<Rightarrow> 'u raft_server \<Rightarrow> bool" where
  "snapshot_begun s s' \<longleftrightarrow>
     snapshot_in_progress s' \<and> snapshot_last_idx s' = commit_idx s \<and> last_applied_idx s' = commit_idx s \<and>
     map_option fst (key_at (log s) (commit_idx s)) = Some (snapshot_last_term s') \<and>
     saved_snapshot_last_idx s' = snapshot_last_idx s \<and> saved_snapshot_last_term s' = snapshot_last_term s \<and>
     commit_idx s' = commit_idx s"

lemma raft_begin_snapshot_spec:
  assumes inv: "raft_inv s"
  shows "rok (raft_begin_snapshot s f) (\<lambda>(e, s'). raft_inv s' \<and> log_safe s s' \<and> same_role s s' \<and> log s' = log s \<and>
    (e = 0 \<longrightarrow> snapshot_begun s s'))" (is "rok _ ?Q")
proof -
  have log: "log_inv (log s)" using inv by (simp add: raft_inv_def)
  have stay: "?Q (-1, s)" using inv by (simp add: same_role_def)
  show ?thesis
  proof (cases "list_at (lg_base (log s)) (log_list (log s)) (commit_idx s)")
    case None
    then show ?thesis using stay by (simp add: raft_begin_snapshot_def log Let_def)
  next
    case (Some ety)
    have "rok (raft_apply_all s) (\<lambda>(e, s1). rok (if e \<noteq> 0 then Inr (e, s1)
        else rbind (rassert (raft_get_commit_idx s1 = raft_get_last_applied_idx s1)) (\<lambda>_.
          Inr (0, (raft_set_snapshot_metadata s1 (ety_term ety) (commit_idx s))
            \<lparr>snapshot_in_progress := True, snapshot_flags := f\<rparr>))) ?Q)"
    proof (rule rok_mono [OF raft_apply_all_step], clarify)
      fix e s1 assume a: "applied_some s s1"
      note safe = applied_some_safe [OF inv a]
      have eqs: "log s1 = log s" "commit_idx s1 = commit_idx s" "snapshot_last_idx s1 = snapshot_last_idx s"
          "snapshot_last_term s1 = snapshot_last_term s"
        using a by (simp_all add: applied_some_def apply_frameD)
      define s2 where "s2 = (raft_set_snapshot_metadata s1 (ety_term ety) (commit_idx s))
          \<lparr>snapshot_in_progress := True, snapshot_flags := f\<rparr>"
      have "?Q (0, s2)" if "commit_idx s1 = last_applied_idx s1"
      proof -
        have "raft_inv s2" "log_safe s1 s2" "same_role s1 s2"
          using safe(1) that eqs
          by (auto simp: s2_def raft_set_snapshot_metadata_def raft_inv_def log_safe_def same_role_def
              raft_get_current_idx_def)
        moreover have "snapshot_begun s s2"
          using that eqs Some
          by (simp add: s2_def raft_set_snapshot_metadata_def snapshot_begun_def key_at_def ety_key_def)
        moreover have "log s2 = log s" using eqs by (simp add: s2_def raft_set_snapshot_metadata_def)
        ultimately show ?thesis using safe by (auto intro: log_safe_trans same_role_trans)
      qed
      then show "rok (if e \<noteq> 0 then Inr (e, s1)
        else rbind (rassert (raft_get_commit_idx s1 = raft_get_last_applied_idx s1)) (\<lambda>_.
          Inr (0, (raft_set_snapshot_metadata s1 (ety_term ety) (commit_idx s))
            \<lparr>snapshot_in_progress := True, snapshot_flags := f\<rparr>))) ?Q"
        using safe eqs unfolding s2_def by auto
    qed
    then show ?thesis
      using Some stay by (simp add: raft_begin_snapshot_def log Let_def case_prod_unfold)
  qed
qed

lemma raft_cancel_snapshot_safe:
  assumes "raft_inv s" and "raft_cancel_snapshot s = (e, s')"
  shows "raft_inv s'" and "log_safe s s'" and "same_role s s'"
  using assms
  by (auto simp: raft_cancel_snapshot_def raft_inv_def log_safe_def same_role_def raft_get_current_idx_def
      split: if_splits)

lemma send_snapshot_loop_frame: "rok (send_snapshot_loop s rs) (same_but_udata s)"
proof (induction rs arbitrary: s)
  case (Cons r rs)
  have "rok (send_snapshot_loop (s\<lparr>udata := u\<rparr>) rs) (same_but_udata s)" for u
    by (rule rok_mono [OF Cons.IH]) (auto intro: same_but_udata_trans [OF same_but_udata_upd])
  then show ?case
    using Cons.IH [of s]
    by (auto intro!: rok_reads rokI [of "skip_node t q" for t q] split: option.splits prod.splits)
qed simp

text \<open>
  The compacted log: everything up to the commit index is gone when the operation succeeds, and
  every remaining entry has kept its index.
\<close>

definition compacted :: "'u raft_server \<Rightarrow> int \<Rightarrow> 'u raft_server \<Rightarrow> bool" where
  "compacted s e s' \<longleftrightarrow>
     raft_inv s' \<and> log_safe s s' \<and> same_role s s' \<and> commit_idx s' = commit_idx s \<and>
     raft_get_current_idx s' = raft_get_current_idx s \<and>
     (\<forall>i. lg_base (log s') < i \<longrightarrow> key_at (log s') i = key_at (log s) i) \<and>
     (e = 0 \<longrightarrow> \<not> snapshot_in_progress s' \<and> lg_base (log s') = commit_idx s \<and>
        snapshot_last_idx s' = commit_idx s)"

lemma poll_loop_compacted:
  assumes inv: "raft_inv s" and snap: "snapshot_last_idx s = commit_idx s"
    and num: "int n = commit_idx s - lg_base (log s)"
  shows "rok (poll_loop n s) (\<lambda>(e, s'). same_but_log s s' \<and> compacted s (if e = 0 then 0 else -1)
    (if e = 0 then s'\<lparr>snapshot_in_progress := False\<rparr> else s'))"
proof (rule rokI)
  fix x assume run: "poll_loop n s = Inr x"
  obtain e s' where x: "x = (e, s')" by (cases x)
  obtain k where a: "same_but_log s s'" "log_inv (log s')" "k \<le> n" "k \<le> length (log_keys (log s))" "e = 0 \<longrightarrow> k = n"
    "log_keys (log s') = drop k (log_keys (log s))" "lg_base (log s') = lg_base (log s) + int k"
    using rokD [OF poll_loop_spec [OF raft_inv_log [OF inv]] run] by (auto simp: x)
  have log: "log_inv (log s)" using inv by (simp add: raft_inv_def)
  have "length (log_list (log s')) = length (log_list (log s)) - k"
    using arg_cong [OF a(6), of length] by (simp del: length_log_list)
  then have cur: "raft_get_current_idx s' = raft_get_current_idx s"
    using a(4,7) log a(2)
    by (simp add: raft_get_current_idx_def current_idx_length of_nat_diff del: length_log_list)
  have keys: "key_at (log s') i = key_at (log s) i" if "lg_base (log s') < i" for i
    using key_at_drop [OF a(6,7,4)] that by blast
  note same = same_but_log_cfg' [OF a(1)]
  have fields: "commit_idx s' = commit_idx s" "last_applied_idx s' = last_applied_idx s"
      "snapshot_last_idx s' = snapshot_last_idx s" "saved_snapshot_last_idx s' = saved_snapshot_last_idx s"
      "same_role s s'"
    using a(1) by (simp_all add: same_but_log_def same_core_def same_role_def)
  have base: "lg_base (log s') \<le> commit_idx s" using a(3,7) num by simp
  have "compacted s (if e = 0 then 0 else -1) (s'\<lparr>snapshot_in_progress := b\<rparr>)" if "e = 0 \<longrightarrow> \<not> b" for b
    using inv snap a(2,5,7) num fields keys cur base that
    by (auto simp: compacted_def raft_inv_def log_safe_def same_role_def raft_get_current_idx_def)
  from this [of False] this [of "snapshot_in_progress s'"] a(1)
  show "case x of (e, s') \<Rightarrow> same_but_log s s' \<and> compacted s (if e = 0 then 0 else -1)
    (if e = 0 then s'\<lparr>snapshot_in_progress := False\<rparr> else s')"
    by (cases "e = 0") (simp_all add: x)
qed

lemma compacted_udata: "compacted s e s' \<Longrightarrow> same_but_udata s' s'' \<Longrightarrow> compacted s e s''"
  by (auto simp: same_but_udata_def compacted_def raft_inv_def log_safe_def same_role_def raft_get_current_idx_def)

lemma raft_end_snapshot_spec:
  assumes inv: "raft_inv s"
  shows "rok (raft_end_snapshot s) (\<lambda>(e, s'). compacted s e s')"
proof (cases "snapshot_in_progress s \<and> snapshot_last_idx s \<noteq> 0 \<and> raft_get_num_snapshottable_logs s \<noteq> 0 \<and>
    snapshot_last_idx s = commit_idx s")
  case False
  have "compacted s (-1) s" using inv by (simp add: compacted_def same_role_def)
  then show ?thesis using False by (auto simp: raft_end_snapshot_def)
next
  case True
  define n where "n = nat (raft_get_num_snapshottable_logs s)"
  have num: "int n = commit_idx s - lg_base (log s)"
    using True inv by (auto simp: n_def raft_get_num_snapshottable_logs_def log_get_base_def raft_inv_def split: if_splits)
  have "rok (poll_loop n s) (\<lambda>(e, s1). rok (if e \<noteq> 0 then Inr (-1, s1)
      else let s2 = s1\<lparr>snapshot_in_progress := False\<rparr> in
        if \<not> raft_is_leader s2 then Inr (0, s2)
        else rbind (send_snapshot_loop s2 (nodes s2)) (\<lambda>s3. Inr (0, s3))) (\<lambda>(e, s'). compacted s e s'))"
  proof (rule rok_mono [OF poll_loop_compacted [OF inv _ num]])
    show "snapshot_last_idx s = commit_idx s" using True by simp
    fix x assume x: "case x of (e, s') \<Rightarrow> same_but_log s s' \<and> compacted s (if e = 0 then 0 else -1)
        (if e = 0 then s'\<lparr>snapshot_in_progress := False\<rparr> else s')"
    obtain e s1 where xe: "x = (e, s1)" by (cases x)
    have "rok (send_snapshot_loop t rs) (\<lambda>s3. compacted s 0 s3)" if "compacted s 0 t" for t rs
      by (rule rok_mono [OF send_snapshot_loop_frame]) (use that compacted_udata in blast)
    then show "case x of (e, s1) \<Rightarrow> rok (if e \<noteq> 0 then Inr (-1, s1)
      else let s2 = s1\<lparr>snapshot_in_progress := False\<rparr> in
        if \<not> raft_is_leader s2 then Inr (0, s2)
        else rbind (send_snapshot_loop s2 (nodes s2)) (\<lambda>s3. Inr (0, s3))) (\<lambda>(e, s'). compacted s e s')"
      using x by (cases "e = 0") (auto simp: xe Let_def)
  qed
  then show ?thesis
    using True by (simp add: raft_end_snapshot_def n_def case_prod_unfold)
qed

section \<open>Loading a snapshot\<close>

lemma deactivate_loop_core:
  "same_core s t \<Longrightarrow> rok (deactivate_loop t rs i m) (\<lambda>(_, s'). same_core s s')"
  by (induction rs arbitrary: t i m) (auto intro!: rok_reads core_steps [of s])

lemma end_load_loop_core: "same_core s t \<Longrightarrow> rok (end_load_loop t rs) (same_core s)"
  by (induction rs arbitrary: t) (auto intro!: core_steps [of s])

lemma same_core_log_fields: "same_core s s' \<Longrightarrow> log_fields s' = log_fields s \<and> same_role s s'"
  by (simp add: log_fields_def same_role_def same_core_def)

lemma raft_end_load_snapshot_safe:
  "rok (raft_end_load_snapshot s) (\<lambda>(e, s'). e = 0 \<and> same_core s s')"
  unfolding raft_end_load_snapshot_def by (simp add: end_load_loop_core)

text \<open>
  A loaded snapshot replaces the whole log: it is empty behind the snapshot's last index, which
  is committed and applied. The term becomes the snapshot's and the vote is forgotten, whatever
  they were.
\<close>

definition snapshot_loaded :: "'u raft_server \<Rightarrow> int \<Rightarrow> int \<Rightarrow> 'u raft_server \<Rightarrow> bool" where
  "snapshot_loaded s trm idx s' \<longleftrightarrow>
     log_list (log s') = [] \<and> lg_base (log s') = idx \<and> raft_get_current_idx s' = idx \<and>
     commit_idx s' = idx \<and> last_applied_idx s' = idx \<and>
     snapshot_last_idx s' = idx \<and> snapshot_last_term s' = trm \<and>
     current_term s' = trm \<and> voted_for s' = -1 \<and> state s' = RAFT_STATE_FOLLOWER \<and>
     current_leader s' = None \<and> length (nodes s') = 1"

lemma raft_begin_load_snapshot_spec:
  assumes inv: "raft_inv s"
  shows "rok (raft_begin_load_snapshot s trm idx) (\<lambda>(e, s').
    if e = 0 then raft_inv s' \<and> log_safe s s' \<and> snapshot_loaded s trm idx s' else s' = s)"
proof (cases "idx = -1 \<or> idx = 0 \<or> trm = 0 \<or> idx < last_applied_idx s \<or> idx < raft_get_current_idx s \<or>
    trm = snapshot_last_term s \<and> idx = snapshot_last_idx s")
  case True
  then show ?thesis by (auto simp: raft_begin_load_snapshot_def raft_errs)
next
  case False
  have log: "log_inv (log s)" using inv by (rule raft_inv_log)
  have pos: "0 \<le> idx" "commit_idx s \<le> idx" "lg_base (log s) \<le> idx" "last_applied_idx s \<le> idx"
    using False inv by (auto simp: raft_inv_def log_inv_def)
  define s1 where "s1 = (raft_set_state (s\<lparr>current_term := trm, voted_for := -1\<rparr>) RAFT_STATE_FOLLOWER)
      \<lparr>current_leader := None\<rparr>"
  have l1: "log s1 = log s" "commit_idx s1 = commit_idx s" by (simp_all add: s1_def raft_set_state_def)
  obtain me u where load: "log_load_from_snapshot (log s1) idx trm (cb s1) (udata s1) = Inr (0, me, u)"
      and me: "log_inv me" "log_list me = []" "lg_base me = idx"
    using log_load_from_snapshot_spec [OF log pos(1), of trm "cb s1" "udata s1"] l1 by metis
  define s2 where "s2 = s1\<lparr>log := me, udata := u\<rparr>"
  have cur: "log_get_current_idx me = idx" using me by (simp add: current_idx_length del: length_log_list)
  have set: "(if commit_idx s1 < idx then raft_set_commit_idx s2 idx else Inr s2) = Inr (s2\<lparr>commit_idx := idx\<rparr>)"
    using pos(2) l1 cur by (auto simp: raft_set_commit_idx_def s2_def raft_get_current_idx_def)
  define s5 where "s5 = raft_set_snapshot_metadata (s2\<lparr>commit_idx := idx, last_applied_idx := idx\<rparr>) trm idx"
  have s5: "raft_inv s5" "log_safe s s5" "log s5 = me" "commit_idx s5 = idx" "last_applied_idx s5 = idx"
      "snapshot_last_idx s5 = idx" "snapshot_last_term s5 = trm" "current_term s5 = trm" "voted_for s5 = -1"
      "state s5 = RAFT_STATE_FOLLOWER" "current_leader s5 = None"
    using me cur pos inv
    by (auto simp: s5_def s2_def s1_def raft_set_state_def raft_set_snapshot_metadata_def raft_inv_def
        log_safe_def raft_get_current_idx_def)
  have kept: "raft_inv s7 \<and> log_safe s s7 \<and> snapshot_loaded s trm idx s7"
    if "same_core s5 s6" "keep_own_node s6 m = Inr s7" for s6 s7 m
  proof -
    have "length (nodes s7) = 1" and "same_core s5 s7"
      using that by (auto simp: keep_own_node_def Let_def split: if_splits)
    then have "log_fields s7 = log_fields s5" and f: "log s7 = me" "commit_idx s7 = idx" "last_applied_idx s7 = idx"
        "snapshot_last_idx s7 = idx" "snapshot_last_term s7 = trm" "current_term s7 = trm" "voted_for s7 = -1"
        "state s7 = RAFT_STATE_FOLLOWER" "current_leader s7 = None"
      using s5 by (simp_all add: log_fields_def same_core_def)
    then show ?thesis
      using log_fields_eq(1,4) [OF \<open>log_fields s7 = log_fields s5\<close>] s5(1,2) \<open>length (nodes s7) = 1\<close> me cur
      by (simp add: snapshot_loaded_def raft_get_current_idx_def)
  qed
  have "rok (deactivate_loop s5 rs i m) (\<lambda>(mine, s6). rok (keep_own_node s6 mine)
      (\<lambda>s7. raft_inv s7 \<and> log_safe s s7 \<and> snapshot_loaded s trm idx s7))" for rs i m
    by (rule rok_mono [OF deactivate_loop_core [OF same_core_refl]]) (auto intro!: rokI kept)
  moreover have "raft_begin_load_snapshot s trm idx =
      rbind (deactivate_loop s5 (nodes s5) 0 0) (\<lambda>(mine, s6). rbind (keep_own_node s6 mine) (\<lambda>s7. Inr (0, s7)))"
  proof -
    have g: "(idx = -1) = False" "(idx = 0 \<or> trm = 0) = False" "(idx < last_applied_idx s) = False"
        "(idx < raft_get_current_idx s) = False" "(trm = snapshot_last_term s \<and> idx = snapshot_last_idx s) = False"
      using False by auto
    have "raft_get_commit_idx s2 = commit_idx s1" by (simp add: s2_def)
    then show ?thesis
      unfolding raft_begin_load_snapshot_def g if_False Let_def s1_def [symmetric] load
      by (simp only: rbind_simps prod.case s2_def [symmetric] set) (simp add: s5_def)
  qed
  ultimately show ?thesis by (simp add: case_prod_unfold)
qed

end
