(* ===== verification/Raft_Server.thy ===== *)
theory Raft_Server
  imports Raft_Snapshot
begin

text \<open>
  The life of a server: creation, registration of the callbacks, reset, the periodic function
  (\<^verbatim>\<open>raft/raft_server.c\<close>), and the program that runs one server (\<^verbatim>\<open>raft/raft.cpp\<close>). The lemmas
  show that a new server satisfies the invariant, that a period keeps it and is safe, and that
  the program becomes leader in its first period and never stops.
\<close>

section \<open>Operations\<close>

text \<open>A server structure fresh from \<^verbatim>\<open>calloc\<close>; its log pointer is still null.\<close>

definition zero_server :: "process \<Rightarrow> 'u \<Rightarrow> 'u raft_server" where
  "zero_server p u =
     \<lparr>alloc_seq = alloc_seq p, alloc_no = alloc_no p, rand_seq = rand_seq p, rand_no = rand_no p,
      heap = (\<lambda>_. None), next_ref = 0, current_term = 0, voted_for = 0,
      log = \<lparr>lg_size = 0, lg_count = 0, lg_front = 0, lg_back = 0, lg_base = 0, lg_entries = [],
             lg_cb = False, lg_raft = False\<rparr>,
      commit_idx = 0, last_applied_idx = 0, state = RAFT_STATE_NONE, timeout_elapsed = 0,
      nodes = [], nodes_stale = [], election_timeout = 0, election_timeout_rand = 0,
      request_timeout = 0, current_leader = None, cb = no_cbs, udata = u, me_node = None,
      voting_cfg_change_log_idx = 0, connected = RAFT_NODE_STATUS_DISCONNECTED,
      snapshot_in_progress = False, snapshot_flags = 0, snapshot_last_idx = 0,
      snapshot_last_term = 0, saved_snapshot_last_idx = 0, saved_snapshot_last_term = 0\<rparr>"

definition raft_new :: "process \<Rightarrow> 'u \<Rightarrow> fault + 'u raft_server option" where
  "raft_new p u =
     (case raft_alloc p of (ok, p1) \<Rightarrow>
      if \<not> ok then Inr None
      else
        let s0 = (zero_server p1 u)\<lparr>current_term := 0, voted_for := -1, timeout_elapsed := 0,
                   request_timeout := 200, election_timeout := 1000\<rparr> in
        rbind (raft_randomize_election_timeout s0) (\<lambda>s1.
        case log_new s1 of
          (None, s2) \<Rightarrow> Inr None
        | (Some lg, s2) \<Rightarrow>
            let s3 = s2\<lparr>log := lg, voting_cfg_change_log_idx := -1\<rparr>;
                s4 = (raft_set_state s3 RAFT_STATE_FOLLOWER)\<lparr>current_leader := None,
                       snapshot_in_progress := False\<rparr>
            in Inr (Some (raft_set_snapshot_metadata s4 0 0))))"

definition raft_set_callbacks :: "'u raft_server \<Rightarrow> 'u raft_cbs \<Rightarrow> 'u \<Rightarrow> 'u raft_server" where
  "raft_set_callbacks s funcs u = s\<lparr>cb := funcs, udata := u, log := log_set_callbacks (log s)\<rparr>"

text \<open>
  \<^verbatim>\<open>raft_free\<close> with \<^verbatim>\<open>log_free\<close>: the ring, the log, the array of node pointers and the server go back to
  the allocator, so no field of the server can be read any more; the result is what stays
  allocated, the node objects.
\<close>

definition raft_free :: "'u raft_server \<Rightarrow> (node_ref \<rightharpoonup> raft_node)" where
  "raft_free s = heap s"

definition raft_clear :: "'u raft_server \<Rightarrow> fault + 'u raft_server" where
  "raft_clear s =
     rbind (raft_randomize_election_timeout (s\<lparr>current_term := 0, voted_for := -1, timeout_elapsed := 0\<rparr>)) (\<lambda>s1.
     let s2 = (raft_set_state (s1\<lparr>voting_cfg_change_log_idx := -1\<rparr>) RAFT_STATE_FOLLOWER)
                \<lparr>current_leader := None, commit_idx := 0, last_applied_idx := 0,
                 nodes_stale := nodes s1 @ nodes_stale s1, nodes := [], me_node := None\<rparr> in
     rbind (log_clear_entries (log s2) (cb s2) (udata s2)) (\<lambda>u.
     Inr (s2\<lparr>udata := u, log := log_clear (log s2)\<rparr>)))"

text \<open>\<^verbatim>\<open>raft_node_is_voting(raft_get_my_node(me))\<close>.\<close>

definition my_node_is_voting :: "'u raft_server \<Rightarrow> fault + bool" where
  "my_node_is_voting s =
     rbind (raft_get_my_node s) (\<lambda>my. rbind (deref s my) (\<lambda>n. Inr (raft_node_is_voting n)))"

text \<open>The three parts of \<^verbatim>\<open>raft_periodic\<close>: the only voter takes the lead, the timers, applying.\<close>

definition periodic_lead :: "'u raft_server \<Rightarrow> fault + 'u raft_server" where
  "periodic_lead s =
     rbind (raft_get_num_voting_nodes s) (\<lambda>num.
     if 1 = num then
       rbind (my_node_is_voting s) (\<lambda>v.
       if v \<and> \<not> raft_is_leader s then raft_become_leader s else Inr s)
     else Inr s)"

definition periodic_timers :: "'u raft_server \<Rightarrow> fault + int \<times> 'u raft_server" where
  "periodic_timers s =
     (if state s = RAFT_STATE_LEADER then
        (if request_timeout s \<le> timeout_elapsed s
         then rbind (raft_send_appendentries_all s) (\<lambda>(_, s1). Inr (0, s1))
         else Inr (0, s))
      else if election_timeout_rand s \<le> timeout_elapsed s \<and> \<not> raft_snapshot_is_in_progress s then
        rbind (raft_get_num_voting_nodes s) (\<lambda>num.
        if 1 < num then
          rbind (my_node_is_voting s) (\<lambda>v. if v then raft_election_start s else Inr (0, s))
        else Inr (0, s))
      else Inr (0, s))"

definition raft_periodic :: "'u raft_server \<Rightarrow> int \<Rightarrow> fault + int \<times> 'u raft_server" where
  "raft_periodic s msec_since_last_period =
     rbind (periodic_lead (s\<lparr>timeout_elapsed := int32 (timeout_elapsed s + msec_since_last_period)\<rparr>)) (\<lambda>s1.
     rbind (periodic_timers s1) (\<lambda>(e, s2).
     if e \<noteq> 0 then Inr (e, s2)
     else if last_applied_idx s2 < raft_get_commit_idx s2 \<and> raft_is_apply_allowed s2 then
       rbind (raft_apply_all s2) (\<lambda>(e1, s3). if e1 \<noteq> 0 then Inr (e1, s3) else Inr (0, s3))
     else Inr (0, s2)))"

text \<open>
  \<^verbatim>\<open>main\<close>: the checks for null pointers only print, so a failed \<^verbatim>\<open>raft_new\<close> is dereferenced by
  \<^verbatim>\<open>raft_add_node\<close>. The loop is unbounded; \<open>raft_main n\<close> is the state after \<open>n\<close> rounds.
\<close>

definition raft_main_start :: "process \<Rightarrow> fault + unit raft_server" where
  "raft_main_start p =
     rbind (raft_new p ()) (\<lambda>raft.
     case raft of
       None \<Rightarrow> Inl Null_dereference
     | Some s \<Rightarrow> rbind (raft_add_node s 0 0 True) (\<lambda>(node, s1). Inr s1))"

primrec raft_main :: "nat \<Rightarrow> process \<Rightarrow> fault + unit raft_server" where
  "raft_main 0 p = raft_main_start p"
| "raft_main (Suc n) p = rbind (raft_main n p) (\<lambda>s. rbind (raft_periodic s 1000) (\<lambda>(_, s1). Inr s1))"

section \<open>A new server\<close>

text \<open>The server \<^verbatim>\<open>raft_new\<close> returns: \<open>x\<close> is its random election timeout.\<close>

definition fresh_log :: raft_log where
  "fresh_log = \<lparr>lg_size = INITIAL_CAPACITY, lg_count = 0, lg_front = 0, lg_back = 0, lg_base = 0,
     lg_entries = replicate (nat INITIAL_CAPACITY) zero_entry, lg_cb = False, lg_raft = False\<rparr>"

definition fresh_server :: "process \<Rightarrow> 'u \<Rightarrow> 'u raft_server" where
  "fresh_server p u = (zero_server p u)\<lparr>alloc_no := alloc_no p + 3, rand_no := rand_no p + 1, voted_for := -1,
     request_timeout := 200, election_timeout := 1000,
     election_timeout_rand := 1000 + int (rand_seq p (rand_no p)) mod 1000,
     log := fresh_log, voting_cfg_change_log_idx := -1, state := RAFT_STATE_FOLLOWER\<rparr>"

lemma fresh_log_inv: "log_inv fresh_log" "log_list fresh_log = []" "log_get_current_idx fresh_log = 0"
  by (simp_all add: fresh_log_def log_inv_def log_list_def INITIAL_CAPACITY_def log_get_current_idx_def log_count_def)

lemma raft_new_eq:
  "raft_new p u =
     Inr (if alloc_seq p (alloc_no p) \<and> alloc_seq p (alloc_no p + 1) \<and> alloc_seq p (alloc_no p + 2)
          then Some (fresh_server p u) else None)"
proof -
  have "int32 (1000 + int k mod 1000) = 1000 + int k mod 1000" for k
    using pos_mod_bound [of 1000 "int k"] pos_mod_sign [of 1000 "int k"] by (intro int32_id) simp_all
  then show ?thesis
    by (simp add: raft_new_def raft_alloc_def raft_randomize_election_timeout_def c_rand_def zero_server_def
        Let_def log_new_def log_alloc_def log_clear_def raft_set_state_def raft_set_snapshot_metadata_def
        fresh_server_def fresh_log_def INITIAL_CAPACITY_def numeral_2_eq_2)
qed

lemma fresh_server_inv: "raft_inv (fresh_server p u)" "nodes_inv (fresh_server p u)"
  using fresh_log_inv
  by (simp_all add: raft_inv_def nodes_inv_def fresh_server_def zero_server_def raft_get_current_idx_def fresh_log_def)

lemma raft_set_callbacks_inv: "raft_inv (raft_set_callbacks s f u) = raft_inv s"
  by (simp add: raft_set_callbacks_def log_set_callbacks_def raft_inv_def log_inv_def raft_get_current_idx_def
      log_get_current_idx_def log_count_def)

section \<open>A period\<close>

lemma periodic_lead_step: "rok (periodic_lead s) (\<lambda>s'. election_frame s s' \<and> vote_step s s')"
  unfolding periodic_lead_def
  by (auto intro!: rokI [of "raft_get_num_voting_nodes t" for t] rokI [of "my_node_is_voting t" for t]
      rok_mono [OF raft_become_leader_spec] simp: vote_step_def)

lemma periodic_timers_step: "rok (periodic_timers s) (\<lambda>(e, s'). election_frame s s' \<and> vote_step s s')"
proof -
  have send: "rok (raft_send_appendentries_all s) (\<lambda>(e, s'). election_frame s s' \<and> vote_step s s')"
    unfolding raft_send_appendentries_all_def Let_def
    by (rule rok_mono [OF send_all_loop_frame])
      (auto simp: same_but_udata_def vote_step_def)
  have elect: "rok (raft_election_start s) (\<lambda>(e, s'). election_frame s s' \<and> vote_step s s')"
    unfolding raft_election_start_def by (rule raft_become_candidate_vote_step)
  have vote: "rok (my_node_is_voting s) (\<lambda>v. rok (if v then raft_election_start s else Inr (0, s))
      (\<lambda>(e, s'). election_frame s s' \<and> vote_step s s'))"
    by (rule rok_all) (simp add: elect)
  have wait: "rok (raft_get_num_voting_nodes s) (\<lambda>num. rok (if 1 < num
      then rbind (my_node_is_voting s) (\<lambda>v. if v then raft_election_start s else Inr (0, s)) else Inr (0, s))
      (\<lambda>(e, s'). election_frame s s' \<and> vote_step s s'))"
    by (rule rok_all) (use vote in simp)
  show ?thesis
  proof (cases "state s = RAFT_STATE_LEADER")
    case True
    then show ?thesis using send by (simp add: periodic_timers_def case_prod_unfold)
  next
    case False
    then show ?thesis using wait by (simp add: periodic_timers_def del: rok_if)
  qed
qed

lemma raft_periodic_safe:
  assumes inv: "raft_inv s"
  shows "rok (raft_periodic s msec) (\<lambda>(e, s'). raft_inv s' \<and> log_safe s s' \<and> vote_step s s')" (is "rok _ ?Q")
proof -
  define s0 where "s0 = s\<lparr>timeout_elapsed := int32 (timeout_elapsed s + msec)\<rparr>"
  have f0: "election_frame s s0" "vote_step s s0" by (simp_all add: s0_def vote_step_def)
  have finish: "?Q (e, s2) \<and> rok (raft_apply_all s2) ?Q" if s2: "election_frame s s2" "vote_step s s2" for s2 e
  proof -
    note eqs = log_fields_eq [OF log_fields_frame [OF s2(1)]]
    then have inv2: "raft_inv s2" using inv by simp
    have "rok (raft_apply_all s2) ?Q"
    proof (rule rok_mono [OF raft_apply_all_step], clarify)
      fix e s3 assume "applied_some s2 s3"
      note safe = applied_some_safe [OF inv2 this]
      have "vote_step s s3" using s2(2) safe(3) by (simp add: vote_step_def same_role_def)
      then show "raft_inv s3 \<and> log_safe s s3 \<and> vote_step s s3"
        using safe(1) log_safe_trans [OF eqs(2) safe(2)] by blast
    qed
    then show ?thesis using inv2 eqs(2) s2(2) by simp
  qed
  have timers: "rok (periodic_timers s1) (\<lambda>(e, s2). rok (if e \<noteq> 0 then Inr (e, s2)
      else if last_applied_idx s2 < raft_get_commit_idx s2 \<and> raft_is_apply_allowed s2 then
        rbind (raft_apply_all s2) (\<lambda>(e1, s3). if e1 \<noteq> 0 then Inr (e1, s3) else Inr (0, s3))
      else Inr (0, s2)) ?Q)" if s1: "election_frame s s1" "vote_step s s1" for s1
  proof (rule rok_mono [OF periodic_timers_step], clarify)
    fix e :: int and s2 assume "election_frame s1 s2" "vote_step s1 s2"
    then have "election_frame s s2" "vote_step s s2"
      using election_frame_trans [OF s1(1)] vote_step_trans [OF s1(2)] by blast+
    note fin = finish [OF this]
    have same: "(\<lambda>(e1, s3). if e1 \<noteq> 0 then Inr (e1, s3) else Inr (0, s3)) = (Inr :: int \<times> 'a raft_server \<Rightarrow> fault + _)"
      by auto
    show "rok (if e \<noteq> 0 then Inr (e, s2)
        else if last_applied_idx s2 < raft_get_commit_idx s2 \<and> raft_is_apply_allowed s2 then
          rbind (raft_apply_all s2) (\<lambda>(e1, s3). if e1 \<noteq> 0 then Inr (e1, s3) else Inr (0, s3))
        else Inr (0, s2)) ?Q"
      unfolding same using fin by simp
  qed
  have "rok (periodic_lead s0) (\<lambda>s1. rok (periodic_timers s1) (\<lambda>(e, s2). rok (if e \<noteq> 0 then Inr (e, s2)
      else if last_applied_idx s2 < raft_get_commit_idx s2 \<and> raft_is_apply_allowed s2 then
        rbind (raft_apply_all s2) (\<lambda>(e1, s3). if e1 \<noteq> 0 then Inr (e1, s3) else Inr (0, s3))
      else Inr (0, s2)) ?Q))"
    by (rule rok_mono [OF periodic_lead_step])
      (blast intro: timers election_frame_trans [OF f0(1)] vote_step_trans [OF f0(2)])
  then show ?thesis
    unfolding raft_periodic_def s0_def by (simp only: rok_simps case_prod_unfold)
qed

section \<open>The program\<close>

text \<open>The state of \<^verbatim>\<open>main\<close>'s server: one voting node, its own; \<open>lead\<close> once a period has passed.\<close>

definition main_server :: "process \<Rightarrow> bool \<Rightarrow> unit raft_server" where
  "main_server p lead = (fresh_server p ())\<lparr>alloc_no := alloc_no p + 5,
     heap := (\<lambda>_. None)(0 \<mapsto> raft_node_init 0 0), next_ref := 1, nodes := [0], me_node := Some 0,
     state := (if lead then RAFT_STATE_LEADER else RAFT_STATE_FOLLOWER),
     current_leader := (if lead then Some 0 else None)\<rparr>"

lemma raft_main_start_eq:
  assumes "\<And>i. i < 5 \<Longrightarrow> alloc_seq p (alloc_no p + i)"
  shows "raft_main_start p = Inr (main_server p False)"
proof -
  have "alloc_seq p (alloc_no p)" "alloc_seq p (alloc_no p + 1)" "alloc_seq p (alloc_no p + 2)"
      "alloc_seq p (alloc_no p + 3)" "alloc_seq p (alloc_no p + 4)"
    using assms [of 0] assms [of 1] assms [of 2] assms [of 3] assms [of 4] by simp_all
  then show ?thesis
    by (simp add: raft_main_start_def raft_new_eq raft_add_node_def raft_add_node_internal_def raft_get_node_def
        fresh_server_def zero_server_def raft_node_new_def raft_alloc_def put_node_def notify_membership_def
        no_cbs_def Let_def main_server_def numeral_eq_Suc)
qed

lemma main_server_voting:
  "raft_get_num_voting_nodes (main_server p b) = Inr 1" "my_node_is_voting (main_server p b) = Inr True"
  by (simp_all add: raft_get_num_voting_nodes_def my_node_is_voting_def raft_get_my_node_def main_server_def
      raft_get_nodeid_def deref_def raft_node_get_id_def)

lemma raft_periodic_main: "raft_periodic (main_server p b) 1000 = Inr (0, main_server p True)"
proof -
  have num: "raft_get_num_voting_nodes ((main_server p b)\<lparr>timeout_elapsed := t\<rparr>) = Inr 1"
    and my: "my_node_is_voting ((main_server p b)\<lparr>timeout_elapsed := t\<rparr>) = Inr True" for t
    by (simp_all add: raft_get_num_voting_nodes_def my_node_is_voting_def raft_get_my_node_def main_server_def
        raft_get_nodeid_def deref_def raft_node_get_id_def)
  have "int32 1000 = 1000" by (simp add: int32_id)
  then show ?thesis
    by (simp add: raft_periodic_def periodic_lead_def num my)
      (simp add: main_server_def fresh_server_def zero_server_def raft_become_leader_def raft_set_state_def
        skip_node_def periodic_timers_def raft_send_appendentries_all_def Let_def)
qed

lemma raft_main_eq:
  assumes "\<And>i. i < 5 \<Longrightarrow> alloc_seq p (alloc_no p + i)"
  shows "raft_main n p = Inr (main_server p (0 < n))"
  by (induction n) (simp_all add: raft_main_start_eq [OF assms] raft_periodic_main)

section \<open>Reset\<close>

lemma raft_clear_inv:
  assumes "log_inv (log s)" and "snapshot_last_idx s = 0" and "saved_snapshot_last_idx s \<le> 0"
  shows "rok (raft_clear s) (\<lambda>s'. raft_inv s' \<and> log_list (log s') = [] \<and> current_term s' = 0 \<and> nodes s' = [])"
proof -
  have cleared: "log_inv (log_clear (log s))" "log_get_current_idx (log_clear (log s)) = 0"
    using log_clear_inv [OF assms(1)] by (simp_all add: log_clear_def log_get_current_idx_def log_count_def)
  show ?thesis
    unfolding raft_clear_def rok_simps
    by (rule rok_mono [OF randomize_spec])
      (use assms cleared in \<open>auto simp: Let_def raft_set_state_def raft_inv_def raft_get_current_idx_def
        intro!: rokI [of "log_clear_entries a b c" for a b c]\<close>)
qed

end
