(* ===== verification/Raft_Examples.thy ===== *)
theory Raft_Examples
  imports Raft_Safety
begin

text \<open>
  Concrete servers on which the theorems of the development are exercised: a cluster of three
  voting nodes with ids 0, 1 and 2 seen from node 0, with a log, a role and indexes of choice.
  The lemmas show that these servers satisfy the invariants.
\<close>

section \<open>States\<close>

definition ex_entry :: "int \<Rightarrow> int \<Rightarrow> raft_entry" where
  "ex_entry trm i = \<lparr>ety_term = trm, ety_id = i, ety_type = RAFT_LOGTYPE_NORMAL, ety_data = \<lparr>buf = 0, len = 0\<rparr>\<rparr>"

text \<open>A ring of ten cells that holds \<open>es\<close> behind the index \<open>base\<close>.\<close>

definition ex_ring :: "raft_entry list \<Rightarrow> int \<Rightarrow> raft_log" where
  "ex_ring es base = \<lparr>lg_size = 10, lg_count = int (length es), lg_front = 0, lg_back = int (length es) mod 10,
     lg_base = base, lg_entries = es @ replicate (10 - length es) zero_entry, lg_cb = False, lg_raft = False\<rparr>"

text \<open>
  The cluster: role \<open>st\<close>, term \<open>trm\<close>, vote \<open>v\<close>, the log, the commit index \<open>com\<close> (everything
  committed is applied) and the match index \<open>m\<close> of the two peers.
\<close>

definition ex_cluster ::
  "raft_state_e \<Rightarrow> int \<Rightarrow> int \<Rightarrow> raft_log \<Rightarrow> int \<Rightarrow> int \<Rightarrow> unit raft_server" where
  "ex_cluster st trm v lg com m = (fresh_server calm_process ())\<lparr>alloc_no := 9,
     heap := (\<lambda>_. None)(0 \<mapsto> raft_node_init 0 0,
       1 \<mapsto> raft_node_set_match_idx (raft_node_init 0 1) m, 2 \<mapsto> raft_node_set_match_idx (raft_node_init 0 2) m),
     next_ref := 3, nodes := [0, 1, 2], me_node := Some 0, state := st, current_term := trm,
     voted_for := v, log := lg, commit_idx := com, last_applied_idx := com\<rparr>"

section \<open>Facts\<close>

lemma ex_entry_fields [simp]:
  "ety_term (ex_entry t i) = t" "ety_id (ex_entry t i) = i" "ety_type (ex_entry t i) = RAFT_LOGTYPE_NORMAL"
  "\<not> raft_entry_is_cfg_change (ex_entry t i)" "\<not> raft_entry_is_voting_cfg_change (ex_entry t i)"
  by (simp_all add: ex_entry_def raft_entry_is_cfg_change_def raft_entry_is_voting_cfg_change_def raft_logtypes)

lemma ex_ring_fields [simp]:
  "lg_base (ex_ring es b) = b" "lg_size (ex_ring es b) = 10" "lg_count (ex_ring es b) = int (length es)"
  "lg_cb (ex_ring es b) = False" "lg_raft (ex_ring es b) = False"
  by (simp_all add: ex_ring_def)

lemma ex_ring_list [simp]: "length es \<le> 10 \<Longrightarrow> log_list (ex_ring es b) = es"
  by (rule nth_equalityI) (auto simp: ex_ring_def log_list_def nth_append)

lemma ex_ring_inv [simp]: "length es \<le> 10 \<Longrightarrow> 0 \<le> b \<Longrightarrow> log_inv (ex_ring es b)"
  by (simp add: ex_ring_def log_inv_def)

lemma ex_ring_current [simp]: "log_get_current_idx (ex_ring es b) = b + int (length es)"
  by (simp add: log_get_current_idx_def log_count_def)

lemma ex_ring_key: "length es \<le> 10 \<Longrightarrow> key_at (ex_ring es b) i = map_option ety_key (list_at b es i)"
  by (simp add: key_at_def)

lemma ex_cluster_fields [simp]:
  "log (ex_cluster st t v lg c m) = lg" "commit_idx (ex_cluster st t v lg c m) = c"
  "last_applied_idx (ex_cluster st t v lg c m) = c" "state (ex_cluster st t v lg c m) = st"
  "current_term (ex_cluster st t v lg c m) = t" "voted_for (ex_cluster st t v lg c m) = v"
  "nodes (ex_cluster st t v lg c m) = [0, 1, 2]" "me_node (ex_cluster st t v lg c m) = Some 0"
  "election_timeout (ex_cluster st t v lg c m) = 1000" "cb (ex_cluster st t v lg c m) = no_cbs"
  "snapshot_last_idx (ex_cluster st t v lg c m) = 0" "saved_snapshot_last_idx (ex_cluster st t v lg c m) = 0"
  "snapshot_last_term (ex_cluster st t v lg c m) = 0" "snapshot_in_progress (ex_cluster st t v lg c m) = False"
  "current_leader (ex_cluster st t v lg c m) = None" "timeout_elapsed (ex_cluster st t v lg c m) = 0"
  "voting_cfg_change_log_idx (ex_cluster st t v lg c m) = -1"
  by (simp_all add: ex_cluster_def fresh_server_def zero_server_def)

lemma ex_cluster_heap [simp]:
  "heap (ex_cluster st t v lg c m) 0 = Some (raft_node_init 0 0)"
  "heap (ex_cluster st t v lg c m) (Suc 0) = Some (raft_node_set_match_idx (raft_node_init 0 1) m)"
  "heap (ex_cluster st t v lg c m) 1 = Some (raft_node_set_match_idx (raft_node_init 0 1) m)"
  "heap (ex_cluster st t v lg c m) 2 = Some (raft_node_set_match_idx (raft_node_init 0 2) m)"
  by (simp_all add: ex_cluster_def)

lemma ex_cluster_current [simp]: "raft_get_current_idx (ex_cluster st t v lg c m) = log_get_current_idx lg"
  by (simp add: raft_get_current_idx_def)

lemma ex_cluster_nodes_inv [simp]: "nodes_inv (ex_cluster st t v lg c m)"
  by (auto simp: nodes_inv_def ex_cluster_def fresh_server_def zero_server_def)

lemma ex_cluster_raft_inv [simp]:
  "raft_inv (ex_cluster st t v lg c m) \<longleftrightarrow> log_inv lg \<and> lg_base lg \<le> c \<and> c \<le> log_get_current_idx lg \<and> 0 \<le> c"
  by (auto simp: raft_inv_def log_inv_def)

lemma ex_cluster_well_formed [simp]:
  "well_formed (ex_cluster st t v lg c m) \<longleftrightarrow> log_inv lg \<and> lg_size lg < 2 ^ 31"
  by (simp add: well_formed_def)

lemma ex_cluster_voters [simp]: "voters (ex_cluster st t v lg c m) = [0, 1, 2]"
  by (simp add: voters_def is_voter_def)

lemma ex_cluster_peers [simp]: "peers_ok (ex_cluster st t v lg c m) \<longleftrightarrow> 0 \<le> m"
  by (auto simp: peers_ok_def)

lemma ex_cluster_nodeid [simp]: "raft_get_nodeid (ex_cluster st t v lg c m) = Inr 0"
  by (simp add: raft_get_nodeid_spec)

text \<open>A leader with one peer that records the messages it sends.\<close>

definition ex_server_sending :: "raft_log \<Rightarrow> msg_appendentries option raft_server" where
  "ex_server_sending lg = (fresh_server calm_process None)\<lparr>alloc_no := 7,
     heap := (\<lambda>_. None)(0 \<mapsto> raft_node_init 0 0, 1 \<mapsto> raft_node_init 0 1), next_ref := 2, nodes := [0, 1],
     me_node := Some 0, state := RAFT_STATE_LEADER, current_term := 2, voted_for := 0, log := lg,
     cb := no_cbs\<lparr>send_appendentries := Some record_ae\<rparr>\<rparr>"

lemma ex_server_sending_fields [simp]:
  "log (ex_server_sending lg) = lg" "nodes (ex_server_sending lg) = [0, 1]" "me_node (ex_server_sending lg) = Some 0"
  "current_term (ex_server_sending lg) = 2" "send_appendentries (cb (ex_server_sending lg)) = Some record_ae"
  "snapshot_last_idx (ex_server_sending lg) = 0" "heap (ex_server_sending lg) 1 = Some (raft_node_init 0 1)"
  "heap (ex_server_sending lg) (Suc 0) = Some (raft_node_init 0 1)"
  "heap (ex_server_sending lg) 0 = Some (raft_node_init 0 0)" "peers_ok (ex_server_sending lg)"
  "well_formed (ex_server_sending lg) \<longleftrightarrow> log_inv lg \<and> lg_size lg < 2 ^ 31"
  by (auto simp: ex_server_sending_def fresh_server_def zero_server_def peers_ok_def well_formed_def nodes_inv_def)

end
