(* ===== verification/Base64.thy ===== *)
theory Base64
  imports Prelude
begin

unbundle bit_operations_syntax

text \<open>
  Base64 (\<^verbatim>\<open>include/base64.hpp\<close>), with which the mail client encodes names. The two loops fill small
  arrays of bytes; the model keeps the part that is filled. \<^verbatim>\<open>unsigned char\<close> is \<open>8 word\<close>: the
  expressions of the source are evaluated in \<^verbatim>\<open>int\<close> and cut to a byte when they are stored, which
  gives the same byte, because shifting to the right and masking happen on bytes. Strings are shorter
  than \<open>2 ^ 31\<close> characters, the range of the \<^verbatim>\<open>int\<close> that counts them.
\<close>

section \<open>The code\<close>

definition base64_chars :: string where
  "base64_chars = ''ABCDEFGHIJKLMNOPQRSTUVWXYZabcdefghijklmnopqrstuvwxyz0123456789+/''"

text \<open>\<^verbatim>\<open>isalnum\<close> in the C locale.\<close>

definition c_isalnum :: "char \<Rightarrow> bool" where
  "c_isalnum c \<longleftrightarrow> (let k = of_char c :: nat in 48 \<le> k \<and> k \<le> 57 \<or> 65 \<le> k \<and> k \<le> 90 \<or> 97 \<le> k \<and> k \<le> 122)"

definition is_base64 :: "char \<Rightarrow> bool" where
  "is_base64 c \<longleftrightarrow> c_isalnum c \<or> c = CHR ''+'' \<or> c = CHR ''/''"

text \<open>The four indexes for three bytes, and the three bytes for four indexes.\<close>

definition char_array_4_of :: "8 word list \<Rightarrow> 8 word list" where
  "char_array_4_of a3 =
     [drop_bit 2 (a3 ! 0 AND 0xfc),
      push_bit 4 (a3 ! 0 AND 0x03) + drop_bit 4 (a3 ! 1 AND 0xf0),
      push_bit 2 (a3 ! 1 AND 0x0f) + drop_bit 6 (a3 ! 2 AND 0xc0),
      a3 ! 2 AND 0x3f]"

definition char_array_3_of :: "8 word list \<Rightarrow> 8 word list" where
  "char_array_3_of a4 =
     [push_bit 2 (a4 ! 0) + drop_bit 4 (a4 ! 1 AND 0x30),
      push_bit 4 (a4 ! 1 AND 0xf) + drop_bit 2 (a4 ! 2 AND 0x3c),
      push_bit 6 (a4 ! 2 AND 0x3) + a4 ! 3]"

text \<open>\<^verbatim>\<open>ret += base64_chars[char_array_4[i]]\<close> for the given indexes.\<close>

primrec put_chars :: "8 word list \<Rightarrow> string \<Rightarrow> fault + string" where
  "put_chars [] ret = Inr ret"
| "put_chars (k # ks) ret = rbind (arr_get base64_chars (uint k)) (\<lambda>c. put_chars ks (ret @ [c]))"

primrec encode_loop :: "8 word list \<Rightarrow> 8 word list \<Rightarrow> string \<Rightarrow> fault + 8 word list \<times> string" where
  "encode_loop [] a3 ret = Inr (a3, ret)"
| "encode_loop (b # bs) a3 ret =
     (let a3' = a3 @ [b] in
      if length a3' = 3 then rbind (put_chars (char_array_4_of a3') ret) (\<lambda>ret'. encode_loop bs [] ret')
      else encode_loop bs a3' ret)"

definition base64_encode :: "8 word list \<Rightarrow> fault + string" where
  "base64_encode bytes_to_encode =
     rbind (encode_loop bytes_to_encode [] []) (\<lambda>(a3, ret).
     let i = length a3 in
     if i \<noteq> 0 then
       rbind (put_chars (take (i + 1) (char_array_4_of (a3 @ replicate (3 - i) 0))) ret) (\<lambda>ret'.
       Inr (ret' @ replicate (3 - i) (CHR ''='')))
     else Inr ret)"

text \<open>\<^verbatim>\<open>std::string::find\<close> of a character; not found is \<open>2 ^ 64 - 1\<close>, of which a byte keeps 255.\<close>

definition str_find :: "string \<Rightarrow> char \<Rightarrow> int" where
  "str_find s c =
     (let p = length (takeWhile (\<lambda>x. x \<noteq> c) s) in if p < length s then int p else 2 ^ 64 - 1)"

definition char_index :: "char \<Rightarrow> 8 word" where
  "char_index c = word_of_int (str_find base64_chars c)"

primrec decode_loop :: "string \<Rightarrow> string \<Rightarrow> string \<Rightarrow> string \<times> string" where
  "decode_loop [] a4 ret = (a4, ret)"
| "decode_loop (c # cs) a4 ret =
     (if c \<noteq> CHR ''='' \<and> is_base64 c then
        let a4' = a4 @ [c] in
        if length a4' = 4
        then decode_loop cs [] (ret @ map (\<lambda>b. char_of (unat b)) (char_array_3_of (map char_index a4')))
        else decode_loop cs a4' ret
      else (a4, ret))"

definition base64_decode :: "string \<Rightarrow> string" where
  "base64_decode encoded_string =
     (case decode_loop encoded_string [] [] of (a4, ret) \<Rightarrow>
      let i = length a4 in
      if i \<noteq> 0 then
        ret @ take (i - 1) (map (\<lambda>b. char_of (unat b))
                (char_array_3_of (map char_index (a4 @ replicate (4 - i) (char_of (0::nat))))))
      else ret)"

section \<open>Bits\<close>

text \<open>A byte is its eight bits, so that an equation of bytes is eight equations the simplifier decides.\<close>

lemma below_8:
  assumes "P 0" "P 1" "P 2" "P 3" "P 4" "P 5" "P 6" "P 7" "n < (8::nat)"
  shows "P n"
proof -
  have "n = 0 \<or> n = 1 \<or> n = 2 \<or> n = 3 \<or> n = 4 \<or> n = 5 \<or> n = 6 \<or> n = 7" using assms(9) by linarith
  then show ?thesis using assms(1-8) by auto
qed

lemma byte_eqI:
  assumes "bit a 0 = bit b 0" "bit a 1 = bit b 1" "bit a 2 = bit b 2" "bit a 3 = bit b 3"
    "bit a 4 = bit b 4" "bit a 5 = bit b 5" "bit a 6 = bit b 6" "bit a 7 = bit b 7"
  shows "a = (b :: 8 word)"
  by (rule bit_word_eqI) (rule below_8 [where P = "\<lambda>n. bit a n = bit b n"], use assms in simp_all)

lemma byte_addI:
  assumes "\<not> (bit a 0 \<and> bit b 0)" "\<not> (bit a 1 \<and> bit b 1)" "\<not> (bit a 2 \<and> bit b 2)" "\<not> (bit a 3 \<and> bit b 3)"
    "\<not> (bit a 4 \<and> bit b 4)" "\<not> (bit a 5 \<and> bit b 5)" "\<not> (bit a 6 \<and> bit b 6)" "\<not> (bit a 7 \<and> bit b 7)"
  shows "a + b = (a OR b :: 8 word)"
proof (rule disjunctive_add)
  fix n
  show "\<not> bit a n \<or> \<not> bit b n"
  proof (cases "n < 8")
    case True
    then show ?thesis by - (rule below_8 [where P = "\<lambda>n. \<not> bit a n \<or> \<not> bit b n"], use assms in simp_all)
  next
    case False
    then show ?thesis using bit_imp_le_length [of a n] by auto
  qed
qed

lemma six_bits:
  assumes "\<not> bit w 6" "\<not> bit w 7"
  shows "unat (w :: 8 word) < 64"
proof -
  have "take_bit 6 w = w"
    by (rule byte_eqI) (use assms in \<open>simp_all add: bit_take_bit_iff\<close>)
  then have "unat w = take_bit 6 (unat w)" by (metis unsigned_take_bit_eq)
  then show ?thesis using take_bit_nat_less_exp [of 6 "unat w"] by simp
qed

lemmas byte_bits = bit_push_bit_iff bit_drop_bit_eq bit_and_iff bit_or_iff

text \<open>The sums of the source join disjoint bits.\<close>

lemma index_sums:
  "push_bit 4 (a AND 0x03) + drop_bit 4 (b AND 0xf0) = push_bit 4 (a AND 0x03) OR drop_bit 4 (b AND 0xf0 :: 8 word)"
  "push_bit 2 (b AND 0x0f) + drop_bit 6 (c AND 0xc0) = push_bit 2 (b AND 0x0f) OR drop_bit 6 (c AND 0xc0 :: 8 word)"
  by (rule byte_addI; simp add: byte_bits)+

lemma byte_sums:
  "push_bit 2 (drop_bit 2 (w AND 0xfc)) + drop_bit 4 (x AND 0x30) = push_bit 2 (drop_bit 2 (w AND 0xfc)) OR drop_bit 4 (x AND 0x30 :: 8 word)"
  "push_bit 4 (x AND 0xf) + drop_bit 2 (y AND 0x3c) = push_bit 4 (x AND 0xf) OR drop_bit 2 (y AND 0x3c :: 8 word)"
  "push_bit 6 (x AND 0x3) + (y AND 0x3f) = push_bit 6 (x AND 0x3) OR (y AND 0x3f :: 8 word)"
  by (rule byte_addI; simp add: byte_bits)+

lemma char_array_4_bounds:
  "list_all (\<lambda>k. unat k < 64) (char_array_4_of [a, b, c])"
proof -
  have "unat (drop_bit 2 (a AND 0xfc)) < 64" by (rule six_bits; simp add: byte_bits)
  moreover have "unat (push_bit 4 (a AND 0x03) + drop_bit 4 (b AND 0xf0)) < 64"
    unfolding index_sums by (rule six_bits; simp add: byte_bits)
  moreover have "unat (push_bit 2 (b AND 0x0f) + drop_bit 6 (c AND 0xc0)) < 64"
    unfolding index_sums by (rule six_bits; simp add: byte_bits)
  moreover have "unat (c AND 0x3f) < 64" by (rule six_bits; simp add: byte_bits)
  ultimately show ?thesis
    unfolding char_array_4_of_def nth_Cons_0 nth_Cons_Suc One_nat_def numeral_2_eq_2 list.pred_inject by simp
qed

lemma char_array_inverse: "char_array_3_of (char_array_4_of [a, b, c]) = [a, b, c]"
proof -
  let ?x = "push_bit 4 (a AND 0x03) OR drop_bit 4 (b AND 0xf0)" and ?y = "push_bit 2 (b AND 0x0f) OR drop_bit 6 (c AND 0xc0)"
  have 0: "push_bit 2 (drop_bit 2 (a AND 0xfc)) OR drop_bit 4 (?x AND 0x30) = a"
    by (rule byte_eqI; simp add: byte_bits)
  have 1: "push_bit 4 (?x AND 0xf) OR drop_bit 2 (?y AND 0x3c) = b"
    by (rule byte_eqI; simp add: byte_bits)
  have 2: "push_bit 6 (?y AND 0x3) OR (c AND 0x3f) = c"
    by (rule byte_eqI; simp add: byte_bits)
  have n: "[w, x, y, z] ! 0 = w" "[w, x, y, z] ! 1 = x" "[w, x, y, z] ! 2 = y" "[w, x, y, z] ! 3 = z" for w x y z :: "8 word"
    by simp_all
  have m: "[x, y, z] ! 0 = x" "[x, y, z] ! 1 = y" "[x, y, z] ! 2 = z" for x y z :: "8 word"
    by simp_all
  show ?thesis unfolding char_array_4_of_def char_array_3_of_def n m index_sums byte_sums 0 1 2 ..
qed

section \<open>The alphabet\<close>

lemma length_base64_chars: "length base64_chars = 64"
  by (simp add: base64_chars_def)

lemma distinct_base64_chars: "distinct base64_chars"
  by code_simp

lemma base64_chars_valid: "list_all (\<lambda>c. is_base64 c \<and> c \<noteq> CHR ''='') base64_chars"
  by code_simp

lemma str_find_nth:
  assumes "distinct s" "k < length s"
  shows "str_find s (s ! k) = int k"
proof -
  have "takeWhile (\<lambda>x. x \<noteq> s ! k) s = take k s"
    by (rule takeWhile_eq_take_P_nth) (use assms in \<open>auto simp: nth_eq_iff_index_eq\<close>)
  then show ?thesis using assms by (simp add: str_find_def)
qed

lemma alphabet_index:
  assumes "unat k < 64"
  shows "is_base64 (base64_chars ! unat k)" "base64_chars ! unat k \<noteq> CHR ''=''" "char_index (base64_chars ! unat k) = (k :: 8 word)"
  using assms base64_chars_valid str_find_nth [OF distinct_base64_chars, of "unat k"]
  by (auto simp: length_base64_chars list_all_length char_index_def)

lemma alphabet_get: "unat k < 64 \<Longrightarrow> arr_get base64_chars (uint k) = Inr (base64_chars ! unat (k :: 8 word))"
proof -
  assume "unat k < 64"
  then have "uint k < 64" by (metis of_nat_less_numeral_iff uint_nat)
  then show ?thesis by (simp add: arr_get_def length_base64_chars)
qed

lemma put_chars_total:
  "list_all (\<lambda>k. unat k < 64) ks \<Longrightarrow> put_chars ks ret = Inr (ret @ map (\<lambda>k. base64_chars ! unat k) ks)"
  by (induction ks arbitrary: ret) (simp_all add: alphabet_get)

section \<open>Round trip\<close>

abbreviation to_char :: "8 word \<Rightarrow> char" where
  "to_char b \<equiv> char_of (unat b)"

abbreviation encoded_3 :: "8 word \<Rightarrow> 8 word \<Rightarrow> 8 word \<Rightarrow> string" where
  "encoded_3 a b c \<equiv> map (\<lambda>k. base64_chars ! unat k) (char_array_4_of [a, b, c])"

lemma char_array_4_length: "length (char_array_4_of a3) = 4"
  by (simp add: char_array_4_of_def)

text \<open>The characters of full groups and of the last group, as the two loops produce and consume them.\<close>

fun spec_encode :: "8 word list \<Rightarrow> string" where
  "spec_encode (a # b # c # bs) = encoded_3 a b c @ spec_encode bs"
| "spec_encode [] = []"
| "spec_encode [a] = take 2 (encoded_3 a 0 0) @ ''==''"
| "spec_encode [a, b] = take 3 (encoded_3 a b 0) @ ''=''"

lemma base64_encode_spec: "base64_encode bs = Inr (spec_encode bs)"
proof -
  have "rbind (encode_loop bs [] ret) (\<lambda>(a3, ret).
     let i = length a3 in
     if i \<noteq> 0 then
       rbind (put_chars (take (i + 1) (char_array_4_of (a3 @ replicate (3 - i) 0))) ret) (\<lambda>ret'.
       Inr (ret' @ replicate (3 - i) (CHR ''='')))
     else Inr ret) = Inr (ret @ spec_encode bs)" for ret
  proof (induction bs arbitrary: ret rule: spec_encode.induct)
    case (1 a b c bs)
    then show ?case by (simp add: put_chars_total char_array_4_bounds)
  next
    case (3 a)
    have "list_all (\<lambda>k. unat k < 64) (take 2 (char_array_4_of [a, 0, 0]))"
      using char_array_4_bounds [of a 0 0] by (auto simp: list_all_iff dest: in_set_takeD)
    then show ?case by (simp add: put_chars_total numeral_2_eq_2 take_map)
  next
    case (4 a b)
    have "list_all (\<lambda>k. unat k < 64) (take 3 (char_array_4_of [a, b, 0]))"
      using char_array_4_bounds [of a b 0] by (auto simp: list_all_iff dest: in_set_takeD)
    then show ?case by (simp add: put_chars_total numeral_3_eq_3 take_map)
  qed simp
  from this [of "[]"] show ?thesis by (simp add: base64_encode_def)
qed

lemma char_array_take:
  "map char_index (encoded_3 a b c) = char_array_4_of [a, b, c]"
  using char_array_4_bounds [of a b c] by (auto simp: list_all_iff alphabet_index intro!: map_idI)

lemma encoded_3_cases:
  obtains w x y z where "encoded_3 a b c = [w, x, y, z]" "list_all (\<lambda>c. c \<noteq> CHR ''='' \<and> is_base64 c) [w, x, y, z]"
proof -
  obtain i j k l where q: "char_array_4_of [a, b, c] = [i, j, k, l]" by (simp add: char_array_4_of_def)
  then show ?thesis using char_array_4_bounds [of a b c] by (auto simp: alphabet_index intro!: that)
qed

lemma decode_3:
  "decode_loop (encoded_3 a b c @ cs) [] ret = decode_loop cs [] (ret @ [to_char a, to_char b, to_char c])"
proof -
  obtain w x y z where q: "encoded_3 a b c = [w, x, y, z]" "list_all (\<lambda>c. c \<noteq> CHR ''='' \<and> is_base64 c) [w, x, y, z]"
    by (rule encoded_3_cases)
  have "char_array_3_of (map char_index [w, x, y, z]) = [a, b, c]"
    unfolding q(1) [symmetric] char_array_take by (rule char_array_inverse)
  then show ?thesis using q by simp
qed

text \<open>A character that is not in the alphabet gives index 255, whose bits do not reach the bytes that are kept.\<close>

lemma char_array_3_last:
  "take 1 (char_array_3_of [w, x, y, z]) = take 1 (char_array_3_of [w, x, y', z'])"
  "take 2 (char_array_3_of [w, x, y, z]) = take 2 (char_array_3_of [w, x, y, z'])"
  by (simp_all add: char_array_3_of_def)

lemma base64_decode_spec: "base64_decode (spec_encode bs) = map to_char bs"
proof -
  have "(case decode_loop (spec_encode bs) [] ret of (a4, ret) \<Rightarrow>
      let i = length a4 in
      if i \<noteq> 0 then
        ret @ take (i - 1) (map to_char
                (char_array_3_of (map char_index (a4 @ replicate (4 - i) (char_of (0::nat))))))
      else ret) = ret @ map to_char bs" for ret
  proof (induction bs arbitrary: ret rule: spec_encode.induct)
    case (1 a b c bs)
    then show ?case by (simp add: decode_3)
  next
    case (3 a)
    obtain w x y z where q: "encoded_3 a 0 0 = [w, x, y, z]" "list_all (\<lambda>c. c \<noteq> CHR ''='' \<and> is_base64 c) [w, x, y, z]"
      by (rule encoded_3_cases)
    have "char_array_3_of (map char_index [w, x, y, z]) = [a, 0, 0]"
      unfolding q(1) [symmetric] char_array_take by (rule char_array_inverse)
    then have "take 1 (char_array_3_of (map char_index [w, x, u, u])) = [a]" for u
      using char_array_3_last(1) [of "char_index w" "char_index x" "char_index y" "char_index z" "char_index u" "char_index u"]
      by simp
    then show ?case using q by (simp add: take_map numeral_2_eq_2)
  next
    case (4 a b)
    obtain w x y z where q: "encoded_3 a b 0 = [w, x, y, z]" "list_all (\<lambda>c. c \<noteq> CHR ''='' \<and> is_base64 c) [w, x, y, z]"
      by (rule encoded_3_cases)
    have "char_array_3_of (map char_index [w, x, y, z]) = [a, b, 0]"
      unfolding q(1) [symmetric] char_array_take by (rule char_array_inverse)
    then have "take 2 (char_array_3_of (map char_index [w, x, y, u])) = [a, b]" for u
      using char_array_3_last(2) [of "char_index w" "char_index x" "char_index y" "char_index z" "char_index u"]
      by simp
    then show ?case using q by (simp add: take_map numeral_3_eq_3 numeral_2_eq_2)
  qed simp
  from this [of "[]"] show ?thesis by (simp add: base64_decode_def)
qed

lemma length_spec_encode: "length (spec_encode bs) = 4 * ((length bs + 2) div 3)"
proof (induction bs rule: spec_encode.induct)
  case (1 a b c bs)
  have "(length (a # b # c # bs) + 2) div 3 = Suc ((length bs + 2) div 3)" by simp
  then show ?case using 1 by (simp add: char_array_4_length)
qed (simp_all add: char_array_4_length)

section \<open>What a codec promises\<close>

text \<open>
  The mail client writes encoded names into headers and relies on two things only: that encoding
  never fails, and that a reader of the header recovers the bytes.
\<close>

locale codec =
  fixes enc :: "'b list \<Rightarrow> 'e + string" and dec :: "string \<Rightarrow> 'c list" and img :: "'b \<Rightarrow> 'c"
  assumes enc_total: "\<exists>s. enc bs = Inr s"
    and dec_enc: "enc bs = Inr s \<Longrightarrow> dec s = map img bs"
    and img_inj: "inj img"
begin

lemma enc_inj: "enc bs = enc cs \<longleftrightarrow> bs = cs"
proof
  assume eq: "enc bs = enc cs"
  obtain s where s: "enc bs = Inr s" using enc_total by blast
  have "map img bs = map img cs" using dec_enc [OF s] dec_enc [of cs s] s eq by simp
  then show "bs = cs" using img_inj by simp
qed simp

end

lemma to_char_inj: "inj to_char"
proof (rule injI)
  fix a b :: "8 word"
  assume "to_char a = to_char b"
  then have "of_char (to_char a) = (of_char (to_char b) :: nat)" by simp
  then show "a = b"
    using unsigned_less [of a, where 'a = nat] unsigned_less [of b, where 'a = nat] by (simp add: take_bit_nat_eq_self unsigned_word_eqI)
qed

interpretation b64: codec base64_encode base64_decode to_char
  by unfold_locales (auto simp: base64_encode_spec base64_decode_spec to_char_inj)

end
