(* ===== verification/Email_Sender.thy ===== *)
theory Email_Sender
  imports Base64
begin

text \<open>
  The mail client (\<^verbatim>\<open>include/EmailSender.hpp\<close>). Its private string stream is modelled with the flags that
  decide whether a read delivers anything. Three things it calls are not part of the repository and are
  arguments of the definitions: the MIME library (the encoder, and the operator that writes a
  message to a stream; the message itself is kept as the data that the calls put into it), the file system
  (a name gives the bytes of the file, or \<open>None\<close> if it cannot be opened) and the transfer library, an
  oracle that says for every attempt which reads it makes of the message and which code it ends with.
  Output to the log and to the error stream is left out.
\<close>

section \<open>C++ strings and string streams\<close>

text \<open>What a C function sees of a \<^verbatim>\<open>std::string\<close> through \<^verbatim>\<open>c_str()\<close>.\<close>

definition c_str :: "string \<Rightarrow> string" where
  "c_str s = takeWhile (\<lambda>c. c \<noteq> CHR 0x00) s"

text \<open>\<^verbatim>\<open>find_last_of\<close> of one character; \<open>None\<close> is \<^verbatim>\<open>npos\<close>.\<close>

definition find_last_of :: "string \<Rightarrow> char \<Rightarrow> nat option" where
  "find_last_of s c =
     (if c \<in> set s then Some (length s - 1 - length (takeWhile (\<lambda>x. x \<noteq> c) (rev s))) else None)"

record stringstream =
  ss_rest :: string   \<comment> \<open>what has been written and not yet read\<close>
  ss_eof :: bool
  ss_fail :: bool

definition new_stream :: stringstream where
  "new_stream = \<lparr>ss_rest = [], ss_eof = False, ss_fail = False\<rparr>"

text \<open>
  \<^verbatim>\<open>istream::read\<close> followed by \<^verbatim>\<open>gcount\<close>: a stream that is not good only gets its fail bit; a request that
  the stream cannot satisfy delivers what is there and sets both bits.
\<close>

definition stream_read :: "nat \<Rightarrow> stringstream \<Rightarrow> string \<times> stringstream" where
  "stream_read n s =
     (if ss_eof s \<or> ss_fail s then ([], s\<lparr>ss_fail := True\<rparr>)
      else if n \<le> length (ss_rest s) then (take n (ss_rest s), s\<lparr>ss_rest := drop n (ss_rest s)\<rparr>)
      else (ss_rest s, s\<lparr>ss_rest := [], ss_eof := True, ss_fail := True\<rparr>))"

section \<open>The message as the MIME library is told it\<close>

datatype mime_field = Field string string | Field_text string

record mime_entity =
  me_fields :: "mime_field list"
  me_body :: string
  me_loaded :: "string option"

record mime_head =
  hd_from :: string
  hd_to :: string
  hd_subject :: string
  hd_fields :: "mime_field list"
  hd_parts :: "mime_entity list"

record mimetic =
  mm_encode :: "string \<Rightarrow> string"
  mm_write :: "mime_head \<Rightarrow> stringstream \<Rightarrow> stringstream"

type_synonym file_system = "string \<Rightarrow> string option"

section \<open>The class\<close>

record EmailSender =
  m_strCharset :: string
  m_strSubject :: string
  m_strContent :: string
  m_strFileName :: string
  m_strMessage :: stringstream
  m_strUserName :: string
  m_strPassword :: string
  m_strServerName :: string
  m_strPort :: string
  m_strSendName :: string
  m_strSendMail :: string
  m_strContentType :: string
  m_strFileContent :: string
  m_vRecvMail :: "string list"
  m_vAttachMent :: "string list"

definition new_EmailSender :: "string \<Rightarrow> EmailSender" where
  "new_EmailSender charset =
     \<lparr>m_strCharset = charset, m_strSubject = [], m_strContent = [], m_strFileName = [],
      m_strMessage = new_stream, m_strUserName = [], m_strPassword = [], m_strServerName = [],
      m_strPort = [], m_strSendName = [], m_strSendMail = [], m_strContentType = [],
      m_strFileContent = [], m_vRecvMail = [], m_vAttachMent = []\<rparr>"

definition SetSmtpServer :: "string \<Rightarrow> string \<Rightarrow> string \<Rightarrow> string \<Rightarrow> EmailSender \<Rightarrow> EmailSender" where
  "SetSmtpServer username password servername port m =
     m\<lparr>m_strUserName := username, m_strPassword := password, m_strServerName := servername, m_strPort := port\<rparr>"

definition bytes_of :: "string \<Rightarrow> 8 word list" where
  "bytes_of s = map (\<lambda>c. of_nat (of_char c)) s"

definition SetSendName :: "string \<Rightarrow> EmailSender \<Rightarrow> fault + EmailSender" where
  "SetSendName sendname m =
     (let strTemp = [] @ ''=?'' @ m_strCharset m @ ''?B?'' in
      rbind (base64_encode (bytes_of sendname)) (\<lambda>b.
      Inr (m\<lparr>m_strSendName := strTemp @ b @ ''?=''\<rparr>)))"

definition SetSendMail :: "string \<Rightarrow> EmailSender \<Rightarrow> EmailSender" where
  "SetSendMail sendmail m = m\<lparr>m_strSendMail := sendmail\<rparr>"

definition AddRecvMail :: "string \<Rightarrow> EmailSender \<Rightarrow> EmailSender" where
  "AddRecvMail recvmail m = m\<lparr>m_vRecvMail := m_vRecvMail m @ [recvmail]\<rparr>"

definition SetSubject :: "string \<Rightarrow> EmailSender \<Rightarrow> EmailSender" where
  "SetSubject subject m = m\<lparr>m_strSubject := subject\<rparr>"

definition SetBodyContent :: "mimetic \<Rightarrow> string \<Rightarrow> EmailSender \<Rightarrow> EmailSender" where
  "SetBodyContent mm content m = m\<lparr>m_strContent := mm_encode mm content\<rparr>"

definition AddAttachment :: "string \<Rightarrow> EmailSender \<Rightarrow> EmailSender" where
  "AddAttachment filename m = m\<lparr>m_vAttachMent := m_vAttachMent m @ [filename]\<rparr>"

section \<open>File names and types\<close>

text \<open>The two overloads of \<^verbatim>\<open>GetFileType\<close>: the number of a type, and the extension of a file name.\<close>

definition GetFileType :: "string \<Rightarrow> int" where
  "GetFileType stype =
     (if stype = ''txt'' then 0
      else if stype = ''xml'' then 1
      else if stype = ''html'' then 2
      else if stype = ''jpeg'' then 3
      else if stype = ''png'' then 4
      else if stype = ''gif'' then 5
      else if stype = ''exe'' then 6
      else -1)"

definition SetFileName :: "string \<Rightarrow> EmailSender \<Rightarrow> fault + EmailSender" where
  "SetFileName FileName m =
     (let EncodedFileName = ''=?'' @ m_strCharset m @ ''?B?'' in
      rbind (base64_encode (bytes_of FileName)) (\<lambda>b.
      Inr (m\<lparr>m_strFileName := EncodedFileName @ b @ ''?=''\<rparr>)))"

text \<open>The case for 2 has no \<^verbatim>\<open>break\<close>: the assignment of case 3 follows.\<close>

definition SetContentType :: "string \<Rightarrow> EmailSender \<Rightarrow> EmailSender" where
  "SetContentType stype m =
     (let type = GetFileType stype in
      if type = 0 then m\<lparr>m_strContentType := ''plain/text;''\<rparr>
      else if type = 1 then m\<lparr>m_strContentType := ''text/xml;''\<rparr>
      else if type = 2 then m\<lparr>m_strContentType := ''text/html;''\<rparr>\<lparr>m_strContentType := ''image/jpeg;''\<rparr>
      else if type = 3 then m\<lparr>m_strContentType := ''image/jpeg;''\<rparr>
      else if type = 4 then m\<lparr>m_strContentType := ''image/png;''\<rparr>
      else if type = 5 then m\<lparr>m_strContentType := ''image/gif;''\<rparr>
      else if type = 6 then m\<lparr>m_strContentType := ''application/x-msdownload;''\<rparr>
      else m\<lparr>m_strContentType := ''application/octet-stream;''\<rparr>)"

text \<open>Both leave the output parameter as it was if there is no separator.\<close>

definition GetFileName :: "string \<Rightarrow> string \<Rightarrow> string" where
  "GetFileName file filename =
     (let p = find_last_of file (CHR ''/'');
          p = (if p = None then find_last_of file (CHR 0x5C) else p) in
      case p of Some k \<Rightarrow> drop (k + 1) file | None \<Rightarrow> filename)"

definition GetFileType_of :: "string \<Rightarrow> string \<Rightarrow> string" where
  "GetFileType_of file stype =
     (case find_last_of file (CHR ''.'') of Some k \<Rightarrow> drop (k + 1) file | None \<Rightarrow> stype)"

section \<open>Building the message\<close>

text \<open>The loop that joins the recipients; \<open>i\<close> counts them.\<close>

primrec join_to :: "nat \<Rightarrow> string list \<Rightarrow> string \<Rightarrow> string" where
  "join_to i [] to = to"
| "join_to i (r # rs) to = join_to (i + 1) rs ((if i > 0 then to @ '','' else to) @ r)"

text \<open>
  \<open>n\<close> rounds of reading up to 54 bytes into a zeroed buffer of 55 and appending the buffer as a C
  string.
\<close>

primrec read_chunks :: "nat \<Rightarrow> string \<Rightarrow> string \<Rightarrow> string" where
  "read_chunks 0 rest file = file"
| "read_chunks (Suc n) rest file = read_chunks n (drop 54 rest) (file @ c_str (take 54 rest))"

text \<open>The length is an \<^verbatim>\<open>int\<close>; the bound of the loop is compared as \<^verbatim>\<open>size_t\<close>.\<close>

definition read_attachment :: "string \<Rightarrow> string \<Rightarrow> string" where
  "read_attachment content file =
     (let len = int32 (int (length content)) in
      read_chunks (nat ((len sdiv 54 + 1) mod 2 ^ 64)) content file)"

definition text_part :: "EmailSender \<Rightarrow> mime_entity" where
  "text_part m =
     \<lparr>me_fields = [Field_text ''Content-Type: text/plain; charset=GB2312'', Field ''Content-Transfer-Encoding'' ''base64''],
      me_body = m_strContent m, me_loaded = None\<rparr>"

definition attachment_part :: "mimetic \<Rightarrow> string \<Rightarrow> string \<Rightarrow> mime_entity" where
  "attachment_part mm name file =
     \<lparr>me_fields = [Field_text (''Content-Type: application/octet-stream; name='' @ name),
                   Field_text (''Content-Disposition : attachment; filename='' @ name),
                   Field ''Content-Transfer-Encoding'' ''base64''],
      me_body = [], me_loaded = Some (mm_encode mm file)\<rparr>"

text \<open>The loop over the attachments; \<open>file\<close>, \<open>filename\<close> and \<open>filetype\<close> live outside it.\<close>

fun attach_loop ::
    "mimetic \<Rightarrow> file_system \<Rightarrow> string list \<Rightarrow> string \<times> string \<times> string \<Rightarrow> mime_entity list \<Rightarrow> EmailSender
     \<Rightarrow> fault + mime_entity list \<times> EmailSender" where
  "attach_loop mm fs [] _ parts m = Inr (parts, m)"
| "attach_loop mm fs (a # as) (file, filename, filetype) parts m =
     (let filename' = GetFileName a filename;
          filetype' = GetFileType_of a filetype;
          m' = SetContentType filetype' m in
      rbind (SetFileName filename' m') (\<lambda>m''.
      case fs (c_str a) of
        None \<Rightarrow> attach_loop mm fs as (file, filename', filetype') parts m''
      | Some content \<Rightarrow>
          let file' = read_attachment content file in
          attach_loop mm fs as (file', filename', filetype') (parts @ [attachment_part mm a file']) m''))"

definition CreatMessage :: "mimetic \<Rightarrow> file_system \<Rightarrow> EmailSender \<Rightarrow> fault + EmailSender" where
  "CreatMessage mm fs m =
     rbind (attach_loop mm fs (m_vAttachMent m) ([], [], []) [text_part m] m) (\<lambda>(parts, m').
     let head = \<lparr>hd_from = m_strSendMail m, hd_to = join_to 0 (m_vRecvMail m) [], hd_subject = m_strSubject m,
                 hd_fields = [Field ''Mime-Version'' ''1.0''], hd_parts = parts\<rparr> in
     Inr (m'\<lparr>m_strMessage := mm_write mm head (m_strMessage m')\<rparr>))"

section \<open>Sending\<close>

text \<open>The options of the transfer, and what one attempt did: what it was given to send, and its result.\<close>

record curl_opts =
  co_username :: string
  co_password :: string
  co_url :: string
  co_mail_from :: string
  co_mail_rcpt :: "string list"
  co_connecttimeout :: int
  co_timeout :: int

record attempt =
  at_payload :: "string list"
  at_code :: int

record curl =
  easy_init :: bool
  easy_perform :: "nat \<Rightarrow> curl_opts \<Rightarrow> (nat \<times> nat) list \<times> int"

definition req_bytes :: "nat \<times> nat \<Rightarrow> nat" where
  "req_bytes r = (case r of (sz, nmemb) \<Rightarrow> nat (int (sz * nmemb) mod 2 ^ 64))"

definition payload_source :: "nat \<Rightarrow> nat \<Rightarrow> stringstream \<Rightarrow> string \<times> stringstream" where
  "payload_source sz nmemb stream =
     (let num_bytes = req_bytes (sz, nmemb) in stream_read num_bytes stream)"

text \<open>The reads of one attempt, in order.\<close>

fun payload :: "(nat \<times> nat) list \<Rightarrow> stringstream \<Rightarrow> string list \<times> stringstream" where
  "payload [] s = ([], s)"
| "payload ((sz, nmemb) # reqs) s =
     (case payload_source sz nmemb s of (d, s') \<Rightarrow>
      case payload reqs s' of (ds, s'') \<Rightarrow> (d # ds, s''))"

definition perform :: "curl \<Rightarrow> curl_opts \<Rightarrow> nat \<Rightarrow> stringstream \<Rightarrow> attempt \<times> stringstream" where
  "perform cu opts k s =
     (case easy_perform cu k opts of (reqs, res) \<Rightarrow>
      case payload reqs s of (ds, s') \<Rightarrow> (\<lparr>at_payload = ds, at_code = res\<rparr>, s'))"

text \<open>The loop that repeats a failed transfer; \<open>as\<close> is the attempts made so far.\<close>

function retry_loop ::
    "curl \<Rightarrow> curl_opts \<Rightarrow> int \<Rightarrow> int \<Rightarrow> bool \<Rightarrow> attempt list \<Rightarrow> stringstream \<Rightarrow> bool \<times> attempt list \<times> stringstream" where
  "retry_loop cu opts nTimes res ret as s =
     (if res \<noteq> 0 then
        let n = nTimes + 1 in
        if n > 5 then (ret, as, s)
        else (case perform cu opts (length as) s of (a, s') \<Rightarrow>
              retry_loop cu opts n (at_code a) False (as @ [a]) s')
      else (ret, as, s))"
  by pat_completeness auto

termination
  by (relation "measure (\<lambda>(cu, opts, nTimes, res, ret, as, s). nat (5 - nTimes))") auto

declare retry_loop.simps [simp del]

definition send_opts :: "EmailSender \<Rightarrow> curl_opts" where
  "send_opts m =
     \<lparr>co_username = c_str (m_strUserName m), co_password = c_str (m_strPassword m),
      co_url = c_str (''smtp://'' @ m_strServerName m), co_mail_from = c_str (m_strSendMail m),
      co_mail_rcpt = map c_str (m_vRecvMail m), co_connecttimeout = 10, co_timeout = 100\<rparr>"

definition SendMail :: "mimetic \<Rightarrow> file_system \<Rightarrow> curl \<Rightarrow> EmailSender \<Rightarrow> fault + bool \<times> attempt list \<times> EmailSender" where
  "SendMail mm fs cu m =
     rbind (CreatMessage mm fs m) (\<lambda>m'.
     if easy_init cu then
       case perform cu (send_opts m') 0 (m_strMessage m') of (a, s) \<Rightarrow>
       case retry_loop cu (send_opts m') 0 (at_code a) True [a] s of (ret, as, s') \<Rightarrow>
       Inr (ret, as, m'\<lparr>m_strMessage := s'\<rparr>)
     else Inr (True, [], m'))"

section \<open>Reading a file in chunks\<close>

lemma c_str_id: "CHR 0x00 \<notin> set s \<Longrightarrow> c_str s = s"
  by (auto simp: c_str_def takeWhile_eq_all_conv)

lemma read_chunks_take:
  "CHR 0x00 \<notin> set rest \<Longrightarrow> read_chunks n rest acc = acc @ take (54 * n) rest"
proof (induction n arbitrary: rest acc)
  case (Suc n)
  have "c_str (take 54 rest) = take 54 rest"
    by (rule c_str_id) (use Suc.prems in \<open>auto dest: in_set_takeD\<close>)
  moreover have "CHR 0x00 \<notin> set (drop 54 rest)" using Suc.prems by (auto dest: in_set_dropD)
  ultimately show ?case using Suc.IH by (simp add: take_add)
qed simp

text \<open>A file is text that one \<^verbatim>\<open>int\<close> can measure.\<close>

definition text_file :: "string \<Rightarrow> bool" where
  "text_file c \<longleftrightarrow> CHR 0x00 \<notin> set c \<and> int (length c) < 2 ^ 31"

lemma read_attachment_text:
  assumes "text_file content"
  shows "read_attachment content file = file @ content"
proof -
  let ?n = "int (length content)"
  have "?n sdiv 54 + 1 = ?n div 54 + 1" by (cases "content = []") (simp_all add: signed_divide_int_def)
  moreover have "?n < 2147483648" using assms by (simp add: text_file_def)
  then have "?n div 54 + 1 < 18446744073709551616" by linarith
  then have "(?n div 54 + 1) mod 2 ^ 64 = ?n div 54 + 1"
    by (intro mod_pos_pos_trivial) simp_all
  moreover have "?n \<le> 54 * (?n div 54 + 1)" by (simp add: algebra_simps)
  then have "length content \<le> 54 * nat (?n div 54 + 1)" by linarith
  ultimately show ?thesis
    using assms by (simp add: read_attachment_def text_file_def read_chunks_take int32_id)
qed

lemma nul_truncates_chunk:
  "read_chunks 1 (p @ CHR 0x00 # q) file = file @ take 54 p" if "CHR 0x00 \<notin> set p"
proof -
  have "c_str (take 54 (p @ CHR 0x00 # q)) = take 54 p"
  proof (cases "length p < 54")
    case True
    then show ?thesis using that by (auto simp: c_str_def takeWhile_append take_Cons' takeWhile_eq_all_conv)
  next
    case False
    then show ?thesis using that by (auto intro!: c_str_id dest: in_set_takeD)
  qed
  then show ?thesis by simp
qed

section \<open>What the message holds\<close>

lemma SetSendName_total:
  "SetSendName name m = Inr (m\<lparr>m_strSendName := ''=?'' @ m_strCharset m @ ''?B?'' @ spec_encode (bytes_of name) @ ''?=''\<rparr>)"
  by (simp add: SetSendName_def base64_encode_spec)

lemma SetFileName_total:
  "SetFileName name m = Inr (m\<lparr>m_strFileName := ''=?'' @ m_strCharset m @ ''?B?'' @ spec_encode (bytes_of name) @ ''?=''\<rparr>)"
  by (simp add: SetFileName_def base64_encode_spec)

lemma to_char_bytes: "map to_char (bytes_of s) = s"
proof -
  have "to_char (of_nat (of_char c)) = c" for c
    by (simp add: unsigned_of_nat take_bit_nat_eq_self)
  then show ?thesis by (simp add: bytes_of_def comp_def)
qed

lemma SetContentType_frame [frame]:
  "m_strMessage (SetContentType t m) = m_strMessage m" "m_strCharset (SetContentType t m) = m_strCharset m"
  by (simp_all add: SetContentType_def Let_def)

text \<open>The parts for the attachments, with the text gathered before them.\<close>

fun attached :: "mimetic \<Rightarrow> file_system \<Rightarrow> string list \<Rightarrow> string \<Rightarrow> mime_entity list" where
  "attached mm fs [] file = []"
| "attached mm fs (a # as) file =
     (case fs (c_str a) of
        None \<Rightarrow> attached mm fs as file
      | Some c \<Rightarrow> attachment_part mm a (file @ c) # attached mm fs as (file @ c))"

lemma attach_loop_total:
  assumes "\<forall>a \<in> set as. \<forall>c. fs (c_str a) = Some c \<longrightarrow> text_file c"
  shows "\<exists>ct fn. attach_loop mm fs as fft parts m = Inr (parts @ attached mm fs as (fst fft), m\<lparr>m_strContentType := ct, m_strFileName := fn\<rparr>)"
  using assms
proof (induction mm fs as fft parts m rule: attach_loop.induct)
  case (1 mm fs fft parts m)
  have "m = m\<lparr>m_strContentType := m_strContentType m, m_strFileName := m_strFileName m\<rparr>" by simp
  then show ?case by (metis attach_loop.simps(1) attached.simps(1) append_Nil2)
next
  case (2 mm fs a as acc filename filetype parts m)
  let ?ft = "GetFileType_of a filetype" and ?fn = "GetFileName a filename"
  let ?m = "SetContentType ?ft m"
  let ?m' = "?m\<lparr>m_strFileName := ''=?'' @ m_strCharset ?m @ ''?B?'' @ spec_encode (bytes_of ?fn) @ ''?=''\<rparr>"
  have upd: "\<exists>ct' fn'. ?m'\<lparr>m_strContentType := ct, m_strFileName := fn\<rparr> = m\<lparr>m_strContentType := ct', m_strFileName := fn'\<rparr>" for ct fn
    by (rule exI [of _ ct], rule exI [of _ fn]) (simp add: SetContentType_def Let_def)
  have all: "\<forall>b \<in> set as. \<forall>c. fs (c_str b) = Some c \<longrightarrow> text_file c" using 2(3) by auto
  show ?case
  proof (cases "fs (c_str a)")
    case None
    from 2(1) [OF refl refl refl SetFileName_total None all] obtain ct fn where
      "attach_loop mm fs as (acc, ?fn, ?ft) parts ?m' = Inr (parts @ attached mm fs as acc, ?m'\<lparr>m_strContentType := ct, m_strFileName := fn\<rparr>)"
      by auto
    then show ?thesis using None upd [where ct = ct and fn = fn] by (simp add: Let_def SetFileName_total)
  next
    case (Some c)
    have rd: "read_attachment c acc = acc @ c"
      by (rule read_attachment_text) (use 2(3) Some in simp)
    from 2(2) [OF refl refl refl SetFileName_total Some refl all] obtain ct fn where
      "attach_loop mm fs as (acc @ c, ?fn, ?ft) (parts @ [attachment_part mm a (acc @ c)]) ?m' =
       Inr ((parts @ [attachment_part mm a (acc @ c)]) @ attached mm fs as (acc @ c), ?m'\<lparr>m_strContentType := ct, m_strFileName := fn\<rparr>)"
      by (auto simp: rd)
    then show ?thesis using Some upd [where ct = ct and fn = fn] by (simp add: Let_def SetFileName_total rd)
  qed
qed

section \<open>Reading the message\<close>

lemma stream_read_take:
  assumes "ss_fail s \<or> ss_eof s \<Longrightarrow> ss_rest s = []"
  shows "fst (stream_read n s) = take n (ss_rest s)" "ss_rest (snd (stream_read n s)) = drop n (ss_rest s)"
    "ss_fail (snd (stream_read n s)) \<or> ss_eof (snd (stream_read n s)) \<Longrightarrow> ss_rest (snd (stream_read n s)) = []"
  using assms by (auto simp: stream_read_def)

lemma payload_take:
  assumes "ss_fail s \<or> ss_eof s \<Longrightarrow> ss_rest s = []"
  shows "concat (fst (payload reqs s)) = take (sum_list (map req_bytes reqs)) (ss_rest s) \<and>
    ss_rest (snd (payload reqs s)) = drop (sum_list (map req_bytes reqs)) (ss_rest s)"
  using assms
proof (induction reqs s rule: payload.induct)
  case (2 sz nmemb reqs s)
  obtain d t where r: "stream_read (req_bytes (sz, nmemb)) s = (d, t)" by fastforce
  have rt: "d = take (req_bytes (sz, nmemb)) (ss_rest s)" "ss_rest t = drop (req_bytes (sz, nmemb)) (ss_rest s)"
    "ss_fail t \<or> ss_eof t \<Longrightarrow> ss_rest t = []"
    using stream_read_take [OF 2(2), of "req_bytes (sz, nmemb)"] r by auto
  obtain ds u where p: "payload reqs t = (ds, u)" by fastforce
  have "concat ds = take (sum_list (map req_bytes reqs)) (ss_rest t) \<and> ss_rest u = drop (sum_list (map req_bytes reqs)) (ss_rest t)"
    using 2(1) [of d t] rt(3) r p by (simp add: payload_source_def)
  then show ?case using r p rt by (simp add: payload_source_def take_add add.commute)
qed simp

lemma payload_after_failure: "ss_fail s \<Longrightarrow> list_all (\<lambda>d. d = []) (fst (payload reqs s)) \<and> ss_fail (snd (payload reqs s))"
  by (induction reqs s rule: payload.induct) (auto simp: payload_source_def stream_read_def split: prod.splits)

lemma payload_past_end:
  "length (ss_rest s) < sum_list (map req_bytes reqs) \<Longrightarrow> ss_fail (snd (payload reqs s))"
proof (induction reqs s rule: payload.induct)
  case (2 sz nmemb reqs s)
  obtain d t where r: "stream_read (req_bytes (sz, nmemb)) s = (d, t)" by fastforce
  show ?case
  proof (cases "ss_fail t")
    case True
    then show ?thesis using r payload_after_failure [of t reqs] by (auto simp: payload_source_def split: prod.splits)
  next
    case False
    then have "length (ss_rest t) < sum_list (map req_bytes reqs)"
      using r 2(2) by (auto simp: stream_read_def split: if_splits)
    then show ?thesis using 2(1) [of d t] r by (auto simp: payload_source_def split: prod.splits)
  qed
qed simp

section \<open>Repeated attempts\<close>

lemma retry_loop_spec:
  assumes "retry_loop cu opts n res ret as s = (r, as', s')" "n \<le> 5" "as \<noteq> []" "at_code (last as) = res"
  shows "r = (ret \<and> (res = 0 \<or> n = 5)) \<and>
    (\<exists>bs. as' = as @ bs \<and> length bs \<le> nat (5 - n) \<and> 
       (\<forall>b \<in> set (butlast (last as # bs)). at_code b \<noteq> 0) \<and> (length bs < nat (5 - n) \<longrightarrow> at_code (last as') = 0))"
  using assms
proof (induction cu opts n res ret as s rule: retry_loop.induct)
  case (1 cu opts n res ret as s)
  show ?case
  proof (cases "res = 0 \<or> n = 5")
    case True
    then show ?thesis using 1(2-) by (auto simp: retry_loop.simps [of cu opts n] split: if_splits)
  next
    case False
    obtain a t where p: "perform cu opts (length as) s = (a, t)" by fastforce
    have "retry_loop cu opts (n + 1) (at_code a) False (as @ [a]) t = (r, as', s')"
      using 1(2,3) False p by (simp add: retry_loop.simps [of cu opts n] )
    with 1(1) [of "n + 1" a t] False 1(3) p obtain bs where
      "\<not> r" "as' = (as @ [a]) @ bs" "length bs \<le> nat (5 - (n + 1))"
      "\<forall>b \<in> set (butlast (a # bs)). at_code b \<noteq> 0" "length bs < nat (5 - (n + 1)) \<longrightarrow> at_code (last as') = 0"
      by auto
    then show ?thesis using False 1(3-5) by (intro conjI exI [of _ "a # bs"]) auto
  qed
qed

section \<open>Sending a mail\<close>

definition message_head :: "mimetic \<Rightarrow> file_system \<Rightarrow> EmailSender \<Rightarrow> mime_head" where
  "message_head mm fs m =
     \<lparr>hd_from = m_strSendMail m, hd_to = join_to 0 (m_vRecvMail m) [], hd_subject = m_strSubject m,
      hd_fields = [Field ''Mime-Version'' ''1.0''], hd_parts = text_part m # attached mm fs (m_vAttachMent m) []\<rparr>"

definition readable_text :: "file_system \<Rightarrow> EmailSender \<Rightarrow> bool" where
  "readable_text fs m \<longleftrightarrow> list_all (\<lambda>a. case fs (c_str a) of None \<Rightarrow> True | Some c \<Rightarrow> text_file c) (m_vAttachMent m)"

lemma readable_textI:
  assumes "map (\<lambda>a. fs (c_str a)) (m_vAttachMent m) = map Some cs" "list_all text_file cs"
  shows "readable_text fs m"
proof -
  have "list_all (\<lambda>x. case x of None \<Rightarrow> True | Some c \<Rightarrow> text_file c) (map (\<lambda>a. fs (c_str a)) (m_vAttachMent m))"
    unfolding assms(1) using assms(2) by (simp add: list_all_iff)
  then show ?thesis by (simp add: readable_text_def list.pred_map comp_def)
qed

lemma attached_loaded:
  assumes "map (\<lambda>a. fs (c_str a)) as = map Some cs"
  shows "map me_loaded (attached mm fs as acc) = map (\<lambda>i. Some (mm_encode mm (acc @ concat (take (Suc i) cs)))) [0..<length cs]"
  using assms
proof (induction as arbitrary: cs acc)
  case (Cons a as)
  then obtain c cs' where cs: "cs = c # cs'" "fs (c_str a) = Some c" "map (\<lambda>a. fs (c_str a)) as = map Some cs'"
    by (cases cs) auto
  have "map me_loaded (attached mm fs as (acc @ c)) = map (\<lambda>i. Some (mm_encode mm (acc @ concat (take (Suc (Suc i)) cs)))) [0..<length cs']"
    using Cons.IH [OF cs(3), of "acc @ c"] cs(1) by simp
  then show ?case
    using cs by (simp add: attachment_part_def upt_conv_Cons map_Suc_upt [symmetric] comp_def del: upt_Suc)
qed simp

lemma CreatMessage_total:
  assumes "readable_text fs m"
  shows "\<exists>m'. CreatMessage mm fs m = Inr m' \<and> m_strMessage m' = mm_write mm (message_head mm fs m) (m_strMessage m) \<and>
    send_opts m' = send_opts m"
proof -
  have "\<forall>a \<in> set (m_vAttachMent m). \<forall>c. fs (c_str a) = Some c \<longrightarrow> text_file c"
    using assms by (auto simp: readable_text_def list_all_iff split: option.splits)
  from attach_loop_total [OF this, of mm "([], [], [])" "[text_part m]" m] show ?thesis
    by (auto simp: CreatMessage_def message_head_def send_opts_def Let_def)
qed

lemma SendMail_spec:
  assumes "readable_text fs m"
  shows "\<exists>ret as m'. SendMail mm fs cu m = Inr (ret, as, m') \<and>
    (if easy_init cu
     then 1 \<le> length as \<and> length as \<le> 6 \<and> ret = (at_code (hd as) = 0) \<and>
       (\<forall>a \<in> set (butlast as). at_code a \<noteq> 0) \<and> (length as < 6 \<longrightarrow> at_code (last as) = 0) \<and>
       hd as = fst (perform cu (send_opts m) 0 (mm_write mm (message_head mm fs m) (m_strMessage m)))
     else ret \<and> as = [])"
proof (cases "easy_init cu")
  case True
  obtain m1 where m1: "CreatMessage mm fs m = Inr m1" "m_strMessage m1 = mm_write mm (message_head mm fs m) (m_strMessage m)"
    "send_opts m1 = send_opts m"
    using CreatMessage_total [OF assms] by blast
  obtain a s where a: "perform cu (send_opts m) 0 (m_strMessage m1) = (a, s)" by fastforce
  obtain r as s' where r: "retry_loop cu (send_opts m) 0 (at_code a) True [a] s = (r, as, s')" by (metis prod_cases3)
  from retry_loop_spec [OF r] obtain bs where
    "r = (at_code a = 0)" "as = [a] @ bs" "length bs \<le> 5" "\<forall>b \<in> set (butlast (a # bs)). at_code b \<noteq> 0"
    "length bs < 5 \<longrightarrow> at_code (last as) = 0"
    by auto
  then show ?thesis using True m1 a r by (auto simp: SendMail_def)
next
  case False
  then show ?thesis using CreatMessage_total [OF assms, of mm] by (auto simp: SendMail_def)
qed

subsection \<open>What a repeated attempt sends\<close>

lemma retry_loop_failed_stream:
  "ss_fail s \<Longrightarrow> retry_loop cu opts n res ret as s = (r, as', s') \<Longrightarrow>
   \<exists>bs. as' = as @ bs \<and> list_all (\<lambda>b. concat (at_payload b) = []) bs"
proof (induction cu opts n res ret as s rule: retry_loop.induct)
  case (1 cu opts n res ret as s)
  show ?case
  proof (cases "res = 0 \<or> n + 1 > 5")
    case True
    then show ?thesis using 1(3) by (auto simp: retry_loop.simps [of cu opts n] split: if_splits)
  next
    case False
    obtain a t where p: "perform cu opts (length as) s = (a, t)" by fastforce
    then have "concat (at_payload a) = []" "ss_fail t"
      using payload_after_failure [OF 1(2), of "fst (easy_perform cu (length as) opts)"]
      by (auto simp: perform_def list_all_iff split: prod.splits)
    moreover have "retry_loop cu opts (n + 1) (at_code a) False (as @ [a]) t = (r, as', s')"
      using 1(3) False p by (simp add: retry_loop.simps [of cu opts n])
    ultimately show ?thesis using 1(1) [of "n + 1" a t] False p by auto
  qed
qed

end
