(* ===== verification/File_IO.thy ===== *)
theory File_IO
  imports Email_Sender
begin

text \<open>
  The helper class \<^verbatim>\<open>file\<close> (\<^verbatim>\<open>include/file.hpp\<close>), through which the log is written and the configuration is
  read. The C library's streams are a table of handles over a map of files; a handle keeps what has been printed and not
  yet flushed. Whether a call of \<^verbatim>\<open>fopen\<close>, \<^verbatim>\<open>fprintf\<close> or a flush succeeds is decided by the
  environment: an oracle numbered by the calls of its kind. Using a handle after \<^verbatim>\<open>fclose\<close> is a fault. Parsing JSON is
  an argument. Messages on the terminal are left out.
\<close>

section \<open>Streams of the C library\<close>

record handle =
  fh_path :: string
  fh_append :: bool
  fh_writable :: bool
  fh_pending :: string
  fh_open :: bool

record stdio =
  sd_files :: "string \<Rightarrow> string option"
  sd_handles :: "handle list"
  sd_fopen_ok :: "nat \<Rightarrow> bool"
  sd_fopens :: nat
  sd_fprintf_ok :: "nat \<Rightarrow> bool"
  sd_fprintfs :: nat
  sd_flush_ok :: "nat \<Rightarrow> bool"
  sd_flushes :: nat

definition mode_creates :: "string \<Rightarrow> bool" where
  "mode_creates mode \<longleftrightarrow> mode \<noteq> [] \<and> hd mode \<noteq> CHR ''r''"

text \<open>\<^verbatim>\<open>fopen\<close>: the handle is a position in the table, \<open>None\<close> is the null pointer.\<close>

definition fopen :: "string \<Rightarrow> string \<Rightarrow> stdio \<Rightarrow> nat option \<times> stdio" where
  "fopen path mode io =
     (let io1 = io\<lparr>sd_fopens := sd_fopens io + 1\<rparr>;
          content = sd_files io path in
      if \<not> sd_fopen_ok io (sd_fopens io) \<or> content = None \<and> \<not> mode_creates mode then (None, io1)
      else
        let new = (case content of None \<Rightarrow> [] | Some c \<Rightarrow> if mode \<noteq> [] \<and> hd mode = CHR ''w'' then [] else c);
            h = \<lparr>fh_path = path, fh_append = (mode \<noteq> [] \<and> hd mode = CHR ''a''),
                 fh_writable = (mode_creates mode \<or> CHR ''+'' \<in> set mode), fh_pending = [], fh_open = True\<rparr> in
        (Some (length (sd_handles io)),
         io1\<lparr>sd_files := (sd_files io)(path \<mapsto> new), sd_handles := sd_handles io @ [h]\<rparr>))"

definition open_handle :: "nat \<Rightarrow> stdio \<Rightarrow> fault + handle" where
  "open_handle fp io =
     (if fp < length (sd_handles io) \<and> fh_open (sd_handles io ! fp) then Inr (sd_handles io ! fp)
      else Inl Use_after_free)"

text \<open>\<^verbatim>\<open>fprintf (fp, "%s", s)\<close>: the number of characters, or a negative number.\<close>

definition fprintf_s :: "nat \<Rightarrow> string \<Rightarrow> stdio \<Rightarrow> fault + int \<times> stdio" where
  "fprintf_s fp s io =
     rbind (open_handle fp io) (\<lambda>h.
     let io1 = io\<lparr>sd_fprintfs := sd_fprintfs io + 1\<rparr> in
     if fh_writable h \<and> sd_fprintf_ok io (sd_fprintfs io)
     then Inr (int (length s), io1\<lparr>sd_handles := (sd_handles io)[fp := h\<lparr>fh_pending := fh_pending h @ s\<rparr>]\<rparr>)
     else Inr (-1, io1))"

text \<open>What a flush puts into the file: at the end when appending, over the beginning otherwise.\<close>

definition written :: "handle \<Rightarrow> string \<Rightarrow> string" where
  "written h c = (if fh_append h then c @ fh_pending h else fh_pending h @ drop (length (fh_pending h)) c)"

definition fflush :: "nat \<Rightarrow> stdio \<Rightarrow> fault + int \<times> stdio" where
  "fflush fp io =
     rbind (open_handle fp io) (\<lambda>h.
     let io1 = io\<lparr>sd_flushes := sd_flushes io + 1\<rparr> in
     if fh_pending h = [] then Inr (0, io1)
     else if sd_flush_ok io (sd_flushes io)
     then Inr (0, io1\<lparr>sd_files := (sd_files io)(fh_path h := map_option (written h) (sd_files io (fh_path h))),
                      sd_handles := (sd_handles io)[fp := h\<lparr>fh_pending := []\<rparr>]\<rparr>)
     else Inr (-1, io1))"

definition fclose :: "nat \<Rightarrow> stdio \<Rightarrow> fault + int \<times> stdio" where
  "fclose fp io =
     rbind (fflush fp io) (\<lambda>(r, io1).
     Inr (r, io1\<lparr>sd_handles := (sd_handles io1)[fp := (sd_handles io1 ! fp)\<lparr>fh_open := False, fh_pending := []\<rparr>]\<rparr>))"

section \<open>The class\<close>

definition SUCCESS :: int where "SUCCESS = 0"
definition FAILED :: int where "FAILED = 1"

record fileobj =
  f_path :: string
  f_type :: string
  f_reTryTime :: int

definition new_file :: "string \<Rightarrow> string \<Rightarrow> fileobj" where
  "new_file path type = \<lparr>f_path = path, f_type = type, f_reTryTime = 5\<rparr>"

definition file_setPath :: "string \<Rightarrow> fileobj \<Rightarrow> fileobj" where
  "file_setPath path f = f\<lparr>f_path := path\<rparr>"

text \<open>
  \<^verbatim>\<open>reOpen\<close> gets the stream by value: the handle it opens is not seen by its caller. The result is
  the number of failed attempts.
\<close>

function reOpen_loop :: "fileobj \<Rightarrow> int \<Rightarrow> stdio \<Rightarrow> int \<times> stdio" where
  "reOpen_loop f openCount io =
     (if openCount < f_reTryTime f then
        case fopen (c_str (f_path f)) (c_str (f_type f)) io of
          (None, io1) \<Rightarrow> reOpen_loop f (openCount + 1) io1
        | (Some fp, io1) \<Rightarrow> (openCount, io1)
      else (openCount, io))"
  by pat_completeness auto

termination
  by (relation "measure (\<lambda>(f, openCount, io). nat (f_reTryTime f - openCount))") auto

declare reOpen_loop.simps [simp del]

definition reOpen :: "nat option \<Rightarrow> fileobj \<Rightarrow> stdio \<Rightarrow> fault + int \<times> stdio" where
  "reOpen fp f io =
     rbind (case fp of Some h \<Rightarrow> rbind (fclose h io) (\<lambda>(_, io1). Inr io1) | None \<Rightarrow> Inr io) (\<lambda>io1.
     case reOpen_loop f 0 io1 of (openCount, io2) \<Rightarrow>
     if openCount \<ge> f_reTryTime f then Inr (FAILED, io2) else Inr (SUCCESS, io2))"

text \<open>The end of both forms of \<^verbatim>\<open>write\<close>; the result is that of \<^verbatim>\<open>fclose\<close>.\<close>

definition flush_and_close :: "nat \<Rightarrow> stdio \<Rightarrow> fault + int \<times> stdio" where
  "flush_and_close fp io = rbind (fflush fp io) (\<lambda>(_, io1). fclose fp io1)"

text \<open>Printing, and printing once more after a failure.\<close>

definition print_or_reopen :: "nat \<Rightarrow> string \<Rightarrow> fileobj \<Rightarrow> stdio \<Rightarrow> fault + int \<times> stdio" where
  "print_or_reopen fp s f io =
     rbind (fprintf_s fp s io) (\<lambda>(ret, io1).
     if ret < 0 then
       rbind (reOpen (Some fp) f io1) (\<lambda>(ret', io2).
       if ret' = SUCCESS then
         rbind (fprintf_s fp s io2) (\<lambda>(_, io3). flush_and_close fp io3)
       else Inr (ret', io2))
     else flush_and_close fp io1)"

definition file_write :: "string \<Rightarrow> fileobj \<Rightarrow> stdio \<Rightarrow> fault + int \<times> stdio" where
  "file_write fileInfo f io =
     (case fopen (c_str (f_path f)) (c_str (f_type f)) io of
        (None, io1) \<Rightarrow> Inr (FAILED, io1)
      | (Some fp, io1) \<Rightarrow> print_or_reopen fp (c_str fileInfo) f io1)"

text \<open>
  The form for a C string and a length, which it does not use. Its second test of the pointer comes
  after the return for a null pointer and never succeeds.
\<close>

definition file_write_n :: "string \<Rightarrow> int \<Rightarrow> fileobj \<Rightarrow> stdio \<Rightarrow> fault + int \<times> stdio" where
  "file_write_n fileInfo len f io =
     (case fopen (c_str (f_path f)) (c_str (f_type f)) io of
        (None, io1) \<Rightarrow> Inr (FAILED, io1)
      | (Some fp, io1) \<Rightarrow> print_or_reopen fp (c_str fileInfo) f io1)"

text \<open>
  \<^verbatim>\<open>fread (buf, 1024, 1024, fp)\<close> stores up to a megabyte into the 1024 bytes of \<^verbatim>\<open>buf\<close>; the string is then
  read up to the first zero byte of the buffer. The result of \<^verbatim>\<open>fread\<close> is never negative, so the
  second attempt of the source is dead code.
\<close>

definition fread_buf :: "nat \<Rightarrow> string \<Rightarrow> stdio \<Rightarrow> fault + string" where
  "fread_buf fp buf io =
     rbind (open_handle fp io) (\<lambda>h.
     let data = take (1024 * 1024) (case sd_files io (fh_path h) of None \<Rightarrow> [] | Some c \<Rightarrow> c) in
     if length data \<le> length buf then Inr (data @ drop (length data) buf) else Inl Index_out_of_range)"

definition buf_string :: "string \<Rightarrow> fault + string" where
  "buf_string buf = (if CHR 0x00 \<in> set buf then Inr (c_str buf) else Inl Index_out_of_range)"

definition file_getRes :: "fileobj \<Rightarrow> stdio \<Rightarrow> fault + string \<times> stdio" where
  "file_getRes f io =
     (let buf = replicate 1024 (CHR 0x00) in
      case fopen (c_str (f_path f)) (c_str (f_type f)) io of
        (None, io1) \<Rightarrow> Inr ([], io1)
      | (Some fp, io1) \<Rightarrow>
          rbind (fread_buf fp buf io1) (\<lambda>buf'.
          rbind (buf_string buf') (\<lambda>resBuf.
          rbind (fclose fp io1) (\<lambda>(_, io2).
          Inr (resBuf, io2)))))"

text \<open>
  A parsed document gives for a key the string or the number stored there; a text that is not JSON
  and a value of another type end in an exception.
\<close>

record json_doc =
  js_string :: "string \<Rightarrow> string option"
  js_int :: "string \<Rightarrow> int option"

type_synonym json_parser = "string \<Rightarrow> json_doc option"

definition orelse_throw :: "'a option \<Rightarrow> fault + 'a" where
  "orelse_throw x = (case x of None \<Rightarrow> Inl Uncaught_exception | Some v \<Rightarrow> Inr v)"

definition file_getJsonString :: "json_parser \<Rightarrow> string \<Rightarrow> fileobj \<Rightarrow> stdio \<Rightarrow> fault + string \<times> stdio" where
  "file_getJsonString jp key f io =
     rbind (file_getRes f io) (\<lambda>(jsonStr, io1).
     if jsonStr = [] then Inr ([], io1)
     else rbind (orelse_throw (jp jsonStr)) (\<lambda>js.
          rbind (orelse_throw (js_string js key)) (\<lambda>v. Inr (v, io1))))"

definition file_getJsonInt :: "json_parser \<Rightarrow> string \<Rightarrow> fileobj \<Rightarrow> stdio \<Rightarrow> fault + int \<times> stdio" where
  "file_getJsonInt jp key f io =
     rbind (file_getRes f io) (\<lambda>(jsonStr, io1).
     if jsonStr = [] then Inr (-1, io1)
     else rbind (orelse_throw (jp jsonStr)) (\<lambda>js.
          rbind (orelse_throw (js_int js key)) (\<lambda>v. Inr (v, io1))))"

section \<open>What the class does\<close>

text \<open>The mode all callers use.\<close>

abbreviation append_mode :: "fileobj \<Rightarrow> bool" where
  "append_mode f \<equiv> c_str (f_type f) = ''at+''"

abbreviation content_of :: "stdio \<Rightarrow> string \<Rightarrow> string" where
  "content_of io p \<equiv> (case sd_files io p of None \<Rightarrow> [] | Some c \<Rightarrow> c)"

lemma fopen_append:
  "fopen p ''at+'' io =
     (if sd_fopen_ok io (sd_fopens io)
      then (Some (length (sd_handles io)),
            io\<lparr>sd_fopens := sd_fopens io + 1, sd_files := (sd_files io)(p \<mapsto> content_of io p),
               sd_handles := sd_handles io @ [\<lparr>fh_path = p, fh_append = True, fh_writable = True, fh_pending = [], fh_open = True\<rparr>]\<rparr>)
      else (None, io\<lparr>sd_fopens := sd_fopens io + 1\<rparr>))"
  by (auto simp: fopen_def mode_creates_def Let_def split: option.splits)

lemma file_write_appends:
  assumes "append_mode f" "sd_fopen_ok io (sd_fopens io)" "sd_fprintf_ok io (sd_fprintfs io)" "sd_flush_ok io (sd_flushes io)"
  shows "rsafe (file_write s f io) (\<lambda>(ret, io').
     ret = 0 \<and> sd_files io' = (sd_files io)(c_str (f_path f) \<mapsto> content_of io (c_str (f_path f)) @ c_str s) \<and>
     sd_fopen_ok io' = sd_fopen_ok io \<and> sd_fprintf_ok io' = sd_fprintf_ok io \<and> sd_flush_ok io' = sd_flush_ok io)"
  using assms
  by (simp add: file_write_def fopen_append print_or_reopen_def fprintf_s_def open_handle_def flush_and_close_def
      fflush_def fclose_def written_def Let_def nth_append)

lemma file_write_n_eq: "file_write_n s n f io = file_write s f io"
  by (simp add: file_write_n_def file_write_def)

lemma file_write_no_file: "\<not> sd_fopen_ok io (sd_fopens io) \<Longrightarrow> rsafe (file_write s f io) (\<lambda>(ret, io'). ret = FAILED \<and> sd_files io' = sd_files io)"
  by (simp add: file_write_def fopen_def Let_def)

subsection \<open>Opening again\<close>

text \<open>
  The loop stops at the first success, after at most \<open>reTryTime\<close> failures; its result counts them.
\<close>

lemma reOpen_loop_spec:
  assumes "append_mode f" "c \<le> f_reTryTime f" "reOpen_loop f c io = (n, io')"
  shows "c \<le> n \<and> n \<le> f_reTryTime f \<and>
    (\<forall>i < nat (n - c). \<not> sd_fopen_ok io (sd_fopens io + i)) \<and>
    (n < f_reTryTime f \<longrightarrow> sd_fopen_ok io (sd_fopens io + nat (n - c)))"
  using assms
proof (induction f c io rule: reOpen_loop.induct)
  case (1 f c io)
  show ?case
  proof (cases "c < f_reTryTime f \<and> \<not> sd_fopen_ok io (sd_fopens io)")
    case True
    let ?io = "io\<lparr>sd_fopens := sd_fopens io + 1\<rparr>"
    have fo: "fopen (c_str (f_path f)) (c_str (f_type f)) io = (None, ?io)"
      using 1(2) True by (simp add: fopen_append)
    have "reOpen_loop f (c + 1) ?io = (n, io')"
      using 1(4) True fo by (simp add: reOpen_loop.simps [of f c])
    from 1(1) [OF _ fo [symmetric] refl 1(2) _ this] True have ih:
      "c + 1 \<le> n" "n \<le> f_reTryTime f" "\<forall>i < nat (n - (c + 1)). \<not> sd_fopen_ok io (sd_fopens io + 1 + i)"
      "n < f_reTryTime f \<longrightarrow> sd_fopen_ok io (sd_fopens io + 1 + nat (n - (c + 1)))"
      by auto
    have len: "nat (n - c) = Suc (nat (n - (c + 1)))" using ih(1) by linarith
    show ?thesis using ih True by (auto simp: len less_Suc_eq_0_disj)
  next
    case False
    then have "n = c" using 1(2-4)
      by (cases "c < f_reTryTime f") (auto simp: reOpen_loop.simps [of f c] reOpen_loop.simps [of f "f_reTryTime f"] fopen_append)
    then show ?thesis using False 1(3) by auto
  qed
qed

lemma reOpen_loop_handles: "fp < length (sd_handles io) \<Longrightarrow> reOpen_loop f c io = (n, io') \<Longrightarrow>
   fp < length (sd_handles io') \<and> sd_handles io' ! fp = sd_handles io ! fp"
proof (induction f c io rule: reOpen_loop.induct)
  case (1 f c io)
  have fo: "fopen p m io = (r, io1) \<Longrightarrow> fp < length (sd_handles io1) \<and> sd_handles io1 ! fp = sd_handles io ! fp" for p m r io1
    using 1(2) by (auto simp: fopen_def Let_def nth_append split: if_splits)
  show ?case
  proof (cases "c < f_reTryTime f")
    case True
    obtain r io1 where o1: "fopen (c_str (f_path f)) (c_str (f_type f)) io = (r, io1)" by fastforce
    then show ?thesis using True 1 fo [OF o1] by (cases r) (auto simp: reOpen_loop.simps [of f c])
  next
    case False
    then show ?thesis using 1 by (simp add: reOpen_loop.simps [of f c])
  qed
qed

text \<open>After a failed print the caller's stream is closed, whether or not the file could be opened again.\<close>

lemma print_after_reopen:
  assumes "append_mode f" "0 \<le> f_reTryTime f" "sd_fopen_ok io (sd_fopens io)" "\<not> sd_fprintf_ok io (sd_fprintfs io)"
  shows "if \<exists>i < nat (f_reTryTime f). sd_fopen_ok io (sd_fopens io + 1 + i) then file_write s f io = Inl Use_after_free
     else rsafe (file_write s f io) (\<lambda>(ret, _). ret = FAILED)"
proof -
  let ?p = "c_str (f_path f)" and ?fp = "length (sd_handles io)"
  let ?h = "\<lparr>fh_path = ?p, fh_append = True, fh_writable = True, fh_pending = [], fh_open = True\<rparr>"
  let ?io = "io\<lparr>sd_fopens := sd_fopens io + 1, sd_files := (sd_files io)(?p \<mapsto> content_of io ?p),
               sd_fprintfs := sd_fprintfs io + 1, sd_flushes := sd_flushes io + 1, sd_handles := sd_handles io @ [?h\<lparr>fh_open := False\<rparr>]\<rparr>"
  obtain n io' where loop: "reOpen_loop f 0 ?io = (n, io')" by fastforce
  have n: "0 \<le> n" "n \<le> f_reTryTime f" "\<forall>i < nat n. \<not> sd_fopen_ok io (sd_fopens io + 1 + i)"
    "n < f_reTryTime f \<longrightarrow> sd_fopen_ok io (sd_fopens io + 1 + nat n)"
    using reOpen_loop_spec [OF assms(1,2) loop] by auto
  have closed: "\<not> fh_open (sd_handles io' ! ?fp)" using reOpen_loop_handles [OF _ loop, of ?fp] by simp
  have run: "file_write s f io =
      (if n \<ge> f_reTryTime f then Inr (FAILED, io') else rbind (fprintf_s ?fp (c_str s) io') (\<lambda>(_, io3). flush_and_close ?fp io3))"
    using assms loop
    by (simp add: file_write_def fopen_append print_or_reopen_def fprintf_s_def open_handle_def reOpen_def fclose_def
        fflush_def Let_def nth_append SUCCESS_def FAILED_def)
  show ?thesis
  proof (cases "n < f_reTryTime f")
    case True
    then have "nat n < nat (f_reTryTime f)" using n(1) by linarith
    then have "\<exists>i < nat (f_reTryTime f). sd_fopen_ok io (sd_fopens io + 1 + i)" using True n(4) by blast
    then show ?thesis using True closed run by (simp add: fprintf_s_def open_handle_def)
  next
    case False
    then have "n = f_reTryTime f" using n(2) by simp
    then show ?thesis using run n(3) by auto
  qed
qed

subsection \<open>Reading\<close>

lemma buf_string_small: "length c < n \<Longrightarrow> buf_string (c @ replicate (n - length c) (CHR 0x00)) = Inr (c_str c)"
proof -
  assume "length c < n"
  then obtain k where k: "n - length c = Suc k" by (metis Suc_diff_Suc)
  have "takeWhile (\<lambda>x. x \<noteq> CHR 0x00) (c @ CHR 0x00 # replicate k (CHR 0x00)) = takeWhile (\<lambda>x. x \<noteq> CHR 0x00) c"
    by (induction c) simp_all
  then show ?thesis by (simp add: buf_string_def c_str_def k)
qed

lemma file_getRes_small:
  assumes "append_mode f" "sd_fopen_ok io (sd_fopens io)" "length (content_of io (c_str (f_path f))) < 1024"
  shows "rsafe (file_getRes f io) (\<lambda>(res, _). res = c_str (content_of io (c_str (f_path f))))"
  using assms
  by (simp add: file_getRes_def fopen_append fread_buf_def open_handle_def buf_string_small fclose_def fflush_def Let_def
      nth_append)

lemma file_getRes_large:
  assumes "append_mode f" "sd_fopen_ok io (sd_fopens io)" "length (content_of io (c_str (f_path f))) > 1024"
  shows "file_getRes f io = Inl Index_out_of_range"
  using assms
  by (simp add: file_getRes_def fopen_append fread_buf_def open_handle_def Let_def nth_append min_le_iff_disj)

end
