(* ===== verification/Data_Base.thy ===== *)
theory Data_Base
  imports File_IO "HOL-Library.List_Lexorder" "HOL-Library.Char_ord"
begin

text \<open>
  The database layer: \<^verbatim>\<open>include/MysqlDataBase.hpp\<close> and the three tables \<^verbatim>\<open>tblIpInfo\<close>, \<^verbatim>\<open>tblEmailInfo\<close> and
  \<^verbatim>\<open>downloadFile\<close> derived from it. A class is a record, a derived class an extension of it, a virtual
  function an argument. The client library of MySQL is an argument too: a record of functions over a
  connection state \<open>'d\<close>, whose \<^verbatim>\<open>mysql_stmt_fetch\<close> gives the new contents of the buffers that were
  bound. Character arrays are strings of their size; the C string that starts in one
  extends to the first zero byte, into the members declared after it if need be. The mutex taken around \<^verbatim>\<open>mysql_init\<close> and the log are left out.
\<close>

section \<open>The client library\<close>

datatype column = COL_LONG | COL_STRING nat

datatype cell = Long int | Text string

record 'd mysql =
  my_init :: "'d \<Rightarrow> bool \<times> 'd"
  my_real_connect :: "string \<Rightarrow> string \<Rightarrow> string \<Rightarrow> string \<Rightarrow> int \<Rightarrow> 'd \<Rightarrow> bool \<times> 'd"
  my_stmt_init :: "'d \<Rightarrow> nat option \<times> 'd"
  my_prepare :: "nat option \<Rightarrow> string \<Rightarrow> 'd \<Rightarrow> int \<times> 'd"
  my_bind_result :: "nat option \<Rightarrow> column list \<Rightarrow> 'd \<Rightarrow> int \<times> 'd"
  my_bind_param :: "nat option \<Rightarrow> column list \<Rightarrow> 'd \<Rightarrow> int \<times> 'd"
  my_execute :: "nat option \<Rightarrow> cell list \<Rightarrow> 'd \<Rightarrow> int \<times> 'd"
  my_store_result :: "nat option \<Rightarrow> 'd \<Rightarrow> int \<times> 'd"
  my_fetch :: "nat option \<Rightarrow> cell list \<Rightarrow> 'd \<Rightarrow> int \<times> cell list \<times> 'd"
  my_commit :: "'d \<Rightarrow> int \<times> 'd"
  my_stmt_close :: "nat option \<Rightarrow> 'd \<Rightarrow> 'd"
  my_close :: "'d \<Rightarrow> 'd"

definition text_of :: "cell \<Rightarrow> string" where
  "text_of c = (case c of Text s \<Rightarrow> s | Long _ \<Rightarrow> [])"

definition long_of :: "cell \<Rightarrow> int" where
  "long_of c = (case c of Long i \<Rightarrow> i | Text _ \<Rightarrow> 0)"

section \<open>The base class\<close>

text \<open>\<^verbatim>\<open>flag\<close> is \<open>None\<close> until it is assigned.\<close>

record sql_stmt =
  st_sql :: string
  st_stmt :: "nat option"
  st_flag :: "int option"

record MysqlDataBase =
  db_configFile :: string
  db_ip :: string
  db_port :: string
  db_dateBase :: string
  db_user :: string
  db_passwd :: string
  db_conn :: bool
  db_sqlStmts :: "(string \<times> sql_stmt) list"

text \<open>\<^verbatim>\<open>std::map\<close>: pairs in the order of their keys; \<^verbatim>\<open>operator[]\<close> creates what is missing.\<close>

primrec map_put :: "'k::linorder \<Rightarrow> 'v \<Rightarrow> ('k \<times> 'v) list \<Rightarrow> ('k \<times> 'v) list" where
  "map_put k v [] = [(k, v)]"
| "map_put k v (e # m) =
     (if k = fst e then (k, v) # m else if k < fst e then (k, v) # e # m else e # map_put k v m)"

definition empty_stmt :: sql_stmt where
  "empty_stmt = \<lparr>st_sql = [], st_stmt = None, st_flag = Some 0\<rparr>"

definition stmt_at :: "string \<Rightarrow> 'm MysqlDataBase_scheme \<Rightarrow> nat option \<times> 'm MysqlDataBase_scheme" where
  "stmt_at ident db =
     (case map_of (db_sqlStmts db) ident of
        Some s \<Rightarrow> (st_stmt s, db)
      | None \<Rightarrow> (None, db\<lparr>db_sqlStmts := map_put ident empty_stmt (db_sqlStmts db)\<rparr>))"

text \<open>The flag is assigned to the local variable after it has been copied into the map.\<close>

definition setSql :: "string \<Rightarrow> string \<Rightarrow> 'm MysqlDataBase_scheme \<Rightarrow> 'm MysqlDataBase_scheme" where
  "setSql ident sql db =
     (let stmt = \<lparr>st_sql = sql, st_stmt = None, st_flag = None\<rparr> in
      db\<lparr>db_sqlStmts := map_put ident stmt (db_sqlStmts db)\<rparr>)"

text \<open>\<^verbatim>\<open>atoi\<close>: blanks, a sign, digits.\<close>

definition digit :: "char \<Rightarrow> bool" where
  "digit c \<longleftrightarrow> (let k = of_char c :: nat in 48 \<le> k \<and> k \<le> 57)"

definition digits_value :: "string \<Rightarrow> int" where
  "digits_value s = foldl (\<lambda>n c. 10 * n + (of_char c - 48)) 0 (takeWhile digit s)"

definition blank :: "char \<Rightarrow> bool" where
  "blank c \<longleftrightarrow> c = CHR '' '' \<or> (let k = of_char c :: nat in 9 \<le> k \<and> k \<le> 13)"

definition atoi :: "string \<Rightarrow> int" where
  "atoi s =
     (case dropWhile blank s of
        [] \<Rightarrow> 0
      | c # cs \<Rightarrow> if c = CHR ''-'' then - digits_value cs else if c = CHR ''+'' then digits_value cs
                else digits_value (c # cs))"

definition initDb ::
    "'d mysql \<Rightarrow> ('m MysqlDataBase_scheme \<Rightarrow> int \<times> 'm MysqlDataBase_scheme)
     \<Rightarrow> ('m MysqlDataBase_scheme \<Rightarrow> 'd \<Rightarrow> int \<times> 'm MysqlDataBase_scheme \<times> 'd)
     \<Rightarrow> 'm MysqlDataBase_scheme \<Rightarrow> 'd \<Rightarrow> int \<times> 'm MysqlDataBase_scheme \<times> 'd" where
  "initDb my setAllSql sqlBind db d =
     (case my_init my d of (conn, d1) \<Rightarrow>
      let db1 = db\<lparr>db_conn := conn\<rparr> in
      if \<not> conn then (FAILED, db1, d1)
      else case my_real_connect my (c_str (db_ip db1)) (c_str (db_user db1)) (c_str (db_passwd db1))
                  (c_str (db_dateBase db1)) (atoi (c_str (db_port db1))) d1 of (connected, d2) \<Rightarrow>
      if \<not> connected then (FAILED, db1, d2)
      else case setAllSql db1 of (ret, db2) \<Rightarrow>
      if ret \<noteq> SUCCESS then (FAILED, db2, d2)
      else case sqlBind db2 d2 of (ret', db3, d3) \<Rightarrow>
      if ret' \<noteq> SUCCESS then (FAILED, db3, d3) else (SUCCESS, db3, d3))"

definition init ::
    "'d mysql \<Rightarrow> json_parser \<Rightarrow> (string \<Rightarrow> string option) \<Rightarrow> ('m MysqlDataBase_scheme \<Rightarrow> int \<times> 'm MysqlDataBase_scheme)
     \<Rightarrow> ('m MysqlDataBase_scheme \<Rightarrow> 'd \<Rightarrow> int \<times> 'm MysqlDataBase_scheme \<times> 'd)
     \<Rightarrow> 'm MysqlDataBase_scheme \<Rightarrow> stdio \<Rightarrow> 'd \<Rightarrow> fault + int \<times> 'm MysqlDataBase_scheme \<times> stdio \<times> 'd" where
  "init my jp getenv setAllSql sqlBind db io d =
     (case getenv ''CONFIG_FILE'' of
        None \<Rightarrow> Inr (FAILED, db, io, d)
      | Some configPath \<Rightarrow>
          if configPath = [] then Inr (FAILED, db, io, d)
          else
            rbind (file_getRes (new_file configPath ''at+'') io) (\<lambda>(cfg, io1).
            rbind (orelse_throw (jp cfg)) (\<lambda>js.
            rbind (orelse_throw (js_string js ''ip'')) (\<lambda>ip.
            rbind (orelse_throw (js_string js ''port'')) (\<lambda>port.
            rbind (orelse_throw (js_string js ''dateBase'')) (\<lambda>dateBase.
            rbind (orelse_throw (js_string js ''user'')) (\<lambda>user.
            rbind (orelse_throw (js_string js ''passwd'')) (\<lambda>passwd.
            let db1 = db\<lparr>db_configFile := cfg, db_ip := ip, db_port := port, db_dateBase := dateBase,
                         db_user := user, db_passwd := passwd\<rparr> in
            case initDb my setAllSql sqlBind db1 d of (ret, db2, d1) \<Rightarrow>
            if ret \<noteq> SUCCESS then Inr (FAILED, db2, io1, d1) else Inr (SUCCESS, db2, io1, d1)))))))))"

text \<open>The destructor: closes every statement whose flag is 0, then the connection.\<close>

primrec close_stmts :: "'d mysql \<Rightarrow> (string \<times> sql_stmt) list \<Rightarrow> 'd \<Rightarrow> fault + 'd" where
  "close_stmts my [] d = Inr d"
| "close_stmts my (e # m) d =
     (case st_flag (snd e) of
        None \<Rightarrow> Inl Uninitialized_read
      | Some k \<Rightarrow> close_stmts my m (if k = 0 then my_stmt_close my (st_stmt (snd e)) d else d))"

definition delete_MysqlDataBase :: "'d mysql \<Rightarrow> 'm MysqlDataBase_scheme \<Rightarrow> 'd \<Rightarrow> fault + 'd" where
  "delete_MysqlDataBase my db d =
     rbind (close_stmts my (db_sqlStmts db) d) (\<lambda>d1.
     Inr (if db_conn db then my_close my d1 else d1))"

text \<open>
  Character conversion. \<^verbatim>\<open>iconv_open\<close> and \<^verbatim>\<open>iconv\<close> are arguments; the result is the return code and the
  output buffer.
\<close>

record iconv_lib =
  ic_open :: "string \<Rightarrow> string \<Rightarrow> int"
  ic_conv :: "int \<Rightarrow> string \<Rightarrow> nat \<Rightarrow> int \<times> string"

definition code_convert :: "iconv_lib \<Rightarrow> string \<Rightarrow> string \<Rightarrow> string \<Rightarrow> string \<Rightarrow> int \<times> string" where
  "code_convert ic from_charset to_charset inbuf outbuf =
     (let cd = ic_open ic to_charset from_charset in
      if cd = 0 then (-1, outbuf)
      else case ic_conv ic cd inbuf (length outbuf) of (rc, out) \<Rightarrow>
           let buf = take (length outbuf) out @ replicate (length outbuf - length out) (CHR 0x00) in
           if rc = -1 then (-1, buf) else (0, buf))"

definition u2g :: "iconv_lib \<Rightarrow> string \<Rightarrow> string \<Rightarrow> int \<times> string" where
  "u2g ic inbuf outbuf = code_convert ic ''utf-8'' ''gb2312'' inbuf outbuf"

definition g2u :: "iconv_lib \<Rightarrow> string \<Rightarrow> string \<Rightarrow> int \<times> string" where
  "g2u ic inbuf outbuf = code_convert ic ''gb2312'' ''utf-8'' inbuf outbuf"

section \<open>What the tables share\<close>

text \<open>The loop of every \<^verbatim>\<open>sqlBind\<close> that prepares the statements in the order of the map.\<close>

primrec prepare_all :: "'d mysql \<Rightarrow> (string \<times> sql_stmt) list \<Rightarrow> 'd \<Rightarrow> int \<times> (string \<times> sql_stmt) list \<times> 'd" where
  "prepare_all my [] d = (SUCCESS, [], d)"
| "prepare_all my (e # m) d =
     (case my_stmt_init my d of (h, d1) \<Rightarrow>
      let s = (snd e)\<lparr>st_stmt := h\<rparr> in
      case my_prepare my h (c_str (st_sql s)) d1 of (ret, d2) \<Rightarrow>
      if ret \<noteq> SUCCESS then (FAILED, (fst e, s\<lparr>st_flag := Some 1\<rparr>) # m, d2)
      else case prepare_all my m d2 of (r, m', d3) \<Rightarrow> (r, (fst e, s) # m', d3))"

text \<open>
  The loop of every \<^verbatim>\<open>getResFromDb\<close>: \<open>bufs\<close> reads the bound buffers of the object, \<open>load\<close> stores into
  them, \<open>push\<close> appends the row they hold. It ends at code 100 (no more rows) or another code, and does not end
  if the server never stops sending rows.
\<close>

partial_function (option) fetch_rows ::
    "'d mysql \<Rightarrow> nat option \<Rightarrow> ('o \<Rightarrow> cell list) \<Rightarrow> (cell list \<Rightarrow> 'o \<Rightarrow> 'o) \<Rightarrow> ('o \<Rightarrow> fault + 'o)
     \<Rightarrow> 'o \<Rightarrow> 'd \<Rightarrow> (fault + int \<times> 'o \<times> 'd) option" where
  "fetch_rows my h bufs load push t d =
     (case my_fetch my h (bufs t) d of (ret, cells, d1) \<Rightarrow>
      let t1 = load cells t in
      if ret = 0 then
        (case push t1 of
           Inl e \<Rightarrow> Some (Inl e)
         | Inr t2 \<Rightarrow> fetch_rows my h bufs load push t2 d1)
      else if ret = 100 then Some (Inr (SUCCESS, t1, d1))
      else Some (Inr (FAILED, t1, d1)))"

declare fetch_rows.simps [code]

text \<open>\<^verbatim>\<open>snprintf (buf, sizeof (buf), "%s", s)\<close>.\<close>

definition snprintf_s :: "string \<Rightarrow> string \<Rightarrow> string" where
  "snprintf_s buf s =
     (let t = take (length buf - 1) (c_str s) in t @ [CHR 0x00] @ drop (length t + 1) buf)"

section \<open>Sorted tables\<close>

lemma map_of_map_put [simp]: "map_of (map_put k v m) = (map_of m)(k \<mapsto> v)"
  by (induction m) auto

lemma map_put_keys: "fst ` set (map_put k v m) = insert k (fst ` set m)"
  by (induction m) auto

lemma map_put_set: "e \<in> set (map_put k v m) \<Longrightarrow> e = (k, v) \<or> e \<in> set m"
  by (induction m) (auto split: if_splits)

lemma sorted_map_put: "sorted_wrt (<) (map fst m) \<Longrightarrow> sorted_wrt (<) (map fst (map_put k v m))"
proof (induction m)
  case (Cons e m)
  then show ?case by (auto dest!: map_put_set)
qed simp

lemma list_all_map_put: "list_all Q m \<Longrightarrow> Q (k, v) \<Longrightarrow> list_all Q (map_put k v m)"
  by (induction m) auto

end
