(* ===== verification/Tables.thy ===== *)
theory Tables
  imports Data_Base
begin

text \<open>
  The three tables of the keeper: the history of addresses (\<^verbatim>\<open>include/tblIpInfo.hpp\<close>), the mail accounts
  (\<^verbatim>\<open>include/tblEmailInfo.hpp\<close>) and the files to send (\<^verbatim>\<open>homeKeeper/downloadfile.hpp\<close>). The locale \<open>row_table\<close>
  is what their loops over a result set share; each table interprets it with its own buffers.
\<close>

section \<open>Rows\<close>

record ipInfo =
  ip_rec_id :: int
  ip_ip :: string
  ip_send_flag :: string

record emailInfo =
  em_userName :: string
  em_passwd :: string
  em_smtpServer :: string
  em_recipient :: string
  em_mailFrom :: string

record downloadFile_row =
  df_fileName :: string
  df_path :: string

section \<open>The table of addresses\<close>

record tblIpInfo = MysqlDataBase +
  ti_ipInfos :: "ipInfo list"
  ti_rec_id :: int
  ti_ip :: string
  ti_send_flag :: string
  ti_ip_insert :: string
  ti_rec_upd :: int

definition new_MysqlDataBase :: MysqlDataBase where
  "new_MysqlDataBase =
     \<lparr>db_configFile = [], db_ip = [], db_port = [], db_dateBase = [], db_user = [], db_passwd = [],
      db_conn = False, db_sqlStmts = []\<rparr>"

abbreviation zeros :: "nat \<Rightarrow> string" where
  "zeros n \<equiv> replicate n (CHR 0x00)"

text \<open>\<^verbatim>\<open>send_flag\<close> has one byte and no initial value; \<open>junk\<close> is the byte found there.\<close>

definition new_tblIpInfo :: "char \<Rightarrow> tblIpInfo" where
  "new_tblIpInfo junk =
     MysqlDataBase.extend new_MysqlDataBase
       (tblIpInfo.fields [] 0 (zeros 100) [junk] (zeros 100) 0)"

definition ip_setAllSql :: "tblIpInfo \<Rightarrow> int \<times> tblIpInfo" where
  "ip_setAllSql t =
     (let t1 = setSql ''select'' ''select rec_id,ip,send_flag from ipInfo where rec_id=(select max(rec_id) from ipInfo) for update'' t;
          t2 = setSql ''update'' ''update ipInfo set send_flag=1,upd_ts=now() where rec_id=?'' t1;
          t3 = setSql ''insert'' ''insert into ipInfo (ip,crt_ts,upd_ts,send_flag) values (?,now(),now(),0)'' t2 in
      (SUCCESS, t3))"

definition ip_sqlBind :: "'d mysql \<Rightarrow> tblIpInfo \<Rightarrow> 'd \<Rightarrow> int \<times> tblIpInfo \<times> 'd" where
  "ip_sqlBind my t d =
     (case prepare_all my (db_sqlStmts t) d of (ret, stmts, d1) \<Rightarrow>
      let t1 = t\<lparr>db_sqlStmts := stmts\<rparr> in
      if ret \<noteq> SUCCESS then (FAILED, t1, d1)
      else case stmt_at ''select'' t1 of (selectStmt, t2) \<Rightarrow>
      case stmt_at ''insert'' t2 of (insertStmt, t3) \<Rightarrow>
      case stmt_at ''update'' t3 of (updateStmt, t4) \<Rightarrow>
      case my_bind_result my selectStmt [COL_LONG, COL_STRING 100, COL_STRING 1] d1 of (r1, d2) \<Rightarrow>
      if r1 \<noteq> SUCCESS then (FAILED, t4, d2)
      else case my_bind_param my insertStmt [COL_STRING 100] d2 of (r2, d3) \<Rightarrow>
      if r2 \<noteq> SUCCESS then (FAILED, t4, d3)
      else case my_bind_param my updateStmt [COL_LONG] d3 of (r3, d4) \<Rightarrow>
      if r3 \<noteq> SUCCESS then (FAILED, t4, d4) else (SUCCESS, t4, d4))"

definition ip_updateToDb :: "'d mysql \<Rightarrow> int \<Rightarrow> tblIpInfo \<Rightarrow> 'd \<Rightarrow> int \<times> tblIpInfo \<times> 'd" where
  "ip_updateToDb my rec_id t d =
     (case stmt_at ''update'' (t\<lparr>ti_rec_upd := rec_id\<rparr>) of (h, t1) \<Rightarrow>
      case my_execute my h [Long (ti_rec_upd t1)] d of (ret, d1) \<Rightarrow>
      if ret \<noteq> SUCCESS then (FAILED, t1, d1)
      else case my_commit my d1 of (ret', d2) \<Rightarrow>
      if ret' \<noteq> SUCCESS then (FAILED, t1, d2) else (SUCCESS, t1, d2))"

text \<open>The row in the buffers: the two arrays and the array declared after them.\<close>

definition ip_bufs :: "tblIpInfo \<Rightarrow> cell list" where
  "ip_bufs t = [Long (ti_rec_id t), Text (ti_ip t), Text (ti_send_flag t)]"

definition ip_load :: "cell list \<Rightarrow> tblIpInfo \<Rightarrow> tblIpInfo" where
  "ip_load cs t =
     (case cs of
        [r, i, s] \<Rightarrow> t\<lparr>ti_rec_id := long_of r, ti_ip := text_of i, ti_send_flag := text_of s\<rparr>
      | _ \<Rightarrow> t)"

definition ip_push :: "tblIpInfo \<Rightarrow> fault + tblIpInfo" where
  "ip_push t =
     rbind (buf_string (ti_ip t @ ti_send_flag t @ ti_ip_insert t)) (\<lambda>ip.
     rbind (buf_string (ti_send_flag t @ ti_ip_insert t)) (\<lambda>send_flag.
     Inr (t\<lparr>ti_ipInfos := ti_ipInfos t @ [\<lparr>ip_rec_id = ti_rec_id t, ip_ip = ip, ip_send_flag = send_flag\<rparr>]\<rparr>)))"

definition ip_getResFromDb :: "'d mysql \<Rightarrow> tblIpInfo \<Rightarrow> 'd \<Rightarrow> (fault + int \<times> tblIpInfo \<times> 'd) option" where
  "ip_getResFromDb my t d =
     (case stmt_at ''select'' t of (stmt, t1) \<Rightarrow>
      case my_execute my stmt [] d of (ret, d1) \<Rightarrow>
      if ret \<noteq> SUCCESS then Some (Inr (FAILED, t1, d1))
      else case my_store_result my stmt d1 of (ret', d2) \<Rightarrow>
      if ret' \<noteq> SUCCESS then Some (Inr (FAILED, t1, d2))
      else fetch_rows my stmt ip_bufs ip_load ip_push t1 d2)"

definition ip_insertToDb :: "'d mysql \<Rightarrow> string \<Rightarrow> tblIpInfo \<Rightarrow> 'd \<Rightarrow> int \<times> tblIpInfo \<times> 'd" where
  "ip_insertToDb my ip t d =
     (case stmt_at ''insert'' (t\<lparr>ti_ip_insert := snprintf_s (ti_ip_insert t) ip\<rparr>) of (h, t1) \<Rightarrow>
      case my_execute my h [Text (ti_ip_insert t1)] d of (ret, d1) \<Rightarrow>
      if ret \<noteq> SUCCESS then (FAILED, t1, d1) else (SUCCESS, t1, d1))"

text \<open>\<^verbatim>\<open>getRes\<close> moves the rows out of the object; on failure the caller's vector \<open>res\<close> stays as it is.\<close>

definition ip_getRes :: "'d mysql \<Rightarrow> ipInfo list \<Rightarrow> tblIpInfo \<Rightarrow> 'd \<Rightarrow> (fault + int \<times> ipInfo list \<times> tblIpInfo \<times> 'd) option" where
  "ip_getRes my res t d =
     map_option (\<lambda>r. rbind r (\<lambda>(ret, t1, d1).
       if ret \<noteq> SUCCESS then Inr (FAILED, res, t1, d1)
       else Inr (SUCCESS, ti_ipInfos t1, t1\<lparr>ti_ipInfos := []\<rparr>, d1))) (ip_getResFromDb my t d)"

definition ip_init where
  "ip_init my jp getenv t io d = init my jp getenv ip_setAllSql (ip_sqlBind my) t io d"

section \<open>The table of mail accounts\<close>

record tblEmailInfo = MysqlDataBase +
  te_emailInfos :: "emailInfo list"
  te_userName :: string
  te_passwd :: string
  te_smtpServer :: string
  te_recipient :: string
  te_mailFrom :: string

text \<open>The arrays have no initial value; \<open>junk\<close> is what is found there.\<close>

definition new_tblEmailInfo :: "string \<Rightarrow> tblEmailInfo" where
  "new_tblEmailInfo junk =
     MysqlDataBase.extend new_MysqlDataBase
       (tblEmailInfo.fields [] (take 100 junk) (take 100 (drop 100 junk)) (take 100 (drop 200 junk))
          (take 100 (drop 300 junk)) (take 100 (drop 400 junk)))"

definition em_bufs :: "tblEmailInfo \<Rightarrow> cell list" where
  "em_bufs t = [Text (te_userName t), Text (te_passwd t), Text (te_smtpServer t), Text (te_recipient t), Text (te_mailFrom t)]"

definition em_load :: "cell list \<Rightarrow> tblEmailInfo \<Rightarrow> tblEmailInfo" where
  "em_load cs t =
     (case cs of
        [u, p, s, r, m] \<Rightarrow> t\<lparr>te_userName := text_of u, te_passwd := text_of p, te_smtpServer := text_of s,
                              te_recipient := text_of r, te_mailFrom := text_of m\<rparr>
      | _ \<Rightarrow> t)"

definition em_push :: "tblEmailInfo \<Rightarrow> fault + tblEmailInfo" where
  "em_push t =
     rbind (buf_string (te_mailFrom t)) (\<lambda>m.
     rbind (buf_string (te_passwd t @ te_smtpServer t @ te_recipient t @ te_mailFrom t)) (\<lambda>p.
     rbind (buf_string (te_recipient t @ te_mailFrom t)) (\<lambda>r.
     rbind (buf_string (te_smtpServer t @ te_recipient t @ te_mailFrom t)) (\<lambda>s.
     rbind (buf_string (te_userName t @ te_passwd t @ te_smtpServer t @ te_recipient t @ te_mailFrom t)) (\<lambda>u.
     Inr (t\<lparr>te_emailInfos := te_emailInfos t @
            [\<lparr>em_userName = u, em_passwd = p, em_smtpServer = s, em_recipient = r, em_mailFrom = m\<rparr>]\<rparr>))))))"

definition em_getResFromDb :: "'d mysql \<Rightarrow> tblEmailInfo \<Rightarrow> 'd \<Rightarrow> (fault + int \<times> tblEmailInfo \<times> 'd) option" where
  "em_getResFromDb my t d =
     (case map_of (db_sqlStmts t) ''select'' of
        None \<Rightarrow> fetch_rows my None em_bufs em_load em_push t d
      | Some s \<Rightarrow> fetch_rows my (st_stmt s) em_bufs em_load em_push t d)"

text \<open>
  This \<^verbatim>\<open>sqlBind\<close> works on a copy of the map of statements after preparing them, so that the flags it
  sets on failure are lost; it also executes the query, once for the life of the object.
\<close>

definition em_sqlBind :: "'d mysql \<Rightarrow> tblEmailInfo \<Rightarrow> 'd \<Rightarrow> int \<times> tblEmailInfo \<times> 'd" where
  "em_sqlBind my t d =
     (case prepare_all my (db_sqlStmts t) d of (ret, stmts, d1) \<Rightarrow>
      let t1 = t\<lparr>db_sqlStmts := stmts\<rparr> in
      if ret \<noteq> SUCCESS then (FAILED, t1, d1)
      else case stmt_at ''select'' t1 of (stmt, copy) \<Rightarrow>
      case my_bind_result my stmt [COL_STRING 100, COL_STRING 100, COL_STRING 100, COL_STRING 100, COL_STRING 100] d1 of (r1, d2) \<Rightarrow>
      if r1 \<noteq> SUCCESS then (FAILED, t1, d2)
      else case my_execute my stmt [] d2 of (r2, d3) \<Rightarrow>
      if r2 \<noteq> SUCCESS then (FAILED, t1, d3)
      else case my_store_result my stmt d3 of (r3, d4) \<Rightarrow>
      if r3 \<noteq> SUCCESS then (FAILED, t1, d4) else (SUCCESS, t1, d4))"

text \<open>\<^verbatim>\<open>getRes\<close> returns all rows read so far, also when reading fails.\<close>

definition em_getRes :: "'d mysql \<Rightarrow> tblEmailInfo \<Rightarrow> 'd \<Rightarrow> (fault + emailInfo list \<times> tblEmailInfo \<times> 'd) option" where
  "em_getRes my t d =
     map_option (\<lambda>r. rbind r (\<lambda>(ret, t1, d1). Inr (te_emailInfos t1, t1, d1))) (em_getResFromDb my t d)"

definition em_setAllSql :: "tblEmailInfo \<Rightarrow> int \<times> tblEmailInfo" where
  "em_setAllSql t =
     (SUCCESS, setSql ''select'' ''select username,passwd,smtpServer,recipient,mailfrom from emailInfo'' t)"

definition em_init where
  "em_init my jp getenv t io d = init my jp getenv em_setAllSql (em_sqlBind my) t io d"

section \<open>The table of files\<close>

record downloadFile = MysqlDataBase +
  dl_fileName :: string
  dl_fileNameUpdate :: string
  dl_path :: string
  dl_dlFiles :: "downloadFile_row list"

definition new_downloadFile :: "string \<Rightarrow> downloadFile" where
  "new_downloadFile junk =
     MysqlDataBase.extend new_MysqlDataBase
       (downloadFile.fields (take 512 junk) (take 512 (drop 512 junk)) (take 512 (drop 1024 junk)) [])"

definition dl_setAllSql :: "downloadFile \<Rightarrow> int \<times> downloadFile" where
  "dl_setAllSql t =
     (let t1 = setSql ''select'' ''select fileName,path from downloadfile where send_flag=0 and fileSize<3000000000 limit 1'' t;
          t2 = setSql ''update'' ''update downloadfile set send_flag=1,upd_ts=now(),send_ts=now() where fileName=?'' t1 in
      (SUCCESS, t2))"

definition dl_sqlBind :: "'d mysql \<Rightarrow> downloadFile \<Rightarrow> 'd \<Rightarrow> int \<times> downloadFile \<times> 'd" where
  "dl_sqlBind my t d =
     (case prepare_all my (db_sqlStmts t) d of (ret, stmts, d1) \<Rightarrow>
      let t1 = t\<lparr>db_sqlStmts := stmts\<rparr> in
      if ret \<noteq> SUCCESS then (FAILED, t1, d1)
      else case stmt_at ''select'' t1 of (selectStmt, t2) \<Rightarrow>
      case stmt_at ''update'' t2 of (updateStmt, t3) \<Rightarrow>
      case my_bind_result my selectStmt [COL_STRING 512, COL_STRING 512] d1 of (r1, d2) \<Rightarrow>
      if r1 \<noteq> SUCCESS then (FAILED, t3, d2)
      else case my_bind_param my updateStmt [COL_STRING 512] d2 of (r2, d3) \<Rightarrow>
      if r2 \<noteq> SUCCESS then (FAILED, t3, d3) else (SUCCESS, t3, d3))"

definition dl_updateToDb :: "'d mysql \<Rightarrow> string \<Rightarrow> downloadFile \<Rightarrow> 'd \<Rightarrow> int \<times> downloadFile \<times> 'd" where
  "dl_updateToDb my fileName_update t d =
     (case stmt_at ''update'' (t\<lparr>dl_fileNameUpdate := snprintf_s (dl_fileNameUpdate t) fileName_update\<rparr>) of (h, t1) \<Rightarrow>
      case my_execute my h [Text (dl_fileNameUpdate t1)] d of (ret, d1) \<Rightarrow>
      if ret \<noteq> SUCCESS then (FAILED, t1, d1)
      else case my_commit my d1 of (ret', d2) \<Rightarrow>
      if ret' \<noteq> SUCCESS then (FAILED, t1, d2) else (SUCCESS, t1, d2))"

definition dl_bufs :: "downloadFile \<Rightarrow> cell list" where
  "dl_bufs t = [Text (dl_fileName t), Text (dl_path t)]"

definition dl_load :: "cell list \<Rightarrow> downloadFile \<Rightarrow> downloadFile" where
  "dl_load cs t = (case cs of [f, p] \<Rightarrow> t\<lparr>dl_fileName := text_of f, dl_path := text_of p\<rparr> | _ \<Rightarrow> t)"

definition dl_push :: "downloadFile \<Rightarrow> fault + downloadFile" where
  "dl_push t =
     rbind (buf_string (dl_fileName t @ dl_fileNameUpdate t @ dl_path t)) (\<lambda>f.
     rbind (buf_string (dl_path t)) (\<lambda>p.
     Inr (t\<lparr>dl_dlFiles := dl_dlFiles t @ [\<lparr>df_fileName = f, df_path = p\<rparr>]\<rparr>)))"

definition dl_getResFromDb :: "'d mysql \<Rightarrow> downloadFile \<Rightarrow> 'd \<Rightarrow> (fault + int \<times> downloadFile \<times> 'd) option" where
  "dl_getResFromDb my t d =
     (case stmt_at ''select'' t of (stmt, t1) \<Rightarrow>
      case my_execute my stmt [] d of (ret, d1) \<Rightarrow>
      if ret \<noteq> SUCCESS then Some (Inr (FAILED, t1, d1))
      else case my_store_result my stmt d1 of (ret', d2) \<Rightarrow>
      if ret' \<noteq> SUCCESS then Some (Inr (FAILED, t1, d2))
      else fetch_rows my stmt dl_bufs dl_load dl_push t1 d2)"

definition dl_getRes ::
    "'d mysql \<Rightarrow> downloadFile_row list \<Rightarrow> downloadFile \<Rightarrow> 'd
     \<Rightarrow> (fault + int \<times> downloadFile_row list \<times> downloadFile \<times> 'd) option" where
  "dl_getRes my res t d =
     map_option (\<lambda>r. rbind r (\<lambda>(ret, t1, d1).
       if ret \<noteq> SUCCESS then Inr (FAILED, res, t1, d1)
       else Inr (SUCCESS, dl_dlFiles t1, t1\<lparr>dl_dlFiles := []\<rparr>, d1))) (dl_getResFromDb my t d)"

definition dl_init where
  "dl_init my jp getenv t io d = init my jp getenv dl_setAllSql (dl_sqlBind my) t io d"

section \<open>Reading a result set\<close>

text \<open>
  The server delivers the rows \<open>rs\<close>, whatever the buffers hold, and then reports that there are no
  more.
\<close>

primrec delivers :: "'d mysql \<Rightarrow> nat option \<Rightarrow> cell list list \<Rightarrow> 'd \<Rightarrow> 'd \<Rightarrow> bool" where
  "delivers my h [] d d' \<longleftrightarrow> (\<forall>bufs. \<exists>cs. my_fetch my h bufs d = (100, cs, d'))"
| "delivers my h (r # rs) d d' \<longleftrightarrow> (\<exists>d1. (\<forall>bufs. my_fetch my h bufs d = (0, r, d1)) \<and> delivers my h rs d1 d')"

text \<open>
  What a table promises of its buffers: loading a row changes neither the rows read so far nor
  the part \<open>view\<close> of the object that the meaning of a row depends on, and a row that \<open>fits\<close> is appended.
\<close>

locale row_table =
  fixes bufs :: "'o \<Rightarrow> cell list" and load :: "cell list \<Rightarrow> 'o \<Rightarrow> 'o" and push :: "'o \<Rightarrow> fault + 'o"
    and items :: "'o \<Rightarrow> 'r list" and view :: "'o \<Rightarrow> 'v" and fits :: "'v \<Rightarrow> cell list \<Rightarrow> bool" and row :: "'v \<Rightarrow> cell list \<Rightarrow> 'r"
  assumes load_frame: "items (load cs t) = items t" "view (load cs t) = view t"
    and push_row: "fits (view t) cs \<Longrightarrow> \<exists>t'. push (load cs t) = Inr t' \<and> items t' = items t @ [row (view t) cs] \<and> view t' = view t"
begin

lemma fetch_all:
  assumes "delivers my h rs d d'" "list_all (fits (view t)) rs"
  shows "\<exists>t'. fetch_rows my h bufs load push t d = Some (Inr (SUCCESS, t', d')) \<and>
    items t' = items t @ map (row (view t)) rs \<and> view t' = view t"
  using assms
proof (induction rs arbitrary: t d)
  case Nil
  then obtain cs where "my_fetch my h (bufs t) d = (100, cs, d')" by auto
  then show ?case by (subst fetch_rows.simps) (simp add: load_frame)
next
  case (Cons r rs)
  then obtain d1 where d1: "my_fetch my h (bufs t) d = (0, r, d1)" "delivers my h rs d1 d'" by auto
  obtain t1 where t1: "push (load r t) = Inr t1" "items t1 = items t @ [row (view t) r]" "view t1 = view t"
    using push_row [of t r] Cons.prems(2) by auto
  have "list_all (fits (view t1)) rs" using Cons.prems(2) t1(3) by simp
  from Cons.IH [OF d1(2) this] t1 d1 show ?case by (subst fetch_rows.simps) simp
qed

lemma fetch_again:
  assumes "delivers my h [] d d"
  shows "\<exists>t'. fetch_rows my h bufs load push t d = Some (Inr (SUCCESS, t', d)) \<and> items t' = items t \<and> view t' = view t"
  using fetch_all [OF assms, of t] by simp

end

lemma c_str_append: "CHR 0x00 \<in> set s \<Longrightarrow> c_str (s @ u) = c_str s"
  by (simp add: c_str_def takeWhile_append1)

lemma buf_string_in: "CHR 0x00 \<in> set s \<Longrightarrow> buf_string (s @ u) = Inr (c_str s)"
  by (simp add: buf_string_def c_str_append)

subsection \<open>Addresses\<close>

abbreviation terminated :: "string \<Rightarrow> bool" where
  "terminated s \<equiv> CHR 0x00 \<in> set s"

definition ip_view :: "tblIpInfo \<Rightarrow> string \<times> (string \<times> sql_stmt) list" where
  "ip_view t = (ti_ip_insert t, db_sqlStmts t)"

fun ip_fits :: "string \<times> 's \<Rightarrow> cell list \<Rightarrow> bool" where
  "ip_fits v [Long r, Text i, Text s] \<longleftrightarrow> terminated i \<and> terminated (s @ fst v)"
| "ip_fits v _ \<longleftrightarrow> False"

fun_cases ip_fitsE: "ip_fits v cs"

text \<open>A row of strings, each of which ends within its buffer.\<close>

definition text_row :: "nat \<Rightarrow> cell list \<Rightarrow> bool" where
  "text_row n cs \<longleftrightarrow> length cs = n \<and> list_all (\<lambda>c. case c of Text s \<Rightarrow> terminated s | Long _ \<Rightarrow> False) cs"

lemma text_cell: "(case c of Text s \<Rightarrow> terminated s | Long _ \<Rightarrow> False) \<longleftrightarrow> (\<exists>s. c = Text s \<and> terminated s)"
  by (cases c) auto

text \<open>The flag of a row runs on into the array from which addresses are inserted.\<close>

definition ip_row :: "string \<times> 's \<Rightarrow> cell list \<Rightarrow> ipInfo" where
  "ip_row v cs =
     \<lparr>ip_rec_id = long_of (cs ! 0), ip_ip = c_str (text_of (cs ! 1)), ip_send_flag = c_str (text_of (cs ! 2) @ fst v)\<rparr>"

interpretation ipt: row_table ip_bufs ip_load ip_push ti_ipInfos ip_view ip_fits ip_row
proof
  show "ti_ipInfos (ip_load cs t) = ti_ipInfos t" "ip_view (ip_load cs t) = ip_view t" for cs t
    by (auto simp: ip_load_def ip_view_def split: list.splits)
  show "\<exists>t'. ip_push (ip_load cs t) = Inr t' \<and> ti_ipInfos t' = ti_ipInfos t @ [ip_row (ip_view t) cs] \<and> ip_view t' = ip_view t"
    if fit: "ip_fits (ip_view t) cs" for t cs
    using fit
    by (elim ip_fitsE)
      (auto simp: ip_load_def ip_push_def ip_row_def ip_view_def text_of_def long_of_def buf_string_in c_str_append buf_string_def)
qed

lemma ip_getRes_rows:
  assumes "map_of (db_sqlStmts t) ''select'' = Some st" "my_execute my (st_stmt st) [] d = (0, d1)"
    "my_store_result my (st_stmt st) d1 = (0, d2)" "delivers my (st_stmt st) rs d2 d'" "list_all (ip_fits (ip_view t)) rs"
  shows "\<exists>t'. ip_getRes my res t d = Some (Inr (SUCCESS, ti_ipInfos t @ map (ip_row (ip_view t)) rs, t', d')) \<and>
    ti_ipInfos t' = [] \<and> ip_view t' = ip_view t"
proof -
  obtain t' where t': "fetch_rows my (st_stmt st) ip_bufs ip_load ip_push t d2 = Some (Inr (SUCCESS, t', d'))"
    "ti_ipInfos t' = ti_ipInfos t @ map (ip_row (ip_view t)) rs" "ip_view t' = ip_view t"
    using ipt.fetch_all [OF assms(4,5)] by blast
  have "ip_view (t'\<lparr>ti_ipInfos := []\<rparr>) = ip_view t" using t'(3) by (simp add: ip_view_def)
  then show ?thesis using assms t' by (simp add: ip_getRes_def ip_getResFromDb_def stmt_at_def SUCCESS_def)
qed

subsection \<open>Mail accounts\<close>

definition em_fits :: "'s \<Rightarrow> cell list \<Rightarrow> bool" where
  "em_fits v cs \<longleftrightarrow> text_row 5 cs"

definition em_row :: "'s \<Rightarrow> cell list \<Rightarrow> emailInfo" where
  "em_row v cs =
     \<lparr>em_userName = c_str (text_of (cs ! 0)), em_passwd = c_str (text_of (cs ! 1)), em_smtpServer = c_str (text_of (cs ! 2)),
      em_recipient = c_str (text_of (cs ! 3)), em_mailFrom = c_str (text_of (cs ! 4))\<rparr>"

lemma em_fitsE:
  assumes "em_fits v cs"
  obtains u p s r m where "cs = [Text u, Text p, Text s, Text r, Text m]"
    "terminated u" "terminated p" "terminated s" "terminated r" "terminated m"
  using assms by (auto simp: em_fits_def text_row_def text_cell numeral_eq_Suc length_Suc_conv)

interpretation emt: row_table em_bufs em_load em_push te_emailInfos db_sqlStmts em_fits em_row
proof
  show "te_emailInfos (em_load cs t) = te_emailInfos t" "db_sqlStmts (em_load cs t) = db_sqlStmts t" for cs t
    by (auto simp: em_load_def split: list.splits)
  show "\<exists>t'. em_push (em_load cs t) = Inr t' \<and> te_emailInfos t' = te_emailInfos t @ [em_row (db_sqlStmts t) cs] \<and> db_sqlStmts t' = db_sqlStmts t"
    if fit: "em_fits (db_sqlStmts t) cs" for t cs
    using fit
  proof (rule em_fitsE)
    fix u p s r m
    assume "cs = [Text u, Text p, Text s, Text r, Text m]"
      "terminated u" "terminated p" "terminated s" "terminated r" "terminated m"
    then show ?thesis
      using buf_string_in [of m "[]"] by (simp add: em_load_def em_push_def em_row_def text_of_def buf_string_in)
  qed
qed

text \<open>The query of the mail accounts ran when the object was made: reading again adds nothing.\<close>

lemma em_getRes_rows:
  assumes "map_of (db_sqlStmts t) ''select'' = Some st" "delivers my (st_stmt st) rs d d'" "list_all (em_fits (db_sqlStmts t)) rs"
  shows "\<exists>t'. em_getRes my t d = Some (Inr (te_emailInfos t @ map (em_row (db_sqlStmts t)) rs, t', d')) \<and>
    te_emailInfos t' = te_emailInfos t @ map (em_row (db_sqlStmts t)) rs \<and> db_sqlStmts t' = db_sqlStmts t"
  using emt.fetch_all [OF assms(2,3)] assms(1) by (auto simp: em_getRes_def em_getResFromDb_def)

lemma em_getRes_again:
  assumes "map_of (db_sqlStmts t) ''select'' = Some st" "delivers my (st_stmt st) [] d d"
  shows "\<exists>t'. em_getRes my t d = Some (Inr (te_emailInfos t, t', d)) \<and> te_emailInfos t' = te_emailInfos t \<and> db_sqlStmts t' = db_sqlStmts t"
  using em_getRes_rows [OF assms] by simp

subsection \<open>Files\<close>

definition dl_fits :: "'s \<Rightarrow> cell list \<Rightarrow> bool" where
  "dl_fits v cs \<longleftrightarrow> text_row 2 cs"

definition dl_row :: "'s \<Rightarrow> cell list \<Rightarrow> downloadFile_row" where
  "dl_row v cs = \<lparr>df_fileName = c_str (text_of (cs ! 0)), df_path = c_str (text_of (cs ! 1))\<rparr>"

interpretation dlt: row_table dl_bufs dl_load dl_push dl_dlFiles db_sqlStmts dl_fits dl_row
proof
  show "dl_dlFiles (dl_load cs t) = dl_dlFiles t" "db_sqlStmts (dl_load cs t) = db_sqlStmts t" for cs t
    by (auto simp: dl_load_def split: list.splits)
  show "\<exists>t'. dl_push (dl_load cs t) = Inr t' \<and> dl_dlFiles t' = dl_dlFiles t @ [dl_row (db_sqlStmts t) cs] \<and> db_sqlStmts t' = db_sqlStmts t"
    if fit: "dl_fits (db_sqlStmts t) cs" for t cs
  proof -
    obtain f p where "cs = [Text f, Text p]" "terminated f" "terminated p"
      using fit by (auto simp: dl_fits_def text_row_def text_cell numeral_eq_Suc length_Suc_conv)
    then show ?thesis
      using buf_string_in [of p "[]"] by (simp add: dl_load_def dl_push_def dl_row_def text_of_def buf_string_in)
  qed
qed

lemma dl_getRes_rows:
  assumes "map_of (db_sqlStmts t) ''select'' = Some st" "my_execute my (st_stmt st) [] d = (0, d1)"
    "my_store_result my (st_stmt st) d1 = (0, d2)" "delivers my (st_stmt st) rs d2 d'" "list_all (dl_fits (db_sqlStmts t)) rs"
  shows "\<exists>t'. dl_getRes my res t d = Some (Inr (SUCCESS, dl_dlFiles t @ map (dl_row (db_sqlStmts t)) rs, t', d')) \<and>
    dl_dlFiles t' = [] \<and> db_sqlStmts t' = db_sqlStmts t"
  using dlt.fetch_all [OF assms(4,5)] assms(1-3)
  by (force simp: dl_getRes_def dl_getResFromDb_def stmt_at_def SUCCESS_def)

section \<open>Destroying a table\<close>

text \<open>Preparing the statements does not touch their flags unless it fails.\<close>

lemma prepare_all_flags:
  "prepare_all my m d = (r, m', d') \<Longrightarrow> r = SUCCESS \<Longrightarrow>
   map (\<lambda>e. (fst e, st_flag (snd e))) m' = map (\<lambda>e. (fst e, st_flag (snd e))) m"
  by (induction m arbitrary: d m' d') (auto simp: Let_def SUCCESS_def FAILED_def split: prod.splits if_splits)

lemma close_unset: "m \<noteq> [] \<Longrightarrow> st_flag (snd (hd m)) = None \<Longrightarrow> close_stmts my m d = Inl Uninitialized_read"
  by (cases m) simp_all

lemma stmt_at_present: "map_of (db_sqlStmts db) k \<noteq> None \<Longrightarrow> snd (stmt_at k db) = db"
  by (auto simp: stmt_at_def)

lemma em_sqlBind_stmts:
  assumes "em_sqlBind my t d = (0, t', d')"
  shows "map (\<lambda>e. (fst e, st_flag (snd e))) (db_sqlStmts t') = map (\<lambda>e. (fst e, st_flag (snd e))) (db_sqlStmts t)"
  using assms
  by (auto simp: em_sqlBind_def Let_def SUCCESS_def FAILED_def split: prod.splits if_splits dest!: prepare_all_flags)

lemma em_init_flags:
  assumes "em_init my jp getenv (new_tblEmailInfo junk) io d = Inr (0, t, io', d')"
  shows "map (\<lambda>e. (fst e, st_flag (snd e))) (db_sqlStmts t) = [(''select'', None)]"
proof -
  obtain t1 d1 d2 where b: "em_sqlBind my (snd (em_setAllSql t1)) d1 = (0, t, d2)" "db_sqlStmts t1 = []"
    using assms
    by (auto simp: em_init_def init_def initDb_def Let_def SUCCESS_def FAILED_def rbind_eq_Inr new_tblEmailInfo_def
        new_MysqlDataBase_def MysqlDataBase.extend_def em_setAllSql_def split: option.splits if_splits prod.splits)
  then show ?thesis using em_sqlBind_stmts [OF b(1)] by (simp add: em_setAllSql_def setSql_def Let_def)
qed

text \<open>The flag that the destructor reads was never assigned.\<close>

lemma em_delete_reads_unset:
  assumes "em_init my jp getenv (new_tblEmailInfo junk) io d = Inr (0, t, io', d')"
  shows "delete_MysqlDataBase my t d'' = Inl Uninitialized_read"
  using em_init_flags [OF assms] close_unset [of "db_sqlStmts t"] by (cases "db_sqlStmts t") (auto simp: delete_MysqlDataBase_def)

end
