(* ===== verification/Thread_Pool.thy ===== *)
theory Thread_Pool
  imports Data_Base
begin

text \<open>
  The pool that runs the keeper's functions (\<^verbatim>\<open>include/threadPool.hpp\<close>). The table of functions is a static
  map shared by all pools; the blocks that hold copied parameters are a table of allocations, so that
  freeing one twice is a fault. A function is any value \<open>'f\<close>. Whether \<^verbatim>\<open>pthread_create\<close> succeeds
  is decided by an oracle; the pool does not look at its result. A created thread is represented by
  what it was asked to run: its name, function and parameter. What its function does is an argument
  \<open>run\<close>: it stops the process with a fault, it returns (\<open>True\<close>), or it runs for ever (\<open>False\<close>); joining a
  thread whose function never returns blocks the caller for ever. Signals, thread names and the log are left out.
\<close>

section \<open>The code\<close>

record 'f funcAndPara =
  fp_func :: "'f option"
  fp_data :: "nat option"

text \<open>A block of memory: its bytes, or \<open>None\<close> once it is freed.\<close>

record 'f pool_state =
  tp_funcs :: "(string \<times> 'f funcAndPara) list"
  tp_blocks :: "8 word list option list"

record 'f thread =
  th_name :: string
  th_func :: "'f option"
  th_data :: "nat option"

record 'f threadPool =
  tp_threadNo :: int
  tp_threads :: "'f thread option list"

definition new_threadPool :: "int \<Rightarrow> 'f threadPool" where
  "new_threadPool nprocessors = \<lparr>tp_threadNo = nprocessors, tp_threads = []\<rparr>"

definition empty_func :: "'f funcAndPara" where
  "empty_func = \<lparr>fp_func = None, fp_data = None\<rparr>"

definition func_at :: "string \<Rightarrow> (string \<times> 'f funcAndPara) list \<Rightarrow> 'f funcAndPara" where
  "func_at name m = (case map_of m name of None \<Rightarrow> empty_func | Some f \<Rightarrow> f)"

definition setFunction :: "string \<Rightarrow> 'f \<Rightarrow> 8 word list option \<Rightarrow> int \<Rightarrow> 'f pool_state \<Rightarrow> 'f pool_state" where
  "setFunction name func para paraLen s =
     (let f = (func_at name (tp_funcs s))\<lparr>fp_func := Some func\<rparr> in
      if para \<noteq> None \<and> paraLen \<noteq> 0 then
        s\<lparr>tp_funcs := map_put name (f\<lparr>fp_data := Some (length (tp_blocks s))\<rparr>) (tp_funcs s),
          tp_blocks := tp_blocks s @ [map_option (take (nat paraLen)) para]\<rparr>
      else s\<lparr>tp_funcs := map_put name f (tp_funcs s)\<rparr>)"

text \<open>Looking up a name that is not there creates an empty entry.\<close>

definition getFun :: "string \<Rightarrow> 'f pool_state \<Rightarrow> 'f funcAndPara \<times> 'f pool_state" where
  "getFun i s =
     (case map_of (tp_funcs s) i of
        Some f \<Rightarrow> (f, s)
      | None \<Rightarrow> (empty_func, s\<lparr>tp_funcs := map_put i empty_func (tp_funcs s)\<rparr>))"

definition getFunNo :: "'f pool_state \<Rightarrow> int" where
  "getFunNo s = int (length (tp_funcs s))"

text \<open>A thread: it looks its function up by its own name. Calling an empty function throws.\<close>

definition startFunc :: "string \<Rightarrow> 'f pool_state \<Rightarrow> fault + 'f thread \<times> 'f pool_state" where
  "startFunc name s =
     (case getFun name s of (f, s1) \<Rightarrow>
      case fp_func f of
        None \<Rightarrow> Inl Uncaught_exception
      | Some _ \<Rightarrow> Inr (\<lparr>th_name = name, th_func = fp_func f, th_data = fp_data f\<rparr>, s1))"

text \<open>
  The two loops of \<^verbatim>\<open>start\<close>. A thread that could not be created leaves its identifier unset, and joining
  it reads the unset value.
\<close>

primrec create_threads :: "(nat \<Rightarrow> bool) \<Rightarrow> nat \<Rightarrow> string list \<Rightarrow> 'f thread option list \<Rightarrow> 'f pool_state \<Rightarrow> fault + 'f thread option list \<times> 'f pool_state" where
  "create_threads create_ok k [] ts s = Inr (ts, s)"
| "create_threads create_ok k (name # names) ts s =
     (if create_ok k
      then rbind (startFunc name s) (\<lambda>(t, s1). create_threads create_ok (k + 1) names (ts @ [Some t]) s1)
      else create_threads create_ok (k + 1) names (ts @ [None]) s)"

text \<open>The created threads run; a fault in one of them ends the process, also while \<^verbatim>\<open>start\<close> waits for another.\<close>

primrec run_threads :: "('f thread \<Rightarrow> fault + bool) \<Rightarrow> 'f thread option list \<Rightarrow> fault + bool option list" where
  "run_threads run [] = Inr []"
| "run_threads run (t # ts) =
     (case t of
        None \<Rightarrow> rbind (run_threads run ts) (\<lambda>rs. Inr (None # rs))
      | Some t' \<Rightarrow> rbind (run t') (\<lambda>r. rbind (run_threads run ts) (\<lambda>rs. Inr (Some r # rs))))"

text \<open>\<^verbatim>\<open>pthread_join\<close> on each thread in turn: \<open>False\<close> if one of them never ends.\<close>

primrec join_threads :: "bool option list \<Rightarrow> fault + bool" where
  "join_threads [] = Inr True"
| "join_threads (t # ts) =
     (case t of None \<Rightarrow> Inl Uninitialized_read | Some ended \<Rightarrow> if ended then join_threads ts else Inr False)"

text \<open>The first component of the result tells whether \<^verbatim>\<open>start\<close> returns; if not, the rest is the state in which it waits.\<close>

definition pool_start ::
    "(8 word list option list \<Rightarrow> 'f thread \<Rightarrow> fault + bool) \<Rightarrow> (nat \<Rightarrow> bool) \<Rightarrow> 'f threadPool \<Rightarrow> 'f pool_state
     \<Rightarrow> fault + bool \<times> 'f threadPool \<times> 'f pool_state" where
  "pool_start run create_ok p s =
     (if getFunNo s = 0 then Inr (True, p, s)
      else rbind (create_threads create_ok 0 (map fst (tp_funcs s)) (tp_threads p) s) (\<lambda>(ts, s1).
           rbind (run_threads (run (tp_blocks s1)) ts) (\<lambda>ends.
           rbind (join_threads ends) (\<lambda>joined.
           Inr (joined, p\<lparr>tp_threads := ts\<rparr>, s1)))))"

text \<open>The destructor frees the parameters of all functions, but leaves the pointers in the table.\<close>

definition free_block :: "nat option \<Rightarrow> 8 word list option list \<Rightarrow> fault + 8 word list option list" where
  "free_block p bs =
     (case p of
        None \<Rightarrow> Inr bs
      | Some i \<Rightarrow> if i < length bs \<and> bs ! i \<noteq> None then Inr (bs[i := None]) else Inl Use_after_free)"

primrec free_data :: "(string \<times> 'f funcAndPara) list \<Rightarrow> 8 word list option list \<Rightarrow> fault + 8 word list option list" where
  "free_data [] bs = Inr bs"
| "free_data (e # m) bs = rbind (free_block (fp_data (snd e)) bs) (free_data m)"

definition delete_threadPool :: "'f threadPool \<Rightarrow> 'f pool_state \<Rightarrow> fault + 'f pool_state" where
  "delete_threadPool p s =
     rbind (free_data (tp_funcs s) (tp_blocks s)) (\<lambda>bs. Inr (s\<lparr>tp_blocks := bs\<rparr>))"

section \<open>The table of functions\<close>

text \<open>The invariant of the table: keys in order without repetition, every entry a function.\<close>

definition pool_inv :: "'f pool_state \<Rightarrow> bool" where
  "pool_inv s \<longleftrightarrow> sorted_wrt (<) (map fst (tp_funcs s)) \<and>
     (\<forall>e \<in> set (tp_funcs s). fp_func (snd e) \<noteq> None)"

lemma pool_inv_empty: "pool_inv \<lparr>tp_funcs = [], tp_blocks = []\<rparr>"
  by (simp add: pool_inv_def)

lemma setFunction_inv: "pool_inv s \<Longrightarrow> pool_inv (setFunction name func para n s)"
  using sorted_map_put [of "tp_funcs s"]
  by (auto simp: pool_inv_def setFunction_def Let_def dest!: map_put_set)

lemma getFun_setFunction:
  "fp_func (fst (getFun i (setFunction name func para n s))) = (if i = name then Some func else fp_func (fst (getFun i s)))"
  by (auto simp: getFun_def setFunction_def Let_def split: option.splits)

section \<open>Starting\<close>

lemma startFunc_known:
  assumes "pool_inv s" "e \<in> set (tp_funcs s)"
  shows "startFunc (fst e) s = Inr (\<lparr>th_name = fst e, th_func = fp_func (snd e), th_data = fp_data (snd e)\<rparr>, s)"
proof -
  have "map_of (tp_funcs s) (fst e) = Some (snd e)"
    using assms strict_sorted_iff [of "map fst (tp_funcs s)"] by (simp add: pool_inv_def map_of_is_SomeI)
  moreover obtain f where "fp_func (snd e) = Some f" using assms by (auto simp: pool_inv_def)
  ultimately show ?thesis by (simp add: startFunc_def getFun_def)
qed

definition thread_of :: "string \<times> 'f funcAndPara \<Rightarrow> 'f thread" where
  "thread_of e = \<lparr>th_name = fst e, th_func = fp_func (snd e), th_data = fp_data (snd e)\<rparr>"

text \<open>The threads of the table, from the \<open>k\<close>-th call of \<^verbatim>\<open>pthread_create\<close> on.\<close>

primrec created :: "(nat \<Rightarrow> bool) \<Rightarrow> nat \<Rightarrow> (string \<times> 'f funcAndPara) list \<Rightarrow> 'f thread option list" where
  "created create_ok k [] = []"
| "created create_ok k (e # es) = (if create_ok k then Some (thread_of e) else None) # created create_ok (k + 1) es"

lemma create_threads_created:
  assumes "pool_inv s" "set es \<subseteq> set (tp_funcs s)"
  shows "create_threads create_ok k (map fst es) ts s = Inr (ts @ created create_ok k es, s)"
  using assms(2)
proof (induction es arbitrary: k ts)
  case (Cons e es)
  then show ?case using startFunc_known [OF assms(1), of e] by (simp add: thread_of_def)
qed simp

lemma pool_start_created:
  assumes "pool_inv s" "tp_funcs s \<noteq> []"
  shows "pool_start run create_ok (new_threadPool n) s =
    rbind (run_threads (run (tp_blocks s)) (created create_ok 0 (tp_funcs s))) (\<lambda>ends. rbind (join_threads ends) (\<lambda>joined.
      Inr (joined, \<lparr>tp_threadNo = n, tp_threads = created create_ok 0 (tp_funcs s)\<rparr>, s)))"
  using create_threads_created [OF assms(1) order_refl, of create_ok 0 "[]"] assms(2)
  by (simp add: pool_start_def getFunNo_def new_threadPool_def)

text \<open>If no function returns, neither does \<^verbatim>\<open>start\<close>.\<close>

lemma run_endless: "(\<And>t. run t \<noteq> Inr True) \<Longrightarrow> run_threads run ts = Inr es \<Longrightarrow> length es = length ts \<and> Some True \<notin> set es"
  by (induction ts arbitrary: es) (fastforce simp: rbind_eq_Inr split: option.splits)+

lemma join_waits: "Some True \<notin> set es \<Longrightarrow> es \<noteq> [] \<Longrightarrow> join_threads es \<noteq> Inr True"
  by (cases es) (auto split: option.splits)

lemma length_created [simp]: "length (created create_ok k es) = length es"
  by (induction es arbitrary: k) simp_all

lemma pool_start_endless:
  assumes "pool_inv s" "tp_funcs s \<noteq> []" "\<And>t. run (tp_blocks s) t \<noteq> Inr True"
  shows "pool_start run create_ok (new_threadPool n) s \<noteq> Inr (True, r)"
proof
  assume "pool_start run create_ok (new_threadPool n) s = Inr (True, r)"
  then obtain es where es: "run_threads (run (tp_blocks s)) (created create_ok 0 (tp_funcs s)) = Inr es"
      "join_threads es = Inr True"
    by (auto simp: pool_start_created [OF assms(1,2)] rbind_eq_Inr)
  have "length es = length (tp_funcs s)" "Some True \<notin> set es" using run_endless [OF assms(3) es(1)] by simp_all
  moreover from this(1) have "es \<noteq> []" using assms(2) by (metis length_0_conv)
  ultimately show False using join_waits [of es] es(2) by blast
qed

section \<open>Destroying\<close>

lemma free_block_keeps_None: "free_block p bs = Inr bs' \<Longrightarrow> bs ! i = None \<Longrightarrow> i < length bs \<Longrightarrow> bs' ! i = None \<and> length bs' = length bs"
  by (auto simp: free_block_def nth_list_update split: option.splits if_splits)

lemma free_data_keeps_None: "free_data m bs = Inr bs' \<Longrightarrow> bs ! i = None \<Longrightarrow> i < length bs \<Longrightarrow> bs' ! i = None \<and> i < length bs'"
proof (induction m arbitrary: bs)
  case (Cons e m)
  then show ?case by (auto simp: rbind_eq_Inr dest: free_block_keeps_None)
qed simp

lemma free_data_frees:
  "free_data m bs = Inr bs' \<Longrightarrow> e \<in> set m \<Longrightarrow> fp_data (snd e) = Some i \<Longrightarrow> i < length bs' \<and> bs' ! i = None"
proof (induction m arbitrary: bs)
  case (Cons a m)
  then obtain b1 where b1: "free_block (fp_data (snd a)) bs = Inr b1" "free_data m b1 = Inr bs'"
    by (auto simp: rbind_eq_Inr)
  show ?case
  proof (cases "e = a")
    case True
    then have "i < length b1 \<and> b1 ! i = None"
      using b1(1) Cons.prems(3) by (auto simp: free_block_def split: if_splits)
    then show ?thesis using free_data_keeps_None [OF b1(2)] by blast
  next
    case False
    then show ?thesis using Cons b1 by auto
  qed
qed simp

lemma free_data_freed:
  "e \<in> set m \<Longrightarrow> fp_data (snd e) = Some i \<Longrightarrow> \<not> (i < length bs \<and> bs ! i \<noteq> None) \<Longrightarrow> \<exists>x. free_data m bs = Inl x"
proof (induction m arbitrary: bs)
  case (Cons a m)
  show ?case
  proof (cases "free_block (fp_data (snd a)) bs")
    case (Inr b1)
    then have "\<not> (i < length b1 \<and> b1 ! i \<noteq> None)" and "e \<noteq> a"
      using Cons.prems by (auto simp: free_block_def nth_list_update split: option.splits if_splits)
    then show ?thesis using Cons Inr by simp
  qed simp
qed simp

text \<open>A second pool of the process frees the same blocks again.\<close>

lemma second_delete_faults:
  assumes "delete_threadPool p s = Inr s'" "e \<in> set (tp_funcs s)" "fp_data (snd e) \<noteq> None"
  shows "\<exists>x. delete_threadPool p' s' = Inl x"
proof -
  obtain i where i: "fp_data (snd e) = Some i" using assms(3) by auto
  obtain bs where bs: "free_data (tp_funcs s) (tp_blocks s) = Inr bs" "s' = s\<lparr>tp_blocks := bs\<rparr>"
    using assms(1) by (auto simp: delete_threadPool_def rbind_eq_Inr)
  have "bs ! i = None" using free_data_frees [OF bs(1) assms(2) i] by simp
  then obtain x where "free_data (tp_funcs s) bs = Inl x" using free_data_freed [OF assms(2) i, of bs] by blast
  then show ?thesis using bs(2) by (simp add: delete_threadPool_def)
qed

end
