(* ===== verification/Hm_Log.thy ===== *)
theory Hm_Log
  imports Data_Base
begin

text \<open>
  The log (\<^verbatim>\<open>include/hmLog.hpp\<close>, \<^verbatim>\<open>include/env.hpp\<close>): callers put formatted messages into a queue, a thread empties the queue
  and appends what is important enough to a file named after the day. Both sides work under one mutex, so
  each is one step of the model. Formatting of a caller's arguments, the clock, the environment and the path of the
  executable are arguments; the thread's waiting and its shutdown are left out.
\<close>

section \<open>The code\<close>

fun dec_nat :: "nat \<Rightarrow> string" where
  "dec_nat n = (if n < 10 then [] else dec_nat (n div 10)) @ [char_of (48 + n mod 10)]"

declare dec_nat.simps [simp del]

definition dec :: "int \<Rightarrow> string" where
  "dec i = (if i < 0 then ''-'' @ dec_nat (nat (- i)) else dec_nat (nat i))"

definition debug_level :: int where "debug_level = 0"
definition info_level :: int where "info_level = 1"
definition warn_level :: int where "warn_level = 2"
definition error_level :: int where "error_level = 3"
definition fatal_level :: int where "fatal_level = 4"

text \<open>\<^verbatim>\<open>log_str\<close>; for another number the map holds a null pointer.\<close>

definition log_str :: "int \<Rightarrow> fault + string" where
  "log_str level =
     (if level = debug_level then Inr ''debug'' else if level = info_level then Inr ''info''
      else if level = warn_level then Inr ''warn'' else if level = error_level then Inr ''error''
      else if level = fatal_level then Inr ''fatal'' else Inl Null_dereference)"

record log_entry =
  le_level :: int
  le_time :: string
  le_msg :: string

record tm =
  tm_year :: int
  tm_mon :: int
  tm_mday :: int
  tm_hour :: int
  tm_min :: int
  tm_sec :: int

record hmLog =
  hl_logs :: "log_entry list"
  hl_logfile :: "fileobj option"
  hl_processName :: string
  hl_current_log_level :: int
  hl_cfgPath :: string
  hl_logPath :: string
  hl_initFlag :: int

definition new_hmLog :: hmLog where
  "new_hmLog =
     \<lparr>hl_logs = [], hl_logfile = None, hl_processName = [], hl_current_log_level = info_level,
      hl_cfgPath = [], hl_logPath = [], hl_initFlag = 0\<rparr>"

definition env_getValue :: "(string \<Rightarrow> string option) \<Rightarrow> string \<Rightarrow> string" where
  "env_getValue getenv str = (case getenv (c_str str) of None \<Rightarrow> [] | Some v \<Rightarrow> v)"

text \<open>The file of a day: \<^verbatim>\<open>snprintf\<close> into an array of 100.\<close>

definition log_name :: "tm \<Rightarrow> hmLog \<Rightarrow> string" where
  "log_name now l =
     hl_logPath l @ ''/'' @
     take 99 (dec (tm_year now + 1900) @ ''-'' @ dec (tm_mon now + 1) @ ''-'' @ dec (tm_mday now) @ ''-'' @ c_str (hl_processName l)) @
     ''.log''"

definition setLogPath :: "tm \<Rightarrow> hmLog \<Rightarrow> fault + hmLog" where
  "setLogPath now l =
     (case hl_logfile l of
        None \<Rightarrow> Inl Null_dereference
      | Some f \<Rightarrow> Inr (l\<lparr>hl_logfile := Some (file_setPath (log_name now l) f)\<rparr>))"

text \<open>
  \<^verbatim>\<open>init\<close>: a local variable hides the argument \<open>level\<close>, so that only the environment decides the level.
\<close>

definition log_init ::
    "json_parser \<Rightarrow> (string \<Rightarrow> string option) \<Rightarrow> string option \<Rightarrow> tm \<Rightarrow> int \<Rightarrow> hmLog \<Rightarrow> stdio \<Rightarrow> fault + int \<times> hmLog \<times> stdio" where
  "log_init jp getenv exe now level l io =
     (case exe of
        None \<Rightarrow> Inr (-1, l, io)
      | Some path \<Rightarrow>
          if path = [] then Inr (-1, l, io)
          else
            rbind (buf_string (take 1024 path @ replicate (1024 - length path) (CHR 0x00))) (\<lambda>strProcessPath.
            case find_last_of strProcessPath (CHR ''/'') of
              None \<Rightarrow> Inl Null_dereference
            | Some p \<Rightarrow>
                let l1 = l\<lparr>hl_processName := drop (p + 1) strProcessPath\<rparr> in
                if hl_initFlag l1 = 0 then
                  let l2 = l1\<lparr>hl_cfgPath := env_getValue getenv ''cfg_path'',
                              hl_current_log_level := atoi (c_str (env_getValue getenv ''LOG_LEVEL''))\<rparr> in
                  rbind (file_getJsonString jp ''log_path'' (new_file (hl_cfgPath l2) ''at+'') io) (\<lambda>(path', io1).
                  let l3 = l2\<lparr>hl_logPath := path'\<rparr> in
                  Inr (SUCCESS, l3\<lparr>hl_logfile := Some (new_file (log_name now l3) ''at+''), hl_initFlag := 1\<rparr>, io1))
                else Inr (SUCCESS, l1, io)))"

definition setLevel :: "int \<Rightarrow> hmLog \<Rightarrow> hmLog" where
  "setLevel level l = l\<lparr>hl_current_log_level := level\<rparr>"

definition getLevel :: "hmLog \<Rightarrow> int" where
  "getLevel l = hl_current_log_level l"

text \<open>\<open>text\<close> is the formatted message; an empty one is not logged.\<close>

definition insertLog :: "int \<Rightarrow> int \<Rightarrow> int \<Rightarrow> string \<Rightarrow> string \<Rightarrow> int \<Rightarrow> string \<Rightarrow> tm \<Rightarrow> hmLog \<Rightarrow> hmLog" where
  "insertLog level pid tid fileName funcName line text now l =
     (let count_write = length text in
      if 0 \<ge> count_write then l
      else
        let logIn = \<lparr>le_level = level,
               le_time = take 254 (dec (tm_year now + 1900) @ ''-'' @ dec (tm_mon now + 1) @ ''-'' @ dec (tm_mday now) @ '' '' @
                                   dec (tm_hour now) @ '':'' @ dec (tm_min now) @ '':'' @ dec (tm_sec now)),
               le_msg = take 10239 (dec pid @ '':'' @ dec tid @ '':'' @ fileName @ '':'' @ funcName @ '':'' @ dec line @ '':'' @ text)\<rparr> in
        l\<lparr>hl_logs := hl_logs l @ [logIn]\<rparr>)"

text \<open>One line of the file, an array of 11240.\<close>

definition log_line :: "log_entry \<Rightarrow> fault + string" where
  "log_line e = rbind (log_str (le_level e)) (\<lambda>lv. Inr (take 11239 (lv @ '':'' @ le_time e @ '':'' @ le_msg e @ [CHR 0x0A])))"

text \<open>
  The loop of \<^verbatim>\<open>printLog\<close> over the messages taken from the queue; \<open>clock k\<close> is the time of the
  \<open>k\<close>-th look at the clock, \<open>out\<close> what is printed on the terminal.
\<close>

primrec print_logs :: "(nat \<Rightarrow> tm) \<Rightarrow> nat \<Rightarrow> log_entry list \<Rightarrow> hmLog \<Rightarrow> stdio \<Rightarrow> string \<Rightarrow> fault + hmLog \<times> stdio \<times> string" where
  "print_logs clock k [] l io out = Inr (l, io, out)"
| "print_logs clock k (e # es) l io out =
     (if le_level e \<ge> getLevel l then
        rbind (log_line e) (\<lambda>temBuf.
        let out' = (if getLevel l = 0 then out @ temBuf else out) in
        rbind (setLogPath (clock k) l) (\<lambda>l1.
        case hl_logfile l1 of
          None \<Rightarrow> Inl Null_dereference
        | Some f \<Rightarrow>
            rbind (file_write_n temBuf 11240 f io) (\<lambda>(_, io1).
            print_logs clock (k + 1) es l1 io1 out')))
      else print_logs clock k es l io out)"

definition printLog :: "(nat \<Rightarrow> tm) \<Rightarrow> hmLog \<Rightarrow> stdio \<Rightarrow> string \<Rightarrow> fault + hmLog \<times> stdio \<times> string" where
  "printLog clock l io out = print_logs clock 0 (hl_logs l) (l\<lparr>hl_logs := []\<rparr>) io out"

section \<open>The queue\<close>

abbreviation queued :: "int \<Rightarrow> string \<Rightarrow> hmLog \<Rightarrow> hmLog \<Rightarrow> bool" where
  "queued level text l l' \<equiv> (if text = [] then l' = l else \<exists>e. le_level e = level \<and> l' = l\<lparr>hl_logs := hl_logs l @ [e]\<rparr>)"

lemma insertLog_queued: "queued level text l (insertLog level pid tid fileName funcName line text now l)"
  by (auto simp: insertLog_def Let_def) (rule exI, rule conjI [rotated], rule refl, simp)

text \<open>Initialising a second time only finds the name of the program again.\<close>

lemma log_init_again:
  assumes "length p < 1024" "p \<noteq> []" "find_last_of (c_str p) (CHR ''/'') = Some k" "hl_initFlag l \<noteq> 0" "name = drop (k + 1) (c_str p)"
  shows "log_init jp getenv (Some p) now level l io = Inr (0, l\<lparr>hl_processName := name\<rparr>, io)"
  using assms by (simp add: log_init_def buf_string_small SUCCESS_def Let_def)

section \<open>What is written\<close>

text \<open>The lines of the messages that reach the level.\<close>

definition line_of :: "log_entry \<Rightarrow> string" where
  "line_of e = (case log_line e of Inl _ \<Rightarrow> [] | Inr s \<Rightarrow> c_str s)"

definition known_level :: "log_entry \<Rightarrow> bool" where
  "known_level e \<longleftrightarrow> le_level e \<in> {0..4}"

definition working_io :: "stdio \<Rightarrow> bool" where
  "working_io io \<longleftrightarrow> (\<forall>i. sd_fopen_ok io i \<and> sd_fprintf_ok io i \<and> sd_flush_ok io i)"

lemma log_line_known: "known_level e \<Longrightarrow> \<exists>s. log_line e = Inr s \<and> line_of e = c_str s"
proof -
  assume "known_level e"
  then have "le_level e = 0 \<or> le_level e = 1 \<or> le_level e = 2 \<or> le_level e = 3 \<or> le_level e = 4"
    by (auto simp: known_level_def)
  then show ?thesis
    by (auto simp: log_line_def line_of_def log_str_def debug_level_def info_level_def warn_level_def error_level_def fatal_level_def)
qed

text \<open>Within a day, the file of the day grows by exactly these lines.\<close>

lemma print_logs_appends:
  assumes "working_io io" "list_all known_level es" "hl_logfile l = Some f" "append_mode f"
    and "\<And>i. c_str (log_name (clock i) l) = p"
  shows "rsafe (print_logs clock k es l io out) (\<lambda>(l', io', _).
     hl_logs l' = hl_logs l \<and> getLevel l' = getLevel l \<and>
     content_of io' p = content_of io p @ concat (map line_of (filter (\<lambda>e. getLevel l \<le> le_level e) es)))"
  using assms
proof (induction es arbitrary: k l io out f)
  case (Cons e es)
  show ?case
  proof (cases "getLevel l \<le> le_level e")
    case True
    obtain s where s: "log_line e = Inr s" "line_of e = c_str s" using Cons.prems(2) log_line_known by auto
    let ?f = "file_setPath (log_name (clock k) l) f" and ?l = "l\<lparr>hl_logfile := Some (file_setPath (log_name (clock k) l) f)\<rparr>"
    have path: "c_str (f_path ?f) = p" "append_mode ?f" using Cons.prems(4,5) by (simp_all add: file_setPath_def)
    have "rsafe (file_write s ?f io) (\<lambda>(ret, io'). ret = 0 \<and> sd_files io' = (sd_files io)(p \<mapsto> content_of io p @ c_str s) \<and>
       sd_fopen_ok io' = sd_fopen_ok io \<and> sd_fprintf_ok io' = sd_fprintf_ok io \<and> sd_flush_ok io' = sd_flush_ok io)"
      using file_write_appends [of ?f io s] path Cons.prems(1) by (simp add: working_io_def)
    then obtain io1 where w: "file_write s ?f io = Inr (0, io1)" "sd_files io1 = (sd_files io)(p \<mapsto> content_of io p @ c_str s)"
      and ok: "working_io io1"
      using Cons.prems(1) by (auto simp: rsafe_iff working_io_def)
    have name: "log_name n ?l = log_name n l" for n by (simp add: log_name_def)
    have "rsafe (print_logs clock (k + 1) es ?l io1 out') (\<lambda>(l', io', _).
     hl_logs l' = hl_logs ?l \<and> getLevel l' = getLevel ?l \<and>
     content_of io' p = content_of io1 p @ concat (map line_of (filter (\<lambda>e. getLevel ?l \<le> le_level e) es)))" for out'
      by (rule Cons.IH) (use Cons.prems(2,5) ok path name in simp_all)
    then show ?thesis using True s w Cons.prems(3)
      by (simp add: setLogPath_def file_write_n_eq getLevel_def)
  next
    case False
    then show ?thesis using Cons by simp
  qed
qed simp

end
