(* ===== verification/Keeper.thy ===== *)
theory Keeper
  imports Tables Thread_Pool Hm_Log
begin

text \<open>
  The keeper: finding the machine's public address (\<^verbatim>\<open>include/curl.hpp\<close>), the functions its threads run
  (\<^verbatim>\<open>homeKeeper/workFunctions.hpp\<close>) and its start (\<^verbatim>\<open>homeKeeper/keeper.cpp\<close>). The functions are endless loops around a
  body; the model is the body, one round at a time, and the rounds for a given sequence of answers
  of the network. Waiting and logging are left out.
\<close>

section \<open>Fetching a page\<close>

text \<open>The global variables of \<^verbatim>\<open>curl.hpp\<close>.\<close>

record curl_globals =
  cg_result :: string
  cg_shift :: int
  cg_init_flag :: int

text \<open>
  One transfer: whether a handle could be made, the blocks the page arrives in, and the final code.
\<close>

record transfer =
  tr_init :: bool
  tr_blocks :: "string list"
  tr_code :: int

text \<open>
  The block is copied into memory of its own size and then read as a C string, which continues
  into whatever follows; \<open>after\<close> gives the bytes found there. Every block replaces the previous one.
\<close>

definition copy_data :: "(string \<Rightarrow> string) \<Rightarrow> string \<Rightarrow> curl_globals \<Rightarrow> fault + curl_globals" where
  "copy_data after ptr g =
     (let res_size = int (length ptr) in
      rbind (buf_string (ptr @ after ptr)) (\<lambda>s.
      Inr (g\<lparr>cg_shift := cg_shift g + res_size, cg_result := s\<rparr>)))"

primrec receive :: "(string \<Rightarrow> string) \<Rightarrow> string list \<Rightarrow> curl_globals \<Rightarrow> fault + curl_globals" where
  "receive after [] g = Inr g"
| "receive after (b # bs) g = rbind (copy_data after b g) (receive after bs)"

text \<open>The loop that looks for the end of the address; it answers 0 if there is none.\<close>

primrec scan_position :: "nat \<Rightarrow> string \<Rightarrow> nat" where
  "scan_position i [] = 0"
| "scan_position i (c # cs) = (if \<not> digit c \<and> c \<noteq> CHR ''.'' then i else scan_position (i + 1) cs)"

definition curlUtil :: "(string \<Rightarrow> string) \<Rightarrow> transfer \<Rightarrow> curl_globals \<Rightarrow> fault + string \<times> curl_globals" where
  "curlUtil after tr g =
     (let g1 = (if cg_init_flag g = 0 then g\<lparr>cg_init_flag := 1\<rparr> else g) in
      rbind (if tr_init tr then receive after (tr_blocks tr) g1 else Inr g1) (\<lambda>g2.
      if tr_init tr \<and> tr_code tr \<noteq> 0 then Inr (''failed'', g2)
      else Inr (take (scan_position 0 (cg_result g2)) (cg_result g2), g2)))"

section \<open>Recording the address\<close>

text \<open>One round of the inner loop of \<^verbatim>\<open>getIp\<close>.\<close>

definition getIp_round ::
    "'d mysql \<Rightarrow> (string \<Rightarrow> string) \<Rightarrow> transfer \<Rightarrow> curl_globals \<times> tblIpInfo \<times> 'd \<Rightarrow> (fault + curl_globals \<times> tblIpInfo \<times> 'd) option" where
  "getIp_round my after tr = (\<lambda>(g, t, d).
     case curlUtil after tr g of
       Inl e \<Rightarrow> Some (Inl e)
     | Inr (resNew, g1) \<Rightarrow>
         if resNew = ''failed'' then Some (Inr (g1, t, d))
         else map_option (\<lambda>r. rbind r (\<lambda>(ret, infos, t1, d1).
                if ret \<noteq> SUCCESS then Inr (g1, t1, d1)
                else if infos = [] \<or> ip_ip (hd infos) \<noteq> resNew
                     then case ip_insertToDb my resNew t1 d1 of (_, t2, d2) \<Rightarrow> Inr (g1, t2, d2)
                     else Inr (g1, t1, d1))) (ip_getRes my [] t d))"

text \<open>The rounds for a sequence of transfers.\<close>

primrec getIp_rounds ::
    "'d mysql \<Rightarrow> (string \<Rightarrow> string) \<Rightarrow> transfer list \<Rightarrow> curl_globals \<times> tblIpInfo \<times> 'd \<Rightarrow> (fault + curl_globals \<times> tblIpInfo \<times> 'd) option" where
  "getIp_rounds my after [] s = Some (Inr s)"
| "getIp_rounds my after (tr # trs) s =
     (case getIp_round my after tr s of
        None \<Rightarrow> None
      | Some (Inl e) \<Rightarrow> Some (Inl e)
      | Some (Inr s1) \<Rightarrow> getIp_rounds my after trs s1)"

text \<open>
  The part of the outer loop before the inner one: a table is made and initialised; if that fails, the
  table is destroyed and the loop starts again (\<open>None\<close>).
\<close>

definition getIp_enter where
  "getIp_enter my jp getenv junk io d =
     rbind (ip_init my jp getenv (new_tblIpInfo junk) io d) (\<lambda>(ret, t, io1, d1).
     if ret \<noteq> SUCCESS then rbind (delete_MysqlDataBase my t d1) (\<lambda>d2. Inr (None, io1, d2))
     else Inr (Some t, io1, d1))"

section \<open>Mailing the address\<close>

text \<open>The same for \<^verbatim>\<open>sendEmail\<close>, which has two tables; they are destroyed in the opposite order.\<close>

definition sendEmail_enter where
  "sendEmail_enter my jp getenv junk_em junk_ip io d =
     rbind (em_init my jp getenv (new_tblEmailInfo junk_em) io d) (\<lambda>(ret, em, io1, d1).
     if ret \<noteq> SUCCESS then rbind (delete_MysqlDataBase my em d1) (\<lambda>d2. Inr (None, io1, d2))
     else
       rbind (ip_init my jp getenv (new_tblIpInfo junk_ip) io1 d1) (\<lambda>(ret', t, io2, d2).
       if ret' \<noteq> SUCCESS then
         rbind (delete_MysqlDataBase my t d2) (\<lambda>d3.
         rbind (delete_MysqlDataBase my em d3) (\<lambda>d4. Inr (None, io2, d4)))
       else Inr (Some (em, t), io2, d2)))"

text \<open>The mail to one account; every mail has a sender object and a transfer of its own.\<close>

definition mail_ip :: "mimetic \<Rightarrow> file_system \<Rightarrow> curl \<Rightarrow> string \<Rightarrow> emailInfo \<Rightarrow> fault + bool \<times> attempt list \<times> EmailSender" where
  "mail_ip mm fs cu ip e =
     (let m1 = SetSmtpServer (em_userName e) (em_passwd e) (em_smtpServer e) ''25'' (new_EmailSender ''gb2312'') in
      rbind (SetSendName (em_mailFrom e) m1) (\<lambda>m2.
      SendMail mm fs cu
        (SetBodyContent mm (ip @ '' url is '' @ ip @ '':19870'')
          (SetSubject ''ip changed'' (AddRecvMail (em_recipient e) (SetSendMail (em_mailFrom e) m2))))))"

text \<open>The loop over the accounts; \<open>result\<close> is joined by \<^verbatim>\<open>|\<close>. The last component lists the results of the mails.\<close>

primrec mail_loop ::
    "mimetic \<Rightarrow> file_system \<Rightarrow> (nat \<Rightarrow> curl) \<Rightarrow> string \<Rightarrow> nat \<Rightarrow> emailInfo list \<Rightarrow> bool \<Rightarrow> bool list \<Rightarrow> fault + bool \<times> bool list" where
  "mail_loop mm fs cu ip k [] result sent = Inr (result, sent)"
| "mail_loop mm fs cu ip k (e # es) result sent =
     rbind (mail_ip mm fs (cu k) ip e) (\<lambda>(r, _, _).
     mail_loop mm fs cu ip (k + 1) es (r \<or> result) (sent @ [r]))"

text \<open>
  One round of the inner loop of \<^verbatim>\<open>sendEmail\<close>. The first component of the result tells whether the
  round leaves the loop, the second lists the results of the mails it sent.
\<close>

definition sendEmail_round ::
    "'d mysql \<Rightarrow> mimetic \<Rightarrow> file_system \<Rightarrow> (nat \<Rightarrow> curl) \<Rightarrow> tblEmailInfo \<Rightarrow> tblIpInfo \<Rightarrow> 'd
     \<Rightarrow> (fault + bool \<times> bool list \<times> tblEmailInfo \<times> tblIpInfo \<times> 'd) option" where
  "sendEmail_round my mm fs cu em t d =
     (case ip_getRes my [] t d of
        None \<Rightarrow> None
      | Some (Inl e) \<Rightarrow> Some (Inl e)
      | Some (Inr (ret, infos, t1, d1)) \<Rightarrow>
          if ret = FAILED then Some (Inr (False, [], em, t1, d1))
          else if infos = [] then Some (Inr (False, [], em, t1, d1))
          else if ip_send_flag (hd infos) = ''0'' then
            map_option (\<lambda>r. rbind r (\<lambda>(res, em1, d2).
              rbind (mail_loop mm fs cu (ip_ip (hd infos)) 0 res True []) (\<lambda>(result, sent).
              if result then
                case ip_updateToDb my (ip_rec_id (hd infos)) t1 d2 of (_, t2, d3) \<Rightarrow> Inr (False, sent, em1, t2, d3)
              else Inr (True, sent, em1, t1, d2)))) (em_getRes my em d1)
          else Some (Inr (False, [], em, t1, d1)))"

section \<open>Mailing files\<close>

definition sendFile_enter where
  "sendFile_enter my jp getenv junk_em junk_dl io d =
     rbind (em_init my jp getenv (new_tblEmailInfo junk_em) io d) (\<lambda>(ret, em, io1, d1).
     if ret \<noteq> SUCCESS then rbind (delete_MysqlDataBase my em d1) (\<lambda>d2. Inr (None, io1, d2))
     else
       rbind (dl_init my jp getenv (new_downloadFile junk_dl) io1 d1) (\<lambda>(ret', t, io2, d2).
       if ret' \<noteq> SUCCESS then
         rbind (delete_MysqlDataBase my t d2) (\<lambda>d3.
         rbind (delete_MysqlDataBase my em d3) (\<lambda>d4. Inr (None, io2, d4)))
       else Inr (Some (em, t), io2, d2)))"

definition mail_file :: "mimetic \<Rightarrow> file_system \<Rightarrow> curl \<Rightarrow> downloadFile_row \<Rightarrow> emailInfo \<Rightarrow> fault + bool \<times> attempt list \<times> EmailSender" where
  "mail_file mm fs cu f e =
     (let m1 = SetSmtpServer (em_userName e) (em_passwd e) (em_smtpServer e) ''25'' (new_EmailSender ''gb2312'') in
      rbind (SetSendName (em_mailFrom e) m1) (\<lambda>m2.
      SendMail mm fs cu
        (AddAttachment (df_path f)
          (SetSubject (df_fileName f) (AddRecvMail (em_recipient e) (SetSendMail (em_mailFrom e) m2))))))"

primrec mail_file_loop ::
    "mimetic \<Rightarrow> file_system \<Rightarrow> (nat \<Rightarrow> curl) \<Rightarrow> downloadFile_row list \<Rightarrow> nat \<Rightarrow> emailInfo list \<Rightarrow> bool \<Rightarrow> fault + bool" where
  "mail_file_loop mm fs cu files k [] result = Inr result"
| "mail_file_loop mm fs cu files k (e # es) result =
     rbind (arr_get files 0) (\<lambda>f.
     rbind (mail_file mm fs (cu k) f e) (\<lambda>(r, _, _).
     mail_file_loop mm fs cu files (k + 1) es (r \<and> result)))"

text \<open>One round of the inner loop of \<^verbatim>\<open>sendFile\<close>; \<open>downloadFiles\<close> lives outside the loop.\<close>

definition sendFile_round ::
    "'d mysql \<Rightarrow> mimetic \<Rightarrow> file_system \<Rightarrow> (nat \<Rightarrow> curl) \<Rightarrow> downloadFile_row list \<Rightarrow> tblEmailInfo \<Rightarrow> downloadFile \<Rightarrow> 'd
     \<Rightarrow> (fault + bool \<times> downloadFile_row list \<times> tblEmailInfo \<times> downloadFile \<times> 'd) option" where
  "sendFile_round my mm fs cu downloadFiles em t d =
     (case dl_getRes my downloadFiles t d of
        None \<Rightarrow> None
      | Some (Inl e) \<Rightarrow> Some (Inl e)
      | Some (Inr (ret, files, t1, d1)) \<Rightarrow>
          if ret = FAILED then Some (Inr (False, files, em, t1, d1))
          else map_option (\<lambda>r. rbind r (\<lambda>(res, em1, d2).
                 rbind (mail_file_loop mm fs cu files 0 res True) (\<lambda>result.
                 if result then
                   rbind (arr_get files 0) (\<lambda>f.
                   case dl_updateToDb my (df_fileName f) t1 d2 of (_, t2, d3) \<Rightarrow> Inr (False, files, em1, t2, d3))
                 else Inr (True, files, em1, t1, d2)))) (em_getRes my em d1))"

section \<open>The mail server\<close>

text \<open>
  \<^verbatim>\<open>mailServer/mailServer.cpp\<close>: a program of its own with a loop of its own; the text of its mails never changes.
\<close>

definition mail_new :: "mimetic \<Rightarrow> file_system \<Rightarrow> curl \<Rightarrow> emailInfo \<Rightarrow> fault + bool \<times> attempt list \<times> EmailSender" where
  "mail_new mm fs cu e =
     (let m1 = SetSmtpServer (em_userName e) (em_passwd e) (em_smtpServer e) ''25'' (new_EmailSender ''gb2312'') in
      rbind (SetSendName (em_mailFrom e) m1) (\<lambda>m2.
      SendMail mm fs cu
        (SetBodyContent mm ''new''
          (SetSubject ''ip changed'' (AddRecvMail (em_recipient e) (SetSendMail (em_mailFrom e) m2))))))"

primrec mailServer_loop ::
    "mimetic \<Rightarrow> file_system \<Rightarrow> (nat \<Rightarrow> curl) \<Rightarrow> nat \<Rightarrow> emailInfo list \<Rightarrow> bool list \<Rightarrow> fault + bool list" where
  "mailServer_loop mm fs cu k [] sent = Inr sent"
| "mailServer_loop mm fs cu k (e # es) sent =
     rbind (mail_new mm fs (cu k) e) (\<lambda>(r, _, _). mailServer_loop mm fs cu (k + 1) es (sent @ [r]))"

text \<open>A round: the table is made, read and destroyed. \<open>None\<close> in the result means that the program ends.\<close>

definition mailServer_round where
  "mailServer_round my jp getenv mm fs cu junk io d =
     (case em_init my jp getenv (new_tblEmailInfo junk) io d of
        Inl e \<Rightarrow> Some (Inl e)
      | Inr (ret, em, io1, d1) \<Rightarrow>
          if ret \<noteq> SUCCESS then Some (rbind (delete_MysqlDataBase my em d1) (\<lambda>d2. Inr (None, io1, d2)))
          else map_option (\<lambda>r. rbind r (\<lambda>(res, em1, d2).
                 rbind (mailServer_loop mm fs cu 0 res []) (\<lambda>sent.
                 rbind (delete_MysqlDataBase my em1 d2) (\<lambda>d3. Inr (Some sent, io1, d3))))) (em_getRes my em d1))"

section \<open>Starting the keeper\<close>

datatype work = getIp | sendEmail

definition funcMap :: "(string \<times> work) list" where
  "funcMap = [(''getIp'', getIp), (''sendEmail'', sendEmail)]"

definition register_all :: "(string \<times> work) list \<Rightarrow> work pool_state \<Rightarrow> work pool_state" where
  "register_all fs s = foldl (\<lambda>s (name, f). setFunction name f None 0 s) s fs"

text \<open>
  Both functions are endless loops (\<^verbatim>\<open>while (1)\<close>, left by nothing but the outer loop's next iteration): a thread
  runs for ever, unless one of its rounds stops the process with the fault that \<open>crash\<close> gives.
\<close>

definition work_run :: "(work \<Rightarrow> fault option) \<Rightarrow> 8 word list option list \<Rightarrow> work thread \<Rightarrow> fault + bool" where
  "work_run crash blocks t =
     (case th_func t of
        None \<Rightarrow> Inl Uncaught_exception
      | Some w \<Rightarrow> (case crash w of Some e \<Rightarrow> Inl e | None \<Rightarrow> Inr False))"

text \<open>The first component of the result is what \<^verbatim>\<open>start\<close> returns, \<open>None\<close> if it waits in \<^verbatim>\<open>pool.start()\<close> for ever.\<close>

definition keeper_start ::
    "json_parser \<Rightarrow> (string \<Rightarrow> string option) \<Rightarrow> string option \<Rightarrow> tm \<Rightarrow> int \<Rightarrow> (work \<Rightarrow> fault option) \<Rightarrow> (nat \<Rightarrow> bool) \<Rightarrow> hmLog
     \<Rightarrow> stdio \<Rightarrow> work pool_state \<Rightarrow> fault + int option \<times> work thread option list \<times> hmLog \<times> stdio \<times> work pool_state" where
  "keeper_start jp getenv exe now nproc crash create_ok l io s =
     rbind (log_init jp getenv exe now 0 l io) (\<lambda>(ret, l1, io1).
     if ret \<noteq> 0 then Inr (Some (-1), [], l1, io1, s)
     else
       let s1 = register_all funcMap s in
       rbind (pool_start (work_run crash) create_ok (new_threadPool nproc) s1) (\<lambda>(joined, p, s2).
       if \<not> joined then Inr (None, tp_threads p, l1, io1, s2)
       else
         rbind (delete_threadPool p s2) (\<lambda>s3.
         Inr (Some 0, tp_threads p, l1, io1, s3))))"

section \<open>The address in a page\<close>

abbreviation address_char :: "char \<Rightarrow> bool" where
  "address_char c \<equiv> digit c \<or> c = CHR ''.''"

lemma scan_position_found:
  "list_all address_char a \<Longrightarrow> \<not> address_char c \<Longrightarrow> scan_position i (a @ c # rest) = i + length a"
  by (induction a arbitrary: i) auto

lemma scan_position_none: "list_all address_char a \<Longrightarrow> scan_position i a = 0"
  by (induction a arbitrary: i) auto

lemma nul_not_address: "\<not> address_char (CHR 0x00)"
  by (simp add: digit_def Let_def)

lemma address_no_nul: "list_all address_char a \<Longrightarrow> CHR 0x00 \<notin> set a"
  using nul_not_address by (auto simp: list_all_iff)

lemma copy_data_text:
  assumes "CHR 0x00 \<notin> set b" "terminated (after b)"
  shows "copy_data after b g = Inr (g\<lparr>cg_shift := cg_shift g + int (length b), cg_result := b @ c_str (after b)\<rparr>)"
proof -
  have "c_str (b @ after b) = b @ c_str (after b)" using assms(1) by (auto simp: c_str_def takeWhile_append)
  then show ?thesis using assms(2) by (auto simp: copy_data_def buf_string_def)
qed

text \<open>
  A page that arrives in one block and has something after the address gives the address, whatever
  follows the block in memory.
\<close>

lemma curlUtil_address:
  assumes "list_all address_char a" "\<not> address_char c" "c \<noteq> CHR 0x00" "CHR 0x00 \<notin> set rest"
    and "terminated (after (a @ c # rest))" "tr_init tr" "tr_blocks tr = [a @ c # rest]" "tr_code tr = 0"
  shows "\<exists>g'. curlUtil after tr g = Inr (a, g')"
proof -
  have "CHR 0x00 \<notin> set (a @ c # rest)" using address_no_nul [OF assms(1)] assms(3,4) by auto
  note copied = copy_data_text [where after = after, OF this assms(5)]
  show ?thesis using assms by (simp add: curlUtil_def Let_def copied scan_position_found)
qed

section \<open>A round of getIp\<close>

lemma getIp_round_records:
  assumes "map_of (db_sqlStmts t) ''select'' = Some st" "map_of (db_sqlStmts t) ''insert'' = Some sti" "ti_ipInfos t = []"
    and "my_execute my (st_stmt st) [] d = (0, d1)" "my_store_result my (st_stmt st) d1 = (0, d2)"
    and "delivers my (st_stmt st) rs d2 d3" "list_all (ip_fits (ip_view t)) rs"
    and "curlUtil after tr g = Inr (a, g1)" "a \<noteq> ''failed''"
  shows "\<exists>t'. getIp_round my after tr (g, t, d) = Some (Inr (g1, t',
      if rs = [] \<or> c_str (text_of (hd rs ! 1)) \<noteq> a
      then snd (my_execute my (st_stmt sti) [Text (snprintf_s (ti_ip_insert t) a)] d3) else d3)) \<and>
    ti_ipInfos t' = [] \<and> db_sqlStmts t' = db_sqlStmts t"
proof -
  obtain t1 where t1: "ip_getRes my [] t d = Some (Inr (SUCCESS, map (ip_row (ip_view t)) rs, t1, d3))"
    "ti_ipInfos t1 = []" "ip_view t1 = ip_view t"
    using ip_getRes_rows [OF assms(1,4-7), of "[]"] assms(3) by auto
  have hd: "rs \<noteq> [] \<Longrightarrow> ip_ip (hd (map (ip_row (ip_view t)) rs)) = c_str (text_of (hd rs ! 1))"
    by (cases rs) (simp_all add: ip_row_def)
  show ?thesis
  proof (cases "rs = [] \<or> c_str (text_of (hd rs ! 1)) \<noteq> a")
    case True
    then have "map (ip_row (ip_view t)) rs = [] \<or> ip_ip (hd (map (ip_row (ip_view t)) rs)) \<noteq> a" using hd by auto
    then show ?thesis
      using True assms(2,8,9) t1
      by (auto simp: getIp_round_def ip_insertToDb_def stmt_at_def ip_view_def split: prod.splits)
  next
    case False
    then show ?thesis using assms(8,9) t1 hd by (auto simp: getIp_round_def ip_view_def)
  qed
qed

section \<open>A round of sendEmail\<close>

lemma text_mail_total:
  "\<exists>r as m. (let m1 = SetSmtpServer (em_userName e) (em_passwd e) (em_smtpServer e) ''25'' (new_EmailSender ''gb2312'') in
      rbind (SetSendName (em_mailFrom e) m1) (\<lambda>m2.
      SendMail mm fs cu
        (SetBodyContent mm body (SetSubject subject (AddRecvMail (em_recipient e) (SetSendMail (em_mailFrom e) m2)))))) = Inr (r, as, m)"
proof -
  let ?m = "SetBodyContent mm body
          (SetSubject subject (AddRecvMail (em_recipient e) (SetSendMail (em_mailFrom e)
            ((SetSmtpServer (em_userName e) (em_passwd e) (em_smtpServer e) ''25'' (new_EmailSender ''gb2312''))
              \<lparr>m_strSendName := ''=?'' @ ''gb2312'' @ ''?B?'' @ spec_encode (bytes_of (em_mailFrom e)) @ ''?=''\<rparr>))))"
  have "readable_text fs ?m"
    by (simp add: readable_text_def SetBodyContent_def SetSubject_def AddRecvMail_def SetSendMail_def SetSmtpServer_def new_EmailSender_def)
  from SendMail_spec [OF this, of mm cu] show ?thesis
    by (auto simp: SetSendName_total SetSmtpServer_def new_EmailSender_def Let_def)
qed

lemma mail_ip_total: "\<exists>r as m. mail_ip mm fs cu ip e = Inr (r, as, m)"
  unfolding mail_ip_def by (rule text_mail_total)

lemma mail_new_total: "\<exists>r as m. mail_new mm fs cu e = Inr (r, as, m)"
  unfolding mail_new_def by (rule text_mail_total)

lemma mailServer_loop_sends:
  "\<exists>sent'. mailServer_loop mm fs cu k es sent = Inr (sent @ sent') \<and> length sent' = length es"
proof (induction es arbitrary: k sent)
  case (Cons e es)
  obtain r as m where m: "mail_new mm fs (cu k) e = Inr (r, as, m)" using mail_new_total by blast
  obtain sent' where "mailServer_loop mm fs cu (k + 1) es (sent @ [r]) = Inr ((sent @ [r]) @ sent')" "length sent' = length es"
    using Cons.IH by blast
  then show ?case using m by (auto intro!: exI [of _ "r # sent'"])
qed simp

text \<open>Every round of the mail server mails every account, changed address or not.\<close>

lemma mailServer_round_mails:
  assumes "em_init my jp getenv (new_tblEmailInfo junk) io d = Inr (SUCCESS, em, io1, d1)"
    and "map_of (db_sqlStmts em) ''select'' = Some st" "delivers my (st_stmt st) rs d1 d2" "list_all (em_fits (db_sqlStmts em)) rs"
    and "te_emailInfos em = []" and "mailServer_round my jp getenv mm fs cu junk io d = Some (Inr r)"
  shows "\<exists>sent d3. r = (Some sent, io1, d3) \<and> length sent = length rs"
proof -
  obtain em1 where g: "em_getRes my em d1 = Some (Inr (map (em_row (db_sqlStmts em)) rs, em1, d2))"
    using em_getRes_rows [OF assms(2,3,4)] assms(5) by auto
  obtain sent where "mailServer_loop mm fs cu 0 (map (em_row (db_sqlStmts em)) rs) [] = Inr sent" "length sent = length rs"
    using mailServer_loop_sends [of mm fs cu 0 "map (em_row (db_sqlStmts em)) rs" "[]"] by auto
  then show ?thesis
    using assms(1,6) g by (auto simp: mailServer_round_def rbind_eq_Inr)
qed

text \<open>The joined result is true from the start, whatever the mails return.\<close>

lemma mail_loop_result: "\<exists>sent'. mail_loop mm fs cu ip k es True sent = Inr (True, sent @ sent') \<and> length sent' = length es"
proof (induction es arbitrary: k sent)
  case (Cons e es)
  obtain r as m where m: "mail_ip mm fs (cu k) ip e = Inr (r, as, m)" using mail_ip_total by blast
  obtain sent' where "mail_loop mm fs cu ip (k + 1) es True (sent @ [r]) = Inr (True, (sent @ [r]) @ sent')" "length sent' = length es"
    using Cons.IH by blast
  then show ?case using m by (auto intro!: exI [of _ "r # sent'"])
qed simp

lemma sendEmail_round_marks:
  assumes "map_of (db_sqlStmts t) ''select'' = Some st" "map_of (db_sqlStmts t) ''update'' = Some stu" "ti_ipInfos t = []"
    and "my_execute my (st_stmt st) [] d = (0, d1)" "my_store_result my (st_stmt st) d1 = (0, d2)"
    and "delivers my (st_stmt st) (r # rs) d2 d3" "list_all (ip_fits (ip_view t)) (r # rs)"
    and "ip_send_flag (ip_row (ip_view t) r) = ''0''"
    and "map_of (db_sqlStmts em) ''select'' = Some ste" "delivers my (st_stmt ste) es d3 d4" "list_all (em_fits (db_sqlStmts em)) es"
  shows "\<exists>sent em' t' ret d5 d'. sendEmail_round my mm fs cu em t d = Some (Inr (False, sent, em', t', d')) \<and>
    length sent = length (te_emailInfos em) + length es \<and>
    my_execute my (st_stmt stu) [Long (long_of (r ! 0))] d4 = (ret, d5) \<and> d' = (if ret = 0 then snd (my_commit my d5) else d5)"
proof -
  obtain t1 where t1: "ip_getRes my [] t d = Some (Inr (SUCCESS, map (ip_row (ip_view t)) (r # rs), t1, d3))"
    "ti_ipInfos t1 = []" "ip_view t1 = ip_view t"
    using ip_getRes_rows [OF assms(1,4-7), of "[]"] assms(3) by auto
  obtain em1 where em1: "em_getRes my em d3 = Some (Inr (te_emailInfos em @ map (em_row (db_sqlStmts em)) es, em1, d4))"
    using em_getRes_rows [OF assms(9-11)] by blast
  obtain sent where sent: "mail_loop mm fs cu (ip_ip (ip_row (ip_view t) r)) 0 (te_emailInfos em @ map (em_row (db_sqlStmts em)) es) True [] = Inr (True, sent)"
    "length sent = length (te_emailInfos em) + length es"
    using mail_loop_result [of mm fs cu "ip_ip (ip_row (ip_view t) r)" 0 "te_emailInfos em @ map (em_row (db_sqlStmts em)) es" "[]"] by auto
  obtain ret d5 where ex: "my_execute my (st_stmt stu) [Long (long_of (r ! 0))] d4 = (ret, d5)" by fastforce
  have id: "ip_rec_id (ip_row (ip_view t) r) = long_of (r ! 0)" by (simp add: ip_row_def)
  have st: "map_of (db_sqlStmts t1) ''update'' = Some stu" using assms(2) t1(3) by (simp add: ip_view_def)
  have "\<exists>k t2. ip_updateToDb my (long_of (r ! 0)) t1 d4 = (k, t2, if ret = 0 then snd (my_commit my d5) else d5)"
    using st ex by (auto simp: ip_updateToDb_def stmt_at_def SUCCESS_def split: prod.splits)
  then obtain k t2 where "ip_updateToDb my (long_of (r ! 0)) t1 d4 = (k, t2, if ret = 0 then snd (my_commit my d5) else d5)" by blast
  then show ?thesis
    using t1(1) em1 sent ex assms(8) id by (auto simp: sendEmail_round_def SUCCESS_def FAILED_def)
qed

section \<open>Entering the loop of sendEmail\<close>

text \<open>If only the second table cannot be initialised, destroying the first one reads its unset flag.\<close>

lemma sendEmail_enter_faults:
  assumes "em_init my jp getenv (new_tblEmailInfo junk_em) io d = Inr (0, em, io1, d1)"
    and "ip_init my jp getenv (new_tblIpInfo junk_ip) io1 d1 = Inr (1, t, io2, d2)"
  shows "\<exists>x. sendEmail_enter my jp getenv junk_em junk_ip io d = Inl x"
proof (cases "delete_MysqlDataBase my t d2")
  case (Inl x)
  then show ?thesis using assms by (simp add: sendEmail_enter_def SUCCESS_def)
next
  case (Inr d3)
  then show ?thesis using assms em_delete_reads_unset [OF assms(1), of d3] by (simp add: sendEmail_enter_def SUCCESS_def)
qed

section \<open>A round of sendFile\<close>

text \<open>When no file waits, the round uses the first element of an empty vector: for the first account, or for the update.\<close>

lemma mail_file_loop_empty: "mail_file_loop mm fs cu [] k es True \<in> {Inl Index_out_of_range, Inr True}"
  by (cases es) (simp_all add: arr_get_def)

lemma sendFile_round_no_file:
  assumes "map_of (db_sqlStmts t) ''select'' = Some st" "dl_dlFiles t = []"
    and "my_execute my (st_stmt st) [] d = (0, d1)" "my_store_result my (st_stmt st) d1 = (0, d2)" "delivers my (st_stmt st) [] d2 d3"
    and "em_getRes my em d3 = Some (Inr (accounts, em1, d4))"
  shows "sendFile_round my mm fs cu files em t d = Some (Inl Index_out_of_range)"
proof -
  obtain t1 where "dl_getRes my files t d = Some (Inr (SUCCESS, [], t1, d3))"
    using dl_getRes_rows [OF assms(1,3-5)] assms(2) by auto
  then show ?thesis
    using assms(6) mail_file_loop_empty [of mm fs cu 0 accounts]
    by (auto simp: sendFile_round_def SUCCESS_def FAILED_def arr_get_def)
qed

section \<open>The start of the keeper\<close>

definition keeper_table :: "work pool_state" where
  "keeper_table = \<lparr>tp_funcs = [(''getIp'', \<lparr>fp_func = Some getIp, fp_data = None\<rparr>), (''sendEmail'', \<lparr>fp_func = Some sendEmail, fp_data = None\<rparr>)],
     tp_blocks = []\<rparr>"

lemma register_keeper: "register_all funcMap \<lparr>tp_funcs = [], tp_blocks = []\<rparr> = keeper_table"
  by code_simp

lemma keeper_table_inv: "pool_inv keeper_table" "tp_funcs keeper_table \<noteq> []"
proof -
  have "pool_inv (register_all funcMap \<lparr>tp_funcs = [], tp_blocks = []\<rparr>)"
    unfolding register_all_def funcMap_def by (simp add: pool_inv_empty setFunction_inv)
  then show "pool_inv keeper_table" by (simp add: register_keeper)
qed (simp add: keeper_table_def)

lemma keeper_start_threads:
  assumes "log_init jp getenv exe now 0 l io = Inr (0, l1, io1)" "create_ok 0" "create_ok 1" "\<And>w. crash w = None"
  shows "keeper_start jp getenv exe now nproc crash create_ok l io \<lparr>tp_funcs = [], tp_blocks = []\<rparr> =
    Inr (None, [Some \<lparr>th_name = ''getIp'', th_func = Some getIp, th_data = None\<rparr>,
                Some \<lparr>th_name = ''sendEmail'', th_func = Some sendEmail, th_data = None\<rparr>], l1, io1, keeper_table)"
proof -
  have "created create_ok 0 (tp_funcs keeper_table) =
      [Some \<lparr>th_name = ''getIp'', th_func = Some getIp, th_data = None\<rparr>,
       Some \<lparr>th_name = ''sendEmail'', th_func = Some sendEmail, th_data = None\<rparr>]"
    using assms(2,3) by (simp add: keeper_table_def thread_of_def)
  then show ?thesis
    using assms(1,4)
    by (simp add: keeper_start_def register_keeper pool_start_created [OF keeper_table_inv] work_run_def)
qed

lemma keeper_start_endless:
  assumes "log_init jp getenv exe now 0 l io = Inr (ret, l1, io1)"
    and "keeper_start jp getenv exe now nproc crash create_ok l io \<lparr>tp_funcs = [], tp_blocks = []\<rparr> = Inr (Some r, rest)"
  shows "ret \<noteq> 0 \<and> r = -1"
proof -
  have "work_run crash bs t \<noteq> Inr True" for bs t by (simp add: work_run_def split: option.split)
  note never = pool_start_endless [OF keeper_table_inv this]
  have "\<not> joined" if "pool_start (work_run crash) create_ok (new_threadPool nproc) keeper_table = Inr (joined, p, s2)" for joined p s2
    using that never by (cases joined) auto
  then show ?thesis
    using assms by (auto simp: keeper_start_def register_keeper rbind_eq_Inr split: if_splits)
qed

end
