(* ===== verification/Keeper_Examples.thy ===== *)
theory Keeper_Examples
  imports Keeper
begin

text \<open>
  Concrete environments for the witnesses of the mail client, the files, the log and the keeper: a MIME library that
  writes the first part of a message, transfers that fail or succeed, a C library without failures, and
  a database server that counts the calls it receives and answers two queries with one row each.
\<close>

definition ex_mm :: mimetic where
  "ex_mm = \<lparr>mm_encode = (\<lambda>s. s), mm_write = (\<lambda>h s. s\<lparr>ss_rest := ss_rest s @ hd_subject h @ '':'' @ me_body (hd (hd_parts h))\<rparr>)\<rparr>"

definition ex_mail :: EmailSender where
  "ex_mail = SetBodyContent ex_mm ''body'' (SetSubject ''subject'' (AddRecvMail ''a@b'' (new_EmailSender ''gb2312'')))"

text \<open>Every attempt asks twice for eight bytes and ends with the given code.\<close>

definition ex_curl :: "int \<Rightarrow> curl" where
  "ex_curl code = \<lparr>easy_init = True, easy_perform = (\<lambda>k opts. ([(1, 8), (1, 8)], code))\<rparr>"

definition ex_fs :: file_system where
  "ex_fs = (\<lambda>p. if p = ''/tmp/a.txt'' then Some ''first'' else if p = ''/tmp/b.txt'' then Some ''second'' else None)"

definition ex_io :: "(nat \<Rightarrow> bool) \<Rightarrow> stdio" where
  "ex_io prints =
     \<lparr>sd_files = (\<lambda>p. if p = ''/log/120-1-1-keeper.log'' then Some ''old'' else None), sd_handles = [], sd_fopen_ok = (\<lambda>_. True), sd_fopens = 0,
      sd_fprintf_ok = prints, sd_fprintfs = 0, sd_flush_ok = (\<lambda>_. True), sd_flushes = 0\<rparr>"

definition ex_log :: hmLog where
  "ex_log = new_hmLog\<lparr>hl_logs := [\<lparr>le_level = 0, le_time = ''t'', le_msg = ''m''\<rparr>, \<lparr>le_level = 3, le_time = ''u'', le_msg = ''n''\<rparr>],
     hl_logfile := Some (new_file '''' ''at+''), hl_processName := ''keeper'', hl_logPath := ''/log'', hl_initFlag := 1\<rparr>"

definition ex_tm :: tm where
  "ex_tm = \<lparr>tm_year = -1780, tm_mon = 0, tm_mday = 1, tm_hour = 0, tm_min = 0, tm_sec = 0\<rparr>"

text \<open>Statement 1 selects the address of row 7, not yet mailed; statement 4 selects one mail account.\<close>

definition ex_text :: "string \<Rightarrow> cell" where
  "ex_text s = Text (s @ [CHR 0x00])"

definition ex_ip_cells :: "cell list" where
  "ex_ip_cells = [Long 7, ex_text ''1.2.3.4'', Text ''0'']"

definition ex_em_cells :: "cell list" where
  "ex_em_cells = [ex_text ''user'', ex_text ''pw'', ex_text ''smtp'', ex_text ''to'', ex_text ''from'']"

definition ex_mysql :: "nat mysql" where
  "ex_mysql =
     \<lparr>my_init = (\<lambda>d. (True, d + 1)), my_real_connect = (\<lambda>_ _ _ _ _ d. (True, d + 1)), my_stmt_init = (\<lambda>d. (Some d, d + 1)),
      my_prepare = (\<lambda>_ _ d. (0, d + 1)), my_bind_result = (\<lambda>_ _ d. (0, d + 1)), my_bind_param = (\<lambda>_ _ d. (0, d + 1)),
      my_execute = (\<lambda>_ _ d. (0, d + 1)), my_store_result = (\<lambda>_ d. (0, d + 1)),
      my_fetch = (\<lambda>h bufs d. if h = Some 1 \<and> d = 2 then (0, ex_ip_cells, d + 1)
                            else if h = Some 4 \<and> d = 4 then (0, ex_em_cells, d + 1) else (100, bufs, d + 1)),
      my_commit = (\<lambda>d. (0, d + 1)), my_stmt_close = (\<lambda>_ d. d + 1), my_close = (\<lambda>d. d + 1)\<rparr>"

definition ex_stmt :: "nat \<Rightarrow> sql_stmt" where
  "ex_stmt n = \<lparr>st_sql = [], st_stmt = Some n, st_flag = None\<rparr>"

definition ex_ip_table :: tblIpInfo where
  "ex_ip_table = (new_tblIpInfo (CHR 0x00))\<lparr>db_sqlStmts := [(''insert'', ex_stmt 2), (''select'', ex_stmt 1), (''update'', ex_stmt 3)]\<rparr>"

definition ex_em_table :: tblEmailInfo where
  "ex_em_table = (new_tblEmailInfo [])\<lparr>db_sqlStmts := [(''select'', ex_stmt 4)]\<rparr>"

lemma ex_ip_table_simps [simp]:
  "map_of (db_sqlStmts ex_ip_table) ''select'' = Some (ex_stmt 1)" "map_of (db_sqlStmts ex_ip_table) ''insert'' = Some (ex_stmt 2)"
  "map_of (db_sqlStmts ex_ip_table) ''update'' = Some (ex_stmt 3)" "ti_ipInfos ex_ip_table = []" "ti_ip_insert ex_ip_table = zeros 100"
  by (simp_all add: ex_ip_table_def new_tblIpInfo_def new_MysqlDataBase_def MysqlDataBase.extend_def tblIpInfo.fields_def)

lemma ex_em_table_simps [simp]:
  "map_of (db_sqlStmts ex_em_table) ''select'' = Some (ex_stmt 4)" "te_emailInfos ex_em_table = []"
  by (simp_all add: ex_em_table_def new_tblEmailInfo_def new_MysqlDataBase_def MysqlDataBase.extend_def tblEmailInfo.fields_def)

lemma ex_delivers:
  "delivers ex_mysql (Some 1) [ex_ip_cells] 2 4" "delivers ex_mysql (Some 4) [ex_em_cells] 4 6"
  by (simp_all add: ex_mysql_def)

lemma ex_ip_fits: "ip_fits (ip_view ex_ip_table) ex_ip_cells"
  by (simp add: ex_ip_cells_def ex_text_def ip_view_def)

lemma ex_em_fits: "em_fits v ex_em_cells"
  by (simp add: ex_em_cells_def ex_text_def em_fits_def text_row_def)

lemma ex_ip_row: "ip_row (ip_view ex_ip_table) ex_ip_cells = \<lparr>ip_rec_id = 7, ip_ip = ''1.2.3.4'', ip_send_flag = ''0''\<rparr>"
  by (simp add: ex_ip_cells_def ex_text_def ip_row_def ip_view_def text_of_def long_of_def c_str_def numeral_eq_Suc)

end
