(* ===== verification/Departures.thy ===== *)
theory Departures
  imports Raft_Examples Keeper_Examples
begin

text \<open>
  More places where the code does something other than it means to, each with a concrete instance: in the Raft library,
  the mail client and the file helper.
\<close>

text \<open>
  Terms above the range of \<^verbatim>\<open>int\<close>. The term of the last entry is stored in an \<^verbatim>\<open>int\<close> before the
  comparison, so a log that ends with term \<open>2 ^ 32\<close> loses against one that ends with term 1.
\<close>

lemma vote_term_truncated:
  "rsafe (raft_recv_requestvote (ex_cluster RAFT_STATE_FOLLOWER (2 ^ 32) (-1) (ex_ring [ex_entry (2 ^ 32) 7] 0) 0 0) (Some 1)
      \<lparr>rv_term = 2 ^ 32 + 1, rv_candidate_id = 1, rv_last_log_idx = 1, rv_last_log_term = 1\<rparr>)
    (\<lambda>(e, r, s'). rvr_vote_granted r = 1 \<and> voted_for s' = 1)"
  by code_simp

text \<open>
  A repeated message after a compaction. The follower holds a snapshot that ends at index 2 and
  an empty log; the leader's message with entries 1 and 2 (\<^verbatim>\<open>prev_log_idx\<close> 0) arrives again. The
  check of the preceding entry is skipped, the compacted indexes count as missing, and the entries
  are appended under the indexes 3 and 4, with a reply that reports success up to index 2.
\<close>

lemma stale_message_duplicates_entries:
  "rsafe (raft_recv_appendentries
      ((ex_cluster RAFT_STATE_FOLLOWER 1 (-1) (ex_ring [] 2) 2 0)\<lparr>snapshot_last_idx := 2, snapshot_last_term := 1\<rparr>)
      (Some 1) \<lparr>ae_term = 1, ae_prev_log_idx = 0, ae_prev_log_term = 0, ae_leader_commit = 2,
        ae_entries = [ex_entry 1 7, ex_entry 1 8]\<rparr>)
    (\<lambda>(e, r, s'). e = 0 \<and> aer_success r = 1 \<and> aer_current_idx r = 2 \<and> raft_get_current_idx s' = 4 \<and>
       map_option ety_id (list_at 2 (log_list (log s')) 3) = Some 7 \<and>
       map_option ety_id (list_at 2 (log_list (log s')) 4) = Some 8)"
  by code_simp

text \<open>
  A demoted leader. The count of acknowledgements starts at 1 for the leader itself also when the
  leader does not vote, so that with two voters, one of which acknowledged, the entry is committed.
\<close>

lemma nonvoting_leader_counts_itself:
  "rsafe (raft_recv_appendentries_response
      (put_node (ex_cluster RAFT_STATE_LEADER 2 0 (ex_ring [ex_entry 1 7, ex_entry 2 8] 0) 1 0) 0
        (put_voting (raft_node_init 0 0) False)) (Some 1)
      \<lparr>aer_term = 2, aer_success = 1, aer_current_idx = 2, aer_first_idx = 2\<rparr>)
    (\<lambda>(e, s'). voters s' = [1, 2] \<and> acked s' 2 = [1] \<and> commit_idx s' = 2)"
  by code_simp

text \<open>
  Heartbeats and a peer that lags. If the first active peer is behind the leader's snapshot, the
  round of heartbeats ends with \<^verbatim>\<open>RAFT_ERR_NEEDS_SNAPSHOT\<close>, whatever peers \<open>rs\<close> follow: they are not
  sent anything.
\<close>

lemma heartbeats_stop_at_lagging_peer:
  assumes "nodes s = r # rs" and "heap s r = Some n" and "me_node s \<noteq> Some r" and "raft_node_is_active n"
    and "send_appendentries (cb s) \<noteq> None" and "send_snapshot (cb s) = None"
    and "0 < snapshot_last_idx s" and "next_idx n < snapshot_last_idx s"
  shows "raft_send_appendentries_all s = Inr (RAFT_ERR_NEEDS_SNAPSHOT, s\<lparr>timeout_elapsed := 0\<rparr>)"
  using assms
  by (auto simp: raft_send_appendentries_all_def skip_node_def raft_send_appendentries_def Let_def raft_errs
      raft_node_get_next_idx_def)

lemma heartbeats_stop_at_lagging_peer_witness:
  "raft_send_appendentries_all ((ex_server_sending (ex_ring [] 5))\<lparr>nodes := [1, 0], snapshot_last_idx := 5\<rparr>) =
   Inr (RAFT_ERR_NEEDS_SNAPSHOT, (ex_server_sending (ex_ring [] 5))\<lparr>nodes := [1, 0], snapshot_last_idx := 5, timeout_elapsed := 0\<rparr>)"
  by (rule heartbeats_stop_at_lagging_peer [where r = 1 and rs = "[0]" and n = "raft_node_init 0 1", THEN trans])
    (simp_all add: ex_server_sending_def no_cbs_def)

text \<open>
  A vote that could not be stored. If \<^verbatim>\<open>persist_vote\<close> fails, \<^verbatim>\<open>raft_become_candidate\<close> ignores it and
  the server is a candidate without a vote; a request of another candidate of the same term then
  fails the assertion that a candidate never grants a vote.
\<close>

lemma unstored_vote_asserts:
  "rbind (raft_election_start ((ex_cluster RAFT_STATE_FOLLOWER 2 1 (ex_ring [] 0) 0 0)
       \<lparr>cb := no_cbs\<lparr>persist_vote := Some (\<lambda>u v. (-1, u))\<rparr>\<rparr>))
     (\<lambda>(e, s). raft_recv_requestvote s (Some 1)
        \<lparr>rv_term = 3, rv_candidate_id = 1, rv_last_log_idx = 0, rv_last_log_term = 0\<rparr>) = Inl Assertion_failed"
proof -
  have "case_sum (\<lambda>f. f = Assertion_failed) (\<lambda>_. False)
      (rbind (raft_election_start ((ex_cluster RAFT_STATE_FOLLOWER 2 1 (ex_ring [] 0) 0 0)
         \<lparr>cb := no_cbs\<lparr>persist_vote := Some (\<lambda>u v. (-1, u))\<rparr>\<rparr>))
       (\<lambda>(e, s). raft_recv_requestvote s (Some 1)
          \<lparr>rv_term = 3, rv_candidate_id = 1, rv_last_log_idx = 0, rv_last_log_term = 0\<rparr>))"
    by code_simp
  then show ?thesis by (simp split: sum.splits)
qed

text \<open>
  Attempts after the first send nothing. If the first attempt asked for more than the message and
  failed, there is a second attempt, and it and all later ones get no character of the message.
\<close>

lemma retry_sends_nothing:
  assumes "readable_text fs m" and "m_strMessage m = new_stream"
    and "mm_write mm (message_head mm fs m) new_stream = new_stream\<lparr>ss_rest := msg\<rparr>"
    and "easy_init cu" and "easy_perform cu 0 (send_opts m) = (reqs, res)" and "res \<noteq> 0"
    and "length msg < sum_list (map req_bytes reqs)"
  shows "\<exists>as m'. SendMail mm fs cu m = Inr (False, as, m') \<and> 2 \<le> length as \<and> list_all (\<lambda>a. concat (at_payload a) = []) (tl as)"
proof -
  let ?s = "new_stream\<lparr>ss_rest := msg\<rparr>"
  obtain m1 where m1: "CreatMessage mm fs m = Inr m1" "m_strMessage m1 = ?s" "send_opts m1 = send_opts m"
    using CreatMessage_total [OF assms(1), of mm] assms(2,3) by auto
  obtain a s where a: "perform cu (send_opts m) 0 ?s = (a, s)" by fastforce
  then have code: "at_code a = res" and failed: "ss_fail s"
    using assms(5,7) payload_past_end [of ?s reqs] by (auto simp: perform_def split: prod.splits)
  obtain r as s' where r: "retry_loop cu (send_opts m) 0 res True [a] s = (r, as, s')" by (metis prod_cases3)
  from retry_loop_failed_stream [OF failed r] obtain bs where bs: "as = [a] @ bs" "list_all (\<lambda>b. concat (at_payload b) = []) bs" by blast
  have "\<not> r" "2 \<le> length as" using retry_loop_spec [OF r] assms(6) code bs(1) by (cases bs; auto)+
  then show ?thesis using assms(4) m1 a r code bs by (auto simp: SendMail_def)
qed

lemma retry_sends_nothing_witness:
  "\<exists>as m'. SendMail ex_mm ex_fs (ex_curl 7) ex_mail = Inr (False, as, m') \<and> concat (at_payload (as ! 1)) = []"
proof -
  have "readable_text ex_fs ex_mail" "m_strMessage ex_mail = new_stream"
    "mm_write ex_mm (message_head ex_mm ex_fs ex_mail) new_stream = new_stream\<lparr>ss_rest := ''subject:body''\<rparr>"
    by code_simp+
  then obtain as m' where run: "SendMail ex_mm ex_fs (ex_curl 7) ex_mail = Inr (False, as, m')" "2 \<le> length as"
    "list_all (\<lambda>a. concat (at_payload a) = []) (tl as)"
    using retry_sends_nothing [of ex_fs ex_mail ex_mm "''subject:body''" "ex_curl 7" "[(1, 8), (1, 8)]" 7]
    by (auto simp: ex_curl_def req_bytes_def)
  then have "concat (at_payload (tl as ! 0)) = []" by (cases as; cases "tl as") auto
  then show ?thesis using run(1,2) by (cases as) auto
qed

text \<open>
  Attachments accumulate. If the attachments are text files with the contents \<open>cs\<close>, the part of
  the message for the \<open>i\<close>-th carries the contents of all files up to the \<open>i\<close>-th. (For one attachment that is the
  file itself.)
\<close>

lemma attachments_accumulate:
  assumes "map (\<lambda>a. fs (c_str a)) (m_vAttachMent m) = map Some cs" and "list_all text_file cs"
  shows "\<exists>m' h. CreatMessage mm fs m = Inr m' \<and> m_strMessage m' = mm_write mm h (m_strMessage m) \<and>
    map me_loaded (hd_parts h) = None # map (\<lambda>i. Some (mm_encode mm (concat (take (Suc i) cs)))) [0..<length cs]"
proof -
  have "readable_text fs m" by (rule readable_textI [OF assms])
  then show ?thesis
    using CreatMessage_total [of fs m mm] attached_loaded [OF assms(1), of mm "[]"]
    by (auto simp: message_head_def text_part_def intro!: exI [of _ "message_head mm fs m"])
qed

lemma attachments_accumulate_witness:
  "\<exists>m' h. CreatMessage ex_mm ex_fs (AddAttachment ''/tmp/b.txt'' (AddAttachment ''/tmp/a.txt'' ex_mail)) = Inr m' \<and>
     m_strMessage m' = mm_write ex_mm h new_stream \<and> map me_loaded (hd_parts h) = [None, Some ''first'', Some ''firstsecond'']"
proof -
  let ?m = "AddAttachment ''/tmp/b.txt'' (AddAttachment ''/tmp/a.txt'' ex_mail)"
  have "map (\<lambda>a. ex_fs (c_str a)) (m_vAttachMent ?m) = map Some [''first'', ''second'']" "list_all text_file [''first'', ''second'']"
    "m_strMessage ?m = new_stream"
    by code_simp+
  then show ?thesis
    using attachments_accumulate [of ex_fs ?m "[''first'', ''second'']" ex_mm] by (simp add: ex_mm_def)
qed

text \<open>
  A failed write uses a closed stream. If the file opens and printing fails, the outcome depends on
  opening it again: if one of the allowed attempts works, the old, closed stream is used; otherwise the
  write reports failure.
\<close>

lemma failed_write_uses_closed_stream:
  assumes "append_mode f" and "0 \<le> f_reTryTime f" and "sd_fopen_ok io (sd_fopens io)" and "\<not> sd_fprintf_ok io (sd_fprintfs io)"
  shows "if \<exists>i < nat (f_reTryTime f). sd_fopen_ok io (sd_fopens io + 1 + i) then file_write s f io = Inl Use_after_free
     else rsafe (file_write s f io) (\<lambda>(ret, _). ret = FAILED)"
  by (rule print_after_reopen [OF assms])

lemma failed_write_uses_closed_stream_witness:
  "file_write ''x'' (new_file ''/log/a'' ''at+'') (ex_io (\<lambda>_. False)) = Inl Use_after_free"
proof -
  have "append_mode (new_file ''/log/a'' ''at+'')" by (simp add: new_file_def c_str_def)
  moreover have "\<exists>i < nat (f_reTryTime (new_file ''/log/a'' ''at+'')). sd_fopen_ok (ex_io (\<lambda>_. False)) (sd_fopens (ex_io (\<lambda>_. False)) + 1 + i)"
    by (rule exI [of _ 0]) (simp add: new_file_def ex_io_def)
  moreover have "sd_fopen_ok (ex_io (\<lambda>_. False)) n" "\<not> sd_fprintf_ok (ex_io (\<lambda>_. False)) n"
    "0 \<le> f_reTryTime (new_file ''/log/a'' ''at+'')" for n
    by (simp_all add: ex_io_def new_file_def)
  ultimately show ?thesis
    using failed_write_uses_closed_stream [of "new_file ''/log/a'' ''at+''" "ex_io (\<lambda>_. False)" "''x''"] by presburger
qed

text \<open>
  The size of a configuration file. If the file opens, a file of less than 1024 bytes is returned up to
  its first zero byte, and a file of more than 1024 bytes is written past the end of the buffer.
\<close>

lemma config_read_bounds:
  assumes "append_mode f" and "sd_fopen_ok io (sd_fopens io)"
  shows "length (content_of io (c_str (f_path f))) < 1024 \<and>
       rsafe (file_getRes f io) (\<lambda>(res, _). res = c_str (content_of io (c_str (f_path f)))) \<or>
     length (content_of io (c_str (f_path f))) = 1024 \<or>
     length (content_of io (c_str (f_path f))) > 1024 \<and> file_getRes f io = Inl Index_out_of_range"
  using file_getRes_small [OF assms] file_getRes_large [OF assms] by linarith

lemma config_read_bounds_witness:
  "rsafe (file_getRes (new_file ''/log/120-1-1-keeper.log'' ''at+'') (ex_io (\<lambda>_. True))) (\<lambda>(res, _). res = ''old'')"
proof -
  let ?f = "new_file ''/log/120-1-1-keeper.log'' ''at+''"
  have "append_mode ?f" "sd_fopen_ok (ex_io (\<lambda>_. True)) (sd_fopens (ex_io (\<lambda>_. True)))"
    "content_of (ex_io (\<lambda>_. True)) (c_str (f_path ?f)) = ''old''"
    by (simp_all add: new_file_def c_str_def ex_io_def)
  then show ?thesis using config_read_bounds [of ?f "ex_io (\<lambda>_. True)"] by (simp add: c_str_def)
qed

end
