(* ===== verification/Frame.thy ===== *)
theory Frame
  imports Thread_Pool
begin

text \<open>
  The frame (\<^verbatim>\<open>frame/master.cpp\<close>, \<^verbatim>\<open>frame/tools.cpp\<close>, \<^verbatim>\<open>common/common.cpp\<close>, \<^verbatim>\<open>common/log.cpp\<close>, \<^verbatim>\<open>common/worker.cpp\<close>): a master process starts worker processes, watches them
  from a thread, and obeys messages from a named pipe. The operating system's processes are a table of
  running and of ended but not yet awaited children; the results of \<^verbatim>\<open>fork\<close> and the contents of the pipe are given.
  The configuration is what the JSON parser finds in it. Under the mutex every scan and every clean-up is one step.
\<close>

section \<open>Processes\<close>

record procs =
  ps_alive :: "int list"
  ps_zombies :: "int list"

text \<open>\<^verbatim>\<open>kill\<close> for the signals 0 and 9. The process number \<open>-1\<close> means every process the caller may signal.\<close>

definition sys_kill :: "int \<Rightarrow> int \<Rightarrow> procs \<Rightarrow> int \<times> procs" where
  "sys_kill pid sig ps =
     (if pid = -1 then
        (if ps_alive ps = [] \<and> ps_zombies ps = [] then (-1, ps)
         else (0, if sig = 9 then \<lparr>ps_alive = [], ps_zombies = ps_zombies ps @ ps_alive ps\<rparr> else ps))
      else if pid \<in> set (ps_alive ps) then
        (0, if sig = 9 then \<lparr>ps_alive = removeAll pid (ps_alive ps), ps_zombies = ps_zombies ps @ [pid]\<rparr> else ps)
      else if pid \<in> set (ps_zombies ps) then (0, ps)
      else (-1, ps))"

text \<open>\<^verbatim>\<open>waitpid\<close>: 0 if the child still runs (or, without \<^verbatim>\<open>WNOHANG\<close>, waiting for it).\<close>

definition sys_waitpid :: "int \<Rightarrow> procs \<Rightarrow> int \<times> procs" where
  "sys_waitpid pid ps =
     (if pid = -1 then
        (case ps_zombies ps of
           [] \<Rightarrow> (if ps_alive ps = [] then -1 else 0, ps)
         | z # zs \<Rightarrow> (z, ps\<lparr>ps_zombies := zs\<rparr>))
      else if pid \<in> set (ps_zombies ps) then (pid, ps\<lparr>ps_zombies := removeAll pid (ps_zombies ps)\<rparr>)
      else if pid \<in> set (ps_alive ps) then (0, ps)
      else (-1, ps))"

section \<open>The master\<close>

record fd_entry =
  fd_fd :: int
  fd_file :: string

type_synonym pid_map = "(int \<times> fd_entry) list"

text \<open>
  A round of \<^verbatim>\<open>scanThread\<close>: the loop runs over the map itself, and erasing the current element
  invalidates the position from which it goes on.
\<close>

primrec scan_loop :: "pid_map \<Rightarrow> procs \<Rightarrow> fault + procs" where
  "scan_loop [] ps = Inr ps"
| "scan_loop (e # es) ps =
     (case sys_kill (fst e) 0 ps of (ret, ps1) \<Rightarrow>
      if ret = -1 then Inl Use_after_free
      else case sys_waitpid (fst e) ps1 of (_, ps2) \<Rightarrow> scan_loop es ps2)"

definition scanThread_round :: "pid_map \<Rightarrow> procs \<Rightarrow> fault + procs" where
  "scanThread_round pids ps = scan_loop pids ps"

text \<open>What the child executes: the program under \<^verbatim>\<open>BIN_PATH\<close>, with the argument 1.\<close>

definition runWorker :: "string \<Rightarrow> string \<Rightarrow> string \<Rightarrow> string \<times> string list" where
  "runWorker binPath file number =
     (let total_file = binPath @ ''/'' @ file in (c_str total_file, [c_str total_file, ''1'']))"

text \<open>The configuration: for each worker its file and number as strings, if present.\<close>

record frame_config =
  fc_workers :: "(string option \<times> string option) list"
  fc_workerNo :: int

definition worker_at :: "frame_config \<Rightarrow> nat \<Rightarrow> fault + string \<times> string" where
  "worker_at j i =
     (if i < length (fc_workers j) then
        (case fc_workers j ! i of
           (Some file, Some number) \<Rightarrow> Inr (file, number)
         | _ \<Rightarrow> Inl Uncaught_exception)
      else Inl Uncaught_exception)"

text \<open>
  The loop of \<^verbatim>\<open>runWorkers\<close> in the parent: \<open>n\<close> rounds are left, \<open>i\<close> is the index. The result of \<^verbatim>\<open>fork\<close> is
  recorded without a look at it.
\<close>

primrec run_loop :: "(nat \<Rightarrow> int) \<Rightarrow> frame_config \<Rightarrow> nat \<Rightarrow> nat \<Rightarrow> pid_map \<Rightarrow> procs \<Rightarrow> fault + pid_map \<times> procs" where
  "run_loop fork j 0 i pids ps = Inr (pids, ps)"
| "run_loop fork j (Suc n) i pids ps =
     rbind (worker_at j i) (\<lambda>(file, number).
     let pid = fork i;
         ps' = (if pid > 0 then ps\<lparr>ps_alive := ps_alive ps @ [pid]\<rparr> else ps) in
     run_loop fork j n (i + 1) (map_put pid \<lparr>fd_fd = 0, fd_file = file\<rparr> pids) ps')"

definition runWorkers :: "(nat \<Rightarrow> int) \<Rightarrow> frame_config \<Rightarrow> pid_map \<Rightarrow> procs \<Rightarrow> fault + pid_map \<times> procs" where
  "runWorkers fork j pids ps = run_loop fork j (nat (fc_workerNo j)) 0 pids ps"

definition initParams :: "(string \<Rightarrow> string option) \<Rightarrow> int \<times> string option \<times> string option" where
  "initParams getenv =
     (let cfgPath = getenv ''cfg_path'' in
      if cfgPath = None then (-1, None, None)
      else
        let binPath = getenv ''BIN_PATH'' in
        if binPath = None then (-1, cfgPath, None) else (0, cfgPath, binPath))"

text \<open>The two clean-ups: kill with signal 9, then wait.\<close>

primrec clean_loop :: "(fd_entry \<Rightarrow> bool) \<Rightarrow> pid_map \<Rightarrow> procs \<Rightarrow> procs" where
  "clean_loop sel [] ps = ps"
| "clean_loop sel (e # es) ps =
     (if sel (snd e) then
        case sys_kill (fst e) 9 ps of (ret, ps1) \<Rightarrow>
        if ret = -1 then clean_loop sel es ps1
        else clean_loop sel es (snd (sys_waitpid (fst e) ps1))
      else clean_loop sel es ps)"

definition cleanSources :: "pid_map \<Rightarrow> procs \<Rightarrow> procs" where
  "cleanSources pids ps = clean_loop (\<lambda>_. True) pids ps"

definition cleanSource :: "string \<Rightarrow> pid_map \<Rightarrow> procs \<Rightarrow> procs" where
  "cleanSource file pids ps = clean_loop (\<lambda>e. fd_file e = file) pids ps"

section \<open>Messages\<close>

text \<open>The enumerators of \<^verbatim>\<open>msgType\<close> are numbers on the wire.\<close>

definition ul_log :: int where "ul_log = 0"
definition ul_end :: int where "ul_end = 1"
definition ul_process_success :: int where "ul_process_success = 2"
definition ul_other :: int where "ul_other = 3"
definition ul_end_one :: int where "ul_end_one = 4"

lemmas msgType_defs = ul_log_def ul_end_def ul_process_success_def ul_other_def ul_end_one_def

record internal_msg =
  im_srcName :: string
  im_destName :: string
  im_msg :: string
  im_type :: int

datatype pipe_read = Read_nothing | Read_again | Read_error | Read_msg internal_msg

text \<open>
  The older log (\<^verbatim>\<open>common/log.cpp\<close>): the threshold of the logging library. \<open>fatal\<close> is what the library does
  with a message of level FATAL; as documented it ends the process.
\<close>

definition log_setLevel :: "(int \<Rightarrow> fault + int) \<Rightarrow> string \<Rightarrow> int \<Rightarrow> fault + int" where
  "log_setLevel fatal msg threshold =
     (if msg = ''INFO'' then Inr 0
      else if msg = ''WARN'' then Inr 1
      else if msg = ''ERROR'' then Inr 2
      else if msg = ''FATAL'' then fatal 3
      else Inr threshold)"

record master =
  ms_button :: int
  ms_threshold :: int
  ms_pids :: pid_map
  ms_procs :: procs

definition dispatch :: "(int \<Rightarrow> fault + int) \<Rightarrow> internal_msg \<Rightarrow> master \<Rightarrow> fault + master" where
  "dispatch fatal msg m =
     (if im_type msg = ul_log then
        rbind (log_setLevel fatal (im_msg msg) (ms_threshold m)) (\<lambda>k. Inr (m\<lparr>ms_threshold := k\<rparr>))
      else if im_type msg = ul_end then Inr (m\<lparr>ms_button := 1\<rparr>)
      else if im_type msg = ul_process_success then Inr m
      else if im_type msg = ul_end_one then Inr (m\<lparr>ms_procs := cleanSource (im_msg msg) (ms_pids m) (ms_procs m)\<rparr>)
      else Inr m)"

text \<open>
  The inner loop for one event: it reads until the pipe is empty or the button is set. Reading nothing and errors
  other than \<^verbatim>\<open>EAGAIN\<close> do not end it. The list holds the results of the calls of \<^verbatim>\<open>read\<close> made so far.
\<close>

primrec read_loop :: "(int \<Rightarrow> fault + int) \<Rightarrow> pipe_read list \<Rightarrow> master \<Rightarrow> fault + master" where
  "read_loop fatal [] m = Inr m"
| "read_loop fatal (r # rs) m =
     (if ms_button m = 0 then
        (case r of
           Read_nothing \<Rightarrow> read_loop fatal rs m
         | Read_again \<Rightarrow> Inr m
         | Read_error \<Rightarrow> read_loop fatal rs m
         | Read_msg msg \<Rightarrow> rbind (dispatch fatal msg m) (read_loop fatal rs))
      else Inr m)"

text \<open>
  The outer loop, over what happens in the order it happens: \<^verbatim>\<open>epoll_wait\<close> reports the pipe or fails, the scanning thread
  takes the mutex and makes a round, a process ends by itself.
\<close>

datatype happening = Pipe_event "pipe_read list" | Wait_error | Scan | Process_ends int

definition process_ends :: "int \<Rightarrow> procs \<Rightarrow> procs" where
  "process_ends pid ps =
     (if pid \<in> set (ps_alive ps) then
        \<lparr>ps_alive = removeAll pid (ps_alive ps), ps_zombies = ps_zombies ps @ [pid]\<rparr>
      else ps)"

primrec event_loop :: "(int \<Rightarrow> fault + int) \<Rightarrow> happening list \<Rightarrow> master \<Rightarrow> fault + master" where
  "event_loop fatal [] m = Inr m"
| "event_loop fatal (ev # evs) m =
     (if ms_button m = 0 then
        (case ev of
           Pipe_event rs \<Rightarrow> rbind (read_loop fatal rs m) (event_loop fatal evs)
         | Wait_error \<Rightarrow> Inr m
         | Scan \<Rightarrow> rbind (scanThread_round (ms_pids m) (ms_procs m)) (\<lambda>ps. event_loop fatal evs (m\<lparr>ms_procs := ps\<rparr>))
         | Process_ends pid \<Rightarrow> event_loop fatal evs (m\<lparr>ms_procs := process_ends pid (ms_procs m)\<rparr>))
      else Inr m)"

section \<open>Reading the configuration\<close>

text \<open>
  \<^verbatim>\<open>getfile\<close>: lines are read with a limit of 10000 into an array of 256. \<open>lines_of\<close> are the lines as
  \<^verbatim>\<open>getline\<close> finds them; the last one ends at the end of the file.
\<close>

fun lines_of :: "string \<Rightarrow> string list" where
  "lines_of [] = [[]]"
| "lines_of (c # cs) =
     (if c = CHR 0x0A then [] # lines_of cs
      else case lines_of cs of [] \<Rightarrow> [[c]] | l # ls \<Rightarrow> (c # l) # ls)"

primrec getfile_loop :: "string list \<Rightarrow> string \<Rightarrow> fault + string" where
  "getfile_loop [] result = Inr result"
| "getfile_loop (l # ls) result =
     (if length l < 256 then getfile_loop ls (result @ c_str l) else Inl Index_out_of_range)"

definition getfile :: "file_system \<Rightarrow> string \<Rightarrow> string \<Rightarrow> fault + int \<times> string" where
  "getfile fs path result =
     (case fs (c_str path) of
        None \<Rightarrow> Inr (-1, result)
      | Some content \<Rightarrow> rbind (getfile_loop (lines_of content) result) (\<lambda>r. Inr (0, r)))"

text \<open>The main program. A failure of \<^verbatim>\<open>runWorkers\<close> cannot be seen; the pipe's events drive the loop.\<close>

definition master_main ::
    "(string \<Rightarrow> string option) \<Rightarrow> file_system \<Rightarrow> (string \<Rightarrow> frame_config option) \<Rightarrow> (nat \<Rightarrow> int) \<Rightarrow> (int \<Rightarrow> fault + int)
     \<Rightarrow> happening list \<Rightarrow> master \<Rightarrow> fault + int \<times> master" where
  "master_main getenv fs jp fork fatal evs m =
     (case initParams getenv of (ret, cfgPath, binPath) \<Rightarrow>
      if ret \<noteq> 0 then Inr (-1, m)
      else
        rbind (getfile fs (case cfgPath of None \<Rightarrow> [] | Some c \<Rightarrow> c) []) (\<lambda>(ret, result).
        if ret \<noteq> 0 then Inr (1, m)
        else
          rbind (orelse_throw (jp result)) (\<lambda>j.
          rbind (runWorkers fork j (ms_pids m) (ms_procs m)) (\<lambda>(pids, ps).
          rbind (event_loop fatal evs (m\<lparr>ms_pids := pids, ms_procs := ps\<rparr>)) (\<lambda>m1.
          Inr (0, m1\<lparr>ms_procs := cleanSources (ms_pids m1) (ms_procs m1)\<rparr>))))))"

section \<open>Log, pipe and worker\<close>

text \<open>\<^verbatim>\<open>log::init\<close>: the settings of the logging library, made once.\<close>

record glog =
  gl_flag :: int
  gl_stderrthreshold :: int
  gl_minloglevel :: int
  gl_program :: string
  gl_destinations :: "(int \<times> string) list"

definition glog_init :: "(string \<Rightarrow> string option) \<Rightarrow> glog \<Rightarrow> int \<times> glog" where
  "glog_init getenv g =
     (if gl_flag g = 1 then (0, g)
      else case getenv ''PUBSUB_LOG_PATH'' of
        None \<Rightarrow> (-1, g)
      | Some name \<Rightarrow>
          let level = (case getenv ''LOG_LEVEL'' of None \<Rightarrow> 0 | Some plevel \<Rightarrow> atoi plevel) in
          (0, g\<lparr>gl_stderrthreshold := level, gl_program := name,
                gl_destinations := [(0, name @ ''info-''), (1, name @ ''warn-''), (2, name @ ''error-''), (3, name @ ''fatal-'')],
                gl_minloglevel := level, gl_flag := 1\<rparr>))"

text \<open>
  \<^verbatim>\<open>U::pipe\<close>: the named pipes that exist, the error \<^verbatim>\<open>open\<close> reports for a name that it cannot open although it exists,
  whether \<^verbatim>\<open>mkfifo\<close> works, and the next descriptor.
\<close>

record fifo_os =
  fo_exists :: "string list"
  fo_refused :: "string \<Rightarrow> int option"
  fo_mkfifo :: "string \<Rightarrow> bool"
  fo_next :: int
  fo_open :: "int list"

definition os_open :: "string \<Rightarrow> fifo_os \<Rightarrow> int \<times> int \<times> fifo_os" where
  "os_open name os =
     (if name \<notin> set (fo_exists os) then (-1, 2, os)
      else case fo_refused os name of
        Some err \<Rightarrow> (-1, err, os)
      | None \<Rightarrow> (fo_next os, 0, os\<lparr>fo_next := fo_next os + 1, fo_open := fo_next os # fo_open os\<rparr>))"

record u_pipe =
  pp_fd :: int
  pp_fifo :: string
  pp_owner :: int

definition pipe_new :: "string \<Rightarrow> fifo_os \<Rightarrow> u_pipe \<times> fifo_os" where
  "pipe_new fifoName os =
     (case os_open fifoName os of (fd, err, os1) \<Rightarrow>
      if fd < 0 \<and> err = 2 then
        (if fo_mkfifo os fifoName \<and> fifoName \<notin> set (fo_exists os1) then
           (case os_open fifoName (os1\<lparr>fo_exists := fifoName # fo_exists os1\<rparr>) of (fd', _, os2) \<Rightarrow>
            (\<lparr>pp_fd = fd', pp_fifo = fifoName, pp_owner = 1\<rparr>, os2))
         else (\<lparr>pp_fd = fd, pp_fifo = fifoName, pp_owner = 0\<rparr>, os1))
      else (\<lparr>pp_fd = fd, pp_fifo = fifoName, pp_owner = 0\<rparr>, os1))"

definition pipe_delete :: "u_pipe \<Rightarrow> fifo_os \<Rightarrow> fifo_os" where
  "pipe_delete p os =
     (let os1 = os\<lparr>fo_open := removeAll (pp_fd p) (fo_open os)\<rparr> in
      if pp_owner p = 1 then os1\<lparr>fo_exists := removeAll (pp_fifo p) (fo_exists os1)\<rparr> else os1)"

definition pipe_senMsg :: "(int \<Rightarrow> string \<Rightarrow> int) \<Rightarrow> string \<Rightarrow> u_pipe \<Rightarrow> int" where
  "pipe_senMsg write buf p = (let len = write (pp_fd p) buf in if len < 0 then -1 else 0)"

text \<open>The functions a worker object calls: \<^verbatim>\<open>init\<close> and \<^verbatim>\<open>process\<close> when it is made, \<^verbatim>\<open>done\<close> when it is destroyed.\<close>

definition worker_new :: "'f option \<Rightarrow> 'f option \<Rightarrow> 'f list" where
  "worker_new process initF = (case initF of None \<Rightarrow> [] | Some f \<Rightarrow> [f]) @ (case process of None \<Rightarrow> [] | Some f \<Rightarrow> [f])"

definition worker_delete :: "'f option \<Rightarrow> 'f list" where
  "worker_delete done_f = (case done_f of None \<Rightarrow> [] | Some f \<Rightarrow> [f])"

section \<open>The command line tool\<close>

text \<open>
  \<^verbatim>\<open>tools\<close> asks for three arguments including its own name and uses a fourth; after the last
  argument comes a null pointer. Arrays of 512 hold the strings.
\<close>

definition tools_main :: "string list \<Rightarrow> fault + internal_msg option" where
  "tools_main argv =
     (if length argv < 3 then Inr None
      else
        rbind (arr_get argv 1) (\<lambda>ty.
        rbind (arr_get argv 2) (\<lambda>dest.
        rbind (if length argv = 3 then Inl Null_dereference else arr_get argv 3) (\<lambda>msg.
        Inr (Some \<lparr>im_srcName = ''tools'', im_destName = take 511 dest, im_msg = take 511 msg, im_type = atoi ty\<rparr>)))))"


section \<open>Scanning and cleaning up\<close>

definition started :: "pid_map \<Rightarrow> bool" where
  "started pids \<longleftrightarrow> -1 \<notin> fst ` set pids \<and> distinct (map fst pids)"

definition picked :: "(fd_entry \<Rightarrow> bool) \<Rightarrow> pid_map \<Rightarrow> int set" where
  "picked sel pids = {p. \<exists>e. (p, e) \<in> set pids \<and> sel e}"

definition without :: "int set \<Rightarrow> procs \<Rightarrow> procs" where
  "without P ps = \<lparr>ps_alive = filter (\<lambda>p. p \<notin> P) (ps_alive ps), ps_zombies = filter (\<lambda>p. p \<notin> P) (ps_zombies ps)\<rparr>"

definition known :: "procs \<Rightarrow> int set" where
  "known ps = set (ps_alive ps) \<union> set (ps_zombies ps)"

lemma known_without [simp]: "known (without P ps) = known ps - P"
  by (auto simp: known_def without_def)

lemma without_empty [simp]: "without {} ps = ps"
  by (simp add: without_def)

lemma without_without [simp]: "without P (without Q ps) = without (P \<union> Q) ps"
  by (auto simp: without_def intro: filter_cong)

lemma without_absent: "P \<inter> known ps = {} \<Longrightarrow> without P ps = ps"
  by (cases ps) (auto simp: without_def known_def filter_id_conv)

lemma picked_simps [simp]:
  "picked sel [] = {}"
  "picked sel (e # es) = (if sel (snd e) then insert (fst e) (picked sel es) else picked sel es)"
  by (cases e; auto simp: picked_def)+

lemma picked_all: "picked (\<lambda>_. True) pids = fst ` set pids"
  by (force simp: picked_def)

lemma picked_subset: "picked sel pids \<subseteq> fst ` set pids"
  by (force simp: picked_def)

lemma removeAll_as_filter: "removeAll p xs = filter (\<lambda>q. q \<noteq> p) xs"
  by (induction xs) auto

lemma filter_absent: "p \<notin> set xs \<Longrightarrow> filter (\<lambda>q. q \<noteq> p) xs = xs"
  by (induction xs) auto

lemma kill_then_wait:
  assumes "pid \<noteq> -1"
  shows "case sys_kill pid 9 ps of (ret, ps1) \<Rightarrow>
           if ret = -1 then ps1 = without {pid} ps else snd (sys_waitpid pid ps1) = without {pid} ps"
  using assms
  by (cases ps) (auto simp: sys_kill_def sys_waitpid_def without_def removeAll_as_filter filter_absent)

lemma clean_loop_picked:
  "-1 \<notin> picked sel pids \<Longrightarrow> clean_loop sel pids ps = without (picked sel pids) ps"
proof (induction pids arbitrary: ps)
  case (Cons e es)
  then show ?case
    using kill_then_wait [of "fst e" ps] by (auto split: prod.splits if_splits)
qed simp

lemma scan_loop_cases:
  assumes "started pids"
  shows "scan_loop pids ps =
           (if fst ` set pids \<subseteq> known ps
            then Inr (ps\<lparr>ps_zombies := filter (\<lambda>p. p \<notin> fst ` set pids) (ps_zombies ps)\<rparr>)
            else Inl Use_after_free)"
  using assms
proof (induction pids arbitrary: ps)
  case (Cons e es)
  let ?z = "ps\<lparr>ps_zombies := filter (\<lambda>p. p \<noteq> fst e) (ps_zombies ps)\<rparr>"
  have e: "fst e \<noteq> -1" "fst e \<notin> fst ` set es" "started es"
    using Cons.prems by (auto simp: started_def)
  have k: "sys_kill (fst e) 0 ps = (if fst e \<in> known ps then 0 else -1, ps)"
    using e by (auto simp: sys_kill_def known_def)
  have w: "snd (sys_waitpid (fst e) ps) = ?z"
    using e by (cases ps) (auto simp: sys_waitpid_def removeAll_as_filter filter_absent)
  have "fst ` set es \<subseteq> known ?z \<longleftrightarrow> fst ` set es \<subseteq> known ps"
    using e(2) by (auto simp: known_def subset_iff image_iff)
  then show ?case
    using Cons.IH [OF e(3), of ?z] k w
    by (auto simp: case_prod_beta conj_commute intro: filter_cong)
qed simp

text \<open>
  A recorded worker that has ended makes the next round but one of the scan continue from an erased element, and one
  stopped by \<^verbatim>\<open>ul_end_one\<close> the next round.
\<close>

lemma scan_after_death:
  assumes "started pids" and "pid \<in> fst ` set pids" and "pid \<notin> set (ps_alive ps)"
  shows "rbind (scan_loop pids ps) (scan_loop pids) = Inl Use_after_free"
  using assms by (auto simp: scan_loop_cases known_def)

lemma cleanSource_breaks_scan:
  assumes "started pids" and "(pid, e) \<in> set pids"
  shows "scan_loop pids (cleanSource (fd_file e) pids ps) = Inl Use_after_free"
proof -
  have "-1 \<notin> picked (\<lambda>x. fd_file x = fd_file e) pids"
    using assms(1) picked_subset [of _ pids] by (auto simp: started_def)
  moreover have "pid \<in> fst ` set pids" and "pid \<in> picked (\<lambda>x. fd_file x = fd_file e) pids"
    using assms(2) by (force, auto simp: picked_def)
  ultimately show ?thesis
    using assms(1) by (auto simp: cleanSource_def clean_loop_picked scan_loop_cases)
qed

lemma clean_loop_alive: "set (ps_alive (clean_loop sel pids ps)) \<subseteq> set (ps_alive ps)"
proof (induction pids arbitrary: ps)
  case (Cons e es)
  have "set (ps_alive (snd (sys_kill p s ps))) \<subseteq> set (ps_alive ps)" for p s and ps
    by (auto simp: sys_kill_def)
  moreover have "ps_alive (snd (sys_waitpid p ps)) = ps_alive ps" for p and ps
    by (auto simp: sys_waitpid_def split: list.split)
  ultimately have "set (ps_alive (snd (sys_waitpid p (snd (sys_kill p 9 ps))))) \<subseteq> set (ps_alive ps)"
    and "set (ps_alive (snd (sys_kill p 9 ps))) \<subseteq> set (ps_alive ps)" for p
    by simp_all
  then show ?case
    using Cons.IH by (auto simp: case_prod_beta split: if_splits dest!: subsetD [OF Cons.IH] subsetD)
qed simp

text \<open>A failed \<^verbatim>\<open>fork\<close> leaves the key -1, which the clean-up passes to \<^verbatim>\<open>kill\<close>.\<close>

lemma clean_loop_minus1: "-1 \<in> picked sel pids \<Longrightarrow> ps_alive (clean_loop sel pids ps) = []"
proof (induction pids arbitrary: ps)
  case (Cons e es)
  show ?case
  proof (cases "sel (snd e) \<and> fst e = -1")
    case True
    have "ps_alive (snd (sys_kill (-1) 9 ps)) = []"
      and "ps_alive (snd (sys_waitpid (-1) (snd (sys_kill (-1) 9 ps)))) = []"
      by (auto simp: sys_kill_def sys_waitpid_def split: list.split)
    moreover have "ps_alive ps' = [] \<Longrightarrow> ps_alive (clean_loop sel es ps') = []" for ps'
      using clean_loop_alive [of sel es ps'] by simp
    ultimately show ?thesis using True by (simp add: case_prod_beta)
  next
    case False
    with Cons show ?thesis by (auto simp: case_prod_beta split: if_splits)
  qed
qed simp

section \<open>Starting the workers\<close>

lemma worker_at_ok: "worker_at j i = Inr (f, n) \<Longrightarrow> i < length (fc_workers j)"
  by (auto simp: worker_at_def split: if_splits)

lemma run_loop_ok:
  assumes "run_loop fork j n i pids ps = Inr (pids', ps')" and "\<forall>k. i \<le> k \<and> k < i + n \<longrightarrow> fork k > 0"
  shows "fst ` set pids' = fst ` set pids \<union> fork ` {i..<i + n}
       \<and> ps' = ps\<lparr>ps_alive := ps_alive ps @ map fork [i..<i + n]\<rparr>"
  using assms
proof (induction n arbitrary: i pids ps)
  case (Suc n)
  have i: "fork i > 0" using Suc.prems by auto
  obtain f nm where "worker_at j i = Inr (f, nm)"
    using Suc.prems by (auto simp: rbind_eq_Inr)
  with Suc.prems i have
    r: "run_loop fork j n (i + 1) (map_put (fork i) \<lparr>fd_fd = 0, fd_file = f\<rparr> pids) (ps\<lparr>ps_alive := ps_alive ps @ [fork i]\<rparr>)
       = Inr (pids', ps')"
    by (simp add: Let_def)
  have "{i..<i + Suc n} = insert i {i + 1..<i + 1 + n}" by auto
  moreover have "[i..<i + Suc n] = i # [i + 1..<i + 1 + n]" by (simp add: upt_conv_Cons del: upt_Suc)
  ultimately show ?case
    using Suc.IH [OF r] Suc.prems(2) by (auto simp: map_put_keys)
qed simp

lemma run_loop_complete:
  assumes "\<forall>k. i \<le> k \<and> k < i + n \<longrightarrow> (\<exists>w. worker_at j k = Inr w)"
  shows "\<exists>r. run_loop fork j n i pids ps = Inr r"
  using assms
proof (induction n arbitrary: i pids ps)
  case (Suc n)
  obtain f nm where "worker_at j i = Inr (f, nm)" using Suc.prems by (metis add_Suc_right less_add_Suc1 order_refl surj_pair)
  then show ?case using Suc.IH [of "i + 1"] Suc.prems by (auto simp: Let_def)
qed simp

section \<open>The loops keep the map and only end processes\<close>

definition narrows :: "master \<Rightarrow> master \<Rightarrow> bool" where
  "narrows m m' \<longleftrightarrow> ms_pids m' = ms_pids m \<and> known (ms_procs m') \<subseteq> known (ms_procs m)
     \<and> set (ps_alive (ms_procs m')) \<subseteq> set (ps_alive (ms_procs m))"

lemma narrows_refl [simp]: "narrows m m"
  by (simp add: narrows_def)

lemma narrows_trans: "narrows m m' \<Longrightarrow> narrows m' m'' \<Longrightarrow> narrows m m''"
  by (auto simp: narrows_def)

lemma dispatch_narrows:
  assumes "dispatch fatal msg m = Inr m'" and "-1 \<notin> fst ` set (ms_pids m)"
  shows "narrows m m'"
proof -
  have "-1 \<notin> picked sel (ms_pids m)" for sel
    using assms(2) picked_subset by blast
  with assms(1) show ?thesis
    by (auto simp: dispatch_def rbind_eq_Inr cleanSource_def clean_loop_picked narrows_def without_def known_def
        split: if_splits)
qed

lemma read_loop_narrows:
  "read_loop fatal rs m = Inr m' \<Longrightarrow> -1 \<notin> fst ` set (ms_pids m) \<Longrightarrow> narrows m m'"
proof (induction rs arbitrary: m)
  case (Cons r rs)
  show ?case
  proof (cases r)
    case (Read_msg msg)
    show ?thesis
    proof (cases "ms_button m = 0")
      case True
      then obtain m1 where d: "dispatch fatal msg m = Inr m1" and r: "read_loop fatal rs m1 = Inr m'"
        using Cons.prems Read_msg by (auto simp: rbind_eq_Inr)
      have "narrows m m1" using d Cons.prems by (simp add: dispatch_narrows)
      moreover have "narrows m1 m'" using Cons.IH [OF r] calculation Cons.prems by (simp add: narrows_def)
      ultimately show ?thesis by (rule narrows_trans)
    qed (use Cons.prems in simp)
  qed (use Cons in \<open>auto split: if_splits\<close>)
qed simp

lemma event_loop_keeps_map:
  "event_loop fatal evs m = Inr m' \<Longrightarrow> -1 \<notin> fst ` set (ms_pids m) \<Longrightarrow> ms_pids m' = ms_pids m"
proof (induction evs arbitrary: m)
  case (Cons ev evs)
  show ?case
  proof (cases ev)
    case (Pipe_event rs)
    with Cons.prems show ?thesis
      using Cons.IH read_loop_narrows by (fastforce simp: rbind_eq_Inr narrows_def split: if_splits)
  qed (use Cons in \<open>auto simp: rbind_eq_Inr split: if_splits\<close>)
qed simp

lemma master_main_cases:
  assumes "master_main getenv fs jp fork fatal evs m = Inr (0, m')"
  obtains j result pids ps m1 where "jp result = Some j" and "runWorkers fork j (ms_pids m) (ms_procs m) = Inr (pids, ps)"
    and "event_loop fatal evs (m\<lparr>ms_pids := pids, ms_procs := ps\<rparr>) = Inr m1"
    and "m' = m1\<lparr>ms_procs := cleanSources (ms_pids m1) (ms_procs m1)\<rparr>"
  using assms
  by (auto simp: master_main_def rbind_eq_Inr orelse_throw_def split: prod.splits if_splits option.splits)

section \<open>Reading the configuration\<close>

lemma lines_of_Cons: "\<exists>l ls. lines_of s = l # ls"
  by (induction s) (auto split: list.split)

lemma concat_lines_of: "concat (lines_of s) = filter (\<lambda>c. c \<noteq> CHR 0x0A) s"
proof (induction s)
  case (Cons c s)
  then show ?case using lines_of_Cons [of s] by (auto split: list.split)
qed simp

lemma lines_of_members: "l \<in> set (lines_of s) \<Longrightarrow> set l \<subseteq> set s"
proof (induction s arbitrary: l)
  case (Cons c s)
  obtain l' ls where "lines_of s = l' # ls" using lines_of_Cons by blast
  then show ?case using Cons by (fastforce split: if_splits)
qed simp

lemma getfile_loop_cases:
  "getfile_loop ls result =
     (if \<forall>l \<in> set ls. length l < 256 then Inr (result @ concat (map c_str ls)) else Inl Index_out_of_range)"
  by (induction ls arbitrary: result) auto

lemma c_str_nul_free: "\<forall>l \<in> set ls. CHR 0x00 \<notin> set l \<Longrightarrow> concat (map c_str ls) = concat ls"
  by (induction ls) (auto simp: c_str_id)

lemma getfile_text:
  assumes "fs (c_str path) = Some s" and "CHR 0x00 \<notin> set s"
  shows "getfile fs path result =
           (if \<forall>l \<in> set (lines_of s). length l < 256 then Inr (0, result @ filter (\<lambda>c. c \<noteq> CHR 0x0A) s)
            else Inl Index_out_of_range)"
proof -
  have "\<forall>l \<in> set (lines_of s). CHR 0x00 \<notin> set l"
    using assms(2) lines_of_members by blast
  then have "concat (map c_str (lines_of s)) = filter (\<lambda>c. c \<noteq> CHR 0x0A) s"
    by (simp add: c_str_nul_free concat_lines_of)
  with assms(1) show ?thesis by (simp add: getfile_def getfile_loop_cases)
qed

section \<open>Log and pipe\<close>

lemma glog_init_once:
  "glog_init getenv g = (0, g') \<Longrightarrow> glog_init getenv' g' = (0, g') \<and> gl_flag g' = 1"
  by (auto simp: glog_init_def Let_def split: if_splits option.splits)

lemma pipe_scope:
  assumes "pipe_new name os = (p, os1)" and "\<forall>n \<in> set (fo_open os). 0 \<le> n \<and> n < fo_next os"
  shows "set (fo_exists (pipe_delete p os1)) = set (fo_exists os) \<and> set (fo_open (pipe_delete p os1)) = set (fo_open os)"
  using assms
  by (auto simp: pipe_new_def pipe_delete_def os_open_def Let_def split: prod.splits if_splits option.splits)

end
