(* ===== verification/Tcp_Proxy.thy ===== *)
theory Tcp_Proxy
  imports Frame
begin

text \<open>
  The proxy (\<^verbatim>\<open>include/tcpClient.hpp\<close>, \<^verbatim>\<open>include/tcpServer.hpp\<close>, \<^verbatim>\<open>proxyServer/proxyServer.cpp\<close>): for every connection it accepts, the server makes a client connected to the
  other side, passes the greeting of the other side on, and later passes bytes from the connection to a client. The network is
  a parameter: the results of the calls of \<^verbatim>\<open>read\<close>, \<^verbatim>\<open>accept\<close> and \<^verbatim>\<open>connect\<close>. Bytes are characters. Log messages are left out.
\<close>

section \<open>The client\<close>

record tcpClient =
  tc_sock :: int
  tc_ip :: string
  tc_port :: int
  tc_message :: string
  tc_connected :: bool

text \<open>\<open>sock\<close> is the result of \<^verbatim>\<open>socket\<close>, \<open>connect_ok\<close> that of \<^verbatim>\<open>connect\<close>; the constructor does not look at the result.\<close>

definition connectToServer :: "int \<Rightarrow> bool \<Rightarrow> tcpClient \<Rightarrow> int \<times> tcpClient" where
  "connectToServer sock connect_ok c =
     (let c1 = c\<lparr>tc_sock := sock\<rparr> in
      if sock = -1 then (-1, c1)
      else if \<not> connect_ok then (-1, c1)
      else (0, c1\<lparr>tc_connected := True\<rparr>))"

definition new_tcpClient :: "string \<Rightarrow> int \<Rightarrow> int \<Rightarrow> bool \<Rightarrow> tcpClient" where
  "new_tcpClient ip port sock connect_ok =
     snd (connectToServer sock connect_ok
       \<lparr>tc_sock = 0, tc_ip = ip, tc_port = port, tc_message = replicate 1024 (CHR 0x00), tc_connected = False\<rparr>)"

text \<open>Storing what \<^verbatim>\<open>read\<close> delivers at a position of the array.\<close>

definition store :: "string \<Rightarrow> nat \<Rightarrow> string \<Rightarrow> fault + string" where
  "store buf i s =
     (if i + length s \<le> length buf then Inr (take i buf @ s @ drop (i + length s) buf) else Inl Index_out_of_range)"

text \<open>
  The loop of \<^verbatim>\<open>getMsg\<close>: every \<^verbatim>\<open>read\<close> may deliver as many bytes as the whole array holds, wherever it begins. \<open>None\<close> in the list is a
  failed \<^verbatim>\<open>read\<close>; an empty text is the end of the connection. The result is \<open>None\<close> while the loop goes on.
\<close>

fun getMsg_loop :: "string option list \<Rightarrow> nat \<Rightarrow> string \<Rightarrow> (fault + int \<times> nat \<times> string) option" where
  "getMsg_loop [] recv_len message = None"
| "getMsg_loop (None # rs) recv_len message = Some (Inr (-1, recv_len, message))"
| "getMsg_loop (Some s # rs) recv_len message =
     (case store message recv_len s of
        Inl e \<Rightarrow> Some (Inl e)
      | Inr message \<Rightarrow>
          let recv_len = recv_len + length s in
          case arr_get message (int recv_len - 2) of
            Inl e \<Rightarrow> Some (Inl e)
          | Inr c1 \<Rightarrow>
              if c1 = CHR 0x0D then
                (case arr_get message (int recv_len - 1) of
                   Inl e \<Rightarrow> Some (Inl e)
                 | Inr c2 \<Rightarrow> if c2 = CHR 0x0A then Some (Inr (0, recv_len, message)) else getMsg_loop rs recv_len message)
              else getMsg_loop rs recv_len message)"

definition getMsg :: "string option list \<Rightarrow> string \<Rightarrow> tcpClient \<Rightarrow> (fault + int \<times> string \<times> tcpClient) option" where
  "getMsg reads messageOut c =
     (case getMsg_loop reads 0 (tc_message c) of
        None \<Rightarrow> None
      | Some (Inl e) \<Rightarrow> Some (Inl e)
      | Some (Inr (ret, recv_len, message)) \<Rightarrow>
          let c1 = c\<lparr>tc_message := message\<rparr> in
          if ret = -1 then Some (Inr (-1, messageOut, c1))
          else Some (rbind (buf_string message) (\<lambda>s. Inr (0, s, c1))))"

text \<open>What \<^verbatim>\<open>sendMsg\<close> hands to \<^verbatim>\<open>write\<close>; it succeeds whatever \<^verbatim>\<open>write\<close> returns.\<close>

definition sendMsg :: "string \<Rightarrow> tcpClient \<Rightarrow> int \<times> (int \<times> string)" where
  "sendMsg messageIn c = (0, (tc_sock c, messageIn))"

section \<open>The server\<close>

text \<open>What is written to connections and to the other side, in order.\<close>

datatype sent = To_connection int string | To_server int string

record tcpServer =
  sv_inPort :: int
  sv_outPort :: int
  sv_clnt_sock :: "int option"
  sv_clients :: "(int \<times> tcpClient) list"
  sv_watched :: "int list"
  sv_closed :: "int list"
  sv_sent :: "sent list"

text \<open>
  A new connection. \<open>sock\<close>, \<open>connect_ok\<close> and \<open>reads\<close> belong to the client made for it. The
  message goes out without its last character: the length is an unsigned number, and that of an empty message, less
  one, is the largest one, far past its end.
\<close>

definition accept_event ::
    "int \<Rightarrow> int \<Rightarrow> bool \<Rightarrow> string option list \<Rightarrow> bool \<Rightarrow> tcpServer \<Rightarrow> (fault + tcpServer) option" where
  "accept_event clnt_sock sock connect_ok reads ctl_ok sv =
     (let sv1 = sv\<lparr>sv_clnt_sock := Some clnt_sock\<rparr>;
          client = (case map_of (sv_clients sv1) clnt_sock of
                      None \<Rightarrow> new_tcpClient ''0.0.0.0'' 21 sock connect_ok
                    | Some c \<Rightarrow> c) in
      case getMsg reads [] client of
        None \<Rightarrow> None
      | Some (Inl e) \<Rightarrow> Some (Inl e)
      | Some (Inr (_, message, client')) \<Rightarrow>
          if message = [] then Some (Inl Index_out_of_range)
          else
            let sv2 = sv1\<lparr>sv_clients := map_put clnt_sock client' (sv_clients sv1),
                          sv_sent := sv_sent sv1 @ [To_connection clnt_sock (butlast message)]\<rparr> in
            Some (Inr (if ctl_ok then sv2\<lparr>sv_watched := clnt_sock # sv_watched sv2\<rparr> else sv2)))"

text \<open>
  Data on a connection, one \<^verbatim>\<open>read\<close> of one byte after the other into an array of one byte, which is then taken
  for a terminated string. The client is the one of the last accepted connection. \<open>None\<close> is a failed \<^verbatim>\<open>read\<close>, \<open>Some None\<close>
  the end of the connection.
\<close>

fun data_loop :: "int \<Rightarrow> char option option list \<Rightarrow> tcpServer \<Rightarrow> fault + tcpServer" where
  "data_loop fd [] sv = Inr sv"
| "data_loop fd (None # rs) sv = Inr sv"
| "data_loop fd (Some None # rs) sv =
     (let sv1 = sv\<lparr>sv_watched := removeAll fd (sv_watched sv)\<rparr> in
      case map_of (sv_clients sv1) fd of
        None \<Rightarrow> Inl Null_dereference
      | Some c \<Rightarrow>
          Inr (sv1\<lparr>sv_clients := filter (\<lambda>e. fst e \<noteq> fd) (sv_clients sv1),
                   sv_closed := tc_sock c # fd # sv_closed sv1\<rparr>))"
| "data_loop fd (Some (Some b) # rs) sv =
     rbind (buf_string [b]) (\<lambda>s.
     case sv_clnt_sock sv of
       None \<Rightarrow> Inl Uninitialized_read
     | Some clnt_sock \<Rightarrow>
         (case map_of (sv_clients sv) clnt_sock of
            None \<Rightarrow> Inl Null_dereference
          | Some c \<Rightarrow>
              (case sendMsg s c of (_, (to, m)) \<Rightarrow>
               data_loop fd rs (sv\<lparr>sv_sent := sv_sent sv @ [To_server to m]\<rparr>))))"

datatype net_event = Accepts int int bool "string option list" bool | Data int "char option option list" | Epoll_fails

text \<open>The loop of \<^verbatim>\<open>startTcpServer\<close> over the events. Data is reported only for watched connections.\<close>

fun serve :: "net_event list \<Rightarrow> tcpServer \<Rightarrow> (fault + tcpServer) option" where
  "serve [] sv = Some (Inr sv)"
| "serve (Epoll_fails # evs) sv = Some (Inr sv)"
| "serve (Accepts fd sock ok reads ctl_ok # evs) sv =
     (case accept_event fd sock ok reads ctl_ok sv of
        None \<Rightarrow> None
      | Some (Inl e) \<Rightarrow> Some (Inl e)
      | Some (Inr sv1) \<Rightarrow> serve evs sv1)"
| "serve (Data fd rs # evs) sv =
     (if fd \<in> set (sv_watched sv) then
        (case data_loop fd rs sv of
           Inl e \<Rightarrow> Some (Inl e)
         | Inr sv1 \<Rightarrow> serve evs sv1)
      else serve evs sv)"

definition startTcpServer :: "bool \<Rightarrow> bool \<Rightarrow> bool \<Rightarrow> net_event list \<Rightarrow> tcpServer \<Rightarrow> (fault + tcpServer) option" where
  "startTcpServer bind_ok listen_ok ctl_ok evs sv =
     (if \<not> bind_ok then Some (Inr sv)
      else if \<not> listen_ok then Some (Inr sv)
      else if \<not> ctl_ok then Some (Inr sv)
      else serve evs sv)"

definition new_tcpServer :: "int \<Rightarrow> int \<Rightarrow> tcpServer" where
  "new_tcpServer inPort outPort =
     \<lparr>sv_inPort = inPort, sv_outPort = outPort, sv_clnt_sock = None, sv_clients = [], sv_watched = [], sv_closed = [], sv_sent = []\<rparr>"

text \<open>The ports the proxy's main program chooses: in, out.\<close>

definition proxy_ports :: "(string \<Rightarrow> string option) \<Rightarrow> int \<times> int" where
  "proxy_ports getenv =
     (let outPort = 21; inPort = 19870;
          outPort = (case getenv ''LOG_FLAG'' of None \<Rightarrow> outPort | Some v \<Rightarrow> atoi v);
          outPort = (case getenv ''OUT_PORT'' of None \<Rightarrow> outPort | Some v \<Rightarrow> atoi v);
          inPort = (case getenv ''IN_PORT'' of None \<Rightarrow> inPort | Some v \<Rightarrow> atoi v) in
      (inPort, outPort))"

definition proxy_main ::
    "(string \<Rightarrow> string option) \<Rightarrow> bool \<Rightarrow> bool \<Rightarrow> bool \<Rightarrow> net_event list \<Rightarrow> (fault + tcpServer) option" where
  "proxy_main getenv bind_ok listen_ok ctl_ok evs =
     (case proxy_ports getenv of (inPort, outPort) \<Rightarrow>
      startTcpServer bind_ok listen_ok ctl_ok evs (new_tcpServer inPort outPort))"

section \<open>Receiving a message\<close>

lemma store_in: "i + length s \<le> length buf \<Longrightarrow> store buf i s = Inr (take i buf @ s @ drop (i + length s) buf)"
  by (simp add: store_def)

text \<open>The pieces of a message: no piece but the last makes the text so far end in a line end, and the first brings two bytes.\<close>

definition ends_line :: "string \<Rightarrow> bool" where
  "ends_line s \<longleftrightarrow> (\<exists>t. s = t @ [CHR 0x0D, CHR 0x0A])"

lemma ends_line_nth:
  "length s \<ge> 2 \<Longrightarrow> ends_line s \<longleftrightarrow> s ! (length s - 2) = CHR 0x0D \<and> s ! (length s - 1) = CHR 0x0A"
proof -
  assume "length s \<ge> 2"
  then have "length (rev s) \<ge> 2" by simp
  then obtain a b t where "rev s = a # b # t" by (cases "rev s"; cases "tl (rev s)") auto
  then have "s = rev t @ [b, a]" by (metis append.assoc append_Cons append_Nil rev.simps(2) rev_rev_ident)
  then show ?thesis by (auto simp: ends_line_def nth_append)
qed

lemma getMsg_step:
  assumes "length got + length s \<ge> 2" and "length got + length s \<le> length buf"
    and "take (length got) buf = got"
  shows "getMsg_loop (Some s # rs) (length got) buf =
           (let buf' = got @ s @ drop (length got + length s) buf in
            if ends_line (got @ s) then Some (Inr (0, length got + length s, buf'))
            else getMsg_loop rs (length got + length s) buf')"
proof -
  let ?n = "length got + length s" and ?b = "got @ s @ drop (length got + length s) buf"
  have st: "store buf (length got) s = Inr ?b"
    using assms by (simp add: store_in)
  have len: "length ?b = length buf" using assms(2) by simp
  have n2: "nat (int ?n - 2) = ?n - 2" and n1: "nat (int ?n - 1) = ?n - 1"
    using assms(1) by linarith+
  have "?b ! (?n - 2) = (got @ s) ! (?n - 2)" and "?b ! (?n - 1) = (got @ s) ! (?n - 1)"
    using assms(1) by (auto simp: nth_append)
  then have a: "arr_get ?b (int ?n - 2) = Inr ((got @ s) ! (?n - 2))" "arr_get ?b (int ?n - 1) = Inr ((got @ s) ! (?n - 1))"
    using assms(1,2) len n1 n2 by (simp_all add: arr_get_def)
  show ?thesis
    using a st ends_line_nth [of "got @ s"] assms(1) by (simp add: Let_def)
qed

lemma getMsg_pieces:
  assumes "length got + length (hd ps) \<ge> 2" and "ps \<noteq> []"
    and "length got + length (concat ps) \<le> length buf"
    and "take (length got) buf = got"
    and "ends_line (got @ concat ps)"
    and "\<forall>k. 0 < k \<and> k < length ps \<longrightarrow> \<not> ends_line (got @ concat (take k ps))"
  shows "getMsg_loop (map Some ps @ rs) (length got) buf =
           Some (Inr (0, length got + length (concat ps), got @ concat ps @ drop (length got + length (concat ps)) buf))"
  using assms
proof (induction ps arbitrary: got buf)
  case (Cons s ps)
  let ?b = "got @ s @ drop (length got + length s) buf"
  have step: "getMsg_loop (map Some (s # ps) @ rs) (length got) buf =
      (if ends_line (got @ s) then Some (Inr (0, length got + length s, ?b))
       else getMsg_loop (map Some ps @ rs) (length got + length s) ?b)"
    using getMsg_step [of got s buf "map Some ps @ rs"] Cons.prems by (simp add: Let_def)
  show ?case
  proof (cases "ps = []")
    case True
    with step Cons.prems show ?thesis by simp
  next
    case False
    have ne: "\<not> ends_line (got @ s)"
      using Cons.prems(6) [rule_format, of 1] False by simp
    have late: "\<forall>k. 0 < k \<and> k < length ps \<longrightarrow> \<not> ends_line ((got @ s) @ concat (take k ps))"
      using Cons.prems(6) by (metis Suc_less_eq append.assoc concat.simps(2) length_Cons take_Suc_Cons zero_less_Suc)
    have "getMsg_loop (map Some ps @ rs) (length (got @ s)) ?b =
        Some (Inr (0, length (got @ s) + length (concat ps), (got @ s) @ concat ps @ drop (length (got @ s) + length (concat ps)) ?b))"
      by (rule Cons.IH) (use Cons.prems False late in \<open>auto simp: add.assoc\<close>)
    with step ne show ?thesis by (simp add: ac_simps del: getMsg_loop.simps)
  qed
qed simp

text \<open>A client that has not received anything yet.\<close>

definition fresh_client :: "tcpClient \<Rightarrow> bool" where
  "fresh_client c \<longleftrightarrow> tc_message c = replicate 1024 (CHR 0x00)"

definition line_pieces :: "string list \<Rightarrow> bool" where
  "line_pieces ps \<longleftrightarrow> ps \<noteq> [] \<and> length (hd ps) \<ge> 2 \<and> length (concat ps) < 1024 \<and> CHR 0x00 \<notin> set (concat ps)
     \<and> ends_line (concat ps) \<and> (\<forall>k \<in> {1..<length ps}. \<not> ends_line (concat (take k ps)))"

lemma getMsg_line:
  assumes "fresh_client c" and "line_pieces ps"
  shows "\<exists>c'. getMsg (map Some ps @ rs) out c = Some (Inr (0, concat ps, c')) \<and> tc_sock c' = tc_sock c"
proof -
  let ?z = "replicate 1024 (CHR 0x00) :: string"
  have "getMsg_loop (map Some ps @ rs) (length ([]::string)) ?z =
      Some (Inr (0, length ([]::string) + length (concat ps), [] @ concat ps @ drop (length ([]::string) + length (concat ps)) ?z))"
    by (rule getMsg_pieces) (use assms(2) in \<open>auto simp: line_pieces_def\<close>)
  moreover have "buf_string (concat ps @ replicate (1024 - length (concat ps)) (CHR 0x00)) = Inr (concat ps)"
    using assms(2) by (subst buf_string_small) (auto simp: line_pieces_def c_str_id)
  ultimately show ?thesis
    using assms(1) by (simp add: getMsg_def fresh_client_def Let_def drop_replicate)
qed

text \<open>An answer that is too long for the array, the end of the connection before anything came, and a single byte.\<close>

lemma getMsg_overflow:
  assumes "length s \<ge> 2" "length s \<le> 1023" "length s + length t > 1024" "\<not> ends_line s" "length (tc_message c) = 1024"
  shows "getMsg (Some s # Some t # rs) out c = Some (Inl Index_out_of_range)"
proof -
  have "getMsg_loop (Some s # Some t # rs) 0 (tc_message c) =
      getMsg_loop (Some t # rs) (length s) (s @ drop (length s) (tc_message c))"
    using getMsg_step [of "[]" s "tc_message c" "Some t # rs"] assms by (simp add: Let_def)
  also have "\<dots> = Some (Inl Index_out_of_range)"
    using assms by (simp add: store_def)
  finally show ?thesis by (simp add: getMsg_def)
qed

lemma getMsg_short: "length s < 2 \<Longrightarrow> length (tc_message c) \<ge> 2 \<Longrightarrow> getMsg (Some s # rs) out c = Some (Inl Index_out_of_range)"
  by (simp add: getMsg_def store_def arr_get_def)

section \<open>Serving\<close>

lemma fresh_new_tcpClient: "fresh_client (new_tcpClient ip port sock ok)"
  by (simp add: fresh_client_def new_tcpClient_def connectToServer_def Let_def)

lemma accept_passes_greeting:
  assumes "map_of (sv_clients sv) fd = None" and "line_pieces ps"
  shows "\<exists>sv'. accept_event fd sock ok (map Some ps @ rs) ctl_ok sv = Some (Inr sv')
       \<and> sv_sent sv' = sv_sent sv @ [To_connection fd (butlast (concat ps))]
       \<and> (fd \<in> set (sv_watched sv') \<longleftrightarrow> ctl_ok \<or> fd \<in> set (sv_watched sv))
       \<and> fst ` set (sv_clients sv') = insert fd (fst ` set (sv_clients sv))"
proof -
  let ?c = "new_tcpClient ''0.0.0.0'' 21 sock ok"
  obtain c' where g: "getMsg (map Some ps @ rs) [] ?c = Some (Inr (0, concat ps, c'))"
    using getMsg_line [OF fresh_new_tcpClient assms(2)] by blast
  have "concat ps \<noteq> []"
    using assms(2) unfolding line_pieces_def ends_line_def by (metis Nil_is_append_conv list.distinct(1))
  then show ?thesis using g assms(1) by (auto simp: accept_event_def Let_def map_put_keys)
qed

lemma data_byte_overreads:
  assumes "b \<noteq> CHR 0x00"
  shows "data_loop fd (Some (Some b) # rs) sv = Inl Index_out_of_range"
  using assms by (simp add: buf_string_def)

text \<open>Every watched connection has a client, so the end of a connection finds it.\<close>

definition server_inv :: "tcpServer \<Rightarrow> bool" where
  "server_inv sv \<longleftrightarrow> set (sv_watched sv) \<subseteq> fst ` set (sv_clients sv)"

lemma accept_event_inv:
  assumes "accept_event fd sock ok reads ctl_ok sv = Some (Inr sv')" and "server_inv sv"
  shows "server_inv sv'"
  using assms
  by (auto simp: accept_event_def Let_def server_inv_def map_put_keys subset_iff split: option.splits sum.splits if_splits)

lemma data_loop_inv: "data_loop fd rs sv = Inr sv' \<Longrightarrow> server_inv sv \<Longrightarrow> server_inv sv'"
proof (induction rs arbitrary: sv)
  case (Cons r rs)
  consider "r = None" | "r = Some None" | b where "r = Some (Some b)" by (metis not_Some_eq)
  then show ?case
  proof cases
    case 2
    with Cons.prems show ?thesis by (force simp: Let_def server_inv_def split: option.splits)
  next
    case 3
    with Cons.prems(1) obtain s and c :: tcpClient where
      "data_loop fd rs (sv\<lparr>sv_sent := sv_sent sv @ [To_server (tc_sock c) s]\<rparr>) = Inr sv'"
      by (cases "buf_string [b]"; cases "sv_clnt_sock sv"; cases "map_of (sv_clients sv) (the (sv_clnt_sock sv))")
        (auto simp: sendMsg_def)
    then show ?thesis using Cons.IH Cons.prems(2) by (fastforce simp: server_inv_def)
  qed (use Cons.prems in simp)
qed simp

lemma serve_inv: "serve evs sv = Some (Inr sv') \<Longrightarrow> server_inv sv \<Longrightarrow> server_inv sv'"
proof (induction evs sv rule: serve.induct)
  case (3 fd sock ok reads ctl_ok evs sv)
  then show ?case by (auto split: option.splits sum.splits dest: accept_event_inv)
next
  case (4 fd rs evs sv)
  then show ?case by (auto split: sum.splits if_splits dest: data_loop_inv)
qed auto

lemma connection_end:
  assumes "server_inv sv" and "fd \<in> set (sv_watched sv)"
  shows "\<exists>sv'. data_loop fd [Some None] sv = Inr sv' \<and> fd \<notin> set (sv_watched sv') \<and> map_of (sv_clients sv') fd = None
       \<and> fd \<in> set (sv_closed sv')"
proof -
  have "map_of (sv_clients sv) fd \<noteq> None"
    using assms by (auto simp: server_inv_def map_of_eq_None_iff)
  then obtain c where "map_of (sv_clients sv) fd = Some c" by auto
  moreover have "map_of (filter (\<lambda>e. fst e \<noteq> fd) (sv_clients sv)) fd = None"
    by (auto simp: map_of_eq_None_iff)
  ultimately show ?thesis by (simp add: Let_def)
qed

lemma proxy_out_port_unused:
  assumes "accept_event fd sock ok reads ctl_ok sv = Some (Inr sv')" and "map_of (sv_clients sv) fd = None"
  shows "\<exists>c. map_of (sv_clients sv') fd = Some c \<and> tc_port c = 21"
proof -
  have p: "getMsg r m c = Some (Inr (x, m', c')) \<Longrightarrow> tc_port c' = tc_port c" for r m c x m' c'
    by (auto simp: getMsg_def Let_def rbind_eq_Inr split: option.splits sum.splits if_splits)
  show ?thesis
    using assms
    by (auto simp: accept_event_def Let_def new_tcpClient_def connectToServer_def
        split: option.splits sum.splits if_splits dest!: p)
qed

end
