(* ===== verification/Sql_Gen.thy ===== *)
theory Sql_Gen
  imports Hm_Log
begin

text \<open>
  The generator (\<^verbatim>\<open>sqlGenerate/sqlGen.cpp\<close>): it asks the database for the description of a table and writes a select statement and the
  code that binds its text columns. The database is a parameter: whether the connection is made, and for a query its rows,
  each a list of texts or nulls. Without connection or result the program ends with 0 as well.
\<close>

section \<open>The code\<close>

record field =
  fi_name :: string
  fi_type :: string
  fi_length :: string

text \<open>\<^verbatim>\<open>std::string::find\<close> of one character.\<close>

primrec find_char :: "char \<Rightarrow> string \<Rightarrow> nat option" where
  "find_char c [] = None"
| "find_char c (x # xs) = (if x = c then Some 0 else map_option Suc (find_char c xs))"

text \<open>The length of the part between the parentheses is computed in 64 unsigned bits.\<close>

definition getTypeAndLength :: "string \<Rightarrow> field \<Rightarrow> field" where
  "getTypeAndLength res f =
     (case find_char CHR ''('' res of
        None \<Rightarrow> f\<lparr>fi_type := res\<rparr>
      | Some iter \<Rightarrow>
          let f1 = f\<lparr>fi_type := take iter res\<rparr> in
          if fi_type f1 = ''varchar'' \<or> fi_type f1 = ''char'' then
            f1\<lparr>fi_length := take (nat ((int (length res) - int iter - 2) mod 2 ^ 64)) (drop (iter + 1) res)\<rparr>
          else f1)"

text \<open>A row holds six columns per field; the name and the type are the first two. A null cannot become a string.\<close>

definition cell_at :: "string option list \<Rightarrow> nat \<Rightarrow> fault + string" where
  "cell_at result_row j =
     rbind (arr_get result_row (int j)) (\<lambda>c. case c of None \<Rightarrow> Inl Uncaught_exception | Some s \<Rightarrow> Inr s)"

function row_fields :: "nat \<Rightarrow> nat \<Rightarrow> string option list \<Rightarrow> field list \<Rightarrow> fault + field list" where
  "row_fields column j result_row fieldInfo =
     (if j < column then
        rbind (cell_at result_row j) (\<lambda>name.
        rbind (cell_at result_row (j + 1)) (\<lambda>res.
        row_fields column (j + 6) result_row
          (fieldInfo @ [getTypeAndLength res \<lparr>fi_name = name, fi_type = [], fi_length = []\<rparr>])))
      else Inr fieldInfo)"
  by pat_completeness auto

termination
  by (relation "measure (\<lambda>(column, j, r, f). column - j)") auto

declare row_fields.simps [simp del]

primrec all_fields :: "nat \<Rightarrow> string option list list \<Rightarrow> field list \<Rightarrow> fault + field list" where
  "all_fields column [] fieldInfo = Inr fieldInfo"
| "all_fields column (r # rs) fieldInfo = rbind (row_fields column 0 r fieldInfo) (all_fields column rs)"

text \<open>The select statement: \<open>p\<close> counts the fields and the one that makes it the size gets no comma.\<close>

primrec select_loop :: "nat \<Rightarrow> field list \<Rightarrow> nat \<Rightarrow> string \<Rightarrow> nat \<times> string" where
  "select_loop n [] p genSql = (p, genSql)"
| "select_loop n (info # infos) p genSql =
     (let p = p + 1 in
      select_loop n infos p (if n = p then genSql @ fi_name info @ '' '' else genSql @ fi_name info @ '', ''))"

definition genSql_of :: "field list \<Rightarrow> string \<Rightarrow> nat \<times> string" where
  "genSql_of fieldInfo tableName =
     (case select_loop (length fieldInfo) fieldInfo 0 ''select '' of (p, genSql) \<Rightarrow> (p, genSql @ '' from '' @ tableName))"

definition buf512 :: "string \<Rightarrow> string" where
  "buf512 s = take 511 (c_str s)"

definition newline :: string where
  "newline = [CHR 0x0A]"

definition bind_code :: "string \<Rightarrow> nat \<Rightarrow> field \<Rightarrow> string" where
  "bind_code structName i f =
     (if fi_type f = ''varchar'' then
        buf512 (''    params['' @ dec (int i) @ ''].buffer_type = MYSQL_TYPE_STRING;'' @ newline)
        @ buf512 (''    params['' @ dec (int i) @ ''].buffer = '' @ c_str structName @ ''.'' @ c_str (fi_name f) @ '';'' @ newline)
        @ buf512 (''    params['' @ dec (int i) @ ''].buffer_length = sizeof('' @ c_str structName @ ''.'' @ c_str (fi_name f) @ '');'' @ newline)
        @ newline
      else [])"

text \<open>The last loop: \<open>k\<close> rounds are left, \<open>i\<close> is the index.\<close>

primrec code_loop :: "field list \<Rightarrow> string \<Rightarrow> nat \<Rightarrow> nat \<Rightarrow> string \<Rightarrow> fault + string" where
  "code_loop fieldInfo structName 0 i fileCode = Inr fileCode"
| "code_loop fieldInfo structName (Suc k) i fileCode =
     rbind (arr_get fieldInfo (int i)) (\<lambda>f. code_loop fieldInfo structName k (i + 1) (fileCode @ bind_code structName i f))"

record description =
  de_column :: nat
  de_rows :: "string option list list"

text \<open>
  The main program. The lines that read the table's and the structure's name from the arguments are commented
  out, so both stay empty; so do the address and the user.
\<close>

definition sqlGen_main ::
    "(string \<Rightarrow> string \<Rightarrow> bool) \<Rightarrow> (string \<Rightarrow> description option option) \<Rightarrow> string list \<Rightarrow> stdio \<Rightarrow> fault + int \<times> stdio" where
  "sqlGen_main connect query argv io =
     (if length argv < 2 then Inr (0, io)
      else
        let tableName = []; structName = []; sql = ''desc '' @ tableName in
        if \<not> connect [] [] then Inr (0, io)
        else case query (c_str sql) of
          None \<Rightarrow> Inr (0, io)
        | Some None \<Rightarrow> Inl Null_dereference
        | Some (Some res) \<Rightarrow>
            rbind (all_fields (de_column res) (de_rows res) []) (\<lambda>fieldInfo.
            case genSql_of fieldInfo tableName of (p, genSql) \<Rightarrow>
            rbind (code_loop fieldInfo structName (p + 1) 0 (''    memset(params, 0, sizeof(params));'' @ newline)) (\<lambda>fileCode.
            rbind (file_write fileCode (new_file ''./code.c'' ''at+'') io) (\<lambda>(_, io1). Inr (0, io1)))))"

section \<open>Types and lengths\<close>

lemma find_char_absent: "c \<notin> set s \<Longrightarrow> find_char c s = None"
  by (induction s) auto

lemma find_char_first: "c \<notin> set s \<Longrightarrow> find_char c (s @ c # t) = Some (length s)"
  by (induction s) auto

lemma getTypeAndLength_plain:
  "CHR ''('' \<notin> set t \<Longrightarrow> getTypeAndLength t f = f\<lparr>fi_type := t\<rparr>"
  by (simp add: getTypeAndLength_def find_char_absent)

lemma getTypeAndLength_sized:
  assumes "t = ''varchar'' \<or> t = ''char''" and "int (length n) < 2 ^ 64"
  shows "getTypeAndLength (t @ ''('' @ n @ '')'') f = f\<lparr>fi_type := t, fi_length := n\<rparr>"
  using assms by (auto simp: getTypeAndLength_def)

lemma getTypeAndLength_other:
  assumes "CHR ''('' \<notin> set t" and "t \<noteq> ''varchar''" and "t \<noteq> ''char''"
  shows "getTypeAndLength (t @ ''('' @ n) f = f\<lparr>fi_type := t\<rparr>"
  using assms find_char_first [of "CHR ''(''" t n] by (simp add: getTypeAndLength_def)

section \<open>The generated texts\<close>

primrec join :: "string \<Rightarrow> string list \<Rightarrow> string" where
  "join sep [] = []"
| "join sep (s # ss) = s @ (if ss = [] then [] else sep @ join sep ss)"

lemma select_loop_join:
  "n = p + length infos \<Longrightarrow>
   select_loop n infos p s = (n, s @ join '', '' (map fi_name infos) @ (if infos = [] then [] else '' ''))"
  by (induction infos arbitrary: p s) (auto simp: Let_def)

lemma genSql_of_join:
  "genSql_of fs t = (length fs, ''select '' @ join '', '' (map fi_name fs) @ (if fs = [] then [] else '' '') @ '' from '' @ t)"
  by (simp add: genSql_of_def select_loop_join)

lemma code_loop_prefix:
  "i + k \<le> length fs \<Longrightarrow>
   code_loop fs st k i s = Inr (s @ concat (map (\<lambda>j. bind_code st j (fs ! j)) [i..<i + k]))"
proof (induction k arbitrary: i s)
  case (Suc k)
  then show ?case by (simp add: upt_conv_Cons del: upt_Suc)
qed simp

lemma code_loop_add:
  "code_loop fs st (k + l) i s = rbind (code_loop fs st k i s) (code_loop fs st l (i + k))"
  by (induction k arbitrary: i s) (auto simp: rbind_assoc)

text \<open>The loop goes one index too far, whatever the table is.\<close>

lemma code_loop_overruns: "n = length fs \<Longrightarrow> code_loop fs st (Suc n) 0 s = Inl Index_out_of_range"
  using code_loop_add [of fs st "length fs" 1 0 s] by (simp add: code_loop_prefix arr_get_def del: code_loop.simps(2) split: if_splits)
    (simp add: arr_get_def)

lemma row_fields_six:
  "row_fields 6 0 [Some n, Some t, a, b, c, d] fs = Inr (fs @ [getTypeAndLength t \<lparr>fi_name = n, fi_type = [], fi_length = []\<rparr>])"
  by (simp add: row_fields.simps cell_at_def)

definition description_row :: "string option list \<Rightarrow> bool" where
  "description_row r \<longleftrightarrow> length r = 6 \<and> r ! 0 \<noteq> None \<and> r ! 1 \<noteq> None"

definition field_of_row :: "string option list \<Rightarrow> field" where
  "field_of_row r = getTypeAndLength (the (r ! 1)) \<lparr>fi_name = the (r ! 0), fi_type = [], fi_length = []\<rparr>"

lemma row_fields_description:
  "description_row r \<Longrightarrow> row_fields 6 0 r fs = Inr (fs @ [field_of_row r])"
  by (auto simp: description_row_def field_of_row_def row_fields.simps [of 6] row_fields.simps [of _ 6] cell_at_def)

lemma all_fields_description:
  "\<forall>r \<in> set rs. description_row r \<Longrightarrow> all_fields 6 rs fs = Inr (fs @ map field_of_row rs)"
  by (induction rs arbitrary: fs) (auto simp: row_fields_description)

lemma sqlGen_described:
  assumes "length argv \<ge> 2" and "connect [] []" and "query ''desc '' = Some (Some \<lparr>de_column = 6, de_rows = rs\<rparr>)"
    and "\<forall>r \<in> set rs. description_row r"
  shows "sqlGen_main connect query argv io = Inl Index_out_of_range"
  using assms by (simp add: sqlGen_main_def c_str_def all_fields_description genSql_of_join code_loop_overruns
      del: code_loop.simps(2))

end
