(* ===== verification/Device.thy ===== *)
theory Device
  imports Thread_Pool Hm_Log
begin

text \<open>
  Devices (\<^verbatim>\<open>include/device.hpp\<close>) and the node program (\<^verbatim>\<open>node/node.cpp\<close>, \<^verbatim>\<open>include/node.hpp\<close>). A device registers a function in the thread pool together
  with bytes copied from its own memory; the function later reads the copy as a \<^verbatim>\<open>device_info_t\<close>. Memory is a
  list of bytes: \<^verbatim>\<open>int\<close> takes four bytes, the least significant first, a \<^verbatim>\<open>std::string\<close> takes 32 bytes whose
  contents are an argument, and so are the two bytes of padding behind \<^verbatim>\<open>ip\<close>. What a socket function does is
  the address it sends to or binds; its endless loop repeats one step.
\<close>

section \<open>Memory\<close>

definition le32 :: "int \<Rightarrow> 8 word list" where
  "le32 i = map (\<lambda>k. word_of_int (i div 256 ^ k)) [0, 1, 2, 3]"

text \<open>Reading an \<^verbatim>\<open>int\<close> at an offset: each byte must lie in the block.\<close>

definition read_byte :: "8 word list \<Rightarrow> nat \<Rightarrow> fault + int" where
  "read_byte bs i = rbind (arr_get bs (int i)) (\<lambda>b. Inr (uint b))"

definition read_int :: "8 word list \<Rightarrow> nat \<Rightarrow> fault + int" where
  "read_int bs i =
     rbind (read_byte bs i) (\<lambda>b0. rbind (read_byte bs (i + 1)) (\<lambda>b1.
     rbind (read_byte bs (i + 2)) (\<lambda>b2. rbind (read_byte bs (i + 3)) (\<lambda>b3.
     Inr (int32 (b0 + 256 * b1 + 65536 * b2 + 16777216 * b3))))))"

definition bytes_text :: "string \<Rightarrow> 8 word list" where
  "bytes_text s = map of_char s"

section \<open>The code\<close>

definition TCP_SERVER :: int where "TCP_SERVER = 0"
definition TCP_CLIENT :: int where "TCP_CLIENT = 1"
definition UDP_SERVER :: int where "UDP_SERVER = 2"
definition UDP_SERVER_BROADCAST :: int where "UDP_SERVER_BROADCAST = 3"
definition UDP_CLIENT :: int where "UDP_CLIENT = 4"
definition UDP_CLIENT_BROADCAST :: int where "UDP_CLIENT_BROADCAST = 5"

lemmas deviceType_defs =
  TCP_SERVER_def TCP_CLIENT_def UDP_SERVER_def UDP_SERVER_BROADCAST_def UDP_CLIENT_def UDP_CLIENT_BROADCAST_def

record device_info =
  di_type :: int
  di_sock :: int
  di_ip :: "8 word list"
  di_pad :: "8 word list"

definition sizeof_info :: int where "sizeof_info = 40"

definition info_bytes :: "device_info \<Rightarrow> 8 word list" where
  "info_bytes info = le32 (di_type info) @ le32 (di_sock info) @ di_ip info @ di_pad info"

record device =
  dv_type :: int
  dv_sock :: int
  dv_ip :: "8 word list"
  dv_info :: device_info

text \<open>
  The constructor. \<open>ip_bytes\<close> are the 32 bytes of the string object and \<open>garbage\<close> the unset rest of the
  structure: the bytes of \<^verbatim>\<open>info.ip\<close> behind the zero that \<^verbatim>\<open>snprintf\<close> writes, then the padding.
\<close>

definition new_device :: "8 word list \<Rightarrow> 8 word list \<Rightarrow> int \<Rightarrow> int \<Rightarrow> string \<Rightarrow> device" where
  "new_device ip_bytes garbage type socket ip =
     (let t = bytes_text (take 29 (c_str ip)) @ [0] in
      \<lparr>dv_type = type, dv_sock = socket, dv_ip = ip_bytes,
       dv_info = \<lparr>di_type = type, di_sock = socket, di_ip = t @ drop (length t) (take 30 garbage), di_pad = drop 30 garbage\<rparr>\<rparr>)"

text \<open>The object's memory from the member \<^verbatim>\<open>sock\<close> on.\<close>

definition memory_from_sock :: "device \<Rightarrow> 8 word list" where
  "memory_from_sock d = le32 (dv_sock d) @ dv_ip d @ info_bytes (dv_info d)"

datatype socket_fun = tcpServer_fun | tcpClient_fun | udpServer_fun | udpClient_fun

definition device_init :: "device \<Rightarrow> socket_fun pool_state \<Rightarrow> socket_fun pool_state" where
  "device_init d s =
     (if dv_type d = TCP_SERVER then setFunction ''TCP_SERVER'' tcpServer_fun (Some (info_bytes (dv_info d))) sizeof_info s
      else if dv_type d = TCP_CLIENT then setFunction ''TCP_CLIENT'' tcpClient_fun (Some (memory_from_sock d)) sizeof_info s
      else if dv_type d = UDP_SERVER then setFunction ''UDP_SERVER'' udpServer_fun (Some (memory_from_sock d)) sizeof_info s
      else if dv_type d = UDP_SERVER_BROADCAST then
        setFunction ''UDP_SERVER_BROADCAST'' udpServer_fun (Some (info_bytes (dv_info d))) sizeof_info s
      else if dv_type d = UDP_CLIENT then setFunction ''UDP_CLIENT'' udpClient_fun (Some (memory_from_sock d)) 4 s
      else if dv_type d = UDP_CLIENT_BROADCAST then
        setFunction ''UDP_CLIENT_BROADCAST'' udpClient_fun (Some (memory_from_sock d)) 4 s
      else s)"

text \<open>
  The two UDP functions: where the server sends and what the client binds. A port is the low 16 bits of the
  number. The address of the server is the text in the structure.
\<close>

datatype endpoint = Broadcast int | Any int | Address "8 word list" int

datatype socket_act = Socket_failed | Sends endpoint string | Bind_failed endpoint | Binds endpoint | Returns

definition port_of :: "int \<Rightarrow> int" where
  "port_of sock = sock mod 65536"

definition udpServer :: "bool \<Rightarrow> 8 word list \<Rightarrow> fault + socket_act" where
  "udpServer socket_ok info =
     rbind (read_int info 4) (\<lambda>sock.
     if \<not> socket_ok then Inr Socket_failed
     else
       rbind (read_int info 0) (\<lambda>type.
       if type = UDP_SERVER_BROADCAST then Inr (Sends (Broadcast (port_of sock)) ''test'')
       else Inr (Sends (Address (take 30 (drop 8 info)) (port_of sock)) ''test'')))"

definition udpClient :: "bool \<Rightarrow> bool \<Rightarrow> 8 word list \<Rightarrow> fault + socket_act" where
  "udpClient socket_ok bind_ok info =
     rbind (read_int info 4) (\<lambda>sock.
     if \<not> socket_ok then Inr Socket_failed
     else
       rbind (read_int info 0) (\<lambda>type.
       let e = (if type = UDP_CLIENT_BROADCAST then Broadcast (port_of sock) else Any (port_of sock)) in
       if \<not> bind_ok then Inr (Bind_failed e) else Inr (Binds e)))"

text \<open>A thread of the pool calls its function with the block it was given.\<close>

definition run_device :: "bool \<Rightarrow> bool \<Rightarrow> 8 word list option list \<Rightarrow> socket_fun thread \<Rightarrow> fault + socket_act" where
  "run_device socket_ok bind_ok blocks t =
     (case th_func t of
        None \<Rightarrow> Inl Uncaught_exception
      | Some f \<Rightarrow>
          (if f = tcpServer_fun \<or> f = tcpClient_fun then Inr Returns
           else case th_data t of
             None \<Rightarrow> Inl Null_dereference
           | Some a \<Rightarrow>
               if a < length blocks then
                 (case blocks ! a of
                    None \<Rightarrow> Inl Use_after_free
                  | Some info \<Rightarrow> if f = udpServer_fun then udpServer socket_ok info else udpClient socket_ok bind_ok info)
               else Inl Use_after_free))"

primrec run_devices :: "bool \<Rightarrow> bool \<Rightarrow> 8 word list option list \<Rightarrow> socket_fun thread option list \<Rightarrow> fault + socket_act list" where
  "run_devices socket_ok bind_ok blocks [] = Inr []"
| "run_devices socket_ok bind_ok blocks (t # ts) =
     (case t of
        None \<Rightarrow> run_devices socket_ok bind_ok blocks ts
      | Some t' \<Rightarrow>
          rbind (run_device socket_ok bind_ok blocks t') (\<lambda>a.
          rbind (run_devices socket_ok bind_ok blocks ts) (\<lambda>as. Inr (a # as))))"

text \<open>Of the socket functions, those that send or are bound go on for ever; a failed socket or \<^verbatim>\<open>bind\<close> ends them.\<close>

definition act_ends :: "socket_act \<Rightarrow> bool" where
  "act_ends a = (case a of Sends e m \<Rightarrow> False | Binds e \<Rightarrow> False | _ \<Rightarrow> True)"

text \<open>
  The node program: two devices for the port 57950, then the pool. \<open>ip1\<close>, \<open>g1\<close>, \<open>ip2\<close>, \<open>g2\<close> are the unset
  bytes of the two objects; \<open>log_ret\<close> is the result of initialising the log. The result is what \<^verbatim>\<open>main\<close> returns,
  \<open>None\<close> if it waits for a thread for ever, and what the threads do.
\<close>

definition node_main ::
    "int \<Rightarrow> (nat \<Rightarrow> bool) \<Rightarrow> bool \<Rightarrow> bool \<Rightarrow> int \<Rightarrow> 8 word list \<Rightarrow> 8 word list \<Rightarrow> 8 word list \<Rightarrow> 8 word list
     \<Rightarrow> socket_fun pool_state \<Rightarrow> fault + int option \<times> socket_act list" where
  "node_main log_ret create_ok socket_ok bind_ok nproc ip1 g1 ip2 g2 s =
     (if log_ret \<noteq> 0 then Inr (Some (-1), [])
      else
        let pool = new_threadPool nproc;
            s1 = device_init (new_device ip1 g1 UDP_SERVER_BROADCAST 57950 []) s;
            s2 = device_init (new_device ip2 g2 UDP_CLIENT_BROADCAST 57950 []) s1 in
        rbind (pool_start (\<lambda>blocks t. rbind (run_device socket_ok bind_ok blocks t) (\<lambda>a. Inr (act_ends a))) create_ok pool s2)
          (\<lambda>(joined, p, s3).
        rbind (run_devices socket_ok bind_ok (tp_blocks s3) (tp_threads p)) (\<lambda>acts.
        if joined then rbind (delete_threadPool p s3) (\<lambda>_. Inr (Some 0, acts)) else Inr (None, acts))))"

text \<open>\<^verbatim>\<open>node::init\<close>: the name of the executable behind its last slash; without a slash the null pointer plus one is read.\<close>

definition node_init :: "int \<Rightarrow> string option \<Rightarrow> string \<Rightarrow> fault + int \<times> string" where
  "node_init log_ret exe nodeName =
     (if log_ret \<noteq> 0 then Inr (FAILED, nodeName)
      else case exe of
        None \<Rightarrow> Inr (FAILED, nodeName)
      | Some path \<Rightarrow>
          (if path = [] then Inr (FAILED, nodeName)
           else if length path \<ge> 1024 then Inl Index_out_of_range
           else if CHR ''/'' \<in> set (c_str path) then Inr (SUCCESS, rev (takeWhile (\<lambda>c. c \<noteq> CHR ''/'') (rev (c_str path))))
           else Inl Null_dereference))"

section \<open>Reading back what was copied\<close>

lemma length_le32 [simp]: "length (le32 i) = 4"
  by (simp add: le32_def)

lemma int32_mod: "int32 (a mod 2 ^ 32) = int32 a"
proof -
  have "signed_take_bit 31 (take_bit 32 a) = signed_take_bit 31 a"
    by (rule bit_eqI) (simp add: bit_signed_take_bit_iff bit_take_bit_iff min_def)
  then show ?thesis by (simp add: int32_def take_bit_eq_mod)
qed

lemma bytes_of_int:
  "a mod 256 + 256 * (a div 256 mod 256) + 65536 * (a div 65536 mod 256) + 16777216 * (a div 16777216 mod 256)
   = a mod (2 ^ 32 :: int)"
proof -
  have 1: "a mod 4294967296 = 256 * (a div 256 mod 16777216) + a mod 256"
    using zmod_zmult2_eq [of 16777216 a 256] by simp
  have 2: "x mod 16777216 = 256 * (x div 256 mod 65536) + x mod 256" for x :: int
    using zmod_zmult2_eq [of 65536 x 256] by simp
  have 3: "x mod 65536 = 256 * (x div 256 mod 256) + x mod 256" for x :: int
    using zmod_zmult2_eq [of 256 x 256] by simp
  have "a div 256 div 256 = a div 65536" "a div 65536 div 256 = a div 16777216"
    using zdiv_zmult2_eq [of 256 a 256] zdiv_zmult2_eq [of 256 a 65536] by simp_all
  then show ?thesis using 1 2 [of "a div 256"] 3 [of "a div 65536"] by simp
qed

lemma uint_byte: "uint (word_of_int a :: 8 word) = a mod 256"
  by (simp add: uint_word_of_int)

lemma read_int_le32:
  assumes "length pre = i"
  shows "read_int (pre @ le32 a @ post) i = Inr (int32 a)"
proof -
  have b: "read_byte (pre @ le32 a @ post) (i + k) = Inr (a div 256 ^ k mod 256)" if "k < 4" for k
  proof -
    have "(pre @ le32 a @ post) ! (i + k) = le32 a ! k"
      using assms that by (simp add: nth_append)
    also have "\<dots> = word_of_int (a div 256 ^ k)"
      using that by (auto simp: le32_def less_Suc_eq numeral_eq_Suc)
    finally show ?thesis
      using assms that by (simp add: read_byte_def uint_byte nat_int_add)
  qed
  show ?thesis
    using b [of 0] b [of 1] b [of 2] b [of 3]
    by (simp add: read_int_def bytes_of_int int32_mod [simplified])
qed

lemma read_int_short: "length bs \<le> i \<Longrightarrow> read_int bs i = Inl Index_out_of_range"
  by (simp add: read_int_def read_byte_def arr_get_def)

lemma info_fields:
  "read_int (info_bytes info) 0 = Inr (int32 (di_type info))"
  "read_int (info_bytes info) 4 = Inr (int32 (di_sock info))"
  using read_int_le32 [of "[]" 0 "di_type info"] read_int_le32 [of "le32 (di_type info)" 4 "di_sock info"]
  by (simp_all add: info_bytes_def)

lemma port_of_int32: "port_of (int32 a) = port_of a"
proof -
  have "take_bit 16 (signed_take_bit 31 a) = take_bit 16 a"
    by (simp add: take_bit_signed_take_bit)
  then show ?thesis by (simp add: port_of_def int32_def take_bit_eq_mod)
qed

text \<open>The broadcasting server finds the device's type and port in its copy.\<close>

lemma new_device_info: "di_type (dv_info (new_device ib g ty so ip)) = ty \<and> di_sock (dv_info (new_device ib g ty so ip)) = so"
  by (simp add: new_device_def Let_def)

lemma length_info_bytes:
  "length g = 32 \<Longrightarrow> length (info_bytes (dv_info (new_device ib g ty so ip))) = 40"
  by (auto simp: info_bytes_def new_device_def Let_def bytes_text_def)

lemma udpServer_broadcast:
  "udpServer True (info_bytes (dv_info (new_device ib g UDP_SERVER_BROADCAST so ip))) = Inr (Sends (Broadcast (port_of so)) ''test'')"
  by (simp add: udpServer_def info_fields new_device_info port_of_int32 UDP_SERVER_BROADCAST_def int32_id)

text \<open>The client got four bytes and reads eight.\<close>

lemma udpClient_four_bytes: "length bs \<le> 4 \<Longrightarrow> udpClient socket_ok bind_ok bs = Inl Index_out_of_range"
  by (simp add: udpClient_def read_int_short)

text \<open>The plain server takes its socket for the type and the beginning of a string object for the port.\<close>

lemma udpServer_plain:
  assumes "ib = le32 p @ rest" and "so mod 2 ^ 32 \<noteq> UDP_SERVER_BROADCAST"
  shows "\<exists>a. udpServer True (take 40 (memory_from_sock (new_device ib g UDP_SERVER so ip))) = Inr (Sends (Address a (port_of p)) ''test'')"
proof -
  let ?m = "take 40 (memory_from_sock (new_device ib g UDP_SERVER so ip))"
  obtain r where m: "?m = le32 so @ le32 p @ r"
    using assms(1) by (simp add: memory_from_sock_def new_device_def Let_def)
  have "int32 so \<noteq> UDP_SERVER_BROADCAST"
  proof
    assume "int32 so = UDP_SERVER_BROADCAST"
    then have "take_bit 32 (signed_take_bit 31 so) = UDP_SERVER_BROADCAST"
      by (simp add: int32_def UDP_SERVER_BROADCAST_def)
    moreover have "take_bit 32 (signed_take_bit 31 so) = take_bit 32 so"
      by (rule bit_eqI) (auto simp: bit_signed_take_bit_iff bit_take_bit_iff min_def le_less_Suc_eq numeral_eq_Suc)
    ultimately show False using assms(2) by (simp add: take_bit_eq_mod)
  qed
  then show ?thesis
    using read_int_le32 [of "[]" 0 so "le32 p @ r"] read_int_le32 [of "le32 so" 4 p r]
    by (simp add: m udpServer_def port_of_int32)
qed

lemma device_init_inv: "pool_inv s \<Longrightarrow> pool_inv (device_init d s)"
  by (simp add: device_init_def setFunction_inv)

lemma names_less: "''UDP_CLIENT_BROADCAST'' < ''UDP_SERVER_BROADCAST''"
  by code_simp

lemma node_main_faults:
  assumes "create_ok 0"
  shows "node_main 0 create_ok True bind_ok n ip1 g1 ip2 g2 \<lparr>tp_funcs = [], tp_blocks = []\<rparr> = Inl Index_out_of_range"
proof -
  let ?d1 = "new_device ip1 g1 UDP_SERVER_BROADCAST 57950 []"
  let ?d2 = "new_device ip2 g2 UDP_CLIENT_BROADCAST 57950 []"
  let ?s = "device_init ?d2 (device_init ?d1 \<lparr>tp_funcs = [], tp_blocks = []\<rparr>)"
  have t: "dv_type ?d1 = UDP_SERVER_BROADCAST" "dv_type ?d2 = UDP_CLIENT_BROADCAST"
    by (simp_all add: new_device_def Let_def)
  have inv: "pool_inv ?s" by (intro device_init_inv pool_inv_empty)
  have s: "tp_funcs ?s = [(''UDP_CLIENT_BROADCAST'', \<lparr>fp_func = Some udpClient_fun, fp_data = Some 1\<rparr>),
                          (''UDP_SERVER_BROADCAST'', \<lparr>fp_func = Some udpServer_fun, fp_data = Some 0\<rparr>)]"
    "tp_blocks ?s = [Some (take 40 (info_bytes (dv_info ?d1))), Some (take 4 (memory_from_sock ?d2))]"
    using t by (simp_all add: device_init_def setFunction_def Let_def deviceType_defs sizeof_info_def func_at_def empty_func_def names_less
        del: Cons_less_Cons)
  show ?thesis
    using pool_start_created [OF inv, where n = n] assms
    by (simp add: node_main_def Let_def s thread_of_def run_device_def udpClient_four_bytes)
qed

end
