(* ===== verification/Json_Lexer.thy ===== *)
theory Json_Lexer
  imports Hm_Log
begin

unbundle bit_operations_syntax

text \<open>
  The scanner of the vendored JSON library (\<^verbatim>\<open>include/json.hpp\<close>, class \<^verbatim>\<open>lexer\<close>) over a buffer in memory. A character of the input is a
  number between 0 and 255, and -1 is the end of the input. Floating-point numbers are a parameter: the type \<open>'f\<close> with the
  conversions of the C library and the locale's decimal point. The assertions of the source are lemmas here.
\<close>

section \<open>State and input\<close>

record 'f float_ops =
  fl_zero :: 'f
  fl_strtod :: "string \<Rightarrow> 'f"
  fl_isfinite :: "'f \<Rightarrow> bool"
  fl_to_chars :: "'f \<Rightarrow> string"
  fl_decimal_point :: char

datatype token_type =
    uninitialized | literal_true | literal_false | literal_null | value_string | value_unsigned | value_integer | value_float
  | begin_array | begin_object | end_array | end_object | name_separator | value_separator | parse_error | end_of_input
  | literal_or_value

definition token_type_name :: "token_type \<Rightarrow> string" where
  "token_type_name t =
     (case t of
        uninitialized \<Rightarrow> ''<uninitialized>''
      | literal_true \<Rightarrow> ''true literal''
      | literal_false \<Rightarrow> ''false literal''
      | literal_null \<Rightarrow> ''null literal''
      | value_string \<Rightarrow> ''string literal''
      | value_unsigned \<Rightarrow> ''number literal''
      | value_integer \<Rightarrow> ''number literal''
      | value_float \<Rightarrow> ''number literal''
      | begin_array \<Rightarrow> [CHR 0x27, CHR ''['', CHR 0x27]
      | begin_object \<Rightarrow> [CHR 0x27, CHR ''{'', CHR 0x27]
      | end_array \<Rightarrow> [CHR 0x27, CHR '']'', CHR 0x27]
      | end_object \<Rightarrow> [CHR 0x27, CHR ''}'', CHR 0x27]
      | name_separator \<Rightarrow> [CHR 0x27, CHR '':'', CHR 0x27]
      | value_separator \<Rightarrow> [CHR 0x27, CHR '','', CHR 0x27]
      | parse_error \<Rightarrow> ''<parse error>''
      | end_of_input \<Rightarrow> ''end of input''
      | literal_or_value \<Rightarrow> [CHR 0x27, CHR ''['', CHR 0x27] @ '', '' @ [CHR 0x27, CHR ''{'', CHR 0x27] @ '', or a literal'')"

record position =
  chars_read_total :: nat
  chars_read_current_line :: nat
  lines_read :: nat

record 'f lexer =
  lx_ia :: string
  lx_current :: int
  lx_next_unget :: bool
  lx_position :: position
  lx_token_string :: string
  lx_token_buffer :: string
  lx_error_message :: string
  lx_value_integer :: int
  lx_value_unsigned :: int
  lx_value_float :: 'f

definition new_lexer :: "'f float_ops \<Rightarrow> string \<Rightarrow> 'f lexer" where
  "new_lexer fl input =
     \<lparr>lx_ia = input, lx_current = -1, lx_next_unget = False,
      lx_position = \<lparr>chars_read_total = 0, chars_read_current_line = 0, lines_read = 0\<rparr>,
      lx_token_string = [], lx_token_buffer = [], lx_error_message = [],
      lx_value_integer = 0, lx_value_unsigned = 0, lx_value_float = fl_zero fl\<rparr>"

definition get_character :: "string \<Rightarrow> int \<times> string" where
  "get_character ia = (case ia of [] \<Rightarrow> (-1, []) | c # cs \<Rightarrow> (of_char c, cs))"

definition lexer_reset :: "'f lexer \<Rightarrow> 'f lexer" where
  "lexer_reset lx = lx\<lparr>lx_token_buffer := [], lx_token_string := [char_of (lx_current lx)]\<rparr>"

definition get :: "'f lexer \<Rightarrow> 'f lexer" where
  "get lx =
     (let p = lx_position lx;
          lx1 = lx\<lparr>lx_position := p\<lparr>chars_read_total := chars_read_total p + 1,
                                   chars_read_current_line := chars_read_current_line p + 1\<rparr>\<rparr>;
          lx2 = (if lx_next_unget lx1 then lx1\<lparr>lx_next_unget := False\<rparr>
                 else case get_character (lx_ia lx1) of (c, ia) \<Rightarrow> lx1\<lparr>lx_current := c, lx_ia := ia\<rparr>);
          lx3 = (if lx_current lx2 \<noteq> -1 then lx2\<lparr>lx_token_string := lx_token_string lx2 @ [char_of (lx_current lx2)]\<rparr> else lx2) in
      if lx_current lx3 = 0x0A then
        lx3\<lparr>lx_position := (lx_position lx3)\<lparr>lines_read := lines_read (lx_position lx3) + 1, chars_read_current_line := 0\<rparr>\<rparr>
      else lx3)"

definition unget :: "'f lexer \<Rightarrow> 'f lexer" where
  "unget lx =
     (let lx1 = lx\<lparr>lx_next_unget := True\<rparr>;
          p = lx_position lx1;
          p1 = p\<lparr>chars_read_total := chars_read_total p - 1\<rparr>;
          p2 = (if chars_read_current_line p1 = 0 then
                  (if lines_read p1 > 0 then p1\<lparr>lines_read := lines_read p1 - 1\<rparr> else p1)
                else p1\<lparr>chars_read_current_line := chars_read_current_line p1 - 1\<rparr>);
          lx2 = lx1\<lparr>lx_position := p2\<rparr> in
      if lx_current lx2 \<noteq> -1 then lx2\<lparr>lx_token_string := butlast (lx_token_string lx2)\<rparr> else lx2)"

definition add :: "int \<Rightarrow> 'f lexer \<Rightarrow> 'f lexer" where
  "add c lx = lx\<lparr>lx_token_buffer := lx_token_buffer lx @ [char_of c]\<rparr>"

definition lexer_fail :: "string \<Rightarrow> 'f lexer \<Rightarrow> token_type \<times> 'f lexer" where
  "lexer_fail msg lx = (parse_error, lx\<lparr>lx_error_message := msg\<rparr>)"

section \<open>What is left to read\<close>

definition remaining :: "'f lexer \<Rightarrow> string" where
  "remaining lx = (if lx_next_unget lx \<and> lx_current lx \<noteq> -1 then char_of (lx_current lx) # lx_ia lx else lx_ia lx)"

text \<open>The current character is a byte or the end; after the end there is nothing.\<close>

definition lexer_ok :: "'f lexer \<Rightarrow> bool" where
  "lexer_ok lx \<longleftrightarrow> -1 \<le> lx_current lx \<and> lx_current lx \<le> 255 \<and> (lx_next_unget lx \<and> lx_current lx = -1 \<longrightarrow> lx_ia lx = [])"

lemma of_char_byte: "0 \<le> (of_char c :: int) \<and> (of_char c :: int) \<le> 255"
proof -
  have "0 \<le> (of_char c :: int) mod 256" "(of_char c :: int) mod 256 < 256"
    by (rule pos_mod_sign, simp, rule pos_mod_bound, simp)
  then show ?thesis by simp
qed

lemma remaining_get_le: "length (remaining (get lx)) \<le> length (remaining lx)"
  by (auto simp: get_def get_character_def remaining_def Let_def split: list.split)

lemma remaining_get_less: "lx_current (get lx) \<noteq> -1 \<Longrightarrow> length (remaining (get lx)) < length (remaining lx)"
  by (auto simp: get_def get_character_def remaining_def Let_def split: list.split if_splits)

lemma remaining_frame [simp]:
  "remaining (add c lx) = remaining lx"
  "remaining (lexer_reset lx) = remaining lx"
  "remaining (snd (lexer_fail msg lx)) = remaining lx"
  "remaining (lx\<lparr>lx_error_message := msg\<rparr>) = remaining lx"
  by (simp_all add: remaining_def add_def lexer_reset_def lexer_fail_def)

section \<open>Strings\<close>

definition hex_value :: "int \<Rightarrow> int option" where
  "hex_value c =
     (if 0x30 \<le> c \<and> c \<le> 0x39 then Some (c - 0x30)
      else if 0x41 \<le> c \<and> c \<le> 0x46 then Some (c - 0x37)
      else if 0x61 \<le> c \<and> c \<le> 0x66 then Some (c - 0x57)
      else None)"

primrec codepoint_loop :: "nat list \<Rightarrow> int \<Rightarrow> 'f lexer \<Rightarrow> int \<times> 'f lexer" where
  "codepoint_loop [] codepoint lx = (codepoint, lx)"
| "codepoint_loop (factor # factors) codepoint lx =
     (let lx1 = get lx in
      case hex_value (lx_current lx1) of
        None \<Rightarrow> (-1, lx1)
      | Some d \<Rightarrow> codepoint_loop factors (codepoint + d * 2 ^ factor) lx1)"

definition get_codepoint :: "'f lexer \<Rightarrow> int \<times> 'f lexer" where
  "get_codepoint lx = codepoint_loop [12, 8, 4, 0] 0 lx"

fun range_loop :: "int list \<Rightarrow> 'f lexer \<Rightarrow> bool \<times> 'f lexer" where
  "range_loop (lo # hi # ranges) lx =
     (let lx1 = get lx in
      if lo \<le> lx_current lx1 \<and> lx_current lx1 \<le> hi then range_loop ranges (add (lx_current lx1) lx1)
      else (False, lx1\<lparr>lx_error_message := ''invalid string: ill-formed UTF-8 byte''\<rparr>))"
| "range_loop ranges lx = (True, lx)"

definition next_byte_in_range :: "int list \<Rightarrow> 'f lexer \<Rightarrow> bool \<times> 'f lexer" where
  "next_byte_in_range ranges lx = range_loop ranges (add (lx_current lx) lx)"

text \<open>The bytes of a code point.\<close>

definition codepoint_bytes :: "int \<Rightarrow> int list" where
  "codepoint_bytes codepoint =
     (if codepoint < 0x80 then [codepoint]
      else if codepoint \<le> 0x7FF then [0xC0 OR drop_bit 6 codepoint, 0x80 OR (codepoint AND 0x3F)]
      else if codepoint \<le> 0xFFFF then
        [0xE0 OR drop_bit 12 codepoint, 0x80 OR (drop_bit 6 codepoint AND 0x3F), 0x80 OR (codepoint AND 0x3F)]
      else
        [0xF0 OR drop_bit 18 codepoint, 0x80 OR (drop_bit 12 codepoint AND 0x3F),
         0x80 OR (drop_bit 6 codepoint AND 0x3F), 0x80 OR (codepoint AND 0x3F)])"

definition msg_u_hex :: string where
  "msg_u_hex = ''invalid string: '' @ [CHR 0x27, CHR 0x5C, CHR ''u'', CHR 0x27] @ '' must be followed by 4 hex digits''"

definition msg_low_surrogate :: string where
  "msg_low_surrogate = ''invalid string: surrogate U+DC00..U+DFFF must be followed by U+DC00..U+DFFF''"

text \<open>The part of \<^verbatim>\<open>scan_string\<close> for a unicode escape; the first component tells whether scanning goes on.\<close>

definition scan_unicode :: "'f lexer \<Rightarrow> bool \<times> 'f lexer" where
  "scan_unicode lx =
     (case get_codepoint lx of (codepoint1, lx1) \<Rightarrow>
      if codepoint1 = -1 then (False, lx1\<lparr>lx_error_message := msg_u_hex\<rparr>)
      else if 0xD800 \<le> codepoint1 \<and> codepoint1 \<le> 0xDBFF then
        (let lx2 = get lx1 in
         if lx_current lx2 = 0x5C then
           (let lx3 = get lx2 in
            if lx_current lx3 = 0x75 then
              (case get_codepoint lx3 of (codepoint2, lx4) \<Rightarrow>
               if codepoint2 = -1 then (False, lx4\<lparr>lx_error_message := msg_u_hex\<rparr>)
               else if 0xDC00 \<le> codepoint2 \<and> codepoint2 \<le> 0xDFFF then
                 (True, fold add (codepoint_bytes (codepoint1 * 1024 + codepoint2 - 0x35FDC00)) lx4)
               else (False, lx4\<lparr>lx_error_message := msg_low_surrogate\<rparr>))
            else (False, lx3\<lparr>lx_error_message := msg_low_surrogate\<rparr>))
         else (False, lx2\<lparr>lx_error_message := msg_low_surrogate\<rparr>))
      else if 0xDC00 \<le> codepoint1 \<and> codepoint1 \<le> 0xDFFF then
        (False, lx1\<lparr>lx_error_message := ''invalid string: surrogate U+DC00..U+DFFF must follow U+D800..U+DBFF''\<rparr>)
      else (True, fold add (codepoint_bytes codepoint1) lx1))"

text \<open>The part for the character after a backslash.\<close>

definition scan_escape :: "'f lexer \<Rightarrow> bool \<times> 'f lexer" where
  "scan_escape lx =
     (let lx1 = get lx; c = lx_current lx1 in
      if c = 0x22 then (True, add 0x22 lx1)
      else if c = 0x5C then (True, add 0x5C lx1)
      else if c = 0x2F then (True, add 0x2F lx1)
      else if c = 0x62 then (True, add 0x08 lx1)
      else if c = 0x66 then (True, add 0x0C lx1)
      else if c = 0x6E then (True, add 0x0A lx1)
      else if c = 0x72 then (True, add 0x0D lx1)
      else if c = 0x74 then (True, add 0x09 lx1)
      else if c = 0x75 then scan_unicode lx1
      else (False, lx1\<lparr>lx_error_message := ''invalid string: forbidden character after backslash''\<rparr>))"

definition control_names :: "string list" where
  "control_names =
     [''NUL'', ''SOH'', ''STX'', ''ETX'', ''EOT'', ''ENQ'', ''ACK'', ''BEL'', ''BS'', ''HT'', ''LF'', ''VT'', ''FF'', ''CR'', ''SO'', ''SI'',
      ''DLE'', ''DC1'', ''DC2'', ''DC3'', ''DC4'', ''NAK'', ''SYN'', ''ETB'', ''CAN'', ''EM'', ''SUB'', ''ESC'', ''FS'', ''GS'', ''RS'', ''US'']"

text \<open>The message for a control character, its number in upper case hexadecimal digits.\<close>

definition hex_digit_upper :: "int \<Rightarrow> char" where
  "hex_digit_upper d = char_of (if d < 10 then 48 + d else 55 + d)"

definition control_message :: "int \<Rightarrow> string" where
  "control_message c =
     (let u = ''00'' @ [hex_digit_upper (c div 16), hex_digit_upper (c mod 16)] in
      ''invalid string: control character U+'' @ u @ '' ('' @ control_names ! nat c @ '') must be escaped to '' @ [CHR 0x5C] @ ''u'' @ u @
      (if c = 0x08 then '' or '' @ [CHR 0x5C] @ ''b''
       else if c = 0x09 then '' or '' @ [CHR 0x5C] @ ''t''
       else if c = 0x0A then '' or '' @ [CHR 0x5C] @ ''n''
       else if c = 0x0C then '' or '' @ [CHR 0x5C] @ ''f''
       else if c = 0x0D then '' or '' @ [CHR 0x5C] @ ''r''
       else []))"

text \<open>The bytes that may follow the first byte of a character outside ASCII.\<close>

definition utf8_ranges :: "int \<Rightarrow> int list option" where
  "utf8_ranges c =
     (if 0xC2 \<le> c \<and> c \<le> 0xDF then Some [0x80, 0xBF]
      else if c = 0xE0 then Some [0xA0, 0xBF, 0x80, 0xBF]
      else if 0xE1 \<le> c \<and> c \<le> 0xEC \<or> 0xEE \<le> c \<and> c \<le> 0xEF then Some [0x80, 0xBF, 0x80, 0xBF]
      else if c = 0xED then Some [0x80, 0x9F, 0x80, 0xBF]
      else if c = 0xF0 then Some [0x90, 0xBF, 0x80, 0xBF, 0x80, 0xBF]
      else if 0xF1 \<le> c \<and> c \<le> 0xF3 then Some [0x80, 0xBF, 0x80, 0xBF, 0x80, 0xBF]
      else if c = 0xF4 then Some [0x80, 0x8F, 0x80, 0xBF, 0x80, 0xBF]
      else None)"

lemma remaining_codepoint_le: "length (remaining (snd (codepoint_loop fs cp lx))) \<le> length (remaining lx)"
proof (induction fs arbitrary: cp lx)
  case (Cons f fs)
  show ?case
    using Cons.IH [of _ "get lx"] remaining_get_le [of lx] by (auto simp: Let_def split: option.split intro: order_trans)
qed simp

lemma remaining_range_le: "length (remaining (snd (range_loop rs lx))) \<le> length (remaining lx)"
proof (induction rs lx rule: range_loop.induct)
  case (1 lo hi rs lx)
  then show ?case using remaining_get_le [of lx] by (auto simp: Let_def intro: order_trans)
qed simp_all

lemma remaining_fold_add [simp]: "remaining (fold add bs lx) = remaining lx"
  by (induction bs arbitrary: lx) simp_all

lemma remaining_unicode_le: "length (remaining (snd (scan_unicode lx))) \<le> length (remaining lx)"
proof -
  have g: "length (remaining (snd (get_codepoint l))) \<le> length (remaining l)" for l :: "'a lexer"
    unfolding get_codepoint_def by (rule remaining_codepoint_le)
  obtain c1 l1 where 1: "get_codepoint lx = (c1, l1)" by force
  obtain c2 l4 where 2: "get_codepoint (get (get l1)) = (c2, l4)" by force
  have "length (remaining l1) \<le> length (remaining lx)" "length (remaining l4) \<le> length (remaining (get (get l1)))"
    using g [of lx] g [of "get (get l1)"] 1 2 by simp_all
  then show ?thesis
    using remaining_get_le [of l1] remaining_get_le [of "get l1"] by (simp add: scan_unicode_def 1 2 Let_def)
qed

lemma remaining_escape_le: "length (remaining (snd (scan_escape lx))) \<le> length (remaining lx)"
  using remaining_get_le [of lx] remaining_unicode_le [of "get lx"] by (simp add: scan_escape_def Let_def)

function scan_string_loop :: "'f lexer \<Rightarrow> token_type \<times> 'f lexer" where
  "scan_string_loop lx =
     (let lx1 = get lx; c = lx_current lx1 in
      if c = -1 then lexer_fail ''invalid string: missing closing quote'' lx1
      else if c = 0x22 then (value_string, lx1)
      else if c = 0x5C then
        (let r = scan_escape lx1 in if fst r then scan_string_loop (snd r) else (parse_error, snd r))
      else if c \<le> 0x1F then lexer_fail (control_message c) lx1
      else if c \<le> 0x7F then scan_string_loop (add c lx1)
      else case utf8_ranges c of
        None \<Rightarrow> lexer_fail ''invalid string: ill-formed UTF-8 byte'' lx1
      | Some ranges \<Rightarrow>
          (let r = next_byte_in_range ranges lx1 in if fst r then scan_string_loop (snd r) else (parse_error, snd r)))"
  by pat_completeness auto

termination
proof (relation "measure (\<lambda>lx. length (remaining lx))", goal_cases)
  case (2 lx lx1 c r)
  then show ?case using remaining_get_less [of lx] remaining_escape_le [of lx1] by simp
next
  case (3 lx lx1 c)
  then show ?case using remaining_get_less [of lx] by simp
next
  case (4 lx lx1 c ranges r)
  then show ?case using remaining_get_less [of lx] remaining_range_le [of ranges "add (lx_current lx1) lx1"]
    by (simp add: next_byte_in_range_def)
qed simp

declare scan_string_loop.simps [simp del]

definition scan_string :: "'f lexer \<Rightarrow> token_type \<times> 'f lexer" where
  "scan_string lx = scan_string_loop (lexer_reset lx)"

section \<open>Numbers\<close>

text \<open>The labels of \<^verbatim>\<open>scan_number\<close>, in the order of the source; the state after the last one is \<^verbatim>\<open>scan_number_done\<close>.\<close>

datatype number_label =
  scan_number_minus | scan_number_zero | scan_number_any1 | scan_number_decimal1 | scan_number_decimal2 | scan_number_exponent
  | scan_number_sign | scan_number_any2

definition is_digit :: "int \<Rightarrow> bool" where
  "is_digit c \<longleftrightarrow> 0x30 \<le> c \<and> c \<le> 0x39"

definition is_exp :: "int \<Rightarrow> bool" where
  "is_exp c \<longleftrightarrow> c = 0x65 \<or> c = 0x45"

text \<open>
  One label: reading a character leads to another label with a character to add, to the end, or to an error with
  a message. The type of the number changes where the source assigns it.
\<close>

datatype number_step = Goto number_label char | Done | Wrong string

definition minus_edge :: "int \<Rightarrow> number_step" where
  "minus_edge c =
     (if c = 0x30 then Goto scan_number_zero (char_of c)
      else if is_digit c then Goto scan_number_any1 (char_of c)
      else Wrong (''invalid number; expected digit after '' @ [CHR 0x27, CHR ''-'', CHR 0x27]))"

definition zero_edge :: "char \<Rightarrow> int \<Rightarrow> number_step" where
  "zero_edge decimal_point c =
     (if c = 0x2E then Goto scan_number_decimal1 decimal_point
      else if is_exp c then Goto scan_number_exponent (char_of c) else Done)"

definition any1_edge :: "char \<Rightarrow> int \<Rightarrow> number_step" where
  "any1_edge decimal_point c =
     (if is_digit c then Goto scan_number_any1 (char_of c)
      else if c = 0x2E then Goto scan_number_decimal1 decimal_point
      else if is_exp c then Goto scan_number_exponent (char_of c) else Done)"

definition decimal1_edge :: "int \<Rightarrow> number_step" where
  "decimal1_edge c =
     (if is_digit c then Goto scan_number_decimal2 (char_of c)
      else Wrong (''invalid number; expected digit after '' @ [CHR 0x27, CHR ''.'', CHR 0x27]))"

definition decimal2_edge :: "int \<Rightarrow> number_step" where
  "decimal2_edge c =
     (if is_digit c then Goto scan_number_decimal2 (char_of c)
      else if is_exp c then Goto scan_number_exponent (char_of c) else Done)"

definition exponent_edge :: "int \<Rightarrow> number_step" where
  "exponent_edge c =
     (if c = 0x2B \<or> c = 0x2D then Goto scan_number_sign (char_of c)
      else if is_digit c then Goto scan_number_any2 (char_of c)
      else Wrong (''invalid number; expected '' @ [CHR 0x27, CHR ''+'', CHR 0x27] @ '', '' @ [CHR 0x27, CHR ''-'', CHR 0x27]
                  @ '', or digit after exponent''))"

definition sign_edge :: "int \<Rightarrow> number_step" where
  "sign_edge c =
     (if is_digit c then Goto scan_number_any2 (char_of c) else Wrong ''invalid number; expected digit after exponent sign'')"

definition any2_edge :: "int \<Rightarrow> number_step" where
  "any2_edge c = (if is_digit c then Goto scan_number_any2 (char_of c) else Done)"

definition number_edge :: "char \<Rightarrow> number_label \<Rightarrow> int \<Rightarrow> number_step" where
  "number_edge decimal_point st c =
     (case st of
        scan_number_minus \<Rightarrow> minus_edge c
      | scan_number_zero \<Rightarrow> zero_edge decimal_point c
      | scan_number_any1 \<Rightarrow> any1_edge decimal_point c
      | scan_number_decimal1 \<Rightarrow> decimal1_edge c
      | scan_number_decimal2 \<Rightarrow> decimal2_edge c
      | scan_number_exponent \<Rightarrow> exponent_edge c
      | scan_number_sign \<Rightarrow> sign_edge c
      | scan_number_any2 \<Rightarrow> any2_edge c)"

lemmas number_edges = number_edge_def minus_edge_def zero_edge_def any1_edge_def decimal1_edge_def decimal2_edge_def exponent_edge_def
  sign_edge_def any2_edge_def

definition label_type :: "number_label \<Rightarrow> token_type \<Rightarrow> token_type" where
  "label_type st number_type =
     (case st of
        scan_number_minus \<Rightarrow> value_integer
      | scan_number_decimal1 \<Rightarrow> value_float
      | scan_number_exponent \<Rightarrow> value_float
      | _ \<Rightarrow> number_type)"

lemma number_edge_end: "number_edge p st c = Goto st' x \<Longrightarrow> c \<noteq> -1"
  by (auto simp: number_edges is_digit_def is_exp_def split: number_label.splits if_splits)

function number_loop :: "char \<Rightarrow> number_label \<Rightarrow> token_type \<Rightarrow> 'f lexer \<Rightarrow> token_type \<times> 'f lexer" where
  "number_loop p st number_type lx =
     (let number_type = label_type st number_type; lx1 = get lx in
      case number_edge p st (lx_current lx1) of
        Wrong msg \<Rightarrow> lexer_fail msg lx1
      | Done \<Rightarrow> (number_type, lx1)
      | Goto st' x \<Rightarrow> number_loop p st' number_type (add (of_char x) lx1))"
  by pat_completeness auto

termination
  by (relation "measure (\<lambda>(p, st, ty, lx). length (remaining lx))")
    (auto dest: number_edge_end remaining_get_less)

declare number_loop.simps [simp del]

text \<open>
  The conversion: \<^verbatim>\<open>strtoull\<close> and \<^verbatim>\<open>strtoll\<close> report a number out of their range, which then becomes a floating-point number.
\<close>

definition strtoull :: "string \<Rightarrow> int option" where
  "strtoull s = (let x = digits_value s in if x < 2 ^ 64 then Some x else None)"

definition strtoll :: "string \<Rightarrow> int option" where
  "strtoll s =
     (let x = (case s of c # cs \<Rightarrow> if c = CHR ''-'' then - digits_value cs else digits_value s | [] \<Rightarrow> 0) in
      if - (2 ^ 63) \<le> x \<and> x < 2 ^ 63 then Some x else None)"

definition convert_number :: "'f float_ops \<Rightarrow> token_type \<Rightarrow> 'f lexer \<Rightarrow> token_type \<times> 'f lexer" where
  "convert_number fl number_type lx =
     (let as_float = (value_float, lx\<lparr>lx_value_float := fl_strtod fl (lx_token_buffer lx)\<rparr>) in
      if number_type = value_unsigned then
        (case strtoull (lx_token_buffer lx) of
           Some x \<Rightarrow> (value_unsigned, lx\<lparr>lx_value_unsigned := x\<rparr>)
         | None \<Rightarrow> as_float)
      else if number_type = value_integer then
        (case strtoll (lx_token_buffer lx) of
           Some x \<Rightarrow> (value_integer, lx\<lparr>lx_value_integer := x\<rparr>)
         | None \<Rightarrow> as_float)
      else as_float)"

text \<open>The first character decides the first label; other characters do not come here.\<close>

definition scan_number :: "'f float_ops \<Rightarrow> 'f lexer \<Rightarrow> token_type \<times> 'f lexer" where
  "scan_number fl lx0 =
     (let lx = lexer_reset lx0;
          st = (if lx_current lx = 0x2D then scan_number_minus
                else if lx_current lx = 0x30 then scan_number_zero
                else scan_number_any1);
          r = number_loop (fl_decimal_point fl) st value_unsigned (add (lx_current lx) lx) in
      if fst r = parse_error then r else convert_number fl (fst r) (unget (snd r)))"

section \<open>Tokens\<close>

primrec literal_loop :: "string \<Rightarrow> token_type \<Rightarrow> 'f lexer \<Rightarrow> token_type \<times> 'f lexer" where
  "literal_loop [] return_type lx = (return_type, lx)"
| "literal_loop (c # cs) return_type lx =
     (let lx1 = get lx in
      if lx_current lx1 \<noteq> of_char c then lexer_fail ''invalid literal'' lx1 else literal_loop cs return_type lx1)"

definition scan_literal :: "string \<Rightarrow> token_type \<Rightarrow> 'f lexer \<Rightarrow> token_type \<times> 'f lexer" where
  "scan_literal literal_text return_type lx = literal_loop (tl literal_text) return_type lx"

definition skip_bom :: "'f lexer \<Rightarrow> bool \<times> 'f lexer" where
  "skip_bom lx =
     (let lx1 = get lx in
      if lx_current lx1 = 0xEF then
        (let lx2 = get lx1 in
         if lx_current lx2 = 0xBB then (let lx3 = get lx2 in (lx_current lx3 = 0xBF, lx3)) else (False, lx2))
      else (True, unget lx1))"

definition is_space :: "int \<Rightarrow> bool" where
  "is_space c \<longleftrightarrow> c = 0x20 \<or> c = 0x09 \<or> c = 0x0A \<or> c = 0x0D"

function skip_space :: "'f lexer \<Rightarrow> 'f lexer" where
  "skip_space lx = (let lx1 = get lx in if is_space (lx_current lx1) then skip_space lx1 else lx1)"
  by pat_completeness auto

termination
  by (relation "measure (\<lambda>lx. length (remaining lx))") (auto simp: is_space_def intro!: remaining_get_less)

declare skip_space.simps [simp del]

definition scan_token :: "'f float_ops \<Rightarrow> 'f lexer \<Rightarrow> token_type \<times> 'f lexer" where
  "scan_token fl lx =
     (let c = lx_current lx in
      if c = 0x5B then (begin_array, lx)
      else if c = 0x5D then (end_array, lx)
      else if c = 0x7B then (begin_object, lx)
      else if c = 0x7D then (end_object, lx)
      else if c = 0x3A then (name_separator, lx)
      else if c = 0x2C then (value_separator, lx)
      else if c = 0x74 then scan_literal ''true'' literal_true lx
      else if c = 0x66 then scan_literal ''false'' literal_false lx
      else if c = 0x6E then scan_literal ''null'' literal_null lx
      else if c = 0x22 then scan_string lx
      else if c = 0x2D \<or> is_digit c then scan_number fl lx
      else if c = 0 \<or> c = -1 then (end_of_input, lx)
      else lexer_fail ''invalid literal'' lx)"

definition scan :: "'f float_ops \<Rightarrow> 'f lexer \<Rightarrow> token_type \<times> 'f lexer" where
  "scan fl lx =
     (let bom = (if chars_read_total (lx_position lx) = 0 then skip_bom lx else (True, lx)) in
      if \<not> fst bom then lexer_fail ''invalid BOM; must be 0xEF 0xBB 0xBF if given'' (snd bom)
      else scan_token fl (skip_space (snd bom)))"

text \<open>The text of the last token for error messages, control characters written as numbers.\<close>

definition get_token_string :: "'f lexer \<Rightarrow> string" where
  "get_token_string lx =
     concat (map (\<lambda>c. if (of_char c :: int) \<le> 0x1F
       then ''<U+00'' @ [hex_digit_upper (of_char c div 16), hex_digit_upper (of_char c mod 16)] @ ''>'' else [c]) (lx_token_string lx))"

end
