(* ===== verification/Json_Scan.thy ===== *)
theory Json_Scan
  imports Json_Lexer
begin

text \<open>
  What the scanner does to the text that is left: one lemma per kind of token, the bound on what a token consumes, and the
  assertions of the source.
\<close>

section \<open>Reading one character\<close>

text \<open>\<open>took lx c s\<close>: the character \<open>c\<close> was read last and \<open>s\<close> is left. \<open>ready lx s\<close>: \<open>s\<close> is left.\<close>

definition took :: "'f lexer \<Rightarrow> int \<Rightarrow> string \<Rightarrow> bool" where
  "took lx c s \<longleftrightarrow> lx_current lx = c \<and> \<not> lx_next_unget lx \<and> lx_ia lx = s \<and> 0 < chars_read_total (lx_position lx) \<and> -1 \<le> c \<and> c \<le> 255"

definition ready :: "'f lexer \<Rightarrow> string \<Rightarrow> bool" where
  "ready lx s \<longleftrightarrow> lexer_ok lx \<and> remaining lx = s"

lemma took_ready: "took lx c s \<Longrightarrow> ready lx s"
  by (auto simp: took_def ready_def lexer_ok_def remaining_def)

lemma took_current: "took lx c s \<Longrightarrow> lx_current lx = c"
  by (simp add: took_def)

lemma of_char_char_of_byte: "0 \<le> c \<Longrightarrow> c \<le> 255 \<Longrightarrow> of_char (char_of c) = (c :: int)"
  by simp

lemma get_buffer [simp]: "lx_token_buffer (get lx) = lx_token_buffer lx"
  by (simp add: get_def Let_def split: prod.split)

lemma get_Cons:
  assumes "ready lx (c # s)"
  shows "took (get lx) (of_char c) s"
  using assms of_char_byte [of c]
  by (auto simp: ready_def lexer_ok_def remaining_def took_def get_def get_character_def Let_def split: if_splits)

lemma get_Nil:
  assumes "ready lx []"
  shows "took (get lx) (-1) []"
  using assms
  by (auto simp: ready_def lexer_ok_def remaining_def took_def get_def get_character_def Let_def split: if_splits)

lemma get_cases:
  assumes "ready lx s"
  shows "took (get lx) (case s of [] \<Rightarrow> -1 | c # _ \<Rightarrow> of_char c) (tl s)"
  using assms get_Cons get_Nil by (cases s) auto

lemma took_add [simp]: "took (add b lx) c s = took lx c s"
  by (simp add: took_def add_def)

lemma ready_add [simp]: "ready (add b lx) s = ready lx s"
  by (simp add: ready_def lexer_ok_def remaining_def add_def)

lemma took_reset [simp]: "took (lexer_reset lx) c s = took lx c s"
  by (simp add: took_def lexer_reset_def)

lemma buffer_add [simp]: "lx_token_buffer (add b lx) = lx_token_buffer lx @ [char_of b]"
  by (simp add: add_def)

lemma buffer_reset [simp]: "lx_token_buffer (lexer_reset lx) = []"
  by (simp add: lexer_reset_def)

lemma ready_unget:
  assumes "took lx c s" and "c = -1 \<longrightarrow> s = []" and "chars_read_total (lx_position lx) > 1"
  shows "ready (unget lx) (if c = -1 then s else char_of c # s)" "0 < chars_read_total (lx_position (unget lx))"
    "lx_token_buffer (unget lx) = lx_token_buffer lx"
  using assms by (auto simp: took_def ready_def lexer_ok_def remaining_def unget_def Let_def)

lemma get_total: "chars_read_total (lx_position (get lx)) = chars_read_total (lx_position lx) + 1"
  by (simp add: get_def Let_def split: prod.split)

section \<open>The bound on what a token consumes\<close>

lemma remaining_unget_le:
  "\<not> lx_next_unget lx \<Longrightarrow> length (remaining (unget lx)) \<le> length (remaining lx) + 1"
  by (simp add: remaining_def unget_def Let_def)

lemma get_no_unget [simp]: "\<not> lx_next_unget (get lx)"
  by (simp add: get_def get_character_def Let_def split: list.split)

lemma scan_string_loop_le: "length (remaining (snd (scan_string_loop lx))) \<le> length (remaining lx)"
proof (induction "length (remaining lx)" arbitrary: lx rule: less_induct)
  case less
  let ?l = "get lx"
  have g: "length (remaining ?l) \<le> length (remaining lx)" by (rule remaining_get_le)
  have s: "length (remaining l') \<le> length (remaining ?l) \<Longrightarrow> lx_current ?l \<noteq> -1 \<Longrightarrow>
      length (remaining (snd (scan_string_loop l'))) \<le> length (remaining lx)" for l' :: "'a lexer"
    using less [of l'] remaining_get_less [of lx] g by fastforce
  have e: "length (remaining (snd (scan_escape ?l))) \<le> length (remaining ?l)"
    by (rule remaining_escape_le)
  have r: "length (remaining (snd (next_byte_in_range rs ?l))) \<le> length (remaining ?l)" for rs
    using remaining_range_le [of rs "add (lx_current ?l) ?l"] by (simp add: next_byte_in_range_def)
  have "length (remaining (snd (scan_escape ?l))) \<le> length (remaining lx)"
    "length (remaining (snd (next_byte_in_range rs ?l))) \<le> length (remaining lx)" for rs
    using e r [of rs] g by simp_all
  then show ?case
    using g s [OF e] s [OF r] s [of "add (lx_current ?l) ?l"]
    by (subst scan_string_loop.simps) (simp add: Let_def split: option.split)
qed

text \<open>The character behind a number is given back.\<close>

lemma number_loop_le:
  assumes "ty \<noteq> parse_error"
  shows "length (remaining (let r = number_loop p st ty lx in if fst r = parse_error then snd r else unget (snd r))) \<le> length (remaining lx)"
  using assms
proof (induction "length (remaining lx)" arbitrary: st ty lx rule: less_induct)
  case less
  have g: "length (remaining (get lx)) \<le> length (remaining lx)" by (rule remaining_get_le)
  have u: "length (remaining (unget (get lx))) \<le> length (remaining lx)"
    using remaining_get_less [of lx] g by (auto simp: remaining_def unget_def Let_def)
  have t: "label_type st ty \<noteq> parse_error" using less.prems by (simp add: label_type_def split: number_label.split)
  show ?case
  proof (cases "number_edge p st (lx_current (get lx))")
    case (Goto st' x)
    then have "length (remaining (add (of_char x) (get lx))) < length (remaining lx)"
      using remaining_get_less [of lx] by (auto dest: number_edge_end)
    from less.hyps [OF this t, of st'] this show ?thesis
      using Goto by (subst number_loop.simps) (simp add: Let_def)
  next
    case Done
    then show ?thesis using u t by (subst number_loop.simps) (simp add: Let_def)
  next
    case (Wrong m)
    then show ?thesis using g by (subst number_loop.simps) (simp add: Let_def lexer_fail_def)
  qed
qed

lemma literal_loop_le: "length (remaining (snd (literal_loop cs t lx))) \<le> length (remaining lx)"
proof (induction cs arbitrary: lx)
  case (Cons c cs)
  show ?case using Cons.IH [of "get lx"] remaining_get_le [of lx] by (auto simp: Let_def intro: order_trans)
qed simp

lemma convert_number_remaining [simp]: "remaining (snd (convert_number fl ty lx)) = remaining lx"
  by (simp add: convert_number_def Let_def remaining_def split: option.split)

lemma scan_number_le: "length (remaining (snd (scan_number fl lx))) \<le> length (remaining lx)"
proof -
  have "length (remaining (snd (let r = number_loop (fl_decimal_point fl) st value_unsigned (add c (lexer_reset lx)) in
      if fst r = parse_error then r else convert_number fl (fst r) (unget (snd r))))) \<le> length (remaining lx)" for st c
    using number_loop_le [of value_unsigned "fl_decimal_point fl" st "add c (lexer_reset lx)"]
    by (simp add: Let_def split: if_splits)
  then show ?thesis unfolding scan_number_def Let_def .
qed

lemma skip_space_le:
  "length (remaining (skip_space lx)) \<le> length (remaining lx)
   \<and> (lx_current (skip_space lx) \<noteq> -1 \<longrightarrow> length (remaining (skip_space lx)) < length (remaining lx))"
proof (induction "length (remaining lx)" arbitrary: lx rule: less_induct)
  case less
  show ?case
  proof (cases "is_space (lx_current (get lx))")
    case True
    then have "length (remaining (get lx)) < length (remaining lx)"
      by (intro remaining_get_less) (auto simp: is_space_def)
    with less [of "get lx"] True show ?thesis by (subst (1 2 3) skip_space.simps) (auto simp: Let_def)
  next
    case False
    then show ?thesis
      using remaining_get_le [of lx] remaining_get_less [of lx] by (subst (1 2 3) skip_space.simps) (auto simp: Let_def)
  qed
qed

lemma scan_literal_le: "length (remaining (snd (scan_literal s t lx))) \<le> length (remaining lx)"
  unfolding scan_literal_def by (rule literal_loop_le)

lemma scan_token_le: "length (remaining (snd (scan_token fl lx))) \<le> length (remaining lx)"
  using scan_number_le [of fl lx] scan_string_loop_le [of "lexer_reset lx"]
  by (simp add: scan_token_def Let_def scan_literal_le scan_string_def)

lemma scan_token_eof: "lx_current lx = -1 \<Longrightarrow> fst (scan_token fl lx) = end_of_input"
  by (simp add: scan_token_def is_digit_def)

lemma skip_bom_le: "length (remaining (snd (skip_bom lx))) \<le> length (remaining lx)"
  using remaining_get_le [of lx] remaining_get_le [of "get lx"] remaining_get_le [of "get (get lx)"] remaining_get_less [of lx]
  by (auto simp: skip_bom_def Let_def) (auto simp: remaining_def unget_def Let_def)

text \<open>Every token but the end of the input and an error consumes a character.\<close>

lemma scan_le: "length (remaining (snd (scan fl lx))) \<le> length (remaining lx)"
proof -
  have "length (remaining (snd (scan_token fl (skip_space l)))) \<le> length (remaining l)" for l :: "'a lexer"
    using scan_token_le [of fl "skip_space l"] skip_space_le [of l] by simp
  from this [of lx] this [of "snd (skip_bom lx)"] show ?thesis
    using skip_bom_le [of lx] by (auto simp: scan_def Let_def)
qed

lemma scan_consumes:
  assumes "scan fl lx = (t, lx')" and "t \<noteq> end_of_input" and "t \<noteq> parse_error"
  shows "length (remaining lx') < length (remaining lx)"
proof -
  have s: "length (remaining (snd (scan_token fl (skip_space l)))) < length (remaining l)"
    if "fst (scan_token fl (skip_space l)) \<noteq> end_of_input" for l :: "'a lexer"
    using that scan_token_le [of fl "skip_space l"] skip_space_le [of l] scan_token_eof [of "skip_space l" fl] by fastforce
  show ?thesis
    using assms s [of lx] s [of "snd (skip_bom lx)"] skip_bom_le [of lx]
    by (auto simp: scan_def Let_def lexer_fail_def split: if_splits)
qed

end
