(* ===== verification/Json_Parser.thy ===== *)
theory Json_Parser
  imports Json_Scan
begin

text \<open>
  The parser of the vendored JSON library: the loop that turns tokens into events (\<^verbatim>\<open>parser::sax_parse_internal\<close>), and two receivers of events: one
  that builds a value (\<^verbatim>\<open>json_sax_dom_parser\<close>) and one that only accepts (\<^verbatim>\<open>json_sax_acceptor\<close>). A receiver is a record of functions
  over a state, any of which may throw. A pointer into the value under construction is a path.
\<close>

section \<open>Values and exceptions\<close>

datatype 'f json =
    Jnull
  | Jobject "(string \<times> 'f json) list"
  | Jarray "'f json list"
  | Jstring string
  | Jboolean bool
  | Jnumber_integer int
  | Jnumber_unsigned int
  | Jnumber_float 'f
  | Jdiscarded

datatype json_exception =
    parse_error_exception int nat string
  | invalid_iterator int string
  | type_error int string
  | out_of_range int string
  | other_error int string

definition exception_name :: "string \<Rightarrow> int \<Rightarrow> string" where
  "exception_name ename i = ''[json.exception.'' @ ename @ ''.'' @ dec i @ ''] ''"

definition position_string :: "position \<Rightarrow> string" where
  "position_string pos = '' at line '' @ dec (int (lines_read pos + 1)) @ '', column '' @ dec (int (chars_read_current_line pos))"

definition parse_error_create :: "int \<Rightarrow> position \<Rightarrow> string \<Rightarrow> json_exception" where
  "parse_error_create i pos what =
     parse_error_exception i (chars_read_total pos) (exception_name ''parse_error'' i @ ''parse error'' @ position_string pos @ '': '' @ what)"

definition type_error_create :: "int \<Rightarrow> string \<Rightarrow> json_exception" where
  "type_error_create i what = type_error i (exception_name ''type_error'' i @ what)"

definition out_of_range_create :: "int \<Rightarrow> string \<Rightarrow> json_exception" where
  "out_of_range_create i what = out_of_range i (exception_name ''out_of_range'' i @ what)"

section \<open>Events\<close>

type_synonym 's event = "'s \<Rightarrow> json_exception + bool \<times> 's"

record ('s, 'f) sax =
  sax_null :: "'s event"
  sax_boolean :: "bool \<Rightarrow> 's event"
  sax_number_integer :: "int \<Rightarrow> 's event"
  sax_number_unsigned :: "int \<Rightarrow> 's event"
  sax_number_float :: "'f \<Rightarrow> string \<Rightarrow> 's event"
  sax_string :: "string \<Rightarrow> 's event"
  sax_start_object :: "'s event"
  sax_key :: "string \<Rightarrow> 's event"
  sax_end_object :: "'s event"
  sax_start_array :: "'s event"
  sax_end_array :: "'s event"
  sax_parse_error :: "nat \<Rightarrow> string \<Rightarrow> json_exception \<Rightarrow> 's event"

definition exception_message :: "token_type \<Rightarrow> string \<Rightarrow> token_type \<Rightarrow> 'f lexer \<Rightarrow> string" where
  "exception_message expected ctxt last_token lx =
     ''syntax error '' @ (if ctxt \<noteq> [] then ''while parsing '' @ ctxt @ '' '' else []) @ ''- ''
     @ (if last_token = parse_error
        then lx_error_message lx @ ''; last read: '' @ [CHR 0x27] @ get_token_string lx @ [CHR 0x27]
        else ''unexpected '' @ token_type_name last_token)
     @ (if expected \<noteq> uninitialized then ''; expected '' @ token_type_name expected else [])"

text \<open>
  How a part of an iteration ends: it returns, goes on with the next value inside a new array or object (true for an
  array), has read a value, goes on with the next value, or has closed the innermost structure.
\<close>

datatype parse_step = Ret bool | Push bool | Evaluate | Next | Pop

type_synonym ('s, 'f) parse_state = "token_type \<times> 'f lexer \<times> 's"

definition syntax_error ::
    "('s, 'f) sax \<Rightarrow> token_type \<Rightarrow> string \<Rightarrow> token_type \<Rightarrow> 'f lexer \<Rightarrow> 's \<Rightarrow> json_exception + parse_step \<times> ('s, 'f) parse_state" where
  "syntax_error sax expected ctxt tok lx s =
     rbind (sax_parse_error sax (chars_read_total (lx_position lx)) (get_token_string lx)
              (parse_error_create 101 (lx_position lx) (exception_message expected ctxt tok lx)) s)
       (\<lambda>(b, s1). Inr (Ret b, tok, lx, s1))"

text \<open>An event for a value: if the receiver declines, the parser returns.\<close>

definition value_event :: "'s event \<Rightarrow> token_type \<Rightarrow> 'f lexer \<Rightarrow> 's \<Rightarrow> json_exception + parse_step \<times> ('s, 'f) parse_state" where
  "value_event ev tok lx s = rbind (ev s) (\<lambda>(b, s1). Inr (if b then Evaluate else Ret False, tok, lx, s1))"

text \<open>A key and the separator behind it, then the first token of the value.\<close>

definition parse_key ::
    "'f float_ops \<Rightarrow> ('s, 'f) sax \<Rightarrow> parse_step \<Rightarrow> token_type \<Rightarrow> 'f lexer \<Rightarrow> 's \<Rightarrow> json_exception + parse_step \<times> ('s, 'f) parse_state" where
  "parse_key fl sax next_step tok lx s =
     (if tok \<noteq> value_string then syntax_error sax value_string ''object key'' tok lx s
      else
        rbind (sax_key sax (lx_token_buffer lx) s) (\<lambda>(b, s1).
        if \<not> b then Inr (Ret False, tok, lx, s1)
        else case scan fl lx of (tok1, lx1) \<Rightarrow>
          if tok1 \<noteq> name_separator then syntax_error sax name_separator ''object separator'' tok1 lx1 s1
          else case scan fl lx1 of (tok2, lx2) \<Rightarrow> Inr (next_step, tok2, lx2, s1)))"

definition parse_begin_object ::
    "'f float_ops \<Rightarrow> ('s, 'f) sax \<Rightarrow> token_type \<Rightarrow> 'f lexer \<Rightarrow> 's \<Rightarrow> json_exception + parse_step \<times> ('s, 'f) parse_state" where
  "parse_begin_object fl sax tok lx s =
     rbind (sax_start_object sax s) (\<lambda>(b, s1).
     if \<not> b then Inr (Ret False, tok, lx, s1)
     else case scan fl lx of (tok1, lx1) \<Rightarrow>
       if tok1 = end_object then value_event (sax_end_object sax) tok1 lx1 s1
       else parse_key fl sax (Push False) tok1 lx1 s1)"

definition parse_begin_array ::
    "'f float_ops \<Rightarrow> ('s, 'f) sax \<Rightarrow> token_type \<Rightarrow> 'f lexer \<Rightarrow> 's \<Rightarrow> json_exception + parse_step \<times> ('s, 'f) parse_state" where
  "parse_begin_array fl sax tok lx s =
     rbind (sax_start_array sax s) (\<lambda>(b, s1).
     if \<not> b then Inr (Ret False, tok, lx, s1)
     else case scan fl lx of (tok1, lx1) \<Rightarrow>
       if tok1 = end_array then value_event (sax_end_array sax) tok1 lx1 s1
       else Inr (Push True, tok1, lx1, s1))"

definition parse_float ::
    "'f float_ops \<Rightarrow> ('s, 'f) sax \<Rightarrow> token_type \<Rightarrow> 'f lexer \<Rightarrow> 's \<Rightarrow> json_exception + parse_step \<times> ('s, 'f) parse_state" where
  "parse_float fl sax tok lx s =
     (if \<not> fl_isfinite fl (lx_value_float lx) then
        rbind (sax_parse_error sax (chars_read_total (lx_position lx)) (get_token_string lx)
                 (out_of_range_create 406 (''number overflow parsing '' @ [CHR 0x27] @ get_token_string lx @ [CHR 0x27])) s)
          (\<lambda>(b, s1). Inr (Ret b, tok, lx, s1))
      else value_event (sax_number_float sax (lx_value_float lx) (lx_token_buffer lx)) tok lx s)"

definition parse_value ::
    "'f float_ops \<Rightarrow> ('s, 'f) sax \<Rightarrow> token_type \<Rightarrow> 'f lexer \<Rightarrow> 's \<Rightarrow> json_exception + parse_step \<times> ('s, 'f) parse_state" where
  "parse_value fl sax tok lx s =
     (case tok of
        begin_object \<Rightarrow> parse_begin_object fl sax tok lx s
      | begin_array \<Rightarrow> parse_begin_array fl sax tok lx s
      | value_float \<Rightarrow> parse_float fl sax tok lx s
      | literal_false \<Rightarrow> value_event (sax_boolean sax False) tok lx s
      | literal_null \<Rightarrow> value_event (sax_null sax) tok lx s
      | literal_true \<Rightarrow> value_event (sax_boolean sax True) tok lx s
      | value_integer \<Rightarrow> value_event (sax_number_integer sax (lx_value_integer lx)) tok lx s
      | value_string \<Rightarrow> value_event (sax_string sax (lx_token_buffer lx)) tok lx s
      | value_unsigned \<Rightarrow> value_event (sax_number_unsigned sax (lx_value_unsigned lx)) tok lx s
      | parse_error \<Rightarrow> syntax_error sax uninitialized ''value'' tok lx s
      | _ \<Rightarrow> syntax_error sax literal_or_value ''value'' tok lx s)"

text \<open>After a value inside an array or an object.\<close>

definition close_event :: "'s event \<Rightarrow> token_type \<Rightarrow> 'f lexer \<Rightarrow> 's \<Rightarrow> json_exception + parse_step \<times> ('s, 'f) parse_state" where
  "close_event ev tok lx s = rbind (ev s) (\<lambda>(b, s1). Inr (if b then Pop else Ret False, tok, lx, s1))"

definition parse_array_state ::
    "'f float_ops \<Rightarrow> ('s, 'f) sax \<Rightarrow> 'f lexer \<Rightarrow> 's \<Rightarrow> json_exception + parse_step \<times> ('s, 'f) parse_state" where
  "parse_array_state fl sax lx s =
     (case scan fl lx of (tok1, lx1) \<Rightarrow>
      if tok1 = value_separator then (case scan fl lx1 of (tok2, lx2) \<Rightarrow> Inr (Next, tok2, lx2, s))
      else if tok1 = end_array then close_event (sax_end_array sax) tok1 lx1 s
      else syntax_error sax end_array ''array'' tok1 lx1 s)"

definition parse_object_state ::
    "'f float_ops \<Rightarrow> ('s, 'f) sax \<Rightarrow> 'f lexer \<Rightarrow> 's \<Rightarrow> json_exception + parse_step \<times> ('s, 'f) parse_state" where
  "parse_object_state fl sax lx s =
     (case scan fl lx of (tok1, lx1) \<Rightarrow>
      if tok1 = value_separator then (case scan fl lx1 of (tok2, lx2) \<Rightarrow> parse_key fl sax Next tok2 lx2 s)
      else if tok1 = end_object then close_event (sax_end_object sax) tok1 lx1 s
      else syntax_error sax end_object ''object'' tok1 lx1 s)"

definition parse_first ::
    "'f float_ops \<Rightarrow> ('s, 'f) sax \<Rightarrow> bool \<Rightarrow> token_type \<Rightarrow> 'f lexer \<Rightarrow> 's \<Rightarrow> json_exception + parse_step \<times> ('s, 'f) parse_state" where
  "parse_first fl sax skip_to_state_evaluation tok lx s =
     (if skip_to_state_evaluation then Inr (Evaluate, tok, lx, s) else parse_value fl sax tok lx s)"

definition parse_second ::
    "'f float_ops \<Rightarrow> ('s, 'f) sax \<Rightarrow> bool list \<Rightarrow> token_type \<Rightarrow> 'f lexer \<Rightarrow> 's \<Rightarrow> json_exception + parse_step \<times> ('s, 'f) parse_state" where
  "parse_second fl sax states tok lx s =
     (case states of
        [] \<Rightarrow> Inr (Ret True, tok, lx, s)
      | array # _ \<Rightarrow> if array then parse_array_state fl sax lx s else parse_object_state fl sax lx s)"

section \<open>The loop ends\<close>

definition parse_measure :: "bool \<Rightarrow> token_type \<Rightarrow> 'f lexer \<Rightarrow> nat" where
  "parse_measure skip tok lx = 2 * length (remaining lx) + (if tok = begin_array \<and> \<not> skip then 1 else 0)"

lemma syntax_error_ret: "syntax_error sax e c tok lx s = Inr (st, tok', lx', s') \<Longrightarrow> (\<exists>b. st = Ret b) \<and> lx' = lx"
  by (auto simp: syntax_error_def rbind_eq_Inr)

lemma value_event_steps: "value_event ev tok lx s = Inr (st, tok', lx', s') \<Longrightarrow> (st = Evaluate \<or> st = Ret False) \<and> lx' = lx \<and> tok' = tok"
  by (auto simp: value_event_def rbind_eq_Inr split: if_splits)

lemma close_event_steps: "close_event ev tok lx s = Inr (st, tok', lx', s') \<Longrightarrow> (st = Pop \<or> st = Ret False) \<and> lx' = lx \<and> tok' = tok"
  by (auto simp: close_event_def rbind_eq_Inr split: if_splits)

lemma parse_key_less:
  assumes "parse_key fl sax nx tok lx s = Inr (st, tok', lx', s')"
  shows "(st = nx \<and> tok = value_string \<and> length (remaining lx') < length (remaining lx)) \<or> (\<exists>b. st = Ret b)"
proof -
  obtain t1 l1 where 1: "scan fl lx = (t1, l1)" by force
  obtain t2 l2 where 2: "scan fl l1 = (t2, l2)" by force
  show ?thesis
    using assms scan_consumes [OF 1] scan_le [of fl l1]
    by (auto simp: parse_key_def rbind_eq_Inr 1 2 dest: syntax_error_ret split: if_splits)
qed

lemma parse_value_cases:
  assumes "parse_value fl sax tok lx s = Inr (st, tok', lx', s')"
  shows "(\<exists>b. st = Ret b) \<or> st = Evaluate \<and> length (remaining lx') \<le> length (remaining lx)
       \<or> (\<exists>a. st = Push a) \<and> parse_measure False tok' lx' < parse_measure False tok lx"
proof -
  obtain t1 l1 where 1: "scan fl lx = (t1, l1)" by force
  have le: "length (remaining l1) \<le> length (remaining lx)" using scan_le [of fl lx] 1 by simp
  note lt = scan_consumes [OF 1]
  show ?thesis
  proof (cases tok)
    case begin_array
    with assms le lt show ?thesis
      by (auto simp: parse_value_def parse_begin_array_def rbind_eq_Inr 1 parse_measure_def dest: value_event_steps split: if_splits)
  next
    case begin_object
    with assms le lt show ?thesis
      by (fastforce simp: parse_value_def parse_begin_object_def rbind_eq_Inr 1 parse_measure_def
          dest: value_event_steps parse_key_less split: if_splits)
  next
    case value_float
    with assms show ?thesis
      by (auto simp: parse_value_def parse_float_def rbind_eq_Inr dest: value_event_steps split: if_splits)
  qed (use assms in \<open>auto simp: parse_value_def dest: value_event_steps syntax_error_ret\<close>)
qed

lemma parse_second_cases:
  assumes "parse_second fl sax states tok lx s = Inr (st, tok', lx', s')"
  shows "(\<exists>b. st = Ret b) \<or> (st = Next \<or> st = Pop) \<and> states \<noteq> [] \<and> length (remaining lx') < length (remaining lx)"
proof -
  obtain t1 l1 where 1: "scan fl lx = (t1, l1)" by force
  obtain t2 l2 where 2: "scan fl l1 = (t2, l2)" by force
  note lt = scan_consumes [OF 1] and le = scan_le [of fl l1]
  have "(\<exists>b. st = Ret b) \<or> (st = Next \<or> st = Pop) \<and> length (remaining lx') < length (remaining lx)"
    if "parse_array_state fl sax lx s = Inr (st, tok', lx', s')"
    using that lt le by (auto simp: parse_array_state_def 1 2 dest: close_event_steps syntax_error_ret split: if_splits)
  moreover have "(\<exists>b. st = Ret b) \<or> (st = Next \<or> st = Pop) \<and> length (remaining lx') < length (remaining lx)"
    if "parse_object_state fl sax lx s = Inr (st, tok', lx', s')"
    using that lt le by (fastforce simp: parse_object_state_def 1 2 dest: close_event_steps syntax_error_ret parse_key_less split: if_splits)
  ultimately show ?thesis
    using assms by (auto simp: parse_second_def split: list.splits if_splits)
qed

lemma parse_first_cases:
  assumes "parse_first fl sax skip tok lx s = Inr (st, tok', lx', s')"
  shows "(\<exists>b. st = Ret b) \<or> st = Evaluate \<and> length (remaining lx') \<le> length (remaining lx)
       \<or> (\<exists>a. st = Push a) \<and> parse_measure False tok' lx' < parse_measure skip tok lx"
  using assms parse_value_cases [of fl sax tok lx s st tok' lx' s'] by (auto simp: parse_first_def split: if_splits)

lemma parse_measure_less: "length (remaining lx') < length (remaining lx) \<Longrightarrow> parse_measure b t lx' < parse_measure b' t' lx"
  by (simp add: parse_measure_def)

function sax_parse_internal ::
    "'f float_ops \<Rightarrow> ('s, 'f) sax \<Rightarrow> bool \<Rightarrow> bool list \<Rightarrow> token_type \<Rightarrow> 'f lexer \<Rightarrow> 's \<Rightarrow> json_exception + bool \<times> ('s, 'f) parse_state" where
  "sax_parse_internal fl sax skip states tok lx s =
     (case parse_first fl sax skip tok lx s of
        Inl e \<Rightarrow> Inl e
      | Inr (Ret b, r) \<Rightarrow> Inr (b, r)
      | Inr (Push array, tok1, lx1, s1) \<Rightarrow> sax_parse_internal fl sax False (array # states) tok1 lx1 s1
      | Inr (_, tok1, lx1, s1) \<Rightarrow>
          (case parse_second fl sax states tok1 lx1 s1 of
             Inl e \<Rightarrow> Inl e
           | Inr (Ret b, r) \<Rightarrow> Inr (b, r)
           | Inr (Pop, tok2, lx2, s2) \<Rightarrow> sax_parse_internal fl sax True (tl states) tok2 lx2 s2
           | Inr (_, tok2, lx2, s2) \<Rightarrow> sax_parse_internal fl sax False states tok2 lx2 s2))"
  by pat_completeness auto

termination
  by (relation "measure (\<lambda>(fl, sax, skip, states, tok, lx, s). parse_measure skip tok lx)")
    (fastforce dest: parse_first_cases parse_second_cases intro!: parse_measure_less)+

declare sax_parse_internal.simps [simp del]

section \<open>Building a value\<close>

datatype path_step = At nat | Key string

type_synonym path = "path_step list"

fun json_at :: "path \<Rightarrow> 'f json \<Rightarrow> 'f json option" where
  "json_at [] v = Some v"
| "json_at (At i # p) (Jarray vs) = (if i < length vs then json_at p (vs ! i) else None)"
| "json_at (Key k # p) (Jobject kvs) = (case map_of kvs k of None \<Rightarrow> None | Some v \<Rightarrow> json_at p v)"
| "json_at p v = None"

text \<open>The value of a key.\<close>

primrec alter :: "'k \<Rightarrow> ('v \<Rightarrow> 'v) \<Rightarrow> ('k \<times> 'v) list \<Rightarrow> ('k \<times> 'v) list" where
  "alter k f [] = []"
| "alter k f (e # m) = (if fst e = k then (fst e, f (snd e)) # m else e # alter k f m)"

lemma alter_cong [fundef_cong]:
  "k = k' \<Longrightarrow> m = m' \<Longrightarrow> (\<And>e. e \<in> set m' \<Longrightarrow> f (snd e) = g (snd e)) \<Longrightarrow> alter k f m = alter k' g m'"
proof -
  have "\<forall>e \<in> set m. f (snd e) = g (snd e) \<Longrightarrow> alter k f m = alter k g m" by (induction m) auto
  then show "k = k' \<Longrightarrow> m = m' \<Longrightarrow> (\<And>e. e \<in> set m' \<Longrightarrow> f (snd e) = g (snd e)) \<Longrightarrow> alter k f m = alter k' g m'" by auto
qed

fun json_update :: "path \<Rightarrow> ('f json \<Rightarrow> 'f json) \<Rightarrow> 'f json \<Rightarrow> 'f json" where
  "json_update [] f v = f v"
| "json_update (At i # p) f (Jarray vs) = Jarray (if i < length vs then vs[i := json_update p f (vs ! i)] else vs)"
| "json_update (Key k # p) f (Jobject kvs) = Jobject (alter k (json_update p f) kvs)"
| "json_update p f v = v"

record 'f dom_parser =
  dp_root :: "'f json"
  dp_ref_stack :: "path list"
  dp_object_element :: path
  dp_errored :: bool
  dp_allow_exceptions :: bool

definition new_dom_parser :: "bool \<Rightarrow> 'f dom_parser" where
  "new_dom_parser allow =
     \<lparr>dp_root = Jnull, dp_ref_stack = [], dp_object_element = [], dp_errored = False, dp_allow_exceptions = allow\<rparr>"

text \<open>Storing a value; the result is where it was stored. The innermost structure is the first of the stack.\<close>

definition handle_value :: "'f json \<Rightarrow> 'f dom_parser \<Rightarrow> path \<times> 'f dom_parser" where
  "handle_value v d =
     (case dp_ref_stack d of
        [] \<Rightarrow> ([], d\<lparr>dp_root := v\<rparr>)
      | r # _ \<Rightarrow>
          (case json_at r (dp_root d) of
             Some (Jarray vs) \<Rightarrow> (r @ [At (length vs)], d\<lparr>dp_root := json_update r (\<lambda>_. Jarray (vs @ [v])) (dp_root d)\<rparr>)
           | _ \<Rightarrow> (dp_object_element d, d\<lparr>dp_root := json_update (dp_object_element d) (\<lambda>_. v) (dp_root d)\<rparr>)))"

definition dom_value :: "'f json \<Rightarrow> 'f dom_parser event" where
  "dom_value v d = Inr (True, snd (handle_value v d))"

definition dom_start :: "'f json \<Rightarrow> 'f dom_parser event" where
  "dom_start v d = (case handle_value v d of (p, d1) \<Rightarrow> Inr (True, d1\<lparr>dp_ref_stack := p # dp_ref_stack d1\<rparr>))"

text \<open>\<^verbatim>\<open>operator[]\<close> of the map adds a null if the key is new.\<close>

definition object_key :: "string \<Rightarrow> 'f json \<Rightarrow> 'f json" where
  "object_key k v = (case v of Jobject kvs \<Rightarrow> Jobject (if map_of kvs k = None then map_put k Jnull kvs else kvs) | _ \<Rightarrow> v)"

definition dom_key :: "string \<Rightarrow> 'f dom_parser event" where
  "dom_key k d =
     (let r = hd (dp_ref_stack d) in
      Inr (True, d\<lparr>dp_root := json_update r (object_key k) (dp_root d), dp_object_element := r @ [Key k]\<rparr>))"

definition dom_end :: "'f dom_parser event" where
  "dom_end d = Inr (True, d\<lparr>dp_ref_stack := tl (dp_ref_stack d)\<rparr>)"

definition dom_parse_error :: "nat \<Rightarrow> string \<Rightarrow> json_exception \<Rightarrow> 'f dom_parser event" where
  "dom_parse_error pos tokn ex d =
     (let d1 = d\<lparr>dp_errored := True\<rparr> in if dp_allow_exceptions d1 then Inl ex else Inr (False, d1))"

definition dom_sax :: "('f dom_parser, 'f) sax" where
  "dom_sax =
     \<lparr>sax_null = dom_value Jnull,
      sax_boolean = (\<lambda>b. dom_value (Jboolean b)),
      sax_number_integer = (\<lambda>i. dom_value (Jnumber_integer i)),
      sax_number_unsigned = (\<lambda>i. dom_value (Jnumber_unsigned i)),
      sax_number_float = (\<lambda>x _. dom_value (Jnumber_float x)),
      sax_string = (\<lambda>s. dom_value (Jstring s)),
      sax_start_object = dom_start (Jobject []),
      sax_key = dom_key,
      sax_end_object = dom_end,
      sax_start_array = dom_start (Jarray []),
      sax_end_array = dom_end,
      sax_parse_error = dom_parse_error\<rparr>"

definition acceptor_sax :: "(unit, 'f) sax" where
  "acceptor_sax =
     \<lparr>sax_null = (\<lambda>s. Inr (True, s)),
      sax_boolean = (\<lambda>_ s. Inr (True, s)),
      sax_number_integer = (\<lambda>_ s. Inr (True, s)),
      sax_number_unsigned = (\<lambda>_ s. Inr (True, s)),
      sax_number_float = (\<lambda>_ _ s. Inr (True, s)),
      sax_string = (\<lambda>_ s. Inr (True, s)),
      sax_start_object = (\<lambda>s. Inr (True, s)),
      sax_key = (\<lambda>_ s. Inr (True, s)),
      sax_end_object = (\<lambda>s. Inr (True, s)),
      sax_start_array = (\<lambda>s. Inr (True, s)),
      sax_end_array = (\<lambda>s. Inr (True, s)),
      sax_parse_error = (\<lambda>_ _ _ s. Inr (False, s))\<rparr>"

section \<open>Entry points\<close>

text \<open>The parser object reads its first token when it is made.\<close>

definition new_parser :: "'f float_ops \<Rightarrow> string \<Rightarrow> token_type \<times> 'f lexer" where
  "new_parser fl input = scan fl (new_lexer fl input)"

definition end_error :: "token_type \<Rightarrow> 'f lexer \<Rightarrow> json_exception" where
  "end_error tok lx = parse_error_create 101 (lx_position lx) (exception_message end_of_input ''value'' tok lx)"

definition parser_parse :: "'f float_ops \<Rightarrow> bool \<Rightarrow> bool \<Rightarrow> token_type \<times> 'f lexer \<Rightarrow> json_exception + 'f json" where
  "parser_parse fl allow strict ps =
     rbind (sax_parse_internal fl dom_sax False [] (fst ps) (snd ps) (new_dom_parser allow)) (\<lambda>(_, tok, lx, d).
     rbind (if strict then
              (case scan fl lx of (tok1, lx1) \<Rightarrow>
               if tok1 \<noteq> end_of_input then
                 sax_parse_error dom_sax (chars_read_total (lx_position lx1)) (get_token_string lx1) (end_error tok1 lx1) d
               else Inr (True, d))
            else Inr (True, d)) (\<lambda>(_, d1).
     Inr (if dp_errored d1 then Jdiscarded else dp_root d1)))"

definition json_parse :: "'f float_ops \<Rightarrow> bool \<Rightarrow> string \<Rightarrow> json_exception + 'f json" where
  "json_parse fl allow input = parser_parse fl allow True (new_parser fl input)"

definition parser_sax_parse ::
    "'f float_ops \<Rightarrow> ('s, 'f) sax \<Rightarrow> bool \<Rightarrow> token_type \<times> 'f lexer \<Rightarrow> 's \<Rightarrow> json_exception + bool \<times> 's" where
  "parser_sax_parse fl sax strict ps s =
     rbind (sax_parse_internal fl sax False [] (fst ps) (snd ps) s) (\<lambda>(result, tok, lx, s1).
     if result \<and> strict then
       (case scan fl lx of (tok1, lx1) \<Rightarrow>
        if tok1 \<noteq> end_of_input then
          sax_parse_error sax (chars_read_total (lx_position lx1)) (get_token_string lx1) (end_error tok1 lx1) s1
        else Inr (result, s1))
     else Inr (result, s1))"

definition json_accept :: "'f float_ops \<Rightarrow> string \<Rightarrow> json_exception + bool" where
  "json_accept fl input = rbind (parser_sax_parse fl acceptor_sax True (new_parser fl input) ()) (\<lambda>(b, _). Inr b)"

section \<open>Accepting is parsing without an exception\<close>

text \<open>
  The two receivers take the same steps: the simulation relates any state of the builder that allows exceptions to the only
  state of the acceptor. Where the acceptor declines, the builder throws.
\<close>

definition same_step :: "json_exception + parse_step \<times> ('f dom_parser, 'f) parse_state \<Rightarrow> json_exception + parse_step \<times> (unit, 'f) parse_state \<Rightarrow> bool" where
  "same_step a b \<longleftrightarrow>
     (case a of
        Inl _ \<Rightarrow> (\<exists>r. b = Inr (Ret False, r))
      | Inr (st, tok, lx, d) \<Rightarrow> b = Inr (st, tok, lx, ()) \<and> dp_allow_exceptions d \<and> \<not> dp_errored d \<and> st \<noteq> Ret False)"

lemma dom_sax_simps [simp]:
  "sax_null dom_sax = dom_value Jnull"
  "sax_boolean dom_sax = (\<lambda>b. dom_value (Jboolean b))"
  "sax_number_integer dom_sax = (\<lambda>i. dom_value (Jnumber_integer i))"
  "sax_number_unsigned dom_sax = (\<lambda>i. dom_value (Jnumber_unsigned i))"
  "sax_number_float dom_sax = (\<lambda>x _. dom_value (Jnumber_float x))"
  "sax_string dom_sax = (\<lambda>s. dom_value (Jstring s))"
  "sax_start_object dom_sax = dom_start (Jobject [])"
  "sax_key dom_sax = dom_key"
  "sax_end_object dom_sax = dom_end"
  "sax_start_array dom_sax = dom_start (Jarray [])"
  "sax_end_array dom_sax = dom_end"
  "sax_parse_error dom_sax = dom_parse_error"
  by (simp_all add: dom_sax_def)

lemma acceptor_sax_simps [simp]:
  "sax_null acceptor_sax = (\<lambda>s. Inr (True, s))"
  "sax_boolean acceptor_sax = (\<lambda>_ s. Inr (True, s))"
  "sax_number_integer acceptor_sax = (\<lambda>_ s. Inr (True, s))"
  "sax_number_unsigned acceptor_sax = (\<lambda>_ s. Inr (True, s))"
  "sax_number_float acceptor_sax = (\<lambda>_ _ s. Inr (True, s))"
  "sax_string acceptor_sax = (\<lambda>_ s. Inr (True, s))"
  "sax_start_object acceptor_sax = (\<lambda>s. Inr (True, s))"
  "sax_key acceptor_sax = (\<lambda>_ s. Inr (True, s))"
  "sax_end_object acceptor_sax = (\<lambda>s. Inr (True, s))"
  "sax_start_array acceptor_sax = (\<lambda>s. Inr (True, s))"
  "sax_end_array acceptor_sax = (\<lambda>s. Inr (True, s))"
  "sax_parse_error acceptor_sax = (\<lambda>_ _ _ s. Inr (False, s))"
  by (simp_all add: acceptor_sax_def)

lemma handle_value_flags [simp]:
  "dp_allow_exceptions (snd (handle_value v d)) = dp_allow_exceptions d" "dp_errored (snd (handle_value v d)) = dp_errored d"
  by (auto simp: handle_value_def split: list.split option.split json.split)

lemma syntax_error_same:
  "dp_allow_exceptions d \<Longrightarrow> same_step (syntax_error dom_sax e c tok lx d) (syntax_error acceptor_sax e c tok lx ())"
  by (simp add: same_step_def syntax_error_def dom_parse_error_def)

lemma dom_events_flags:
  "dp_allow_exceptions d \<and> \<not> dp_errored d \<Longrightarrow> \<exists>d'. dom_value v d = Inr (True, d') \<and> dp_allow_exceptions d' \<and> \<not> dp_errored d'"
  "dp_allow_exceptions d \<and> \<not> dp_errored d \<Longrightarrow> \<exists>d'. dom_start v d = Inr (True, d') \<and> dp_allow_exceptions d' \<and> \<not> dp_errored d'"
  "dp_allow_exceptions d \<and> \<not> dp_errored d \<Longrightarrow> \<exists>d'. dom_key k d = Inr (True, d') \<and> dp_allow_exceptions d' \<and> \<not> dp_errored d'"
  "dp_allow_exceptions d \<and> \<not> dp_errored d \<Longrightarrow> \<exists>d'. dom_end d = Inr (True, d') \<and> dp_allow_exceptions d' \<and> \<not> dp_errored d'"
  using handle_value_flags [of v d]
  by (auto simp: dom_value_def dom_start_def dom_key_def dom_end_def Let_def split: prod.split simp del: handle_value_flags)

lemma value_event_same:
  assumes "\<exists>d'. ev d = Inr (True, d') \<and> dp_allow_exceptions d' \<and> \<not> dp_errored d'" and "ev' () = Inr (True, ())"
  shows "same_step (value_event ev tok lx d) (value_event ev' tok lx ())"
    "same_step (close_event ev tok lx d) (close_event ev' tok lx ())"
  using assms by (auto simp: same_step_def value_event_def close_event_def)

lemma parse_key_same:
  assumes "dp_allow_exceptions d \<and> \<not> dp_errored d" and "nx \<noteq> Ret False"
  shows "same_step (parse_key fl dom_sax nx tok lx d) (parse_key fl acceptor_sax nx tok lx ())"
proof (cases "tok = value_string")
  case True
  obtain d' where d: "dom_key (lx_token_buffer lx) d = Inr (True, d')" "dp_allow_exceptions d'" "\<not> dp_errored d'"
    using dom_events_flags(3) [OF assms(1)] by blast
  obtain t1 l1 where 1: "scan fl lx = (t1, l1)" by force
  obtain t2 l2 where 2: "scan fl l1 = (t2, l2)" by force
  show ?thesis
    using True d 1 2 assms(2) syntax_error_same [OF d(2)] by (simp add: parse_key_def same_step_def)
next
  case False
  then show ?thesis using syntax_error_same assms(1) by (auto simp: parse_key_def)
qed

lemma parse_value_same:
  assumes "dp_allow_exceptions d \<and> \<not> dp_errored d"
  shows "same_step (parse_value fl dom_sax tok lx d) (parse_value fl acceptor_sax tok lx ())"
proof -
  have v: "same_step (value_event (dom_value v) tok lx d) (value_event (\<lambda>s. Inr (True, s)) tok lx ())" for v tok
    using value_event_same(1) [of "dom_value v" d "\<lambda>s. Inr (True, s)"] dom_events_flags(1) [OF assms] by blast
  show ?thesis
  proof (cases tok)
    case begin_object
    obtain d' where d: "dom_start (Jobject []) d = Inr (True, d')" "dp_allow_exceptions d' \<and> \<not> dp_errored d'"
      using dom_events_flags(2) [OF assms] by blast
    obtain t1 l1 where 1: "scan fl lx = (t1, l1)" by force
    show ?thesis
      using begin_object d(1) 1 value_event_same(1) [of dom_end d' "\<lambda>s. Inr (True, s)"] dom_events_flags(4) [OF d(2)]
        parse_key_same [OF d(2), of "Push False"]
      by (simp add: parse_value_def parse_begin_object_def)
  next
    case begin_array
    obtain d' where d: "dom_start (Jarray []) d = Inr (True, d')" "dp_allow_exceptions d' \<and> \<not> dp_errored d'"
      using dom_events_flags(2) [OF assms] by blast
    obtain t1 l1 where 1: "scan fl lx = (t1, l1)" by force
    have "same_step (Inr (Push True, t1, l1, d')) (Inr (Push True, t1, l1, ()))"
      using d(2) by (simp add: same_step_def)
    then show ?thesis
      using begin_array d(1) 1 value_event_same(1) [of dom_end d' "\<lambda>s. Inr (True, s)"] dom_events_flags(4) [OF d(2)]
      by (simp add: parse_value_def parse_begin_array_def)
  next
    case value_float
    have "same_step (parse_float fl dom_sax value_float lx d) (parse_float fl acceptor_sax value_float lx ())" if "\<not> fl_isfinite fl (lx_value_float lx)"
      using that assms by (simp add: parse_float_def same_step_def dom_parse_error_def)
    moreover have "same_step (parse_float fl dom_sax value_float lx d) (parse_float fl acceptor_sax value_float lx ())" if "fl_isfinite fl (lx_value_float lx)"
      using that v by (simp add: parse_float_def)
    ultimately show ?thesis using value_float by (auto simp: parse_value_def)
  qed (use v syntax_error_same [of d] assms in \<open>simp_all add: parse_value_def\<close>)
qed

lemma parse_second_same:
  assumes "dp_allow_exceptions d \<and> \<not> dp_errored d"
  shows "same_step (parse_second fl dom_sax states tok lx d) (parse_second fl acceptor_sax states tok lx ())"
proof -
  obtain t1 l1 where 1: "scan fl lx = (t1, l1)" by force
  obtain t2 l2 where 2: "scan fl l1 = (t2, l2)" by force
  have n: "same_step (Inr (Next, t2, l2, d)) (Inr (Next, t2, l2, ()))" "same_step (Inr (Ret True, tok, lx, d)) (Inr (Ret True, tok, lx, ()))"
    using assms by (simp_all add: same_step_def)
  note c = value_event_same(2) [of dom_end d "\<lambda>s. Inr (True, s)", OF dom_events_flags(4) [OF assms] refl]
  have "same_step (parse_array_state fl dom_sax lx d) (parse_array_state fl acceptor_sax lx ())"
    using n(1) c syntax_error_same [of d] assms by (simp add: parse_array_state_def 1 2)
  moreover have "same_step (parse_object_state fl dom_sax lx d) (parse_object_state fl acceptor_sax lx ())"
    using parse_key_same [OF assms, of Next] c syntax_error_same [of d] assms by (simp add: parse_object_state_def 1 2)
  ultimately show ?thesis
    using n(2) by (simp add: parse_second_def split: list.split)
qed

lemma parse_first_same:
  assumes "dp_allow_exceptions d \<and> \<not> dp_errored d"
  shows "same_step (parse_first fl dom_sax skip tok lx d) (parse_first fl acceptor_sax skip tok lx ())"
  using parse_value_same [OF assms] assms by (simp add: parse_first_def same_step_def)

definition same_result :: "json_exception + bool \<times> ('f dom_parser, 'f) parse_state \<Rightarrow> json_exception + bool \<times> (unit, 'f) parse_state \<Rightarrow> bool" where
  "same_result a b \<longleftrightarrow>
     (case a of
        Inl _ \<Rightarrow> (\<exists>r. b = Inr (False, r))
      | Inr (x, tok, lx, d) \<Rightarrow> x \<and> b = Inr (True, tok, lx, ()) \<and> dp_allow_exceptions d \<and> \<not> dp_errored d)"

lemma same_stepE:
  assumes "same_step a b"
  obtains e r where "a = Inl e" "b = Inr (Ret False, r)"
  | st tok lx d where "a = Inr (st, tok, lx, d)" "b = Inr (st, tok, lx, ())" "dp_allow_exceptions d \<and> \<not> dp_errored d" "st \<noteq> Ret False"
  using assms by (cases a) (auto simp: same_step_def)

lemma sax_parse_same:
  assumes "dp_allow_exceptions d \<and> \<not> dp_errored d"
  shows "same_result (sax_parse_internal fl dom_sax skip states tok lx d) (sax_parse_internal fl acceptor_sax skip states tok lx ())"
  using assms
proof (induction "parse_measure skip tok lx" arbitrary: skip states tok lx d rule: less_induct)
  case less
  from parse_first_same [OF less.prems, of fl skip tok lx] show ?case
  proof (cases rule: same_stepE)
    case (1 e r)
    then show ?thesis by (cases r) (simp add: sax_parse_internal.simps [of fl _ skip] same_result_def)
  next
    case f: (2 st t1 l1 d1)
    note step = parse_first_cases [OF f(1)]
    show ?thesis
    proof (cases "\<exists>a. st = Push a")
      case True
      then obtain a where a: "st = Push a" by blast
      with step have m: "parse_measure False t1 l1 < parse_measure skip tok lx" by auto
      from less.hyps [OF m f(3), of "a # states"] show ?thesis
        using f a by (simp add: sax_parse_internal.simps [of fl _ skip])
    next
      case False
      show ?thesis
      proof (cases st)
        case (Ret b)
        then show ?thesis using f by (simp add: sax_parse_internal.simps [of fl _ skip] same_result_def)
      next
        case Evaluate
        with step have le: "length (remaining l1) \<le> length (remaining lx)" by auto
        from parse_second_same [OF f(3), of fl states t1 l1] show ?thesis
        proof (cases rule: same_stepE)
          case (1 e r)
          then show ?thesis using f Evaluate by (cases r) (simp add: sax_parse_internal.simps [of fl _ skip] same_result_def)
        next
          case g: (2 st2 t2 l2 d2)
          show ?thesis
          proof (cases st2)
            case (Ret b)
            then show ?thesis using f g Evaluate by (simp add: sax_parse_internal.simps [of fl _ skip] same_result_def)
          next
            case Next
            then have "parse_measure False t2 l2 < parse_measure skip tok lx"
              using parse_second_cases [OF g(1)] le by (intro parse_measure_less) auto
            from less.hyps [OF this g(3), of states] show ?thesis
              using f g Evaluate Next by (simp add: sax_parse_internal.simps [of fl _ skip])
          next
            case Pop
            then have "parse_measure True t2 l2 < parse_measure skip tok lx"
              using parse_second_cases [OF g(1)] le by (intro parse_measure_less) auto
            from less.hyps [OF this g(3), of "tl states"] show ?thesis
              using f g Evaluate Pop by (simp add: sax_parse_internal.simps [of fl _ skip])
          qed (use parse_second_cases [OF g(1)] in auto)
        qed
      qed (use step False in auto)
    qed
  qed
qed

lemma accept_iff_parse: "json_accept fl input = Inr (case json_parse fl True input of Inl _ \<Rightarrow> False | Inr _ \<Rightarrow> True)"
proof -
  obtain t l where p: "new_parser fl input = (t, l)" by force
  have s: "same_result (sax_parse_internal fl dom_sax False [] t l (new_dom_parser True))
      (sax_parse_internal fl acceptor_sax False [] t l ())"
    by (rule sax_parse_same) (simp add: new_dom_parser_def)
  show ?thesis
  proof (cases "sax_parse_internal fl dom_sax False [] t l (new_dom_parser True)")
    case (Inl e)
    then show ?thesis
      using s by (auto simp: same_result_def json_accept_def json_parse_def parser_parse_def parser_sax_parse_def p)
  next
    case (Inr r)
    then obtain t1 l1 d where r: "r = (True, t1, l1, d)"
        "sax_parse_internal fl acceptor_sax False [] t l () = Inr (True, t1, l1, ())" "dp_allow_exceptions d" "\<not> dp_errored d"
      using s by (auto simp: same_result_def)
    obtain t2 l2 where 2: "scan fl l1 = (t2, l2)" by force
    show ?thesis
      using Inr r 2 by (simp add: json_accept_def json_parse_def parser_parse_def parser_sax_parse_def p dom_parse_error_def)
  qed
qed

end
