(* ===== verification/Json_Dump.thy ===== *)
theory Json_Dump
  imports Json_Parser
begin

text \<open>
  The serializer of the vendored JSON library (\<^verbatim>\<open>include/json.hpp\<close>, class \<^verbatim>\<open>serializer\<close>). What it writes is a text; it may throw, or leave the
  bounds of its buffers. The array \<^verbatim>\<open>string_buffer\<close> is the text written to it so far, which stays within its 512 bytes (\<open>string_buffer_bound\<close>); the array
  \<^verbatim>\<open>number_buffer\<close> is written from its end backwards. Floating-point output is a parameter.
\<close>

datatype dump_error = Throws json_exception | Faults fault

datatype error_handler = EH_strict | EH_replace | EH_ignore

section \<open>Decoding\<close>

text \<open>The table: 256 classes of bytes, then the transitions of the nine states.\<close>

definition utf8d :: "nat list" where
  "utf8d =
     replicate 128 0
     @ replicate 16 1 @ replicate 16 9
     @ replicate 32 7
     @ [8, 8] @ replicate 30 2
     @ [10, 3, 3, 3, 3, 3, 3, 3, 3, 3, 3, 3, 3, 4, 3, 3]
     @ [11, 6, 6, 6, 5, 8, 8, 8, 8, 8, 8, 8, 8, 8, 8, 8]
     @ [0, 1, 2, 3, 5, 8, 7, 1, 1, 1, 4, 6, 1, 1, 1, 1]
     @ [1, 1, 1, 1, 1, 1, 1, 1, 1, 1, 1, 1, 1, 1, 1, 1, 1, 0, 1, 1, 1, 1, 1, 0, 1, 0, 1, 1, 1, 1, 1, 1]
     @ [1, 2, 1, 1, 1, 1, 1, 2, 1, 2, 1, 1, 1, 1, 1, 1, 1, 1, 1, 1, 1, 1, 1, 2, 1, 1, 1, 1, 1, 1, 1, 1]
     @ [1, 2, 1, 1, 1, 1, 1, 1, 1, 2, 1, 1, 1, 1, 1, 1, 1, 1, 1, 1, 1, 1, 1, 3, 1, 3, 1, 1, 1, 1, 1, 1]
     @ [1, 3, 1, 1, 1, 1, 1, 3, 1, 3, 1, 1, 1, 1, 1, 1, 1, 3, 1, 1, 1, 1, 1, 1, 1, 1, 1, 1, 1, 1, 1, 1]"

definition decode :: "nat \<Rightarrow> int \<Rightarrow> nat \<Rightarrow> nat \<times> int" where
  "decode state codep byte =
     (let type = utf8d ! byte;
          codep1 = (if state \<noteq> 0 then (int byte AND 0x3F) OR push_bit 6 codep mod 2 ^ 32
                    else drop_bit type 0xFF AND int byte) in
      (utf8d ! (256 + state * 16 + type), codep1))"

section \<open>Strings\<close>

record dump_state =
  ds_out :: string
  ds_buffer :: string
  ds_accepted :: nat
  ds_undumped :: nat
  ds_state :: nat
  ds_codepoint :: int

definition hex_digit_lower :: "int \<Rightarrow> char" where
  "hex_digit_lower d = char_of (if d < 10 then 48 + d else 87 + d)"

definition hex4 :: "int \<Rightarrow> string" where
  "hex4 n = map (\<lambda>k. hex_digit_lower (n div 16 ^ k mod 16)) [3, 2, 1, 0]"

definition hex2_upper :: "int \<Rightarrow> string" where
  "hex2_upper n = [hex_digit_upper (n div 16), hex_digit_upper (n mod 16)]"

text \<open>What a complete code point adds to the buffer; \<open>c\<close> is its last byte.\<close>

definition escape_codepoint :: "bool \<Rightarrow> int \<Rightarrow> char \<Rightarrow> string" where
  "escape_codepoint ensure_ascii codepoint c =
     (if codepoint = 0x08 then [CHR 0x5C, CHR ''b'']
      else if codepoint = 0x09 then [CHR 0x5C, CHR ''t'']
      else if codepoint = 0x0A then [CHR 0x5C, CHR ''n'']
      else if codepoint = 0x0C then [CHR 0x5C, CHR ''f'']
      else if codepoint = 0x0D then [CHR 0x5C, CHR ''r'']
      else if codepoint = 0x22 then [CHR 0x5C, CHR 0x22]
      else if codepoint = 0x5C then [CHR 0x5C, CHR 0x5C]
      else if codepoint \<le> 0x1F \<or> ensure_ascii \<and> codepoint \<ge> 0x7F then
        (if codepoint \<le> 0xFFFF then [CHR 0x5C, CHR ''u''] @ hex4 codepoint
         else [CHR 0x5C, CHR ''u''] @ hex4 ((0xD7C0 + drop_bit 10 codepoint) mod 2 ^ 16)
              @ [CHR 0x5C, CHR ''u''] @ hex4 ((0xDC00 + (codepoint AND 0x3FF)) mod 2 ^ 16))
      else [c])"

text \<open>Writing the buffer out when fewer than 13 bytes are left; the position is remembered.\<close>

definition flush :: "dump_state \<Rightarrow> dump_state" where
  "flush ds =
     (let ds1 = (if 512 - length (ds_buffer ds) < 13 then ds\<lparr>ds_out := ds_out ds @ ds_buffer ds, ds_buffer := []\<rparr> else ds) in
      ds1\<lparr>ds_accepted := length (ds_buffer ds1)\<rparr>)"

definition replacement :: "bool \<Rightarrow> string" where
  "replacement ensure_ascii = (if ensure_ascii then [CHR 0x5C] @ ''ufffd'' else [CHR 0xEF, CHR 0xBF, CHR 0xBD])"

definition reject :: "error_handler \<Rightarrow> bool \<Rightarrow> dump_state \<Rightarrow> dump_state" where
  "reject h ensure_ascii ds =
     (let ds1 = ds\<lparr>ds_buffer := take (ds_accepted ds) (ds_buffer ds)\<rparr>;
          ds2 = (if h = EH_replace then flush (ds1\<lparr>ds_buffer := ds_buffer ds1 @ replacement ensure_ascii\<rparr>) else ds1) in
      ds2\<lparr>ds_undumped := 0, ds_state := 0\<rparr>)"

function dump_bytes :: "error_handler \<Rightarrow> bool \<Rightarrow> nat \<Rightarrow> string \<Rightarrow> dump_state \<Rightarrow> dump_error + dump_state" where
  "dump_bytes h ensure_ascii i [] ds = Inr ds"
| "dump_bytes h ensure_ascii i (c # cs) ds =
     (case decode (ds_state ds) (ds_codepoint ds) (of_char c) of (state, codepoint) \<Rightarrow>
      let ds1 = ds\<lparr>ds_state := state, ds_codepoint := codepoint\<rparr> in
      if state = 0 then
        dump_bytes h ensure_ascii (i + 1) cs
          ((flush (ds1\<lparr>ds_buffer := ds_buffer ds1 @ escape_codepoint ensure_ascii codepoint c\<rparr>))\<lparr>ds_undumped := 0\<rparr>)
      else if state = 1 then
        (if h = EH_strict then
           Inl (Throws (type_error_create 316 (''invalid UTF-8 byte at index '' @ dec (int i) @ '': 0x'' @ hex2_upper (of_char c))))
         else if ds_undumped ds1 > 0 then dump_bytes h ensure_ascii i (c # cs) (reject h ensure_ascii ds1)
         else dump_bytes h ensure_ascii (i + 1) cs (reject h ensure_ascii ds1))
      else
        dump_bytes h ensure_ascii (i + 1) cs
          (ds1\<lparr>ds_buffer := (if ensure_ascii then ds_buffer ds1 else ds_buffer ds1 @ [c]), ds_undumped := ds_undumped ds1 + 1\<rparr>))"
  by pat_completeness auto

termination
  by (relation "measure (\<lambda>(h, e, i, s, ds). 2 * length s + (if ds_undumped ds > 0 then 1 else 0))")
    (auto simp: reject_def Let_def)

declare dump_bytes.simps [simp del]

definition dump_end :: "error_handler \<Rightarrow> bool \<Rightarrow> string \<Rightarrow> dump_state \<Rightarrow> dump_error + string" where
  "dump_end h ensure_ascii s ds =
     (if ds_state ds = 0 then Inr (ds_out ds @ ds_buffer ds)
      else case h of
        EH_strict \<Rightarrow> Inl (Throws (type_error_create 316 (''incomplete UTF-8 string; last byte: 0x'' @ hex2_upper (of_char (last s)))))
      | EH_ignore \<Rightarrow> Inr (ds_out ds @ take (ds_accepted ds) (ds_buffer ds))
      | EH_replace \<Rightarrow> Inr (ds_out ds @ take (ds_accepted ds) (ds_buffer ds) @ replacement ensure_ascii))"

definition dump_escaped :: "error_handler \<Rightarrow> bool \<Rightarrow> string \<Rightarrow> dump_error + string" where
  "dump_escaped h ensure_ascii s =
     rbind (dump_bytes h ensure_ascii 0 s
              \<lparr>ds_out = [], ds_buffer = [], ds_accepted = 0, ds_undumped = 0, ds_state = 0, ds_codepoint = 0\<rparr>)
       (dump_end h ensure_ascii s)"

section \<open>Numbers\<close>

function count_digits_loop :: "int \<Rightarrow> nat \<Rightarrow> nat" where
  "count_digits_loop x n_digits =
     (if x < 10 then n_digits
      else if x < 100 then n_digits + 1
      else if x < 1000 then n_digits + 2
      else if x < 10000 then n_digits + 3
      else count_digits_loop (x div 10000) (n_digits + 4))"
  by pat_completeness auto

termination
  by (relation "measure (\<lambda>(x, n). nat x)") (auto simp: nat_less_iff)

declare count_digits_loop.simps [simp del]

definition count_digits :: "int \<Rightarrow> nat" where
  "count_digits x = count_digits_loop x 1"

definition digits_to_99 :: "int \<Rightarrow> char \<times> char" where
  "digits_to_99 d = (char_of (48 + d div 10), char_of (48 + d mod 10))"

text \<open>Two digits in front of the pointer.\<close>

definition put_pair :: "string \<Rightarrow> int \<Rightarrow> int \<Rightarrow> fault + string" where
  "put_pair buf p d =
     rbind (arr_set buf (p - 1) (snd (digits_to_99 d))) (\<lambda>buf1. arr_set buf1 (p - 2) (fst (digits_to_99 d)))"

function digit_pairs :: "int \<Rightarrow> int \<Rightarrow> string \<Rightarrow> fault + string" where
  "digit_pairs abs_value p buf =
     (if abs_value \<ge> 100 then
        rbind (put_pair buf p (abs_value mod 100)) (digit_pairs (abs_value div 100) (p - 2))
      else if abs_value \<ge> 10 then put_pair buf p abs_value
      else arr_set buf (p - 1) (char_of (48 + abs_value)))"
  by pat_completeness auto

termination
  by (relation "measure (\<lambda>(v, p, b). nat v)") auto

declare digit_pairs.simps [simp del]

text \<open>The magnitude of the least number is not a number of its type.\<close>

definition dump_integer :: "bool \<Rightarrow> int \<Rightarrow> string \<Rightarrow> fault + string" where
  "dump_integer is_signed x number_buffer =
     (if x = 0 then Inr ''0''
      else
        let is_negative = (is_signed \<and> x < 0) in
        rbind (if is_negative
               then rbind (arr_set number_buffer 0 CHR ''-'') (\<lambda>b.
                    if x = - (2 ^ 63) then Inl Arithmetic_overflow else Inr (b, - x, 1 + count_digits (- x)))
               else Inr (number_buffer, x, count_digits x)) (\<lambda>(buf, abs_value, n_chars).
        rbind (rassert (n_chars < length buf - 1)) (\<lambda>_.
        rbind (digit_pairs abs_value (int n_chars) buf) (\<lambda>buf1. Inr (take n_chars buf1)))))"

definition dump_float :: "'f float_ops \<Rightarrow> 'f \<Rightarrow> string" where
  "dump_float fl x = (if \<not> fl_isfinite fl x then ''null'' else fl_to_chars fl x)"

section \<open>Values\<close>

text \<open>
  Indentation is cut from a string that begins with 512 copies of the indentation character; if it is too short, its length is doubled once, with spaces.
\<close>

definition grow_indent :: "nat \<Rightarrow> string \<Rightarrow> string" where
  "grow_indent n indent_string =
     (if length indent_string < n then indent_string @ replicate (length indent_string) (CHR '' '') else indent_string)"

definition write_indent :: "nat \<Rightarrow> string \<Rightarrow> dump_error + string" where
  "write_indent n indent_string =
     (if n \<le> length indent_string then Inr (take n indent_string) else Inl (Faults Index_out_of_range))"

definition lift_fault :: "fault + 'a \<Rightarrow> dump_error + 'a" where
  "lift_fault r = (case r of Inl e \<Rightarrow> Inl (Faults e) | Inr x \<Rightarrow> Inr x)"

definition nl :: string where "nl = [CHR 0x0A]"

fun dump_json ::
    "'f float_ops \<Rightarrow> error_handler \<Rightarrow> bool \<Rightarrow> bool \<Rightarrow> nat \<Rightarrow> nat \<Rightarrow> string \<Rightarrow> 'f json \<Rightarrow> dump_error + string \<times> string"
  and dump_members ::
    "'f float_ops \<Rightarrow> error_handler \<Rightarrow> bool \<Rightarrow> bool \<Rightarrow> nat \<Rightarrow> nat \<Rightarrow> string \<Rightarrow> (string \<times> 'f json) list \<Rightarrow> dump_error + string \<times> string"
  and dump_elements ::
    "'f float_ops \<Rightarrow> error_handler \<Rightarrow> bool \<Rightarrow> bool \<Rightarrow> nat \<Rightarrow> nat \<Rightarrow> string \<Rightarrow> 'f json list \<Rightarrow> dump_error + string \<times> string"
where
  "dump_json fl h pretty ensure_ascii indent_step current_indent ind (Jobject kvs) =
     (if kvs = [] then Inr (''{}'', ind)
      else if pretty then
        (let new_indent = (current_indent + indent_step) mod 2 ^ 32 in
         rbind (dump_members fl h True ensure_ascii indent_step new_indent (grow_indent new_indent ind) kvs) (\<lambda>(t, ind1).
         rbind (write_indent current_indent ind1) (\<lambda>w.
         Inr (''{'' @ nl @ t @ nl @ w @ ''}'', ind1))))
      else
        rbind (dump_members fl h False ensure_ascii indent_step current_indent ind kvs) (\<lambda>(t, ind1). Inr (''{'' @ t @ ''}'', ind1)))"
| "dump_json fl h pretty ensure_ascii indent_step current_indent ind (Jarray vs) =
     (if vs = [] then Inr (''[]'', ind)
      else if pretty then
        (let new_indent = (current_indent + indent_step) mod 2 ^ 32 in
         rbind (dump_elements fl h True ensure_ascii indent_step new_indent (grow_indent new_indent ind) vs) (\<lambda>(t, ind1).
         rbind (write_indent current_indent ind1) (\<lambda>w.
         Inr (''['' @ nl @ t @ nl @ w @ '']'', ind1))))
      else
        rbind (dump_elements fl h False ensure_ascii indent_step current_indent ind vs) (\<lambda>(t, ind1). Inr (''['' @ t @ '']'', ind1)))"
| "dump_json fl h pretty ensure_ascii indent_step current_indent ind (Jstring s) =
     rbind (dump_escaped h ensure_ascii s) (\<lambda>t. Inr ([CHR 0x22] @ t @ [CHR 0x22], ind))"
| "dump_json fl h pretty ensure_ascii indent_step current_indent ind (Jboolean b) = Inr (if b then ''true'' else ''false'', ind)"
| "dump_json fl h pretty ensure_ascii indent_step current_indent ind (Jnumber_integer x) =
     rbind (lift_fault (dump_integer True x (replicate 64 (CHR 0x00)))) (\<lambda>t. Inr (t, ind))"
| "dump_json fl h pretty ensure_ascii indent_step current_indent ind (Jnumber_unsigned x) =
     rbind (lift_fault (dump_integer False x (replicate 64 (CHR 0x00)))) (\<lambda>t. Inr (t, ind))"
| "dump_json fl h pretty ensure_ascii indent_step current_indent ind (Jnumber_float x) = Inr (dump_float fl x, ind)"
| "dump_json fl h pretty ensure_ascii indent_step current_indent ind Jdiscarded = Inr (''<discarded>'', ind)"
| "dump_json fl h pretty ensure_ascii indent_step current_indent ind Jnull = Inr (''null'', ind)"
| "dump_members fl h pretty ensure_ascii indent_step new_indent ind [] = Inr ([], ind)"
| "dump_members fl h pretty ensure_ascii indent_step new_indent ind ((k, v) # kvs) =
     rbind (if pretty then write_indent new_indent ind else Inr []) (\<lambda>w.
     rbind (dump_escaped h ensure_ascii k) (\<lambda>key.
     rbind (dump_json fl h pretty ensure_ascii indent_step new_indent ind v) (\<lambda>(t, ind1).
     let s = w @ [CHR 0x22] @ key @ [CHR 0x22] @ (if pretty then '': '' else '':'') @ t in
     if kvs = [] then Inr (s, ind1)
     else
       rbind (dump_members fl h pretty ensure_ascii indent_step new_indent ind1 kvs) (\<lambda>(r, ind2).
       Inr (s @ (if pretty then '','' @ nl else '','') @ r, ind2)))))"
| "dump_elements fl h pretty ensure_ascii indent_step new_indent ind [] = Inr ([], ind)"
| "dump_elements fl h pretty ensure_ascii indent_step new_indent ind (v # vs) =
     rbind (if pretty then write_indent new_indent ind else Inr []) (\<lambda>w.
     rbind (dump_json fl h pretty ensure_ascii indent_step new_indent ind v) (\<lambda>(t, ind1).
     if vs = [] then Inr (w @ t, ind1)
     else
       rbind (dump_elements fl h pretty ensure_ascii indent_step new_indent ind1 vs) (\<lambda>(r, ind2).
       Inr (w @ t @ (if pretty then '','' @ nl else '','') @ r, ind2))))"

definition json_dump :: "'f float_ops \<Rightarrow> int \<Rightarrow> char \<Rightarrow> bool \<Rightarrow> error_handler \<Rightarrow> 'f json \<Rightarrow> dump_error + string" where
  "json_dump fl indent indent_char ensure_ascii h v =
     (let ind = replicate 512 indent_char in
      rbind (if indent \<ge> 0 then dump_json fl h True ensure_ascii (nat indent) 0 ind v
             else dump_json fl h False ensure_ascii 0 0 ind v) (\<lambda>(t, _). Inr t))"

section \<open>Integers are written in decimal\<close>

lemma dec_nat_small: "n < 10 \<Longrightarrow> dec_nat n = [char_of (48 + n)]"
  by (simp add: dec_nat.simps)

lemma dec_nat_step: "n \<ge> 10 \<Longrightarrow> dec_nat n = dec_nat (n div 10) @ [char_of (48 + n mod 10)]"
  by (subst dec_nat.simps) simp

lemma length_dec_nat_step: "n \<ge> 10 \<Longrightarrow> length (dec_nat n) = length (dec_nat (n div 10)) + 1"
  by (subst dec_nat.simps) simp

lemma count_digits_loop_dec: "0 \<le> x \<Longrightarrow> count_digits_loop x k + 1 = k + length (dec_nat (nat x))"
proof (induction x k rule: count_digits_loop.induct)
  case (1 x k)
  have len: "length (dec_nat (nat x)) = length (dec_nat (nat (x div 10))) + 1" if "x \<ge> 10" for x
    using that length_dec_nat_step [of "nat x"] by (simp add: nat_div_distrib)
  have four: "x div 10 div 10 div 10 div 10 = x div 10000" by (simp add: zdiv_zmult2_eq [symmetric])
  have one: "length (dec_nat (nat x)) = 1" if "0 \<le> x" "x < 10" for x
    using that dec_nat_small [of "nat x"] by (simp add: nat_less_iff)
  consider "x < 10" | "10 \<le> x" "x < 100" | "100 \<le> x" "x < 1000" | "1000 \<le> x" "x < 10000" | "10000 \<le> x" by linarith
  then show ?case
  proof cases
    case 1
    then show ?thesis using "1.prems" one [of x] by (subst count_digits_loop.simps) simp
  next
    case 2
    then have "0 \<le> x div 10" "x div 10 < 10" "10 \<le> x" by linarith+
    then show ?thesis using 2 len [of x] one [of "x div 10"] by (subst count_digits_loop.simps) simp
  next
    case 3
    then have "0 \<le> x div 10 div 10" "x div 10 div 10 < 10" "10 \<le> x div 10" "10 \<le> x" by linarith+
    from len [OF this(4)] len [OF this(3)] one [OF this(1,2)] have "length (dec_nat (nat x)) = 3" by linarith
    then show ?thesis using 3 by (subst count_digits_loop.simps) simp
  next
    case 4
    then have "0 \<le> x div 10 div 10 div 10" "x div 10 div 10 div 10 < 10" "10 \<le> x div 10 div 10" "10 \<le> x div 10" "10 \<le> x" by linarith+
    from len [OF this(5)] len [OF this(4)] len [OF this(3)] one [OF this(1,2)] have "length (dec_nat (nat x)) = 4" by linarith
    then show ?thesis using 4 by (subst count_digits_loop.simps) simp
  next
    case 5
    then have "1000 \<le> x div 10" by linarith
    then have "100 \<le> x div 10 div 10" by linarith
    then have "10 \<le> x div 10 div 10 div 10" by linarith
    with 5 \<open>1000 \<le> x div 10\<close> \<open>100 \<le> x div 10 div 10\<close>
    have "10 \<le> x" "10 \<le> x div 10" "10 \<le> x div 10 div 10" "10 \<le> x div 10 div 10 div 10" by simp_all
    from len [OF this(1)] len [OF this(2)] len [OF this(3)] len [OF this(4)]
    have l: "length (dec_nat (nat x)) = length (dec_nat (nat (x div 10000))) + 4" unfolding four by simp
    have "count_digits_loop x k = count_digits_loop (x div 10000) (k + 4)"
      using 5 by (subst count_digits_loop.simps) simp
    moreover have "count_digits_loop (x div 10000) (k + 4) + 1 = k + 4 + length (dec_nat (nat (x div 10000)))"
      using 5 by (intro "1.IH") auto
    ultimately show ?thesis using l by linarith
  qed
qed

lemma count_digits_dec: "0 \<le> x \<Longrightarrow> count_digits x = length (dec_nat (nat x))"
  using count_digits_loop_dec [of x 1] by (simp add: count_digits_def)

lemma digits_to_99_nat: "digits_to_99 (int m) = (char_of (48 + m div 10), char_of (48 + m mod 10))"
proof -
  have "48 + int m div 10 = int (48 + m div 10)" "48 + int m mod 10 = int (48 + m mod 10)"
    by (simp_all add: zdiv_int zmod_int)
  then show ?thesis unfolding digits_to_99_def by (simp only: char_of_nat)
qed

lemma dec_nat_pairs:
  assumes "n \<ge> 100"
  shows "dec_nat n = dec_nat (n div 100) @ [fst (digits_to_99 (int (n mod 100))), snd (digits_to_99 (int (n mod 100)))]"
proof -
  have a: "dec_nat n = dec_nat (n div 10) @ [char_of (48 + n mod 10)]"
    using assms by (intro dec_nat_step) simp
  have b: "dec_nat (n div 10) = dec_nat (n div 10 div 10) @ [char_of (48 + n div 10 mod 10)]"
    using assms by (intro dec_nat_step) linarith
  have "n mod 100 div 10 = n div 10 mod 10" "n mod 100 mod 10 = n mod 10" "n div 10 div 10 = n div 100"
    using mod_mult2_eq [of n 10 10] div_mult2_eq [of n 10 10] by simp_all
  then show ?thesis unfolding a b digits_to_99_nat by simp
qed

lemma put_pair_at:
  assumes "2 \<le> p" and "p \<le> length buf"
  shows "put_pair buf (int p) d = Inr (take (p - 2) buf @ [fst (digits_to_99 d), snd (digits_to_99 d)] @ drop p buf)"
proof -
  obtain q where q: "p = Suc (Suc q)" using assms(1) by (metis add_2_eq_Suc le_Suc_ex)
  have "buf[Suc q := y, q := x] = take q buf @ [x, y] @ drop (Suc (Suc q)) buf" for x y
    using assms(2) by (simp add: q upd_conv_take_nth_drop take_Suc_conv_app_nth min_def) 
  moreover have "nat (1 + int q) = Suc q" by simp
  ultimately show ?thesis using assms by (simp add: put_pair_def q)
qed

lemma digit_pairs_dec:
  assumes "0 \<le> v" and "length (dec_nat (nat v)) \<le> p" and "p \<le> length buf"
  shows "digit_pairs v (int p) buf = Inr (take (p - length (dec_nat (nat v))) buf @ dec_nat (nat v) @ drop p buf)"
  using assms
proof (induction "nat v" arbitrary: v p buf rule: less_induct)
  case less
  have d: "nat (v div 100) = nat v div 100" "int (nat v mod 100) = v mod 100"
    using less.prems(1) by (simp_all add: nat_div_distrib zmod_int)
  consider "v \<ge> 100" | "10 \<le> v" "v < 100" | "v < 10" by linarith
  then show ?case
  proof cases
    case 1
    let ?pair = "[fst (digits_to_99 (v mod 100)), snd (digits_to_99 (v mod 100))]"
    have e: "dec_nat (nat v) = dec_nat (nat v div 100) @ ?pair"
      using dec_nat_pairs [of "nat v"] 1 d(2) by simp
    have p: "2 \<le> p" "length (dec_nat (nat v div 100)) \<le> p - 2" using less.prems(2) e by simp_all
    let ?b = "take (p - 2) buf @ ?pair @ drop p buf"
    have len: "length ?b = length buf" using p(1) less.prems(3) by simp
    have "digit_pairs (v div 100) (int (p - 2)) ?b =
        Inr (take (p - 2 - length (dec_nat (nat (v div 100)))) ?b @ dec_nat (nat (v div 100)) @ drop (p - 2) ?b)"
      by (rule less.hyps) (use 1 p d(1) less.prems in \<open>simp_all only: len, auto simp: nat_less_iff\<close>)
    moreover have "int (p - 2) = int p - 2" using p(1) by simp
    ultimately have "digit_pairs v (int p) buf =
        Inr (take (p - 2 - length (dec_nat (nat v div 100))) ?b @ dec_nat (nat v div 100) @ drop (p - 2) ?b)"
      using 1 put_pair_at [OF p(1) less.prems(3)] d(1) by (subst digit_pairs.simps) simp
    moreover have "take (p - 2 - k) ?b = take (p - 2 - k) buf" "drop (p - 2) ?b = ?pair @ drop p buf" for k
      using less.prems(3) by simp_all
    ultimately show ?thesis using e by simp
  next
    case 2
    have "dec_nat (nat v) = [fst (digits_to_99 v), snd (digits_to_99 v)]"
      using 2 dec_nat_step [of "nat v"] dec_nat_small [of "nat v div 10"] digits_to_99_nat [of "nat v"] by simp
    then show ?thesis
      using 2 less.prems put_pair_at [of p buf v] by (subst digit_pairs.simps) (simp add: numeral_2_eq_2)
  next
    case 3
    have "char_of (48 + nat v) = (char_of (48 + v) :: char)"
      using less.prems(1) char_of_nat [of "48 + nat v", where 'a = int] by simp
    then have e: "dec_nat (nat v) = [char_of (48 + v)]"
      using 3 less.prems(1) dec_nat_small [of "nat v"] by (simp add: nat_less_iff)
    obtain q where q: "p = Suc q" using less.prems(2) e by (cases p) auto
    show ?thesis
      using 3 less.prems(3) e q by (subst digit_pairs.simps) (simp add: upd_conv_take_nth_drop)
  qed
qed

lemma length_dec_nat_bound: "n < 10 ^ k \<Longrightarrow> 0 < k \<Longrightarrow> length (dec_nat n) \<le> k"
proof (induction k arbitrary: n)
  case (Suc k)
  show ?case
  proof (cases "n < 10")
    case True
    then show ?thesis by (simp add: dec_nat_small)
  next
    case False
    then have "0 < k" using Suc.prems(1) by (cases k) auto
    moreover have "n div 10 < 10 ^ k" using Suc.prems(1) by (simp add: less_mult_imp_div_less mult.commute)
    ultimately show ?thesis using Suc.IH [of "n div 10"] False length_dec_nat_step [of n] by simp
  qed
qed simp

lemma length_dec_64: "0 \<le> x \<Longrightarrow> x < 2 ^ 64 \<Longrightarrow> length (dec_nat (nat x)) \<le> 20"
  by (rule length_dec_nat_bound) (simp_all add: nat_less_iff)

lemma char_zero: "char_of (48 :: nat) = CHR ''0''"
  by (rule of_char_eq_iff [where 'a = nat, THEN iffD1]) simp

lemma dump_integer_dec:
  assumes "- (2 ^ 63) < x" and "x < 2 ^ 64" and "sgnd \<or> 0 \<le> x" and "length buf = 64"
  shows "dump_integer sgnd x buf = Inr (dec x)"
proof -
  consider "x = 0" | "x > 0" | "x < 0" by linarith
  then show ?thesis
  proof cases
    case 1
    then show ?thesis by (simp add: dump_integer_def dec_def dec_nat_small char_zero)
  next
    case 2
    have l: "length (dec_nat (nat x)) \<le> 20" using 2 assms(2) by (intro length_dec_64) simp_all
    then show ?thesis
      using 2 assms(4) digit_pairs_dec [of x "length (dec_nat (nat x))" buf]
      by (simp add: dump_integer_def count_digits_dec dec_def)
  next
    case 3
    have l: "length (dec_nat (nat (- x))) \<le> 20" using 3 assms(1) by (intro length_dec_64) simp_all
    let ?b = "buf[0 := CHR ''-'']"
    have "digit_pairs (- x) (int (1 + length (dec_nat (nat (- x))))) ?b = Inr (take 1 ?b @ dec_nat (nat (- x)) @ drop (1 + length (dec_nat (nat (- x)))) ?b)"
      using 3 l assms(4) digit_pairs_dec [of "- x" "1 + length (dec_nat (nat (- x)))" ?b] by simp
    moreover have "take 1 ?b = ''-''" using assms(4) by (cases buf) auto
    ultimately show ?thesis
      using 3 l assms by (simp add: dump_integer_def count_digits_dec dec_def)
  qed
qed

text \<open>The least number has no magnitude of its type.\<close>

lemma dump_integer_least: "length buf = 64 \<Longrightarrow> dump_integer True (- (2 ^ 63)) buf = Inl Arithmetic_overflow"
  by (simp add: dump_integer_def)

end
