(* ===== verification/Json_Utf8.thy ===== *)
theory Json_Utf8
  imports Json_Dump
begin

text \<open>
  The serializer decodes UTF-8 by a table, the scanner by ranges of bytes. Here the two agree: what the
  serializer writes for a string (\<open>esc\<close>) the scanner reads back as that string.
\<close>

section \<open>The table\<close>

definition byte_class :: "nat \<Rightarrow> nat" where
  "byte_class b =
     (if b < 0x80 then 0 else if b < 0x90 then 1 else if b < 0xA0 then 9 else if b < 0xC0 then 7 else if b < 0xC2 then 8
      else if b < 0xE0 then 2 else if b = 0xE0 then 10 else if b = 0xED then 4 else if b < 0xF0 then 3 else if b = 0xF0 then 11
      else if b < 0xF4 then 6 else if b = 0xF4 then 5 else 8)"

lemma utf8d_classes: "take 256 utf8d = map byte_class [0..<256]"
  by code_simp

lemma utf8d_class: "b < 256 \<Longrightarrow> utf8d ! b = byte_class b"
proof -
  assume "b < 256"
  then have "utf8d ! b = take 256 utf8d ! b" by simp
  also have "\<dots> = byte_class b" using \<open>b < 256\<close> unfolding utf8d_classes by simp
  finally show ?thesis .
qed

definition transitions :: "nat list" where
  "transitions =
     [0, 1, 2, 3, 5, 8, 7, 1, 1, 1, 4, 6, 1, 1, 1, 1,
      1, 1, 1, 1, 1, 1, 1, 1, 1, 1, 1, 1, 1, 1, 1, 1, 1, 0, 1, 1, 1, 1, 1, 0, 1, 0, 1, 1, 1, 1, 1, 1,
      1, 2, 1, 1, 1, 1, 1, 2, 1, 2, 1, 1, 1, 1, 1, 1, 1, 1, 1, 1, 1, 1, 1, 2, 1, 1, 1, 1, 1, 1, 1, 1,
      1, 2, 1, 1, 1, 1, 1, 1, 1, 2, 1, 1, 1, 1, 1, 1, 1, 1, 1, 1, 1, 1, 1, 3, 1, 3, 1, 1, 1, 1, 1, 1,
      1, 3, 1, 1, 1, 1, 1, 3, 1, 3, 1, 1, 1, 1, 1, 1, 1, 3, 1, 1, 1, 1, 1, 1, 1, 1, 1, 1, 1, 1, 1, 1]"

lemma utf8d_transitions: "drop 256 utf8d = transitions"
  by code_simp

lemma utf8d_next: "utf8d ! (256 + n) = transitions ! n"
proof -
  have "256 \<le> length utf8d" by (simp add: utf8d_def)
  then show ?thesis using nth_drop [of 256 utf8d n] unfolding utf8d_transitions by simp
qed

lemma decode_state: "b < 256 \<Longrightarrow> fst (decode s cp b) = transitions ! (s * 16 + byte_class b)"
  by (simp add: decode_def Let_def utf8d_class utf8d_next add.assoc)

text \<open>The bytes a state waits for, as the scanner's ranges.\<close>

definition wants :: "nat \<Rightarrow> (nat \<times> nat \<times> nat) option" where
  "wants s =
     (if s = 2 then Some (0x80, 0xBF, 0) else if s = 3 then Some (0x80, 0xBF, 2) else if s = 4 then Some (0xA0, 0xBF, 2)
      else if s = 5 then Some (0x80, 0x9F, 2) else if s = 6 then Some (0x90, 0xBF, 3) else if s = 7 then Some (0x80, 0xBF, 3)
      else if s = 8 then Some (0x80, 0x8F, 3) else None)"

definition lead :: "nat \<Rightarrow> nat" where
  "lead b =
     (if b < 0x80 then 0 else if b < 0xC2 then 1 else if b < 0xE0 then 2 else if b = 0xE0 then 4 else if b = 0xED then 5
      else if b < 0xF0 then 3 else if b = 0xF0 then 6 else if b < 0xF4 then 7 else if b = 0xF4 then 8 else 1)"

lemma lead_state: "b < 256 \<Longrightarrow> fst (decode 0 cp b) = lead b"
  by (simp add: decode_state byte_class_def transitions_def lead_def)

lemma next_state:
  "b < 256 \<Longrightarrow> wants s = Some (lo, hi, s') \<Longrightarrow> fst (decode s cp b) = (if lo \<le> b \<and> b \<le> hi then s' else 1)"
  by (auto simp: wants_def decode_state byte_class_def transitions_def split: if_splits)

section \<open>Code points\<close>

lemma join_six: "0 \<le> cp \<Longrightarrow> (x AND 0x3F) OR push_bit 6 cp = 64 * cp + x mod (64 :: int)"
proof -
  have m: "x AND 0x3F = take_bit 6 x" by (simp add: take_bit_eq_mask mask_eq_exp_minus_1)
  have "take_bit 6 x AND push_bit 6 cp = 0"
    by (rule bit_eqI) (auto simp: bit_and_iff bit_take_bit_iff bit_push_bit_iff)
  then have "take_bit 6 x OR push_bit 6 cp = take_bit 6 x + push_bit 6 cp" by (simp add: disjunctive_add_eq_or)
  then show ?thesis unfolding m by (simp add: take_bit_eq_mod push_bit_eq_mult)
qed

definition cp_ok :: "nat \<Rightarrow> int \<Rightarrow> bool" where
  "cp_ok s cp \<longleftrightarrow>
     (if s = 2 then 2 \<le> cp \<and> cp < 2 ^ 18
      else if s = 3 \<or> s = 5 then 1 \<le> cp \<and> cp < 2 ^ 12
      else if s = 4 then 0 \<le> cp \<and> cp < 2 ^ 12
      else if s = 6 then 0 \<le> cp \<and> cp < 2 ^ 6
      else 1 \<le> cp \<and> cp < 2 ^ 6)"

lemma decode_cp: "s \<noteq> 0 \<Longrightarrow> 0 \<le> cp \<Longrightarrow> cp < 2 ^ 18 \<Longrightarrow> snd (decode s cp b) = 64 * cp + int b mod 64"
  using join_six [of cp "int b"] by (simp add: decode_def Let_def push_bit_eq_mult mult.commute)

lemma next_cp:
  assumes "wants s = Some (lo, hi, s')" and "cp_ok s cp" and "lo \<le> b" and "b \<le> hi"
  shows "if s' = 0 then 0x80 \<le> snd (decode s cp b) else cp_ok s' (snd (decode s cp b))"
proof -
  have cp: "s \<noteq> 0" "0 \<le> cp" "cp < 2 ^ 18" using assms(1,2) by (auto simp: wants_def cp_ok_def split: if_splits)
  define r where "r = int b mod 64"
  define c where "c = snd (decode s cp b)"
  have c: "c = 64 * cp + r" "0 \<le> r" "r < 64" using decode_cp [OF cp] by (simp_all add: c_def r_def)
  have hi: "0xA0 \<le> b \<and> b \<le> 0xBF \<Longrightarrow> 32 \<le> r" "0x90 \<le> b \<and> b \<le> 0xBF \<Longrightarrow> 16 \<le> r" unfolding r_def by presburger+
  consider "s = 2" "s' = 0" | "s = 3 \<or> s = 5" "s' = 2" | "s = 4" "s' = 2" "lo = 0xA0" "hi = 0xBF"
    | "s = 6" "s' = 3" "lo = 0x90" "hi = 0xBF" | "s = 7 \<or> s = 8" "s' = 3"
    using assms(1) by (auto simp: wants_def split: if_splits)
  then have "if s' = 0 then 0x80 \<le> c else cp_ok s' c"
  proof cases
    case 3
    then have "32 \<le> r" using hi(1) assms(3,4) by simp
    with 3 c assms(2) show ?thesis by (simp add: cp_ok_def)
  next
    case 4
    then have "16 \<le> r" using hi(2) assms(3,4) by simp
    with 4 c assms(2) show ?thesis by (simp add: cp_ok_def)
  qed (use c assms(2) in \<open>auto simp: cp_ok_def\<close>)
  then show ?thesis unfolding c_def .
qed

lemma low_bits:
  "63 AND x = x mod (64 :: int)" "31 AND x = x mod (32 :: int)" "15 AND x = x mod (16 :: int)" "7 AND x = x mod (8 :: int)"
  "3 AND x = x mod (4 :: int)"
  using take_bit_eq_mask [of 6 x] take_bit_eq_mask [of 5 x] take_bit_eq_mask [of 4 x] take_bit_eq_mask [of 3 x] take_bit_eq_mask [of 2 x]
  by (simp_all add: take_bit_eq_mod mask_eq_exp_minus_1 and.commute)

lemma lead_cp:
  assumes "b < 256" and "0x80 \<le> b" and "lead b \<noteq> 1"
  shows "cp_ok (lead b) (snd (decode 0 cp b))"
proof -
  have a: "snd (decode 0 cp b) = drop_bit (byte_class b) 0xFF AND int b" using assms(1) by (simp add: decode_def Let_def utf8d_class)
  consider "0xC2 \<le> b" "b < 0xE0" | "b = 0xE0" | "b = 0xED" | "0xE0 < b" "b < 0xF0" "b \<noteq> 0xED" | "b = 0xF0" | "0xF0 < b" "b < 0xF4" | "b = 0xF4"
    using assms by (auto simp: lead_def split: if_splits)
  then show ?thesis
  proof cases
    case 1
    then have "2 \<le> int b mod 64" by presburger
    with 1 show ?thesis unfolding a by (simp add: lead_def byte_class_def cp_ok_def low_bits)
  next
    case 4
    then have "1 \<le> int b mod 32" by presburger
    with 4 show ?thesis unfolding a by (simp add: lead_def byte_class_def cp_ok_def low_bits)
  next
    case 6
    then have "1 \<le> int b mod 4" by presburger
    with 6 show ?thesis unfolding a by (simp add: lead_def byte_class_def cp_ok_def low_bits)
  qed (use a in \<open>simp_all add: lead_def byte_class_def cp_ok_def low_bits\<close>)
qed

section \<open>What the serializer writes\<close>

fun in_ranges :: "int list \<Rightarrow> string \<Rightarrow> bool" where
  "in_ranges (lo # hi # rs) (b # bs) \<longleftrightarrow> lo \<le> of_char b \<and> of_char b \<le> hi \<and> in_ranges rs bs"
| "in_ranges [] [] \<longleftrightarrow> True"
| "in_ranges _ _ \<longleftrightarrow> False"

text \<open>\<open>esc s t\<close>: \<open>t\<close> is the string \<open>s\<close> of valid UTF-8 with the characters escaped that JSON demands.\<close>

inductive esc :: "string \<Rightarrow> string \<Rightarrow> bool" where
  esc_Nil: "esc [] []"
| esc_ascii: "(of_char c :: int) < 0x80 \<Longrightarrow> esc s t \<Longrightarrow> esc (c # s) (escape_codepoint False (of_char c) c @ t)"
| esc_multi: "utf8_ranges (of_char c) = Some rs \<Longrightarrow> in_ranges rs bs \<Longrightarrow> esc s t \<Longrightarrow> esc (c # bs @ s) (c # bs @ t)"

definition ranges_of :: "nat \<Rightarrow> int list" where
  "ranges_of s =
     (if s = 2 then [0x80, 0xBF] else if s = 3 then [0x80, 0xBF, 0x80, 0xBF] else if s = 4 then [0xA0, 0xBF, 0x80, 0xBF]
      else if s = 5 then [0x80, 0x9F, 0x80, 0xBF] else if s = 6 then [0x90, 0xBF, 0x80, 0xBF, 0x80, 0xBF]
      else if s = 7 then [0x80, 0xBF, 0x80, 0xBF, 0x80, 0xBF] else [0x80, 0x8F, 0x80, 0xBF, 0x80, 0xBF])"

lemma utf8_ranges_lead: "lead b \<noteq> 0 \<Longrightarrow> lead b \<noteq> 1 \<Longrightarrow> utf8_ranges (int b) = Some (ranges_of (lead b))"
  by (auto simp: lead_def utf8_ranges_def ranges_of_def split: if_splits)

lemma utf8_ranges_none: "b < 256 \<Longrightarrow> lead b = 1 \<Longrightarrow> utf8_ranges (int b) = None"
  by (auto simp: lead_def utf8_ranges_def split: if_splits)

definition ds_text :: "dump_state \<Rightarrow> string" where
  "ds_text ds = ds_out ds @ ds_buffer ds"

lemma flush_simps [simp]:
  "ds_text (flush ds) = ds_text ds" "ds_state (flush ds) = ds_state ds" "ds_codepoint (flush ds) = ds_codepoint ds"
  by (simp_all add: flush_def ds_text_def Let_def)

lemma of_char_nat_less: "(of_char c :: nat) < 256"
  using of_char_mod_256 [where 'a = nat, of c] mod_less_divisor [of 256 "of_char c :: nat"] by simp

lemma int_of_char: "int (of_char c) = of_char c"
  by (simp add: of_nat_of_char)

lemma dump_cont1:
  assumes w: "wants s = Some (lo, hi, s')" and cp: "cp_ok s (ds_codepoint ds)" and st: "ds_state ds = s"
    and d: "dump_bytes EH_strict False i r ds = Inr ds'" and e: "ds_state ds' = 0"
  obtains c cs i' ds1 where "r = c # cs" "lo \<le> of_char c" "of_char c \<le> hi" "dump_bytes EH_strict False i' cs ds1 = Inr ds'"
    "ds_state ds1 = s'" "s' \<noteq> 0 \<longrightarrow> cp_ok s' (ds_codepoint ds1)" "ds_text ds1 = ds_text ds @ [c]"
proof -
  have s: "s \<noteq> 0" using w by (auto simp: wants_def split: if_splits)
  obtain c cs where r: "r = c # cs"
    using d st e s by (cases r) (auto simp: dump_bytes.simps)
  let ?b = "of_char c :: nat"
  obtain x y where xy: "decode s (ds_codepoint ds) ?b = (x, y)" by force
  have x: "x = (if lo \<le> ?b \<and> ?b \<le> hi then s' else 1)"
    using next_state [OF of_char_nat_less w, of "ds_codepoint ds" c] xy by simp
  have in_range: "lo \<le> ?b" "?b \<le> hi"
    using d x xy st by (auto simp: r dump_bytes.simps Let_def split: if_splits)
  have s1: "s' \<noteq> 1" using w by (auto simp: wants_def split: if_splits)
  have y: "if s' = 0 then 0x80 \<le> y else cp_ok s' y" using next_cp [OF w cp in_range] unfolding xy snd_conv .
  show ?thesis
  proof (cases "s' = 0")
    case True
    then have "escape_codepoint False y c = [c]" using y by (auto simp: escape_codepoint_def)
    then show ?thesis
      using that [of c cs "i + 1"] d True x xy st in_range
      by (simp add: r dump_bytes.simps Let_def ds_text_def flush_def split: if_splits)
  next
    case False
    then show ?thesis
      using that [of c cs "i + 1"] d x xy st in_range y s1
      by (simp add: r dump_bytes.simps Let_def ds_text_def)
  qed
qed

lemma wants_cases:
  "wants 2 = Some (0x80, 0xBF, 0)" "wants 3 = Some (0x80, 0xBF, 2)" "wants 4 = Some (0xA0, 0xBF, 2)" "wants 5 = Some (0x80, 0x9F, 2)"
  "wants 6 = Some (0x90, 0xBF, 3)" "wants 7 = Some (0x80, 0xBF, 3)" "wants 8 = Some (0x80, 0x8F, 3)"
  by (simp_all add: wants_def)

lemma of_char_range: "lo \<le> (of_char c :: nat) \<Longrightarrow> of_char c \<le> hi \<Longrightarrow> int lo \<le> of_char c \<and> of_char c \<le> int hi"
  by (metis int_of_char of_nat_le_iff)

text \<open>A state that waits for bytes gets all of them.\<close>

definition resumes :: "string \<Rightarrow> dump_state \<Rightarrow> dump_state \<Rightarrow> int list \<Rightarrow> bool" where
  "resumes r ds ds' rs \<longleftrightarrow>
     (\<exists>bs r' i' ds1. r = bs @ r' \<and> in_ranges rs bs \<and> dump_bytes EH_strict False i' r' ds1 = Inr ds'
        \<and> ds_state ds1 = 0 \<and> ds_text ds1 = ds_text ds @ bs)"

lemma resumes_step:
  assumes "resumes cs ds1 ds' rs" "r = c # cs" "lo \<le> (of_char c :: nat)" "of_char c \<le> hi" "ds_text ds1 = ds_text ds @ [c]"
  shows "resumes r ds ds' (int lo # int hi # rs)"
proof -
  obtain bs r' i' ds2 where "cs = bs @ r'" "in_ranges rs bs" "dump_bytes EH_strict False i' r' ds2 = Inr ds'"
      "ds_state ds2 = 0" "ds_text ds2 = ds_text ds1 @ bs"
    using assms(1) by (auto simp: resumes_def)
  then show ?thesis
    using assms(2-5) of_char_range [of lo c hi] unfolding resumes_def
    by (intro exI [of _ "c # bs"] exI [of _ r'] exI [of _ i'] exI [of _ ds2]) simp
qed

lemma resumes_2:
  assumes "cp_ok 2 (ds_codepoint ds)" "ds_state ds = 2" "dump_bytes EH_strict False i r ds = Inr ds'" "ds_state ds' = 0"
  shows "resumes r ds ds' [0x80, 0xBF]"
proof (rule dump_cont1 [OF wants_cases(1) assms])
  fix c cs i' ds1
  assume c: "r = c # cs" "0x80 \<le> (of_char c :: nat)" "of_char c \<le> (0xBF :: nat)" "dump_bytes EH_strict False i' cs ds1 = Inr ds'"
    "ds_state ds1 = 0" "ds_text ds1 = ds_text ds @ [c]"
  then have "resumes cs ds1 ds' []" unfolding resumes_def
    by (intro exI [of _ "[]"] exI [of _ cs] exI [of _ i'] exI [of _ ds1]) simp
  from resumes_step [OF this c(1-3,6)] show ?thesis by simp
qed

lemma resumes_3:
  assumes w: "wants s = Some (lo, hi, 2)" and "cp_ok s (ds_codepoint ds)" "ds_state ds = s"
    "dump_bytes EH_strict False i r ds = Inr ds'" "ds_state ds' = 0"
  shows "resumes r ds ds' [int lo, int hi, 0x80, 0xBF]"
proof (rule dump_cont1 [OF assms])
  fix c cs i' ds1
  assume c: "r = c # cs" "lo \<le> of_char c" "of_char c \<le> hi" "dump_bytes EH_strict False i' cs ds1 = Inr ds'"
    "ds_state ds1 = 2" "(2::nat) \<noteq> 0 \<longrightarrow> cp_ok 2 (ds_codepoint ds1)" "ds_text ds1 = ds_text ds @ [c]"
  then have "resumes cs ds1 ds' [0x80, 0xBF]" using assms(5) by (intro resumes_2) auto
  from resumes_step [OF this c(1-3,7)] show ?thesis .
qed

lemma resumes_4:
  assumes w: "wants s = Some (lo, hi, 3)" and "cp_ok s (ds_codepoint ds)" "ds_state ds = s"
    "dump_bytes EH_strict False i r ds = Inr ds'" "ds_state ds' = 0"
  shows "resumes r ds ds' [int lo, int hi, 0x80, 0xBF, 0x80, 0xBF]"
proof (rule dump_cont1 [OF assms])
  fix c cs i' ds1
  assume c: "r = c # cs" "lo \<le> of_char c" "of_char c \<le> hi" "dump_bytes EH_strict False i' cs ds1 = Inr ds'"
    "ds_state ds1 = 3" "(3::nat) \<noteq> 0 \<longrightarrow> cp_ok 3 (ds_codepoint ds1)" "ds_text ds1 = ds_text ds @ [c]"
  then have "resumes cs ds1 ds' [0x80, 0xBF, 0x80, 0xBF]"
    using resumes_3 [OF wants_cases(2), of ds1 i' cs ds'] assms(5) by simp
  from resumes_step [OF this c(1-3,7)] show ?thesis .
qed

lemma resumes_lead:
  assumes "lead b \<noteq> 0" "lead b \<noteq> 1" "cp_ok (lead b) (ds_codepoint ds)" "ds_state ds = lead b"
    "dump_bytes EH_strict False i r ds = Inr ds'" "ds_state ds' = 0"
  shows "resumes r ds ds' (ranges_of (lead b))"
proof -
  have "lead b \<in> {2, 3, 4, 5, 6, 7, 8}" using assms(1,2) by (auto simp: lead_def split: if_splits)
  then show ?thesis
    using resumes_2 [of ds i r ds'] resumes_3 [OF wants_cases(2), of ds i r ds'] resumes_3 [OF wants_cases(3), of ds i r ds']
      resumes_3 [OF wants_cases(4), of ds i r ds'] resumes_4 [OF wants_cases(5), of ds i r ds'] resumes_4 [OF wants_cases(6), of ds i r ds']
      resumes_4 [OF wants_cases(7), of ds i r ds'] assms(3-6)
    by (auto simp: ranges_of_def)
qed

lemma dump_bytes_esc:
  assumes "dump_bytes EH_strict False i s ds = Inr ds'" "ds_state ds = 0" "ds_state ds' = 0"
  shows "\<exists>t. esc s t \<and> ds_text ds' = ds_text ds @ t"
  using assms
proof (induction "length s" arbitrary: s i ds rule: less_induct)
  case less
  show ?case
  proof (cases s)
    case Nil
    then show ?thesis using less.prems esc_Nil by (auto simp: dump_bytes.simps)
  next
    case (Cons c cs)
    let ?b = "of_char c :: nat"
    obtain x y where xy: "decode 0 (ds_codepoint ds) ?b = (x, y)" by force
    have x: "x = lead ?b" using lead_state [OF of_char_nat_less, of "ds_codepoint ds" c] xy by simp
    consider "?b < 0x80" | "lead ?b = 1" | "\<not> ?b < 0x80" "lead ?b \<noteq> 1" by blast
    then show ?thesis
    proof cases
      case 1
      have l: "lead ?b = 0" using 1 by (simp add: lead_def)
      have "y = drop_bit 0 0xFF AND int ?b"
        using xy 1 utf8d_class [OF of_char_nat_less, of c] by (simp add: decode_def Let_def byte_class_def)
      moreover have "0xFF AND int ?b = int ?b mod 256"
        using take_bit_eq_mask [of 8 "int ?b"] by (simp add: take_bit_eq_mod mask_eq_exp_minus_1 and.commute)
      ultimately have y: "y = of_char c" by (simp add: int_of_char)
      define ds1 where "ds1 = (flush (ds\<lparr>ds_state := 0, ds_codepoint := y, ds_buffer := ds_buffer ds @ escape_codepoint False y c\<rparr>))\<lparr>ds_undumped := 0\<rparr>"
      have d: "dump_bytes EH_strict False (i + 1) cs ds1 = Inr ds'"
        using less.prems(1,2) xy x l by (simp add: Cons dump_bytes.simps Let_def ds1_def)
      have w: "ds_text ds1 = ds_text ds @ escape_codepoint False y c" "ds_state ds1 = 0"
        by (simp_all add: ds1_def ds_text_def flush_def Let_def)
      obtain t where "esc cs t" "ds_text ds' = ds_text ds1 @ t"
        using less.hyps [of cs, OF _ d w(2) less.prems(3)] Cons by auto
      moreover have "(of_char c :: int) < 0x80" using 1 by (metis int_of_char of_nat_less_iff of_nat_numeral)
      ultimately show ?thesis using w(1) y esc_ascii Cons by fastforce
    next
      case 2
      then show ?thesis using less.prems(1,2) xy x by (simp add: Cons dump_bytes.simps Let_def)
    next
      case 3
      have l: "lead ?b \<noteq> 0" using 3 by (simp add: lead_def)
      define ds1 where "ds1 = ds\<lparr>ds_state := x, ds_codepoint := y, ds_buffer := ds_buffer ds @ [c], ds_undumped := ds_undumped ds + 1\<rparr>"
      have d: "dump_bytes EH_strict False (i + 1) cs ds1 = Inr ds'"
        using less.prems(1,2) xy x l 3(2) by (simp add: Cons dump_bytes.simps Let_def ds1_def)
      have "cp_ok (lead ?b) (ds_codepoint ds1)"
        using lead_cp [OF of_char_nat_less _ 3(2), of "ds_codepoint ds"] 3(1) xy by (simp add: ds1_def)
      moreover have "ds_state ds1 = lead ?b" by (simp add: ds1_def x)
      ultimately have "resumes cs ds1 ds' (ranges_of (lead ?b))"
        using resumes_lead [OF l 3(2)] d less.prems(3) by blast
      then obtain bs r' i' ds2 where r: "cs = bs @ r'" "in_ranges (ranges_of (lead ?b)) bs" "dump_bytes EH_strict False i' r' ds2 = Inr ds'"
          "ds_state ds2 = 0" "ds_text ds2 = ds_text ds1 @ bs"
        by (auto simp: resumes_def)
      obtain t where t: "esc r' t" "ds_text ds' = ds_text ds2 @ t"
        using less.hyps [of r', OF _ r(3,4) less.prems(3)] Cons r(1) by auto
      have "utf8_ranges (of_char c) = Some (ranges_of (lead ?b))"
        using utf8_ranges_lead [OF l 3(2)] by (simp add: int_of_char)
      from esc_multi [OF this r(2) t(1)] show ?thesis
        using t(2) r(1,5) Cons by (auto simp: ds1_def ds_text_def)
    qed
  qed
qed

lemma dump_escaped_esc: "dump_escaped EH_strict False s = Inr t \<Longrightarrow> esc s t"
proof -
  assume d: "dump_escaped EH_strict False s = Inr t"
  let ?d0 = "\<lparr>ds_out = [], ds_buffer = [], ds_accepted = 0, ds_undumped = 0, ds_state = 0, ds_codepoint = 0\<rparr>"
  obtain ds' where "dump_bytes EH_strict False 0 s ?d0 = Inr ds'" "dump_end EH_strict False s ds' = Inr t"
    using d by (auto simp: dump_escaped_def rbind_eq_Inr)
  then show ?thesis
    using dump_bytes_esc [of 0 s ?d0 ds'] by (auto simp: dump_end_def ds_text_def split: if_splits)
qed

section \<open>Valid strings are written\<close>

function valid_utf8 :: "string \<Rightarrow> bool" where
  "valid_utf8 [] = True"
| "valid_utf8 (c # s) =
     (if (of_char c :: int) < 0x80 then valid_utf8 s
      else case utf8_ranges (of_char c) of
        None \<Rightarrow> False
      | Some rs \<Rightarrow> in_ranges rs (take (length rs div 2) s) \<and> valid_utf8 (drop (length rs div 2) s))"
  by pat_completeness auto

termination
  by (relation "measure length") auto

lemma in_ranges_length: "in_ranges rs bs \<Longrightarrow> length rs = 2 * length bs"
  by (induction rs bs rule: in_ranges.induct) auto

lemma valid_utf8_induct [consumes 1, case_names Nil ascii multi]:
  assumes "valid_utf8 s" and "P []" and "\<And>c s. (of_char c :: int) < 0x80 \<Longrightarrow> valid_utf8 s \<Longrightarrow> P s \<Longrightarrow> P (c # s)"
    and "\<And>c rs bs s. \<not> (of_char c :: int) < 0x80 \<Longrightarrow> utf8_ranges (of_char c) = Some rs \<Longrightarrow> in_ranges rs bs \<Longrightarrow> valid_utf8 s \<Longrightarrow> P s \<Longrightarrow> P (c # bs @ s)"
  shows "P s"
  using assms(1)
proof (induction s rule: valid_utf8.induct)
  case (2 c s)
  show ?case
  proof (cases "(of_char c :: int) < 0x80")
    case False
    with 2 obtain rs where rs: "utf8_ranges (of_char c) = Some rs" "in_ranges rs (take (length rs div 2) s)" "valid_utf8 (drop (length rs div 2) s)"
      by (auto split: option.splits)
    from assms(4) [OF False rs 2(2) [OF False rs(1,3)]] show ?thesis by simp
  qed (use 2 assms(3) in auto)
qed (use assms(2) in simp)

lemma valid_multi: "utf8_ranges (of_char c) = Some rs \<Longrightarrow> in_ranges rs bs \<Longrightarrow> valid_utf8 (c # bs @ s) = valid_utf8 s"
  using in_ranges_length [of rs bs] by (auto simp: utf8_ranges_def split: if_splits)

lemma valid_append: "valid_utf8 s \<Longrightarrow> valid_utf8 t \<Longrightarrow> valid_utf8 (s @ t)"
  by (induction s rule: valid_utf8_induct) (simp_all add: valid_multi del: valid_utf8.simps(2), simp)

text \<open>The states of the table alone.\<close>

primrec utf8_run :: "nat \<Rightarrow> string \<Rightarrow> nat" where
  "utf8_run s [] = s"
| "utf8_run s (c # cs) = (let s' = transitions ! (s * 16 + byte_class (of_char c)) in if s' = 1 then 1 else utf8_run s' cs)"

lemma dump_bytes_run:
  "utf8_run (ds_state ds) s = 0 \<Longrightarrow> \<exists>ds'. dump_bytes EH_strict e i s ds = Inr ds' \<and> ds_state ds' = 0"
proof (induction s arbitrary: i ds)
  case Nil
  then show ?case by (simp add: dump_bytes.simps)
next
  case (Cons c cs)
  obtain x y where xy: "decode (ds_state ds) (ds_codepoint ds) (of_char c) = (x, y)" by force
  then have x: "x = transitions ! (ds_state ds * 16 + byte_class (of_char c))"
    using decode_state [OF of_char_nat_less, of "ds_state ds" "ds_codepoint ds" c] by simp
  have "x \<noteq> 1" "utf8_run x cs = 0" using Cons.prems x by (auto simp: Let_def split: if_splits)
  then show ?case using xy Cons.IH by (auto simp: dump_bytes.simps Let_def)
qed

lemma utf8_run_bytes:
  assumes "wants s = Some (lo, hi, s')" and "int lo \<le> of_char b" and "of_char b \<le> int hi"
  shows "utf8_run s (b # bs) = utf8_run s' bs"
proof -
  have "lo \<le> of_char b" "of_char b \<le> hi" using assms(2,3) by (simp_all add: int_of_char [symmetric])
  then have "transitions ! (s * 16 + byte_class (of_char b)) = s'"
    using next_state [OF of_char_nat_less assms(1), of 0 b] decode_state [OF of_char_nat_less, of s 0 b] by simp
  moreover have "s' \<noteq> 1" using assms(1) by (auto simp: wants_def split: if_splits)
  ultimately show ?thesis by simp
qed

lemma utf8_run_ranges:
  assumes "s \<in> {2, 3, 4, 5, 6, 7, 8}" and "in_ranges (ranges_of s) bs"
  shows "utf8_run s (bs @ r) = utf8_run 0 r"
proof -
  have 2: "utf8_run 2 (bs @ r) = utf8_run 0 r" if "in_ranges [0x80, 0xBF] bs" for bs
    using that utf8_run_bytes [OF wants_cases(1)] by (cases bs) (auto elim: in_ranges.elims)
  have 3: "utf8_run s (bs @ r) = utf8_run 0 r" if "wants s = Some (lo, hi, 2)" "in_ranges [int lo, int hi, 0x80, 0xBF] bs" for s lo hi bs
    using that 2 [of "tl bs"] utf8_run_bytes [OF that(1)] by (cases bs) auto
  have 4: "utf8_run s (bs @ r) = utf8_run 0 r" if "wants s = Some (lo, hi, 3)" "in_ranges [int lo, int hi, 0x80, 0xBF, 0x80, 0xBF] bs" for s lo hi bs
    using that 3 [OF wants_cases(2), of "tl bs"] utf8_run_bytes [OF that(1)] by (cases bs) auto
  show ?thesis
    using assms 2 [of bs] 3 [OF wants_cases(2), of bs] 3 [OF wants_cases(3), of bs] 3 [OF wants_cases(4), of bs] 4 [OF wants_cases(5), of bs]
      4 [OF wants_cases(6), of bs] 4 [OF wants_cases(7), of bs]
    by (auto simp: ranges_of_def)
qed

lemma valid_utf8_run: "valid_utf8 s \<Longrightarrow> utf8_run 0 s = 0"
proof (induction s rule: valid_utf8_induct)
  case (ascii c s)
  then have "(of_char c :: nat) < 0x80" by (metis int_of_char of_nat_less_iff of_nat_numeral)
  then show ?case using ascii by (simp add: byte_class_def transitions_def)
next
  case (multi c rs bs s)
  let ?b = "of_char c :: nat"
  have b: "\<not> ?b < 0x80" using multi(1) by (metis int_of_char of_nat_less_iff of_nat_numeral)
  have l1: "lead ?b \<noteq> 1" using multi(2) utf8_ranges_none [OF of_char_nat_less, of c] by (auto simp: int_of_char)
  moreover have l0: "lead ?b \<noteq> 0" using b by (simp add: lead_def)
  ultimately have rs: "rs = ranges_of (lead ?b)" using utf8_ranges_lead [of ?b] multi(2) by (simp add: int_of_char)
  have m: "lead ?b \<in> {2, 3, 4, 5, 6, 7, 8}" using l0 l1 by (auto simp: lead_def split: if_splits)
  have "transitions ! (0 * 16 + byte_class ?b) = lead ?b"
    using lead_state [OF of_char_nat_less, of 0 c] decode_state [OF of_char_nat_less, of 0 0 c] by simp
  then have "utf8_run 0 (c # bs @ s) = utf8_run (lead ?b) (bs @ s)" using l1 by simp
  then show ?case using utf8_run_ranges [OF m, of bs s] multi(3,5) rs by simp
qed simp

lemma dump_escaped_valid:
  assumes "valid_utf8 s"
  obtains t where "dump_escaped EH_strict e s = Inr t"
proof -
  let ?d0 = "\<lparr>ds_out = [], ds_buffer = [], ds_accepted = 0, ds_undumped = 0, ds_state = 0, ds_codepoint = 0\<rparr>"
  obtain ds' where "dump_bytes EH_strict e 0 s ?d0 = Inr ds'" "ds_state ds' = 0"
    using dump_bytes_run [of ?d0 s e 0] valid_utf8_run [OF assms] by auto
  then show ?thesis using that by (simp add: dump_escaped_def dump_end_def)
qed

lemma esc_valid: "esc s t \<Longrightarrow> valid_utf8 s"
  by (induction rule: esc.induct) (simp_all add: valid_multi del: valid_utf8.simps(2), simp)

section \<open>What the scanner reads\<close>

lemma range_loop_reads:
  "in_ranges rs bs \<Longrightarrow> ready lx (bs @ rest) \<Longrightarrow>
   \<exists>lx'. range_loop rs lx = (True, lx') \<and> ready lx' rest \<and> lx_token_buffer lx' = lx_token_buffer lx @ bs"
proof (induction rs bs arbitrary: lx rule: in_ranges.induct)
  case (1 lo hi rs b bs)
  have t: "took (get lx) (of_char b) (bs @ rest)" using 1(3) by (simp add: get_Cons)
  let ?l = "add (of_char b) (get lx)"
  have "ready ?l (bs @ rest)" using took_ready [OF t] by simp
  moreover have "in_ranges rs bs" "lo \<le> of_char b" "of_char b \<le> hi" using 1(2) by auto
  ultimately obtain lx' where "range_loop rs ?l = (True, lx')" "ready lx' rest" "lx_token_buffer lx' = lx_token_buffer ?l @ bs"
    using 1(1) [of ?l] by blast
  then show ?case using 1(2) took_current [OF t] by simp
qed auto

lemma next_bytes_read:
  assumes "in_ranges rs bs" "took lx (of_char c) (bs @ rest)"
  shows "\<exists>lx'. next_byte_in_range rs lx = (True, lx') \<and> ready lx' rest \<and> lx_token_buffer lx' = lx_token_buffer lx @ c # bs"
  using range_loop_reads [OF assms(1), of "add (of_char c) lx" rest] assms(2) took_ready [OF assms(2)]
  by (auto simp: next_byte_in_range_def took_def)

lemma hex_value_digit: "0 \<le> d \<Longrightarrow> d < 16 \<Longrightarrow> hex_value (of_char (hex_digit_lower d)) = Some d"
  by (simp add: hex_digit_lower_def hex_value_def)

lemma codepoint_step:
  assumes "ready lx (hex_digit_lower d # rest)" "0 \<le> d" "d < 16"
  shows "\<exists>lx'. codepoint_loop (f # fs) cp lx = codepoint_loop fs (cp + d * 2 ^ f) lx' \<and> ready lx' rest \<and> lx_token_buffer lx' = lx_token_buffer lx"
proof -
  have t: "took (get lx) (of_char (hex_digit_lower d)) rest" by (rule get_Cons [OF assms(1)])
  show ?thesis
    using took_current [OF t] took_ready [OF t] hex_value_digit [OF assms(2,3)] by (intro exI [of _ "get lx"]) (simp add: Let_def)
qed

lemma hex_sum: "0 \<le> n \<Longrightarrow> n < 65536 \<Longrightarrow> n div 4096 mod 16 * 4096 + n div 256 mod 16 * 256 + n div 16 mod 16 * 16 + n mod 16 = (n :: int)"
proof -
  assume n: "0 \<le> n" "n < 65536"
  have "n div 4096 mod 16 = n div 4096" using n by (intro mod_pos_pos_trivial) auto
  moreover have "n div 16 = n div 256 * 16 + n div 16 mod 16" "n div 256 = n div 4096 * 16 + n div 256 mod 16"
    using div_mult_mod_eq [of "n div 16" 16] div_mult_mod_eq [of "n div 256" 16] zdiv_zmult2_eq [of 16 n 16] zdiv_zmult2_eq [of 16 n 256]
    by simp_all
  moreover have "n = n div 16 * 16 + n mod 16" by simp
  ultimately show ?thesis by linarith
qed

lemma get_codepoint_reads:
  assumes "ready lx (hex4 n @ rest)" "0 \<le> n" "n < 65536"
  shows "\<exists>lx'. get_codepoint lx = (n, lx') \<and> ready lx' rest \<and> lx_token_buffer lx' = lx_token_buffer lx"
proof -
  define d3 d2 d1 d0 where d: "d3 = n div 4096 mod 16" "d2 = n div 256 mod 16" "d1 = n div 16 mod 16" "d0 = n mod 16"
  have b: "0 \<le> d3" "d3 < 16" "0 \<le> d2" "d2 < 16" "0 \<le> d1" "d1 < 16" "0 \<le> d0" "d0 < 16" by (simp_all add: d)
  have h: "hex4 n @ rest = hex_digit_lower d3 # hex_digit_lower d2 # hex_digit_lower d1 # hex_digit_lower d0 # rest"
    by (simp add: hex4_def d)
  obtain l1 where 1: "codepoint_loop [12, 8, 4, 0] 0 lx = codepoint_loop [8, 4, 0] (0 + d3 * 2 ^ 12) l1"
      "ready l1 (hex_digit_lower d2 # hex_digit_lower d1 # hex_digit_lower d0 # rest)" "lx_token_buffer l1 = lx_token_buffer lx"
    using codepoint_step [OF assms(1) [unfolded h] b(1,2)] by blast
  obtain l2 where 2: "codepoint_loop [8, 4, 0] (0 + d3 * 2 ^ 12) l1 = codepoint_loop [4, 0] (0 + d3 * 2 ^ 12 + d2 * 2 ^ 8) l2"
      "ready l2 (hex_digit_lower d1 # hex_digit_lower d0 # rest)" "lx_token_buffer l2 = lx_token_buffer l1"
    using codepoint_step [OF 1(2) b(3,4)] by blast
  obtain l3 where 3: "codepoint_loop [4, 0] (0 + d3 * 2 ^ 12 + d2 * 2 ^ 8) l2 = codepoint_loop [0] (0 + d3 * 2 ^ 12 + d2 * 2 ^ 8 + d1 * 2 ^ 4) l3"
      "ready l3 (hex_digit_lower d0 # rest)" "lx_token_buffer l3 = lx_token_buffer l2"
    using codepoint_step [OF 2(2) b(5,6)] by blast
  obtain l4 where 4: "codepoint_loop [0] (0 + d3 * 2 ^ 12 + d2 * 2 ^ 8 + d1 * 2 ^ 4) l3 = codepoint_loop [] (0 + d3 * 2 ^ 12 + d2 * 2 ^ 8 + d1 * 2 ^ 4 + d0 * 2 ^ 0) l4"
      "ready l4 rest" "lx_token_buffer l4 = lx_token_buffer l3"
    using codepoint_step [OF 3(2) b(7,8)] by blast
  have "d3 * 4096 + d2 * 256 + d1 * 16 + d0 = n"
    unfolding d by (rule hex_sum [OF assms(2,3)])
  then have "0 + d3 * 2 ^ 12 + d2 * 2 ^ 8 + d1 * 2 ^ 4 + d0 * 2 ^ 0 = n" by simp
  then show ?thesis using 1 2 3 4 by (simp add: get_codepoint_def)
qed

text \<open>One escaped character: what is behind the backslash is read and stored as the character.\<close>

lemma scan_escape_simple:
  assumes "ready lx (e # rest)"
    and "(e, c) \<in> {(CHR 0x22, CHR 0x22), (CHR 0x5C, CHR 0x5C), (CHR ''b'', CHR 0x08), (CHR ''f'', CHR 0x0C), (CHR ''n'', CHR 0x0A),
        (CHR ''r'', CHR 0x0D), (CHR ''t'', CHR 0x09)}"
  shows "\<exists>lx'. scan_escape lx = (True, lx') \<and> ready lx' rest \<and> lx_token_buffer lx' = lx_token_buffer lx @ [c]"
proof -
  have t: "took (get lx) (of_char e) rest" by (rule get_Cons [OF assms(1)])
  have ch: "char_of (0x22 :: int) = CHR 0x22" "char_of (0x5C :: int) = CHR 0x5C" "char_of (8 :: int) = CHR 0x08" "char_of (12 :: int) = CHR 0x0C"
    "char_of (10 :: int) = CHR 0x0A" "char_of (13 :: int) = CHR 0x0D" "char_of (9 :: int) = CHR 0x09"
    by (rule of_char_eq_iff [where 'a = int, THEN iffD1], simp)+
  show ?thesis
    using assms(2) took_current [OF t] took_ready [OF t] ch by (auto simp: scan_escape_def Let_def)
qed

lemma scan_escape_hex:
  assumes "ready lx (CHR ''u'' # hex4 (of_char c) @ rest)" "(of_char c :: int) < 0x80"
  shows "\<exists>lx'. scan_escape lx = (True, lx') \<and> ready lx' rest \<and> lx_token_buffer lx' = lx_token_buffer lx @ [c]"
proof -
  have t: "took (get lx) (of_char CHR ''u'') (hex4 (of_char c) @ rest)" by (rule get_Cons [OF assms(1)])
  obtain l where l: "get_codepoint (get lx) = (of_char c, l)" "ready l rest" "lx_token_buffer l = lx_token_buffer lx"
    using get_codepoint_reads [OF took_ready [OF t]] of_char_byte [of c] assms(2) by auto
  have "lx_current (get lx) = 0x75" using took_current [OF t] by simp
  then show ?thesis
    using l assms(2) of_char_byte [of c] by (simp add: scan_escape_def scan_unicode_def codepoint_bytes_def Let_def)
qed

lemma escape_cases:
  assumes "(of_char c :: int) < 0x80"
  obtains e where "escape_codepoint False (of_char c) c = [CHR 0x5C, e]"
      "(e, c) \<in> {(CHR 0x22, CHR 0x22), (CHR 0x5C, CHR 0x5C), (CHR ''b'', CHR 0x08), (CHR ''f'', CHR 0x0C), (CHR ''n'', CHR 0x0A),
        (CHR ''r'', CHR 0x0D), (CHR ''t'', CHR 0x09)}"
  | "escape_codepoint False (of_char c) c = CHR 0x5C # CHR ''u'' # hex4 (of_char c)"
  | "escape_codepoint False (of_char c) c = [c]" "0x1F < (of_char c :: int)" "of_char c \<noteq> (0x22 :: int)" "of_char c \<noteq> (0x5C :: int)"
proof -
  have ch: "of_char c = (8 :: int) \<Longrightarrow> c = CHR 0x08" "of_char c = (9 :: int) \<Longrightarrow> c = CHR 0x09" "of_char c = (10 :: int) \<Longrightarrow> c = CHR 0x0A"
    "of_char c = (12 :: int) \<Longrightarrow> c = CHR 0x0C" "of_char c = (13 :: int) \<Longrightarrow> c = CHR 0x0D" "of_char c = (34 :: int) \<Longrightarrow> c = CHR 0x22"
    "of_char c = (92 :: int) \<Longrightarrow> c = CHR 0x5C"
    by (rule of_char_eq_iff [where 'a = int, THEN iffD1], simp)+
  show ?thesis
    using that ch by (fastforce simp: escape_codepoint_def split: if_splits)
qed

lemma scan_string_reads:
  assumes "esc s t"
  shows "ready lx (t @ CHR 0x22 # rest) \<Longrightarrow>
    \<exists>lx'. scan_string_loop lx = (value_string, lx') \<and> took lx' 0x22 rest \<and> lx_token_buffer lx' = lx_token_buffer lx @ s"
  using assms
proof (induction arbitrary: lx rule: esc.induct)
  case esc_Nil
  then have "took (get lx) 0x22 rest" using get_Cons [of lx "CHR 0x22" rest] by simp
  then show ?case by (subst scan_string_loop.simps) (auto simp: took_def Let_def)
next
  case (esc_ascii c s t)
  let ?r = "t @ CHR 0x22 # rest"
  have bs: "\<exists>lx'. scan_string_loop lx = scan_string_loop lx' \<and> ready lx' ?r \<and> lx_token_buffer lx' = lx_token_buffer lx @ [c]"
    if p: "ready lx (CHR 0x5C # x @ ?r)" "\<And>l :: 'a lexer. ready l (x @ ?r) \<Longrightarrow> \<exists>l'. scan_escape l = (True, l') \<and> ready l' ?r \<and> lx_token_buffer l' = lx_token_buffer l @ [c]" for x
  proof -
    have t: "took (get lx) (of_char (CHR 0x5C)) (x @ ?r)" by (rule get_Cons [OF p(1)])
    obtain l' where l': "scan_escape (get lx) = (True, l')" "ready l' ?r" "lx_token_buffer l' = lx_token_buffer lx @ [c]"
      using p(2) [OF took_ready [OF t]] by auto
    have "lx_current (get lx) = 0x5C" using took_current [OF t] by simp
    then have "scan_string_loop lx = scan_string_loop l'"
      using l'(1) by (subst scan_string_loop.simps) (simp add: Let_def)
    then show ?thesis using l' by blast
  qed
  from esc_ascii(1) have "\<exists>lx'. scan_string_loop lx = scan_string_loop lx' \<and> ready lx' ?r \<and> lx_token_buffer lx' = lx_token_buffer lx @ [c]"
  proof (cases rule: escape_cases)
    case (1 e)
    have "ready lx (CHR 0x5C # [e] @ ?r)" using esc_ascii.prems 1(1) by simp
    then show ?thesis by (rule bs) (use scan_escape_simple [OF _ 1(2), of _ ?r] in simp)
  next
    case 2
    then have "ready lx (CHR 0x5C # (CHR ''u'' # hex4 (of_char c)) @ ?r)" using esc_ascii.prems by simp
    then show ?thesis by (rule bs) (use scan_escape_hex [OF _ esc_ascii(1), of _ ?r] in simp)
  next
    case 3
    then have t: "took (get lx) (of_char c) ?r" using esc_ascii.prems by (simp add: get_Cons)
    have "scan_string_loop lx = scan_string_loop (add (of_char c) (get lx))"
      using 3 esc_ascii(1) took_current [OF t] by (subst scan_string_loop.simps) (simp add: Let_def)
    then show ?thesis using took_ready [OF t] by auto
  qed
  then obtain l where "scan_string_loop lx = scan_string_loop l" "ready l ?r" "lx_token_buffer l = lx_token_buffer lx @ [c]" by blast
  then show ?case using esc_ascii.IH [of l] by auto
next
  case (esc_multi c rs bs s t)
  let ?r = "t @ CHR 0x22 # rest"
  have tk: "took (get lx) (of_char c) (bs @ ?r)" using esc_multi.prems by (simp add: get_Cons)
  obtain l where l: "next_byte_in_range rs (get lx) = (True, l)" "ready l ?r" "lx_token_buffer l = lx_token_buffer lx @ c # bs"
    using next_bytes_read [OF esc_multi(2) tk] by auto
  have "0xC2 \<le> (of_char c :: int)" using esc_multi(1) by (auto simp: utf8_ranges_def split: if_splits)
  then have "scan_string_loop lx = scan_string_loop l"
    using took_current [OF tk] l(1) esc_multi(1) by (subst scan_string_loop.simps) (simp add: Let_def)
  then show ?case using esc_multi.IH [OF l(2)] l(3) by auto
qed

section \<open>The string buffer is large enough\<close>

text \<open>
  The buffer is written out when fewer than 13 bytes are left, but the bytes of an unfinished character are stored without that test; there are at most
  three of them.
\<close>

definition unfinished :: "nat \<Rightarrow> nat" where
  "unfinished s = (if s = 0 then 0 else if s \<in> {6, 7, 8} then 1 else if s \<in> {3, 4, 5} then 2 else 3)"

definition buffer_ok :: "bool \<Rightarrow> dump_state \<Rightarrow> bool" where
  "buffer_ok e ds \<longleftrightarrow>
     ds_state ds \<le> 8 \<and> ds_state ds \<noteq> 1 \<and> ds_undumped ds \<le> unfinished (ds_state ds) \<and> ds_accepted ds \<le> 499
     \<and> length (ds_buffer ds) \<le> 499 + (if e then 0 else ds_undumped ds)"

lemma length_escape: "length (escape_codepoint e cp c) \<le> (if e then 12 else 6)"
  by (simp add: escape_codepoint_def hex4_def)

lemma flush_length: "length (ds_buffer (flush ds)) \<le> 499 \<and> ds_accepted (flush ds) \<le> 499"
  by (auto simp: flush_def Let_def)

lemma next_unfinished:
  assumes "s \<le> 8" and "s \<noteq> 1" and "b < 256" and "fst (decode s cp b) = s'" and "s' \<noteq> 0" and "s' \<noteq> 1"
  shows "s' \<le> 8" "unfinished s + 1 \<le> unfinished s'"
proof -
  have "s' \<le> 8 \<and> unfinished s + 1 \<le> unfinished s'"
  proof (cases "s = 0")
    case True
    then have "s' = lead b" using lead_state [OF assms(3)] assms(4) by simp
    then show ?thesis using True assms(5) by (auto simp: lead_def unfinished_def)
  next
    case False
    then have "s \<in> {2, 3, 4, 5, 6, 7, 8}" using assms(1,2) by auto
    then obtain lo hi s2 where w: "wants s = Some (lo, hi, s2)" by (auto simp: wants_def)
    then have "s' = s2" using next_state [OF assms(3) w, of cp] assms(4,6) by (auto split: if_splits)
    then show ?thesis using w assms(5) by (auto simp: wants_def unfinished_def split: if_splits)
  qed
  then show "s' \<le> 8" "unfinished s + 1 \<le> unfinished s'" by auto
qed

lemma reject_ok: "buffer_ok e ds \<Longrightarrow> buffer_ok e (reject h e (ds\<lparr>ds_state := s, ds_codepoint := cp\<rparr>))"
  using flush_length [of "ds\<lparr>ds_state := s, ds_codepoint := cp, ds_buffer := take (ds_accepted ds) (ds_buffer ds) @ replacement e\<rparr>"]
  by (auto simp: buffer_ok_def reject_def unfinished_def Let_def)

lemma dump_bytes_ok: "dump_bytes h e i s ds = Inr ds' \<Longrightarrow> buffer_ok e ds \<Longrightarrow> buffer_ok e ds'"
proof (induction h e i s ds rule: dump_bytes.induct)
  case (1 h e i ds)
  then show ?case by (simp add: dump_bytes.simps)
next
  case (2 h e i c cs ds)
  obtain x y where xy: "decode (ds_state ds) (ds_codepoint ds) (of_char c) = (x, y)" by force
  let ?d = "ds\<lparr>ds_state := x, ds_codepoint := y\<rparr>"
  note b = "2.prems"(2) and IH = "2.IH" [OF xy [symmetric] refl]
  consider "x = 0" | "x = 1" | "x \<noteq> 0" "x \<noteq> 1" by blast
  then show ?case
  proof cases
    case 1
    let ?d1 = "(flush (?d\<lparr>ds_buffer := ds_buffer ds @ escape_codepoint e y c\<rparr>))\<lparr>ds_undumped := 0\<rparr>"
    have "buffer_ok e ?d1"
      using 1 flush_length [of "?d\<lparr>ds_buffer := ds_buffer ds @ escape_codepoint e y c\<rparr>"] by (simp add: buffer_ok_def)
    then show ?thesis using IH(1) 1 "2.prems"(1) xy by (simp add: dump_bytes.simps)
  next
    case 2
    have h: "h \<noteq> EH_strict" using "2.prems"(1) xy 2 by (auto simp: dump_bytes.simps Let_def)
    have "(if 0 < ds_undumped ds then dump_bytes h e i (c # cs) (reject h e ?d) else dump_bytes h e (i + 1) cs (reject h e ?d)) = Inr ds'"
      using "2.prems"(1) xy 2 h by (subst (asm) dump_bytes.simps) (auto simp: Let_def split: if_splits)
    then show ?thesis
      using IH(2,3) reject_ok [OF b, of h y x] h 2 by (cases "0 < ds_undumped ds") auto
  next
    case 3
    let ?d1 = "?d\<lparr>ds_buffer := (if e then ds_buffer ds else ds_buffer ds @ [c]), ds_undumped := ds_undumped ds + 1\<rparr>"
    have "x \<le> 8" "unfinished (ds_state ds) + 1 \<le> unfinished x"
      using next_unfinished [OF _ _ of_char_nat_less, of "ds_state ds" "ds_codepoint ds" c x] b 3 xy by (auto simp: buffer_ok_def)
    then have "buffer_ok e ?d1" using b 3 by (auto simp: buffer_ok_def)
    then show ?thesis using IH(4) 3 "2.prems"(1) xy by (cases e) (simp_all add: dump_bytes.simps Let_def)
  qed
qed

lemma unfinished_le: "unfinished s \<le> 3"
  by (simp add: unfinished_def)

text \<open>At the start of every iteration there is room for what the iteration stores, the terminating zero of \<^verbatim>\<open>snprintf\<close> included.\<close>

lemma string_buffer_bound:
  assumes "dump_bytes h e 0 s \<lparr>ds_out = [], ds_buffer = [], ds_accepted = 0, ds_undumped = 0, ds_state = 0, ds_codepoint = 0\<rparr> = Inr ds"
  shows "length (ds_buffer ds @ escape_codepoint e cp c) + 1 \<le> 512 \<and> length (ds_buffer ds @ [c]) \<le> 512
    \<and> length (take (ds_accepted ds) (ds_buffer ds) @ replacement e) \<le> 512"
proof -
  have b: "buffer_ok e ds" by (rule dump_bytes_ok [OF assms]) (simp add: buffer_ok_def unfinished_def)
  then have "length (ds_buffer ds) \<le> 499 + (if e then 0 else 3)"
    using unfinished_le [of "ds_state ds"] by (auto simp: buffer_ok_def)
  then show ?thesis using length_escape [of e cp c] b by (auto simp: buffer_ok_def replacement_def split: if_splits)
qed

end
