(* ===== verification/Json_Tokens.thy ===== *)
theory Json_Tokens
  imports Json_Utf8
begin

text \<open>
  What one call of the scanner returns when the text in front of it is white space and the text of a token.
\<close>

section \<open>White space and the byte order mark\<close>

definition is_ws :: "char \<Rightarrow> bool" where
  "is_ws c \<longleftrightarrow> is_space (of_char c)"

lemma skip_space_blank:
  "list_all is_ws ws \<Longrightarrow> \<not> is_ws c \<Longrightarrow> ready lx (ws @ c # s) \<Longrightarrow> took (skip_space lx) (of_char c) s"
proof (induction ws arbitrary: lx)
  case Nil
  then have "took (get lx) (of_char c) s" by (simp add: get_Cons)
  then show ?case using Nil by (subst skip_space.simps) (simp add: took_current is_ws_def)
next
  case (Cons w ws)
  then have t: "took (get lx) (of_char w) (ws @ c # s)" by (simp add: get_Cons)
  then have "is_space (lx_current (get lx))" using Cons.prems by (simp add: took_current is_ws_def)
  then have "skip_space lx = skip_space (get lx)" by (subst skip_space.simps) simp
  then show ?case using Cons.IH [OF _ _ took_ready [OF t]] Cons.prems by simp
qed

lemma skip_space_end: "list_all is_ws ws \<Longrightarrow> ready lx ws \<Longrightarrow> took (skip_space lx) (-1) []"
proof (induction ws arbitrary: lx)
  case Nil
  then have "took (get lx) (-1) []" by (simp add: get_Nil)
  then show ?case by (subst skip_space.simps) (simp add: took_current is_space_def)
next
  case (Cons w ws)
  then have t: "took (get lx) (of_char w) ws" by (simp add: get_Cons)
  then have "is_space (lx_current (get lx))" using Cons.prems by (simp add: took_current is_ws_def)
  then have "skip_space lx = skip_space (get lx)" by (subst skip_space.simps) simp
  then show ?case using Cons.IH [OF _ took_ready [OF t]] Cons.prems by simp
qed

lemma took_unget:
  assumes "took lx c s" and "c = -1 \<longrightarrow> s = []"
  shows "ready (unget lx) (if c = -1 then s else char_of c # s)"
  using assms by (auto simp: took_def ready_def lexer_ok_def remaining_def unget_def Let_def)

lemma buffer_unget [simp]: "lx_token_buffer (unget lx) = lx_token_buffer lx"
  by (simp add: unget_def Let_def)

lemma get_unget_ready:
  assumes "ready lx s"
  shows "ready (unget (get lx)) s"
proof (cases s)
  case Nil
  then show ?thesis using took_unget [OF get_Nil] assms by fastforce
next
  case (Cons c cs)
  have "of_char c \<noteq> (-1 :: int)" using of_char_byte [of c] by linarith
  then show ?thesis using took_unget [OF get_Cons, of lx c cs] assms Cons by simp
qed

text \<open>At the start of the input a byte order mark is looked for; the character read for that is given back.\<close>

lemma scan_after_bom:
  assumes "ready lx s" and "s = [] \<or> of_char (hd s) \<noteq> (0xEF :: int)"
  obtains l where "scan fl lx = scan_token fl (skip_space l)" "ready l s"
proof (cases "chars_read_total (lx_position lx) = 0")
  case True
  have "lx_current (get lx) \<noteq> 0xEF"
    using get_cases [OF assms(1)] assms(2) by (cases s) (auto simp: took_def)
  then have "skip_bom lx = (True, unget (get lx))" by (simp add: skip_bom_def Let_def)
  then show ?thesis
    using that [of "unget (get lx)"] get_unget_ready [OF assms(1)] True by (simp add: scan_def)
next
  case False
  then show ?thesis using that [of lx] assms(1) by (simp add: scan_def)
qed

lemma is_ws_not_ef: "is_ws c \<Longrightarrow> of_char c \<noteq> (0xEF :: int)"
  by (auto simp: is_ws_def is_space_def)

lemma scan_blanks:
  assumes "ready lx (ws @ c # s)" and "list_all is_ws ws" and "\<not> is_ws c" and "of_char c \<noteq> (0xEF :: int)"
  obtains l where "scan fl lx = scan_token fl l" "took l (of_char c) s"
proof -
  have "of_char (hd (ws @ c # s)) \<noteq> (0xEF :: int)"
    using assms(2,4) by (cases ws) (auto dest: is_ws_not_ef)
  then obtain l where "scan fl lx = scan_token fl (skip_space l)" "ready l (ws @ c # s)"
    using scan_after_bom [OF assms(1)] by blast
  then show ?thesis using that skip_space_blank [OF assms(2,3)] by blast
qed

lemma scan_end:
  assumes "ready lx ws" and "list_all is_ws ws"
  obtains l where "scan fl lx = (end_of_input, l)"
proof -
  have "ws = [] \<or> of_char (hd ws) \<noteq> (0xEF :: int)"
    using assms(2) by (cases ws) (auto dest: is_ws_not_ef)
  then obtain l where l: "scan fl lx = scan_token fl (skip_space l)" "ready l ws"
    using scan_after_bom [OF assms(1)] by blast
  have "lx_current (skip_space l) = -1" using skip_space_end [OF assms(2) l(2)] by (simp add: took_current)
  then show ?thesis using that [of "skip_space l"] l(1) by (simp add: scan_token_def is_digit_def)
qed

section \<open>Structural characters and literals\<close>

definition structural :: "(char \<times> token_type) list" where
  "structural =
     [(CHR ''['', begin_array), (CHR '']'', end_array), (CHR ''{'', begin_object), (CHR ''}'', end_object),
      (CHR '':'', name_separator), (CHR '','', value_separator)]"

lemma scan_structural:
  assumes "ready lx (ws @ c # s)" and "list_all is_ws ws" and "(c, t) \<in> set structural"
  obtains l where "scan fl lx = (t, l)" "ready l s"
proof -
  have c: "\<not> is_ws c" "of_char c \<noteq> (0xEF :: int)"
    using assms(3) by (auto simp: structural_def is_ws_def is_space_def)
  obtain l where l: "scan fl lx = scan_token fl l" "took l (of_char c) s"
    using scan_blanks [OF assms(1,2) c] .
  have "scan_token fl l = (t, l)"
    using assms(3) took_current [OF l(2)] by (auto simp: structural_def scan_token_def)
  then show ?thesis using that l took_ready by fastforce
qed

lemma literal_loop_reads:
  "ready lx (cs @ s) \<Longrightarrow> \<exists>l. literal_loop cs t lx = (t, l) \<and> ready l s"
proof (induction cs arbitrary: lx)
  case (Cons c cs)
  then have t: "took (get lx) (of_char c) (cs @ s)" by (simp add: get_Cons)
  then show ?case using Cons.IH [OF took_ready [OF t]] by (simp add: took_current)
qed simp

definition literals :: "(string \<times> token_type) list" where
  "literals = [(''true'', literal_true), (''false'', literal_false), (''null'', literal_null)]"

lemma scan_literals:
  assumes "ready lx (ws @ x @ s)" and "list_all is_ws ws" and "(x, t) \<in> set literals"
  obtains l where "scan fl lx = (t, l)" "ready l s"
proof -
  obtain c cs where x: "x = c # cs" using assms(3) by (auto simp: literals_def)
  have c: "\<not> is_ws c" "of_char c \<noteq> (0xEF :: int)"
    using assms(3) x by (auto simp: literals_def is_ws_def is_space_def)
  obtain l where l: "scan fl lx = scan_token fl l" "took l (of_char c) (cs @ s)"
    using scan_blanks [OF _ assms(2) c, of lx "cs @ s" fl] assms(1) x by auto
  have "scan_token fl l = literal_loop cs t l"
    using assms(3) x took_current [OF l(2)] by (auto simp: literals_def scan_token_def scan_literal_def)
  then show ?thesis using that l literal_loop_reads [OF took_ready [OF l(2)], of t] by auto
qed

section \<open>Strings\<close>

lemma scan_quoted:
  assumes "ready lx (ws @ CHR 0x22 # t @ CHR 0x22 # s)" and "list_all is_ws ws" and "esc x t"
  obtains l where "scan fl lx = (value_string, l)" "ready l s" "lx_token_buffer l = x"
proof -
  have c: "\<not> is_ws (CHR 0x22)" "of_char (CHR 0x22) \<noteq> (0xEF :: int)" by (simp_all add: is_ws_def is_space_def)
  obtain l where l: "scan fl lx = scan_token fl l" "took l (of_char (CHR 0x22)) (t @ CHR 0x22 # s)"
    using scan_blanks [OF assms(1,2) c] .
  obtain l' where l': "scan_string_loop (lexer_reset l) = (value_string, l')" "took l' 0x22 s" "lx_token_buffer l' = x"
    using scan_string_reads [OF assms(3), of "lexer_reset l" s] l(2) took_ready [of "lexer_reset l"] by auto
  have "scan_token fl l = scan_string_loop (lexer_reset l)"
    using took_current [OF l(2)] by (simp add: scan_token_def scan_string_def)
  then show ?thesis using that l(1) l' took_ready by fastforce
qed

section \<open>Numbers\<close>

lemma digit_range: "digit c \<longleftrightarrow> is_digit (of_char c)"
proof -
  have "int (of_char c) = (of_char c :: int)" by (rule int_of_char)
  then show ?thesis unfolding digit_def is_digit_def Let_def by linarith
qed

lemma digit_of_nat: "d < 10 \<Longrightarrow> of_char (char_of (48 + d) :: char) = 48 + int d"
proof -
  assume "d < 10"
  then have "of_char (char_of (48 + d) :: char) = (48 + d) mod 256" by simp
  then have "of_char (char_of (48 + d) :: char) = 48 + d" using \<open>d < 10\<close> by simp
  then show ?thesis by (metis int_of_char of_nat_add of_nat_numeral)
qed

lemma dec_nat_digits: "list_all digit (dec_nat n)"
proof (induction n rule: dec_nat.induct)
  case (1 n)
  have "digit (char_of (48 + n mod 10))"
    using digit_of_nat [of "n mod 10"] by (simp add: digit_range is_digit_def)
  then show ?case using 1 by (subst dec_nat.simps) simp
qed

lemma dec_nat_fold: "foldl (\<lambda>n c. 10 * n + (of_char c - 48)) 0 (dec_nat n) = int n"
proof (induction n rule: dec_nat.induct)
  case (1 n)
  have "of_char (char_of (48 + n mod 10) :: char) - 48 = int n mod 10"
    using digit_of_nat [of "n mod 10"] by (simp add: zmod_int)
  then show ?case using 1 by (subst dec_nat.simps) (auto simp: zdiv_int)
qed

lemma digits_value_dec_nat: "digits_value (dec_nat n) = int n"
proof -
  have "takeWhile digit (dec_nat n) = dec_nat n"
    using dec_nat_digits [of n] by (simp only: takeWhile_eq_all_conv list_all_iff)
  then show ?thesis using dec_nat_fold [of n] by (simp only: digits_value_def)
qed

lemma dec_nat_first:
  assumes "0 < n"
  obtains c cs where "dec_nat n = c # cs" "digit c" "of_char c \<noteq> (0x30 :: int)" "list_all digit cs"
proof -
  have "\<exists>c cs. dec_nat n = c # cs \<and> of_char c \<noteq> (0x30 :: int)"
    using assms
  proof (induction n rule: dec_nat.induct)
    case (1 n)
    show ?case
    proof (cases "n < 10")
      case True
      then show ?thesis using "1.prems" digit_of_nat [of n] by (simp add: dec_nat_small)
    next
      case False
      then have "0 < n div 10" by linarith
      then obtain c cs where "dec_nat (n div 10) = c # cs" "of_char c \<noteq> (0x30 :: int)" using 1(1) False by auto
      then show ?thesis using False by (simp add: dec_nat_step)
    qed
  qed
  then show ?thesis using that dec_nat_digits [of n] by auto
qed

text \<open>A number ends in front of a character that cannot go on with it.\<close>

definition ends_number :: "string \<Rightarrow> bool" where
  "ends_number s \<longleftrightarrow> (case s of [] \<Rightarrow> True | c # _ \<Rightarrow> \<not> digit c \<and> c \<noteq> CHR ''.'' \<and> c \<noteq> CHR ''e'' \<and> c \<noteq> CHR ''E'')"

definition first_char :: "string \<Rightarrow> int" where
  "first_char s = (case s of [] \<Rightarrow> -1 | c # _ \<Rightarrow> of_char c)"

lemma ends_number_chars:
  assumes "ends_number s"
  shows "\<not> is_digit (first_char s) \<and> first_char s \<noteq> 0x2E \<and> \<not> is_exp (first_char s)"
proof (cases s)
  case Nil
  then show ?thesis by (simp add: first_char_def is_digit_def is_exp_def)
next
  case (Cons c cs)
  have "of_char c \<noteq> (of_char d :: int)" if "c \<noteq> d" for d :: char
    using that by (simp add: of_char_eq_iff)
  from this [of "CHR ''.''"] this [of "CHR ''e''"] this [of "CHR ''E''"] show ?thesis
    using assms Cons by (simp add: ends_number_def first_char_def is_exp_def digit_range)
qed

lemma number_loop_digits:
  assumes "list_all digit ds" and "ends_number s" and "ready lx (ds @ s)"
  shows "\<exists>l. number_loop p scan_number_any1 ty lx = (ty, l) \<and> took l (first_char s) (tl s) \<and> lx_token_buffer l = lx_token_buffer lx @ ds"
  using assms(1,3)
proof (induction ds arbitrary: lx)
  case Nil
  have t: "took (get lx) (first_char s) (tl s)" using get_cases [of lx s] Nil by (simp add: first_char_def)
  have "number_edge p scan_number_any1 (first_char s) = Done"
    using ends_number_chars [OF assms(2)] by (simp add: number_edges)
  then show ?case using t by (subst number_loop.simps) (simp add: Let_def took_current label_type_def)
next
  case (Cons c ds)
  have t: "took (get lx) (of_char c) (ds @ s)" using Cons.prems by (simp add: get_Cons)
  let ?l = "add (of_char c) (get lx)"
  have "number_loop p scan_number_any1 ty lx = number_loop p scan_number_any1 ty ?l"
    using Cons.prems(1) took_current [OF t]
    by (subst number_loop.simps) (simp add: Let_def number_edges label_type_def digit_range)
  moreover have "ready ?l (ds @ s)" using took_ready [OF t] by simp
  ultimately show ?case using Cons.IH [of ?l] Cons.prems(1) by simp
qed

lemma took_end_ready:
  assumes "took l (first_char s) (tl s)"
  shows "ready (unget l) s"
proof (cases s)
  case Nil
  then show ?thesis using took_unget [OF assms] by (simp add: first_char_def)
next
  case (Cons c cs)
  have "of_char c \<noteq> (-1 :: int)" using of_char_byte [of c] by linarith
  then show ?thesis using took_unget [OF assms] Cons by (simp add: first_char_def)
qed

lemma ready_convert: "ready (snd (convert_number fl ty lx)) s = ready lx s"
  by (auto simp: convert_number_def ready_def lexer_ok_def remaining_def Let_def split: option.split)

text \<open>A number without a sign.\<close>

lemma scan_number_unsigned:
  assumes "ready lx (ws @ dec_nat n @ s)" and "list_all is_ws ws" and "ends_number s" and "int n < 2 ^ 64"
  obtains l where "scan fl lx = (value_unsigned, l)" "ready l s" "lx_value_unsigned l = int n"
proof -
  obtain c cs where n: "dec_nat n = c # cs" "digit c" "list_all digit cs" "of_char c = (0x30 :: int) \<longrightarrow> cs = []"
  proof (cases "n = 0")
    case True
    have "dec_nat 0 = [CHR ''0'']" using dec_nat_small [of 0] char_zero by simp
    then show ?thesis using that [of "CHR ''0''" "[]"] True by (simp add: digit_range is_digit_def)
  next
    case False
    then show ?thesis using dec_nat_first [of n] that by blast
  qed
  have c: "\<not> is_ws c" "of_char c \<noteq> (0xEF :: int)"
    using n(2) by (auto simp: digit_range is_digit_def is_ws_def is_space_def)
  obtain l where l: "scan fl lx = scan_token fl l" "took l (of_char c) (cs @ s)"
    using scan_blanks [OF _ assms(2) c, of lx "cs @ s" fl] assms(1) n(1) by auto
  have st: "scan_token fl l = scan_number fl l"
    using n(2) took_current [OF l(2)] by (simp add: scan_token_def digit_range is_digit_def)
  let ?r = "lexer_reset l"
  let ?a = "add (of_char c) ?r"
  have ra: "ready ?a (cs @ s)" using l(2) took_ready [of ?r] by simp
  obtain l1 where l1: "number_loop (fl_decimal_point fl) (if of_char c = (0x30 :: int) then scan_number_zero else scan_number_any1) value_unsigned ?a = (value_unsigned, l1)"
      "took l1 (first_char s) (tl s)" "lx_token_buffer l1 = c # cs"
  proof (cases "of_char c = (0x30 :: int)")
    case True
    have t: "took (get ?a) (first_char s) (tl s)" using get_cases [OF ra] n(4) True by (simp add: first_char_def)
    have "number_edge (fl_decimal_point fl) scan_number_zero (first_char s) = Done"
      using ends_number_chars [OF assms(3)] by (simp add: number_edges)
    then have "number_loop (fl_decimal_point fl) scan_number_zero value_unsigned ?a = (value_unsigned, get ?a)"
      using t by (subst number_loop.simps) (simp add: Let_def took_current label_type_def)
    moreover have "lx_token_buffer (get ?a) = [c]" by simp
    ultimately show ?thesis using that [of "get ?a"] t True n(4) by (simp only: if_True simp_thms)
  next
    case False
    then show ?thesis using number_loop_digits [OF n(3) assms(3) ra, of "fl_decimal_point fl" value_unsigned] that by auto
  qed
  have cur: "lx_current ?r = of_char c" using l(2) took_current [of ?r] by simp
  have "of_char c \<noteq> (0x2D :: int)" using n(2) by (auto simp: digit_range is_digit_def)
  then have sn: "scan_number fl l = convert_number fl value_unsigned (unget l1)"
    using l1(1) by (simp add: scan_number_def cur Let_def)
  have "strtoull (lx_token_buffer (unget l1)) = Some (int n)"
    using l1(3) n(1) assms(4) digits_value_dec_nat [of n] by (simp add: strtoull_def)
  then have "convert_number fl value_unsigned (unget l1) = (value_unsigned, (unget l1)\<lparr>lx_value_unsigned := int n\<rparr>)"
    by (simp add: convert_number_def)
  then show ?thesis
    using that l(1) st sn took_end_ready [OF l1(2)] ready_convert [of fl value_unsigned "unget l1" s] by simp
qed

lemma scan_number_negative:
  assumes "ready lx (ws @ dec x @ s)" and "list_all is_ws ws" and "ends_number s" and "x < 0" and "- (2 ^ 63) \<le> x"
  obtains l where "scan fl lx = (value_integer, l)" "ready l s" "lx_value_integer l = x"
proof -
  let ?m = "CHR ''-''"
  obtain c cs where n: "dec_nat (nat (- x)) = c # cs" "digit c" "of_char c \<noteq> (0x30 :: int)" "list_all digit cs"
    using dec_nat_first [of "nat (- x)"] assms(4) by auto
  have d: "dec x = ?m # c # cs" using assms(4) n(1) by (simp add: dec_def)
  have m: "\<not> is_ws ?m" "of_char ?m \<noteq> (0xEF :: int)" by (simp_all add: is_ws_def is_space_def)
  obtain l where l: "scan fl lx = scan_token fl l" "took l (of_char ?m) (c # cs @ s)"
    using scan_blanks [OF _ assms(2) m, of lx "c # cs @ s" fl] assms(1) d by auto
  have st: "scan_token fl l = scan_number fl l"
    using took_current [OF l(2)] by (simp add: scan_token_def)
  let ?r = "lexer_reset l"
  let ?a = "add 0x2D ?r"
  have t: "took (get ?a) (of_char c) (cs @ s)" using l(2) took_ready [of ?r] get_Cons [of ?a c] by simp
  let ?b = "add (of_char c) (get ?a)"
  have "ready ?b (cs @ s)" using took_ready [OF t] by simp
  then obtain l1 where l1: "number_loop (fl_decimal_point fl) scan_number_any1 value_integer ?b = (value_integer, l1)"
      "took l1 (first_char s) (tl s)" "lx_token_buffer l1 = lx_token_buffer ?b @ cs"
    using number_loop_digits [OF n(4) assms(3)] by blast
  have "number_edge (fl_decimal_point fl) scan_number_minus (of_char c) = Goto scan_number_any1 c"
    using n(2,3) by (simp add: number_edges digit_range)
  then have "number_loop (fl_decimal_point fl) scan_number_minus value_unsigned ?a = (value_integer, l1)"
    using l1(1) took_current [OF t] by (subst number_loop.simps) (simp add: Let_def label_type_def)
  moreover have cur: "lx_current ?r = 0x2D" using l(2) took_current [of ?r] by simp
  ultimately have sn: "scan_number fl l = convert_number fl value_integer (unget l1)"
    by (simp add: scan_number_def cur Let_def)
  have "char_of (0x2D :: int) = ?m" by (rule of_char_eq_iff [where 'a = int, THEN iffD1]) simp
  then have b: "lx_token_buffer (unget l1) = ?m # dec_nat (nat (- x))"
    using l1(3) n(1) by simp
  have "strtoll (lx_token_buffer (unget l1)) = Some x"
    unfolding b using digits_value_dec_nat [of "nat (- x)"] assms(4,5) by (simp add: strtoll_def)
  then have "convert_number fl value_integer (unget l1) = (value_integer, (unget l1)\<lparr>lx_value_integer := x\<rparr>)"
    by (simp add: convert_number_def)
  then show ?thesis
    using that l(1) st sn took_end_ready [OF l1(2)] ready_convert [of fl value_integer "unget l1" s] by simp
qed

end
