(* ===== verification/Json_Build.thy ===== *)
theory Json_Build
  imports Json_Parser
begin

text \<open>
  What the receiver that builds a value does to it. Reading and writing through a path obey the laws of a lens; storing a value
  and then changing what is stored is storing the changed value.
\<close>

section \<open>Paths\<close>

lemma map_of_alter: "map_of (alter k f m) k' = (if k' = k then map_option f (map_of m k) else map_of m k')"
  by (induction m) auto

lemma alter_alter: "alter k f (alter k g m) = alter k (\<lambda>x. f (g x)) m"
  by (induction m) auto

lemma alter_agree: "map_of m k = Some x \<Longrightarrow> f x = g x \<Longrightarrow> alter k f m = alter k g m"
  by (induction m) auto

lemma alter_same: "map_of m k = Some x \<Longrightarrow> f x = x \<Longrightarrow> alter k f m = m"
  by (induction m) auto

lemma keys_alter [simp]: "map fst (alter k f m) = map fst m"
  by (induction m) auto

lemma json_update_Nil: "json_update [] f = f"
  by (rule ext) simp

lemma json_at_append: "json_at (p @ q) v = Option.bind (json_at p v) (json_at q)"
  by (induction p v rule: json_at.induct) (auto split: option.split)

lemma json_update_append: "json_update (p @ q) f v = json_update p (json_update q f) v"
proof (induction p f v arbitrary: q rule: json_update.induct)
  case (3 k p f kvs)
  show ?case by (simp, rule alter_cong) (auto simp: 3)
qed auto

lemma json_at_update: "json_at p v = Some x \<Longrightarrow> json_at p (json_update p f v) = Some (f x)"
  by (induction p v rule: json_at.induct) (auto simp: map_of_alter split: if_splits option.splits)

lemma json_update_update: "json_update p f (json_update p g v) = json_update p (\<lambda>x. f (g x)) v"
proof (induction p v rule: json_at.induct)
  case (3 k p kvs)
  have "json_update p f (json_update p g x) = json_update p (\<lambda>y. f (g y)) x" if "map_of kvs k = Some x" for x
    using 3 that by simp
  then show ?case by (cases "map_of kvs k") (auto simp: alter_alter intro: alter_agree, induction kvs, auto)
qed auto

lemma json_update_agree: "json_at p v = Some x \<Longrightarrow> f x = g x \<Longrightarrow> json_update p f v = json_update p g v"
  by (induction p v rule: json_at.induct) (auto split: if_splits option.splits intro: alter_agree)

section \<open>Storing a value\<close>

text \<open>The state fits when a value may be stored: the innermost structure is an array, or an object with the key that was read last.\<close>

definition fits :: "'f dom_parser \<Rightarrow> bool" where
  "fits d \<longleftrightarrow>
     (case dp_ref_stack d of
        [] \<Rightarrow> True
      | r # _ \<Rightarrow>
          (case json_at r (dp_root d) of
             Some (Jarray vs) \<Rightarrow> True
           | Some (Jobject kvs) \<Rightarrow> (\<exists>k. map_of kvs k \<noteq> None \<and> dp_object_element d = r @ [Key k])
           | _ \<Rightarrow> False))"

lemma handle_value_array:
  assumes "dp_ref_stack d = r # rs" and "json_at r (dp_root d) = Some (Jarray vs)"
  shows "handle_value v d = (r @ [At (length vs)], d\<lparr>dp_root := json_update r (\<lambda>_. Jarray (vs @ [v])) (dp_root d)\<rparr>)"
  using assms by (simp add: handle_value_def)

lemma handle_value_object:
  assumes "dp_ref_stack d = r # rs" and "json_at r (dp_root d) = Some (Jobject kvs)"
  shows "handle_value v d = (dp_object_element d, d\<lparr>dp_root := json_update (dp_object_element d) (\<lambda>_. v) (dp_root d)\<rparr>)"
  using assms by (simp add: handle_value_def)

lemma handle_value_put:
  assumes "fits d"
  obtains p F where "\<And>v. handle_value v d = (p, d\<lparr>dp_root := F v\<rparr>)" "\<And>v. json_at p (F v) = Some v"
      "\<And>f v. json_update p f (F v) = F (f v)"
proof (cases "dp_ref_stack d")
  case Nil
  then show ?thesis using that [of "[]" "\<lambda>v. v"] by (simp add: handle_value_def)
next
  case (Cons r rs)
  consider vs where "json_at r (dp_root d) = Some (Jarray vs)"
    | kvs k where "json_at r (dp_root d) = Some (Jobject kvs)" "map_of kvs k \<noteq> None" "dp_object_element d = r @ [Key k]"
    using assms Cons by (auto simp: fits_def split: option.splits json.splits)
  then show ?thesis
  proof cases
    case 1
    let ?F = "\<lambda>v. json_update r (\<lambda>_. Jarray (vs @ [v])) (dp_root d)"
    have "json_at (r @ [At (length vs)]) (?F v) = Some v" for v
      using json_at_update [OF 1, of "\<lambda>_. Jarray (vs @ [v])"] by (simp add: json_at_append)
    moreover have "json_update (r @ [At (length vs)]) f (?F v) = ?F (f v)" for f v
      by (simp add: json_update_append json_update_update)
    ultimately show ?thesis using that [of "r @ [At (length vs)]" ?F] handle_value_array [OF Cons 1] by blast
  next
    case 2
    let ?F = "\<lambda>v. json_update (r @ [Key k]) (\<lambda>_. v) (dp_root d)"
    obtain x where "json_at (r @ [Key k]) (dp_root d) = Some x" using 2 by (auto simp: json_at_append)
    then have "json_at (r @ [Key k]) (?F v) = Some v" for v by (rule json_at_update)
    moreover have "json_update (r @ [Key k]) f (?F v) = ?F (f v)" for f v by (simp add: json_update_update)
    ultimately show ?thesis using that [of "r @ [Key k]" ?F] handle_value_object [OF Cons 2(1)] 2(3) by simp
  qed
qed

text \<open>A member of an object: the key is entered with a null, then its value replaces the null.\<close>

definition put_member :: "string \<times> 'f json \<Rightarrow> (string \<times> 'f json) list \<Rightarrow> (string \<times> 'f json) list" where
  "put_member e kvs = alter (fst e) (\<lambda>_. snd e) (if map_of kvs (fst e) = None then map_put (fst e) Jnull kvs else kvs)"

lemma put_member_last: "\<forall>e' \<in> set kvs. fst e' < fst e \<Longrightarrow> put_member e kvs = kvs @ [e]"
proof -
  have n: "\<forall>e' \<in> set kvs. fst e' < k \<Longrightarrow> map_of kvs k = None" for k by (auto simp: map_of_eq_None_iff)
  have "\<forall>e' \<in> set kvs. fst e' < k \<Longrightarrow> alter k (\<lambda>_. v) (map_put k Jnull kvs) = kvs @ [(k, v)]" for k v
    by (induction kvs) auto
  then show "\<forall>e' \<in> set kvs. fst e' < fst e \<Longrightarrow> put_member e kvs = kvs @ [e]"
    using n [of "fst e"] by (simp add: put_member_def)
qed

lemma put_members_sorted:
  "sorted_wrt (<) (map fst (us @ kvs)) \<Longrightarrow> fold put_member kvs us = us @ kvs"
proof (induction kvs arbitrary: us)
  case (Cons e kvs)
  have "put_member e us = us @ [e]" using Cons.prems by (intro put_member_last) (auto simp: sorted_wrt_append)
  then show ?case using Cons.IH [of "us @ [e]"] Cons.prems by simp
qed simp

lemma dom_key_then_value:
  assumes "dp_ref_stack d = p # st" and "json_at p (dp_root d) = Some (Jobject us)" and "dom_key k d = Inr (True, d1)"
  shows "fits d1" "dp_ref_stack d1 = p # st" "dp_errored d1 = dp_errored d" "dp_allow_exceptions d1 = dp_allow_exceptions d"
    "dp_root (snd (handle_value v d1)) = json_update p (\<lambda>_. Jobject (put_member (k, v) us)) (dp_root d)"
proof -
  have d1: "d1 = d\<lparr>dp_root := json_update p (object_key k) (dp_root d), dp_object_element := p @ [Key k]\<rparr>"
    using assms(1,3) by (simp add: dom_key_def)
  let ?us = "if map_of us k = None then map_put k Jnull us else us"
  have o: "object_key k (Jobject us) = Jobject ?us" by (simp add: object_key_def)
  have at: "json_at p (dp_root d1) = Some (Jobject ?us)" using json_at_update [OF assms(2)] o by (simp add: d1)
  have k: "map_of ?us k \<noteq> None" by simp
  show "fits d1" using assms(1) at k by (auto simp: fits_def d1)
  show "dp_ref_stack d1 = p # st" "dp_errored d1 = dp_errored d" "dp_allow_exceptions d1 = dp_allow_exceptions d"
    using assms(1) by (simp_all add: d1)
  have "dp_root (snd (handle_value v d1)) = json_update (p @ [Key k]) (\<lambda>_. v) (dp_root d1)"
    using handle_value_object [of d1 p st] assms(1) at by (simp add: d1)
  also have "\<dots> = json_update p (\<lambda>x. json_update [Key k] (\<lambda>_. v) (object_key k x)) (dp_root d)"
    by (simp add: d1 json_update_append json_update_update)
  also have "\<dots> = json_update p (\<lambda>_. Jobject (put_member (k, v) us)) (dp_root d)"
    using assms(2) by (rule json_update_agree) (simp add: o put_member_def json_update_Nil)
  finally show "dp_root (snd (handle_value v d1)) = json_update p (\<lambda>_. Jobject (put_member (k, v) us)) (dp_root d)" .
qed

end
