(* ===== verification/Json_Roundtrip.thy ===== *)
theory Json_Roundtrip
  imports Json_Tokens Json_Build
begin

text \<open>
  The texts of a value (\<open>json_text\<close>): JSON with white space wherever it is allowed, without floating-point numbers, strings as the serializer writes
  them. The parser reads every such text as its value, and the serializer writes such a text; so parsing what was written gives
  the value back.
\<close>

section \<open>Texts\<close>

inductive json_text :: "'f json \<Rightarrow> string \<Rightarrow> bool"
  and elements_text :: "'f json list \<Rightarrow> string \<Rightarrow> bool"
  and members_text :: "(string \<times> 'f json) list \<Rightarrow> string \<Rightarrow> bool"
where
  text_null: "json_text Jnull ''null''"
| text_boolean: "json_text (Jboolean b) (if b then ''true'' else ''false'')"
| text_unsigned: "0 \<le> x \<Longrightarrow> x < 2 ^ 64 \<Longrightarrow> json_text (Jnumber_unsigned x) (dec x)"
| text_integer: "x < 0 \<Longrightarrow> - (2 ^ 63) \<le> x \<Longrightarrow> json_text (Jnumber_integer x) (dec x)"
| text_string: "esc s t \<Longrightarrow> json_text (Jstring s) (CHR 0x22 # t @ [CHR 0x22])"
| text_no_elements: "list_all is_ws ws \<Longrightarrow> json_text (Jarray []) (CHR ''['' # ws @ '']'')"
| text_array: "elements_text vs t \<Longrightarrow> list_all is_ws ws \<Longrightarrow> json_text (Jarray vs) (CHR ''['' # t @ ws @ '']'')"
| text_no_members: "list_all is_ws ws \<Longrightarrow> json_text (Jobject []) (CHR ''{'' # ws @ ''}'')"
| text_object: "members_text kvs t \<Longrightarrow> list_all is_ws ws \<Longrightarrow> json_text (Jobject (fold put_member kvs [])) (CHR ''{'' # t @ ws @ ''}'')"
| text_element: "list_all is_ws ws \<Longrightarrow> json_text v t \<Longrightarrow> elements_text [v] (ws @ t)"
| text_elements: "list_all is_ws ws \<Longrightarrow> json_text v t \<Longrightarrow> list_all is_ws ws' \<Longrightarrow> elements_text vs r \<Longrightarrow>
    elements_text (v # vs) (ws @ t @ ws' @ CHR '','' # r)"
| text_member: "list_all is_ws ws \<Longrightarrow> esc k kt \<Longrightarrow> list_all is_ws ws1 \<Longrightarrow> list_all is_ws ws2 \<Longrightarrow> json_text v t \<Longrightarrow>
    members_text [(k, v)] (ws @ CHR 0x22 # kt @ CHR 0x22 # ws1 @ CHR '':'' # ws2 @ t)"
| text_members: "list_all is_ws ws \<Longrightarrow> esc k kt \<Longrightarrow> list_all is_ws ws1 \<Longrightarrow> list_all is_ws ws2 \<Longrightarrow> json_text v t \<Longrightarrow>
    list_all is_ws ws' \<Longrightarrow> members_text kvs r \<Longrightarrow>
    members_text ((k, v) # kvs) (ws @ CHR 0x22 # kt @ CHR 0x22 # ws1 @ CHR '':'' # ws2 @ t @ ws' @ CHR '','' # r)"

section \<open>Steps of the parser\<close>

lemma sax_evaluate:
  "parse_value fl sax tok lx s = Inr (Evaluate, tok', lx', s') \<Longrightarrow>
   sax_parse_internal fl sax False states tok lx s = sax_parse_internal fl sax True states tok' lx' s'"
  by (simp add: sax_parse_internal.simps [of fl sax False] sax_parse_internal.simps [of fl sax True] parse_first_def)

lemma sax_push:
  "parse_value fl sax tok lx s = Inr (Push a, tok', lx', s') \<Longrightarrow>
   sax_parse_internal fl sax False states tok lx s = sax_parse_internal fl sax False (a # states) tok' lx' s'"
  by (simp add: sax_parse_internal.simps [of fl sax False states] parse_first_def)

lemma sax_next:
  "parse_second fl sax states tok lx s = Inr (Next, tok', lx', s') \<Longrightarrow>
   sax_parse_internal fl sax True states tok lx s = sax_parse_internal fl sax False states tok' lx' s'"
  by (simp add: sax_parse_internal.simps [of fl sax True states] parse_first_def)

lemma sax_pop:
  "parse_second fl sax (a # states) tok lx s = Inr (Pop, tok', lx', s') \<Longrightarrow>
   sax_parse_internal fl sax True (a # states) tok lx s = sax_parse_internal fl sax True states tok' lx' s'"
  by (simp add: sax_parse_internal.simps [of fl sax True "a # states"] parse_first_def)

section \<open>The parser reads the texts\<close>

text \<open>\<open>same_flags d d'\<close>: the same structures are open. \<open>stored d v d'\<close>: the value has been stored.\<close>

definition same_flags :: "'f dom_parser \<Rightarrow> 'f dom_parser \<Rightarrow> bool" where
  "same_flags d d' \<longleftrightarrow>
     dp_ref_stack d' = dp_ref_stack d \<and> dp_errored d' = dp_errored d \<and> dp_allow_exceptions d' = dp_allow_exceptions d"

definition stored :: "'f dom_parser \<Rightarrow> 'f json \<Rightarrow> 'f dom_parser \<Rightarrow> bool" where
  "stored d v d' \<longleftrightarrow> same_flags d d' \<and> dp_root d' = dp_root (snd (handle_value v d))"

definition reaches :: "'f float_ops \<Rightarrow> bool list \<Rightarrow> token_type \<Rightarrow> 'f lexer \<Rightarrow> 'f dom_parser \<Rightarrow> string \<Rightarrow> ('f dom_parser \<Rightarrow> bool) \<Rightarrow> bool" where
  "reaches fl states tok lx d rest Q \<longleftrightarrow>
     (\<exists>tok' lx' d'. sax_parse_internal fl dom_sax False states tok lx d = sax_parse_internal fl dom_sax True states tok' lx' d'
        \<and> ready lx' rest \<and> Q d')"

definition reads :: "'f float_ops \<Rightarrow> 'f json \<Rightarrow> string \<Rightarrow> bool" where
  "reads fl v t \<longleftrightarrow>
     (\<forall>lx ws rest states d. ready lx (ws @ t @ rest) \<and> list_all is_ws ws \<and> ends_number rest \<and> fits d \<longrightarrow>
        (\<exists>tok l. scan fl lx = (tok, l) \<and> tok \<noteq> end_array \<and> reaches fl states tok l d rest (stored d v)))"

definition reads_elements :: "'f float_ops \<Rightarrow> 'f json list \<Rightarrow> string \<Rightarrow> bool" where
  "reads_elements fl vs t \<longleftrightarrow>
     (\<forall>lx rest states d p st us. ready lx (t @ rest) \<and> ends_number rest \<and> dp_ref_stack d = p # st \<and> json_at p (dp_root d) = Some (Jarray us) \<longrightarrow>
        (\<exists>tok l. scan fl lx = (tok, l) \<and> tok \<noteq> end_array \<and>
           reaches fl (True # states) tok l d rest
             (\<lambda>d'. same_flags d d' \<and> dp_root d' = json_update p (\<lambda>_. Jarray (us @ vs)) (dp_root d))))"

definition reads_members :: "'f float_ops \<Rightarrow> (string \<times> 'f json) list \<Rightarrow> string \<Rightarrow> bool" where
  "reads_members fl kvs t \<longleftrightarrow>
     (\<forall>lx rest nx states d p st us. ready lx (t @ rest) \<and> ends_number rest \<and> dp_ref_stack d = p # st \<and> json_at p (dp_root d) = Some (Jobject us) \<longrightarrow>
        (\<exists>l tok l1 d1. scan fl lx = (value_string, l) \<and> parse_key fl dom_sax nx value_string l d = Inr (nx, tok, l1, d1) \<and>
           reaches fl (False # states) tok l1 d1 rest
             (\<lambda>d'. same_flags d d' \<and> dp_root d' = json_update p (\<lambda>_. Jobject (fold put_member kvs us)) (dp_root d))))"

lemma readsI:
  assumes "\<And>lx ws rest states d. ready lx (ws @ t @ rest) \<Longrightarrow> list_all is_ws ws \<Longrightarrow> ends_number rest \<Longrightarrow> fits d \<Longrightarrow>
    \<exists>tok l. scan fl lx = (tok, l) \<and> tok \<noteq> end_array \<and> reaches fl states tok l d rest (stored d v)"
  shows "reads fl v t"
  using assms unfolding reads_def by blast

lemma reads_event:
  assumes "\<And>lx ws rest. ready lx (ws @ t @ rest) \<Longrightarrow> list_all is_ws ws \<Longrightarrow> ends_number rest \<Longrightarrow>
    \<exists>tok l. scan fl lx = (tok, l) \<and> ready l rest \<and> tok \<noteq> end_array \<and> (\<forall>d. parse_value fl dom_sax tok l d = value_event (dom_value v) tok l d)"
  shows "reads fl v t"
proof (rule readsI)
  fix lx :: "'a lexer" and ws rest states and d :: "'a dom_parser"
  assume r: "ready lx (ws @ t @ rest)" "list_all is_ws ws" "ends_number rest" "fits d"
  obtain tok l where l: "scan fl lx = (tok, l)" "ready l rest" "tok \<noteq> end_array"
      "parse_value fl dom_sax tok l d = value_event (dom_value v) tok l d"
    using assms [OF r(1-3)] by blast
  obtain p F where F: "\<And>v. handle_value v d = (p, d\<lparr>dp_root := F v\<rparr>)" using handle_value_put [OF r(4)] by metis
  have "parse_value fl dom_sax tok l d = Inr (Evaluate, tok, l, d\<lparr>dp_root := F v\<rparr>)"
    using l(4) by (simp add: value_event_def dom_value_def F)
  from sax_evaluate [OF this] have "reaches fl states tok l d rest (stored d v)"
    unfolding reaches_def stored_def same_flags_def using l(2) F by fastforce
  then show "\<exists>tok l. scan fl lx = (tok, l) \<and> tok \<noteq> end_array \<and> reaches fl states tok l d rest (stored d v)"
    using l by blast
qed

lemma reads_literal:
  assumes "(t, tok) \<in> set literals" and "\<And>l d. parse_value fl dom_sax tok l d = value_event (dom_value v) tok l d"
  shows "reads fl v t"
proof (rule reads_event)
  fix lx :: "'a lexer" and ws rest
  assume "ready lx (ws @ t @ rest)" "list_all is_ws ws" "ends_number rest"
  then obtain l where "scan fl lx = (tok, l)" "ready l rest" using scan_literals [OF _ _ assms(1)] by blast
  moreover have "tok \<noteq> end_array" using assms(1) by (auto simp: literals_def)
  ultimately show "\<exists>tok l. scan fl lx = (tok, l) \<and> ready l rest \<and> tok \<noteq> end_array \<and> (\<forall>d. parse_value fl dom_sax tok l d = value_event (dom_value v) tok l d)"
    using assms(2) by blast
qed

lemma reads_unsigned: "0 \<le> x \<Longrightarrow> x < 2 ^ 64 \<Longrightarrow> reads fl (Jnumber_unsigned x) (dec x)"
proof (rule reads_event)
  fix lx :: "'a lexer" and ws rest
  assume "0 \<le> x" "x < 2 ^ 64" "ready lx (ws @ dec x @ rest)" "list_all is_ws ws" "ends_number rest"
  then obtain l where "scan fl lx = (value_unsigned, l)" "ready l rest" "lx_value_unsigned l = x"
    using scan_number_unsigned [of lx ws "nat x" rest fl] by (auto simp: dec_def)
  then show "\<exists>tok l. scan fl lx = (tok, l) \<and> ready l rest \<and> tok \<noteq> end_array \<and>
      (\<forall>d. parse_value fl dom_sax tok l d = value_event (dom_value (Jnumber_unsigned x)) tok l d)"
    by (simp add: parse_value_def)
qed

lemma reads_integer: "x < 0 \<Longrightarrow> - (2 ^ 63) \<le> x \<Longrightarrow> reads fl (Jnumber_integer x) (dec x)"
proof (rule reads_event)
  fix lx :: "'a lexer" and ws rest
  assume "x < 0" "- (2 ^ 63) \<le> x" "ready lx (ws @ dec x @ rest)" "list_all is_ws ws" "ends_number rest"
  then obtain l where "scan fl lx = (value_integer, l)" "ready l rest" "lx_value_integer l = x"
    using scan_number_negative [of lx ws x rest fl] by blast
  then show "\<exists>tok l. scan fl lx = (tok, l) \<and> ready l rest \<and> tok \<noteq> end_array \<and>
      (\<forall>d. parse_value fl dom_sax tok l d = value_event (dom_value (Jnumber_integer x)) tok l d)"
    by (simp add: parse_value_def)
qed

lemma reads_string: "esc s t \<Longrightarrow> reads fl (Jstring s) (CHR 0x22 # t @ [CHR 0x22])"
proof (rule reads_event)
  fix lx :: "'a lexer" and ws rest
  assume "esc s t" "ready lx (ws @ (CHR 0x22 # t @ [CHR 0x22]) @ rest)" "list_all is_ws ws" "ends_number rest"
  then obtain l where "scan fl lx = (value_string, l)" "ready l rest" "lx_token_buffer l = s"
    using scan_quoted [of lx ws t rest s fl] by auto
  then show "\<exists>tok l. scan fl lx = (tok, l) \<and> ready l rest \<and> tok \<noteq> end_array \<and>
      (\<forall>d. parse_value fl dom_sax tok l d = value_event (dom_value (Jstring s)) tok l d)"
    by (simp add: parse_value_def)
qed

lemma ends_number_blank:
  assumes "list_all is_ws ws" and "c \<in> {CHR '','', CHR '']'', CHR ''}''}"
  shows "ends_number (ws @ c # s)"
proof -
  have "ends_number (w # r)" if "is_ws w" for w r
    using that by (auto simp: is_ws_def is_space_def ends_number_def digit_range is_digit_def)
  then show ?thesis using assms by (cases ws) (auto simp: ends_number_def digit_range is_digit_def)
qed

text \<open>An opened structure: it is the innermost one and empty; when it is closed, what it has become has been stored.\<close>

lemma dom_start_opens:
  assumes "fits d"
  obtains p d1 where "dom_start v d = Inr (True, d1)" "dp_ref_stack d1 = p # dp_ref_stack d" "json_at p (dp_root d1) = Some v"
    "\<And>w d2. same_flags d1 d2 \<Longrightarrow> dp_root d2 = json_update p (\<lambda>_. w) (dp_root d1) \<Longrightarrow>
       dom_end d2 = Inr (True, d2\<lparr>dp_ref_stack := dp_ref_stack d\<rparr>) \<and> stored d w (d2\<lparr>dp_ref_stack := dp_ref_stack d\<rparr>)"
    "stored d v (d1\<lparr>dp_ref_stack := dp_ref_stack d\<rparr>)" "dom_end d1 = Inr (True, d1\<lparr>dp_ref_stack := dp_ref_stack d\<rparr>)"
proof -
  obtain p F where F: "\<And>v. handle_value v d = (p, d\<lparr>dp_root := F v\<rparr>)" "\<And>v. json_at p (F v) = Some v" "\<And>f v. json_update p f (F v) = F (f v)"
    using handle_value_put [OF assms] by metis
  let ?d1 = "d\<lparr>dp_root := F v, dp_ref_stack := p # dp_ref_stack d\<rparr>"
  show ?thesis
    by (rule that [of ?d1 p]) (simp_all add: dom_start_def dom_end_def F stored_def same_flags_def)
qed

lemma closes:
  assumes "scan fl lx = (t, l)" and "t = (if a then end_array else end_object)" and "dom_end d = Inr (True, d')"
  shows "sax_parse_internal fl dom_sax True (a # states) tok lx d = sax_parse_internal fl dom_sax True states t l d'"
  by (rule sax_pop) (use assms in \<open>simp add: parse_second_def parse_array_state_def parse_object_state_def close_event_def\<close>)

lemma reads_no_elements: "list_all is_ws ws \<Longrightarrow> reads fl (Jarray []) (CHR ''['' # ws @ '']'')"
proof (rule readsI)
  fix lx :: "'a lexer" and ws' rest states and d :: "'a dom_parser"
  assume r: "list_all is_ws ws" "ready lx (ws' @ (CHR ''['' # ws @ '']'') @ rest)" "list_all is_ws ws'" "fits d"
  obtain l where l: "scan fl lx = (begin_array, l)" "ready l (ws @ CHR '']'' # rest)"
    using scan_structural [of lx ws' "CHR ''[''" "ws @ CHR '']'' # rest" begin_array fl] r(2,3) by (auto simp: structural_def)
  obtain l1 where l1: "scan fl l = (end_array, l1)" "ready l1 rest"
    using scan_structural [OF l(2) r(1), of end_array fl] by (auto simp: structural_def)
  obtain d1 where d1: "dom_start (Jarray []) d = Inr (True, d1)" "stored d (Jarray []) (d1\<lparr>dp_ref_stack := dp_ref_stack d\<rparr>)"
      "dom_end d1 = Inr (True, d1\<lparr>dp_ref_stack := dp_ref_stack d\<rparr>)"
    using dom_start_opens [OF r(4)] by metis
  have "parse_value fl dom_sax begin_array l d = Inr (Evaluate, end_array, l1, d1\<lparr>dp_ref_stack := dp_ref_stack d\<rparr>)"
    using l1(1) d1 by (simp add: parse_value_def parse_begin_array_def value_event_def)
  from sax_evaluate [OF this] have "reaches fl states begin_array l d rest (stored d (Jarray []))"
    unfolding reaches_def using l1(2) d1(2) by blast
  then show "\<exists>tok l. scan fl lx = (tok, l) \<and> tok \<noteq> end_array \<and> reaches fl states tok l d rest (stored d (Jarray []))"
    using l(1) by blast
qed

lemma reads_no_members: "list_all is_ws ws \<Longrightarrow> reads fl (Jobject []) (CHR ''{'' # ws @ ''}'')"
proof (rule readsI)
  fix lx :: "'a lexer" and ws' rest states and d :: "'a dom_parser"
  assume r: "list_all is_ws ws" "ready lx (ws' @ (CHR ''{'' # ws @ ''}'') @ rest)" "list_all is_ws ws'" "fits d"
  obtain l where l: "scan fl lx = (begin_object, l)" "ready l (ws @ CHR ''}'' # rest)"
    using scan_structural [of lx ws' "CHR ''{''" "ws @ CHR ''}'' # rest" begin_object fl] r(2,3) by (auto simp: structural_def)
  obtain l1 where l1: "scan fl l = (end_object, l1)" "ready l1 rest"
    using scan_structural [OF l(2) r(1), of end_object fl] by (auto simp: structural_def)
  obtain d1 where d1: "dom_start (Jobject []) d = Inr (True, d1)" "stored d (Jobject []) (d1\<lparr>dp_ref_stack := dp_ref_stack d\<rparr>)"
      "dom_end d1 = Inr (True, d1\<lparr>dp_ref_stack := dp_ref_stack d\<rparr>)"
    using dom_start_opens [OF r(4)] by metis
  have "parse_value fl dom_sax begin_object l d = Inr (Evaluate, end_object, l1, d1\<lparr>dp_ref_stack := dp_ref_stack d\<rparr>)"
    using l1(1) d1 by (simp add: parse_value_def parse_begin_object_def value_event_def)
  from sax_evaluate [OF this] have "reaches fl states begin_object l d rest (stored d (Jobject []))"
    unfolding reaches_def using l1(2) d1(2) by blast
  then show "\<exists>tok l. scan fl lx = (tok, l) \<and> tok \<noteq> end_array \<and> reaches fl states tok l d rest (stored d (Jobject []))"
    using l(1) by blast
qed

lemma reads_array:
  assumes "reads_elements fl vs t" and "list_all is_ws ws"
  shows "reads fl (Jarray vs) (CHR ''['' # t @ ws @ '']'')"
proof (rule readsI)
  fix lx :: "'a lexer" and ws' rest states and d :: "'a dom_parser"
  assume r: "ready lx (ws' @ (CHR ''['' # t @ ws @ '']'') @ rest)" "list_all is_ws ws'" "fits d"
  let ?c = "ws @ CHR '']'' # rest"
  obtain l where l: "scan fl lx = (begin_array, l)" "ready l (t @ ?c)"
    using scan_structural [of lx ws' "CHR ''[''" "t @ ?c" begin_array fl] r(1,2) by (auto simp: structural_def)
  obtain p d1 where d1: "dom_start (Jarray []) d = Inr (True, d1)" "dp_ref_stack d1 = p # dp_ref_stack d" "json_at p (dp_root d1) = Some (Jarray [])"
    and close: "\<And>w d2. same_flags d1 d2 \<Longrightarrow> dp_root d2 = json_update p (\<lambda>_. w) (dp_root d1) \<Longrightarrow>
       dom_end d2 = Inr (True, d2\<lparr>dp_ref_stack := dp_ref_stack d\<rparr>) \<and> stored d w (d2\<lparr>dp_ref_stack := dp_ref_stack d\<rparr>)"
    using dom_start_opens [OF r(3), of "Jarray []"] by metis
  have "ends_number ?c" using assms(2) by (intro ends_number_blank) auto
  then obtain tok l1 tok2 l2 d2 where e: "scan fl l = (tok, l1)" "tok \<noteq> end_array"
      "sax_parse_internal fl dom_sax False (True # states) tok l1 d1 = sax_parse_internal fl dom_sax True (True # states) tok2 l2 d2"
      "ready l2 ?c" "same_flags d1 d2" "dp_root d2 = json_update p (\<lambda>_. Jarray vs) (dp_root d1)"
    using assms(1) [unfolded reads_elements_def reaches_def, rule_format, of l ?c d1 p "dp_ref_stack d" "[]" states] l(2) d1(2,3) by auto
  obtain l3 where l3: "scan fl l2 = (end_array, l3)" "ready l3 rest"
    using scan_structural [OF e(4) assms(2), of end_array fl] by (auto simp: structural_def)
  let ?d3 = "d2\<lparr>dp_ref_stack := dp_ref_stack d\<rparr>"
  have d3: "dom_end d2 = Inr (True, ?d3)" "stored d (Jarray vs) ?d3" using close [OF e(5,6)] by auto
  have "parse_value fl dom_sax begin_array l d = Inr (Push True, tok, l1, d1)"
    using e(1,2) d1(1) by (simp add: parse_value_def parse_begin_array_def)
  from sax_push [OF this, of states] have "reaches fl states begin_array l d rest (stored d (Jarray vs))"
    unfolding reaches_def e(3) closes [OF l3(1) _ d3(1), of True states tok2, simplified] using l3(2) d3(2) by blast
  then show "\<exists>tok l. scan fl lx = (tok, l) \<and> tok \<noteq> end_array \<and> reaches fl states tok l d rest (stored d (Jarray vs))"
    using l(1) by blast
qed

lemma reads_object:
  assumes "reads_members fl kvs t" and "list_all is_ws ws"
  shows "reads fl (Jobject (fold put_member kvs [])) (CHR ''{'' # t @ ws @ ''}'')"
proof (rule readsI)
  fix lx :: "'a lexer" and ws' rest states and d :: "'a dom_parser"
  assume r: "ready lx (ws' @ (CHR ''{'' # t @ ws @ ''}'') @ rest)" "list_all is_ws ws'" "fits d"
  let ?c = "ws @ CHR ''}'' # rest" and ?v = "Jobject (fold put_member kvs [])"
  obtain l where l: "scan fl lx = (begin_object, l)" "ready l (t @ ?c)"
    using scan_structural [of lx ws' "CHR ''{''" "t @ ?c" begin_object fl] r(1,2) by (auto simp: structural_def)
  obtain p d1 where d1: "dom_start (Jobject []) d = Inr (True, d1)" "dp_ref_stack d1 = p # dp_ref_stack d" "json_at p (dp_root d1) = Some (Jobject [])"
    and close: "\<And>w d2. same_flags d1 d2 \<Longrightarrow> dp_root d2 = json_update p (\<lambda>_. w) (dp_root d1) \<Longrightarrow>
       dom_end d2 = Inr (True, d2\<lparr>dp_ref_stack := dp_ref_stack d\<rparr>) \<and> stored d w (d2\<lparr>dp_ref_stack := dp_ref_stack d\<rparr>)"
    using dom_start_opens [OF r(3), of "Jobject []"] by metis
  have "ends_number ?c" using assms(2) by (intro ends_number_blank) auto
  then obtain l1 tok l2 d2 tok2 l4 d4 where e: "scan fl l = (value_string, l1)"
      "parse_key fl dom_sax (Push False) value_string l1 d1 = Inr (Push False, tok, l2, d2)"
      "sax_parse_internal fl dom_sax False (False # states) tok l2 d2 = sax_parse_internal fl dom_sax True (False # states) tok2 l4 d4"
      "ready l4 ?c" "same_flags d1 d4" "dp_root d4 = json_update p (\<lambda>_. ?v) (dp_root d1)"
    using assms(1) [unfolded reads_members_def reaches_def, rule_format, of l ?c d1 p "dp_ref_stack d" "[]" "Push False" states] l(2) d1(2,3) by blast
  obtain l3 where l3: "scan fl l4 = (end_object, l3)" "ready l3 rest"
    using scan_structural [OF e(4) assms(2), of end_object fl] by (auto simp: structural_def)
  let ?d3 = "d4\<lparr>dp_ref_stack := dp_ref_stack d\<rparr>"
  have d3: "dom_end d4 = Inr (True, ?d3)" "stored d ?v ?d3" using close [OF e(5,6)] by auto
  have "parse_value fl dom_sax begin_object l d = Inr (Push False, tok, l2, d2)"
    using e(1,2) d1(1) by (simp add: parse_value_def parse_begin_object_def)
  from sax_push [OF this, of states] have "reaches fl states begin_object l d rest (stored d ?v)"
    unfolding reaches_def e(3) closes [OF l3(1) _ d3(1), of False states tok2, simplified] using l3(2) d3(2) by blast
  then show "\<exists>tok l. scan fl lx = (tok, l) \<and> tok \<noteq> end_array \<and> reaches fl states tok l d rest (stored d ?v)"
    using l(1) by blast
qed

lemma reads_then:
  assumes "reads fl v t" and "ready lx (ws @ t @ rest)" and "list_all is_ws ws" and "ends_number rest" and "fits d"
  obtains tok l tok' l' d' where "scan fl lx = (tok, l)" "tok \<noteq> end_array"
    "sax_parse_internal fl dom_sax False states tok l d = sax_parse_internal fl dom_sax True states tok' l' d'" "ready l' rest" "stored d v d'"
  using assms unfolding reads_def reaches_def by metis

lemma element_stored:
  assumes "dp_ref_stack d = p # st" and "json_at p (dp_root d) = Some (Jarray us)"
  shows "fits d" "stored d v d' \<longleftrightarrow> same_flags d d' \<and> dp_root d' = json_update p (\<lambda>_. Jarray (us @ [v])) (dp_root d)"
  using assms handle_value_array [OF assms] by (simp_all add: fits_def stored_def)

lemma reads_element:
  assumes "list_all is_ws ws" and "reads fl v t"
  shows "reads_elements fl [v] (ws @ t)"
  unfolding reads_elements_def
proof (intro allI impI)
  fix lx :: "'a lexer" and rest states and d :: "'a dom_parser" and p st us
  assume r: "ready lx ((ws @ t) @ rest) \<and> ends_number rest \<and> dp_ref_stack d = p # st \<and> json_at p (dp_root d) = Some (Jarray us)"
  have f: "fits d" "\<And>d'. stored d v d' \<longleftrightarrow> same_flags d d' \<and> dp_root d' = json_update p (\<lambda>_. Jarray (us @ [v])) (dp_root d)"
    using element_stored [of d p st us] r by auto
  from r have "ready lx (ws @ t @ rest)" "ends_number rest" by auto
  from reads_then [OF assms(2) this(1) assms(1) this(2) f(1), of "True # states"]
  show "\<exists>tok l. scan fl lx = (tok, l) \<and> tok \<noteq> end_array \<and> reaches fl (True # states) tok l d rest
      (\<lambda>d'. same_flags d d' \<and> dp_root d' = json_update p (\<lambda>_. Jarray (us @ [v])) (dp_root d))"
    unfolding reaches_def f(2) by metis
qed

lemma reads_more_elements:
  assumes "list_all is_ws ws" and "reads fl v t" and "list_all is_ws ws'" and "reads_elements fl vs r"
  shows "reads_elements fl (v # vs) (ws @ t @ ws' @ CHR '','' # r)"
  unfolding reads_elements_def
proof (intro allI impI)
  fix lx :: "'a lexer" and rest states and d :: "'a dom_parser" and p st us
  assume a: "ready lx ((ws @ t @ ws' @ CHR '','' # r) @ rest) \<and> ends_number rest \<and> dp_ref_stack d = p # st \<and> json_at p (dp_root d) = Some (Jarray us)"
  let ?r = "ws' @ CHR '','' # r @ rest"
  have f: "fits d" "\<And>d'. stored d v d' \<longleftrightarrow> same_flags d d' \<and> dp_root d' = json_update p (\<lambda>_. Jarray (us @ [v])) (dp_root d)"
    using element_stored [of d p st us] a by auto
  have "ready lx (ws @ t @ ?r)" "ends_number ?r" using a assms(3) ends_number_blank by auto
  from reads_then [OF assms(2) this(1) assms(1) this(2) f(1), of "True # states"]
  obtain tok l tok1 l1 d1 where 1: "scan fl lx = (tok, l)" "tok \<noteq> end_array"
      "sax_parse_internal fl dom_sax False (True # states) tok l d = sax_parse_internal fl dom_sax True (True # states) tok1 l1 d1"
      "ready l1 ?r" "same_flags d d1" "dp_root d1 = json_update p (\<lambda>_. Jarray (us @ [v])) (dp_root d)"
    unfolding f(2) by metis
  obtain l2 where 2: "scan fl l1 = (value_separator, l2)" "ready l2 (r @ rest)"
    using scan_structural [OF 1(4) assms(3), of value_separator fl] by (auto simp: structural_def)
  have at: "json_at p (dp_root d1) = Some (Jarray (us @ [v]))" "dp_ref_stack d1 = p # st"
    using json_at_update [of p "dp_root d"] a 1(5,6) by (auto simp: same_flags_def)
  obtain tok3 l3 tok4 l4 d4 where 3: "scan fl l2 = (tok3, l3)"
      "sax_parse_internal fl dom_sax False (True # states) tok3 l3 d1 = sax_parse_internal fl dom_sax True (True # states) tok4 l4 d4"
      "ready l4 rest" "same_flags d1 d4" "dp_root d4 = json_update p (\<lambda>_. Jarray ((us @ [v]) @ vs)) (dp_root d1)"
    using assms(4) [unfolded reads_elements_def reaches_def, rule_format, of l2 rest d1 p st "us @ [v]" states] 2(2) a at by blast
  have "parse_second fl dom_sax (True # states) tok1 l1 d1 = Inr (Next, tok3, l3, d1)"
    using 2(1) 3(1) by (simp add: parse_second_def parse_array_state_def)
  from sax_next [OF this] have s: "sax_parse_internal fl dom_sax False (True # states) tok l d = sax_parse_internal fl dom_sax True (True # states) tok4 l4 d4"
    using 1(3) 3(2) by simp
  have "same_flags d d4" "dp_root d4 = json_update p (\<lambda>_. Jarray (us @ v # vs)) (dp_root d)"
    using 1(5,6) 3(4,5) by (simp_all add: same_flags_def json_update_update)
  then show "\<exists>tok l. scan fl lx = (tok, l) \<and> tok \<noteq> end_array \<and> reaches fl (True # states) tok l d rest
      (\<lambda>d'. same_flags d d' \<and> dp_root d' = json_update p (\<lambda>_. Jarray (us @ v # vs)) (dp_root d))"
    unfolding reaches_def using 1(1,2) s 3(3) by blast
qed

text \<open>One member: its key, the colon and its value.\<close>

lemma reads_one_member:
  assumes "list_all is_ws ws" "esc k kt" "list_all is_ws ws1" "list_all is_ws ws2" "reads fl v t"
    and "ready lx (ws @ CHR 0x22 # kt @ CHR 0x22 # ws1 @ CHR '':'' # ws2 @ t @ rest)" and "ends_number rest"
    and "dp_ref_stack d = p # st" and "json_at p (dp_root d) = Some (Jobject us)"
  obtains l tok l1 d1 tok' l' d' where "scan fl lx = (value_string, l)" "parse_key fl dom_sax nx value_string l d = Inr (nx, tok, l1, d1)"
    "sax_parse_internal fl dom_sax False states tok l1 d1 = sax_parse_internal fl dom_sax True states tok' l' d'" "ready l' rest"
    "same_flags d d'" "dp_root d' = json_update p (\<lambda>_. Jobject (put_member (k, v) us)) (dp_root d)"
proof -
  obtain l where l: "scan fl lx = (value_string, l)" "ready l (ws1 @ CHR '':'' # ws2 @ t @ rest)" "lx_token_buffer l = k"
    using scan_quoted [OF assms(6,1,2)] .
  obtain l1 where l1: "scan fl l = (name_separator, l1)" "ready l1 (ws2 @ t @ rest)"
    using scan_structural [OF l(2) assms(3), of name_separator fl] by (auto simp: structural_def)
  obtain d1 where d1: "dom_key k d = Inr (True, d1)" by (simp add: dom_key_def Let_def)
  note m = dom_key_then_value [OF assms(8,9) d1]
  obtain tok l2 tok' l' d' where 2: "scan fl l1 = (tok, l2)"
      "sax_parse_internal fl dom_sax False states tok l2 d1 = sax_parse_internal fl dom_sax True states tok' l' d'" "ready l' rest" "stored d1 v d'"
    using reads_then [OF assms(5) l1(2) assms(4,7) m(1), of states] by metis
  have "parse_key fl dom_sax nx value_string l d = Inr (nx, tok, l2, d1)"
    using l(3) l1(1) 2(1) d1 by (simp add: parse_key_def)
  moreover have "same_flags d d'" "dp_root d' = json_update p (\<lambda>_. Jobject (put_member (k, v) us)) (dp_root d)"
    using 2(4) m(2,3,4,5) assms(8) by (simp_all add: stored_def same_flags_def)
  ultimately show ?thesis using that l(1) 2(2,3) by blast
qed

lemma reads_member:
  assumes "list_all is_ws ws" "esc k kt" "list_all is_ws ws1" "list_all is_ws ws2" "reads fl v t"
  shows "reads_members fl [(k, v)] (ws @ CHR 0x22 # kt @ CHR 0x22 # ws1 @ CHR '':'' # ws2 @ t)"
  unfolding reads_members_def
proof (intro allI impI)
  fix lx :: "'a lexer" and rest nx states and d :: "'a dom_parser" and p st us
  assume a: "ready lx ((ws @ CHR 0x22 # kt @ CHR 0x22 # ws1 @ CHR '':'' # ws2 @ t) @ rest) \<and> ends_number rest \<and> dp_ref_stack d = p # st
      \<and> json_at p (dp_root d) = Some (Jobject us)"
  then have "ready lx (ws @ CHR 0x22 # kt @ CHR 0x22 # ws1 @ CHR '':'' # ws2 @ t @ rest)" "ends_number rest" "dp_ref_stack d = p # st"
      "json_at p (dp_root d) = Some (Jobject us)"
    by auto
  from reads_one_member [OF assms this, of nx "False # states"]
  show "\<exists>l tok l1 d1. scan fl lx = (value_string, l) \<and> parse_key fl dom_sax nx value_string l d = Inr (nx, tok, l1, d1) \<and>
      reaches fl (False # states) tok l1 d1 rest
        (\<lambda>d'. same_flags d d' \<and> dp_root d' = json_update p (\<lambda>_. Jobject (fold put_member [(k, v)] us)) (dp_root d))"
    unfolding reaches_def by simp metis
qed

lemma reads_more_members:
  assumes "list_all is_ws ws" "esc k kt" "list_all is_ws ws1" "list_all is_ws ws2" "reads fl v t" and ws': "list_all is_ws ws'"
    and more: "reads_members fl kvs r"
  shows "reads_members fl ((k, v) # kvs) (ws @ CHR 0x22 # kt @ CHR 0x22 # ws1 @ CHR '':'' # ws2 @ t @ ws' @ CHR '','' # r)"
  unfolding reads_members_def
proof (intro allI impI)
  fix lx :: "'a lexer" and rest nx states and d :: "'a dom_parser" and p st us
  assume a: "ready lx ((ws @ CHR 0x22 # kt @ CHR 0x22 # ws1 @ CHR '':'' # ws2 @ t @ ws' @ CHR '','' # r) @ rest) \<and> ends_number rest
      \<and> dp_ref_stack d = p # st \<and> json_at p (dp_root d) = Some (Jobject us)"
  let ?r = "ws' @ CHR '','' # r @ rest"
  have "ready lx (ws @ CHR 0x22 # kt @ CHR 0x22 # ws1 @ CHR '':'' # ws2 @ t @ ?r)" "ends_number ?r" "dp_ref_stack d = p # st"
      "json_at p (dp_root d) = Some (Jobject us)"
    using a ws' ends_number_blank by auto
  from reads_one_member [OF assms(1-5) this, of nx "False # states"]
  obtain l tok l1 d1 tok2 l2 d2 where 1: "scan fl lx = (value_string, l)" "parse_key fl dom_sax nx value_string l d = Inr (nx, tok, l1, d1)"
      "sax_parse_internal fl dom_sax False (False # states) tok l1 d1 = sax_parse_internal fl dom_sax True (False # states) tok2 l2 d2" "ready l2 ?r"
      "same_flags d d2" "dp_root d2 = json_update p (\<lambda>_. Jobject (put_member (k, v) us)) (dp_root d)"
    by metis
  obtain l3 where 2: "scan fl l2 = (value_separator, l3)" "ready l3 (r @ rest)"
    using scan_structural [OF 1(4) ws', of value_separator fl] by (auto simp: structural_def)
  have at: "json_at p (dp_root d2) = Some (Jobject (put_member (k, v) us))" "dp_ref_stack d2 = p # st"
    using json_at_update [of p "dp_root d"] a 1(5,6) by (auto simp: same_flags_def)
  obtain l4 tok5 l5 d5 tok6 l6 d6 where 3: "scan fl l3 = (value_string, l4)" "parse_key fl dom_sax Next value_string l4 d2 = Inr (Next, tok5, l5, d5)"
      "sax_parse_internal fl dom_sax False (False # states) tok5 l5 d5 = sax_parse_internal fl dom_sax True (False # states) tok6 l6 d6"
      "ready l6 rest" "same_flags d2 d6" "dp_root d6 = json_update p (\<lambda>_. Jobject (fold put_member kvs (put_member (k, v) us))) (dp_root d2)"
    using more [unfolded reads_members_def reaches_def, rule_format, of l3 rest d2 p st "put_member (k, v) us" Next states] 2(2) a at by blast
  have "parse_second fl dom_sax (False # states) tok2 l2 d2 = Inr (Next, tok5, l5, d5)"
    using 2(1) 3(1,2) by (simp add: parse_second_def parse_object_state_def)
  from sax_next [OF this] have s: "sax_parse_internal fl dom_sax False (False # states) tok l1 d1 = sax_parse_internal fl dom_sax True (False # states) tok6 l6 d6"
    using 1(3) 3(3) by simp
  have "same_flags d d6" "dp_root d6 = json_update p (\<lambda>_. Jobject (fold put_member ((k, v) # kvs) us)) (dp_root d)"
    using 1(5,6) 3(5,6) by (simp_all add: same_flags_def json_update_update)
  then show "\<exists>l tok l1 d1. scan fl lx = (value_string, l) \<and> parse_key fl dom_sax nx value_string l d = Inr (nx, tok, l1, d1) \<and>
      reaches fl (False # states) tok l1 d1 rest
        (\<lambda>d'. same_flags d d' \<and> dp_root d' = json_update p (\<lambda>_. Jobject (fold put_member ((k, v) # kvs) us)) (dp_root d))"
    unfolding reaches_def using 1(1,2) s 3(4) by blast
qed

lemma text_reads: "json_text v t \<Longrightarrow> reads fl v t"
  and elements_text_reads: "elements_text vs t \<Longrightarrow> reads_elements fl vs t"
  and members_text_reads: "members_text kvs t \<Longrightarrow> reads_members fl kvs t"
proof (induction rule: json_text_elements_text_members_text.inducts)
  case text_null
  show ?case by (rule reads_literal [of _ literal_null]) (simp_all add: literals_def parse_value_def)
next
  case (text_boolean b)
  show ?case
    by (rule reads_literal [of _ "if b then literal_true else literal_false"]) (simp_all add: literals_def parse_value_def)
qed (simp_all add: reads_unsigned reads_integer reads_string reads_no_elements reads_array reads_no_members reads_object
    reads_element reads_more_elements reads_member reads_more_members)

lemma parse_text:
  assumes "json_text v t" and "list_all is_ws ws" and "list_all is_ws ws'"
  shows "json_parse fl allow (ws @ t @ ws') = Inr v"
proof -
  let ?lx = "new_lexer fl (ws @ t @ ws')" and ?d = "new_dom_parser allow :: 'a dom_parser"
  have "ready ?lx (ws @ t @ ws')" by (simp add: new_lexer_def ready_def lexer_ok_def remaining_def)
  moreover have "ends_number ws'"
    using assms(3) by (cases ws') (auto simp: is_ws_def is_space_def ends_number_def digit_range is_digit_def)
  moreover have "fits ?d" by (simp add: fits_def new_dom_parser_def)
  ultimately obtain tok l tok' l' d' where 1: "scan fl ?lx = (tok, l)"
      "sax_parse_internal fl dom_sax False [] tok l ?d = sax_parse_internal fl dom_sax True [] tok' l' d'" "ready l' ws'" "stored ?d v d'"
    using reads_then [OF text_reads [OF assms(1)], of ?lx ws ws' ?d fl "[]"] assms(2) by metis
  obtain l2 where 2: "scan fl l' = (end_of_input, l2)" using scan_end [OF 1(3) assms(3)] .
  have "sax_parse_internal fl dom_sax True [] tok' l' d' = Inr (True, tok', l', d')"
    by (subst sax_parse_internal.simps) (simp add: parse_first_def parse_second_def)
  then show ?thesis
    using 1(1,2,4) 2
    by (simp add: json_parse_def new_parser_def parser_parse_def stored_def same_flags_def new_dom_parser_def handle_value_def)
qed

section \<open>Well-formed values\<close>

text \<open>
  The keys of an object are those of a \<^verbatim>\<open>std::map\<close>: sorted, each once; numbers are within their 64 bits; strings are valid UTF-8;
  there is no discarded value.
\<close>

fun wf_json :: "'f json \<Rightarrow> bool" where
  "wf_json (Jobject kvs) \<longleftrightarrow> sorted_wrt (<) (map fst kvs) \<and> list_all (\<lambda>e. valid_utf8 (fst e) \<and> wf_json (snd e)) kvs"
| "wf_json (Jarray vs) \<longleftrightarrow> list_all wf_json vs"
| "wf_json (Jstring s) \<longleftrightarrow> valid_utf8 s"
| "wf_json (Jnumber_integer x) \<longleftrightarrow> - (2 ^ 63) \<le> x \<and> x < 2 ^ 63"
| "wf_json (Jnumber_unsigned x) \<longleftrightarrow> 0 \<le> x \<and> x < 2 ^ 64"
| "wf_json Jdiscarded \<longleftrightarrow> False"
| "wf_json _ \<longleftrightarrow> True"

text \<open>What the serializer can write as it is: no floating-point number and not the least integer.\<close>

fun plain_json :: "'f json \<Rightarrow> bool" where
  "plain_json (Jobject kvs) \<longleftrightarrow> list_all (\<lambda>e. plain_json (snd e)) kvs"
| "plain_json (Jarray vs) \<longleftrightarrow> list_all plain_json vs"
| "plain_json (Jnumber_integer x) \<longleftrightarrow> x \<noteq> - (2 ^ 63)"
| "plain_json (Jnumber_float _) \<longleftrightarrow> False"
| "plain_json _ \<longleftrightarrow> True"

text \<open>An integer without a sign is read as an unsigned one.\<close>

fun normal_json :: "'f json \<Rightarrow> 'f json" where
  "normal_json (Jobject kvs) = Jobject (map (\<lambda>e. (fst e, normal_json (snd e))) kvs)"
| "normal_json (Jarray vs) = Jarray (map normal_json vs)"
| "normal_json (Jnumber_integer x) = (if x < 0 then Jnumber_integer x else Jnumber_unsigned x)"
| "normal_json v = v"

section \<open>The serializer writes texts\<close>

lemma ws_chars: "is_ws (CHR '' '')" "is_ws (CHR 0x0A)"
  by (simp_all add: is_ws_def is_space_def)

lemma grow_indent_ws: "list_all is_ws ind \<Longrightarrow> list_all is_ws (grow_indent n ind)"
  using ws_chars(1) by (auto simp: grow_indent_def list_all_iff)

lemma write_indent_ws: "write_indent n ind = Inr w \<Longrightarrow> list_all is_ws ind \<Longrightarrow> list_all is_ws w"
  by (auto simp: write_indent_def list_all_iff dest: in_set_takeD split: if_splits)

lemma maybe_indent_ws: "(if pretty then write_indent n ind else Inr []) = Inr w \<Longrightarrow> list_all is_ws ind \<Longrightarrow> list_all is_ws w"
  by (auto dest: write_indent_ws split: if_splits)

lemma nl_ws: "list_all is_ws nl"
  using ws_chars(2) by (simp add: nl_def)

lemma dump_number_text:
  assumes "lift_fault (dump_integer sgnd x (replicate 64 (CHR 0x00))) = Inr t" and "if sgnd then - (2 ^ 63) \<le> x \<and> x < 2 ^ 63 else 0 \<le> x \<and> x < 2 ^ 64"
  shows "t = dec x"
proof (cases "x = - (2 ^ 63)")
  case True
  then show ?thesis using assms dump_integer_least [of "replicate 64 (CHR 0x00)"] by (auto simp: lift_fault_def split: if_splits)
next
  case False
  have "dump_integer sgnd x (replicate 64 (CHR 0x00)) = Inr (dec x)"
    using False assms(2) by (intro dump_integer_dec) (auto split: if_splits)
  then show ?thesis using assms(1) by (simp add: lift_fault_def)
qed

lemma rbind_pairE:
  assumes "rbind m f = Inr y"
  obtains a b where "m = Inr (a, b)" "f (a, b) = Inr y"
  using assms by (auto simp: rbind_eq_Inr)

lemma elements_text_ws: "elements_text vs t \<Longrightarrow> list_all is_ws ws \<Longrightarrow> elements_text vs (ws @ t)"
proof (induction rule: json_text_elements_text_members_text.inducts(2) [where ?P1.0 = "\<lambda>_ _. True" and ?P3.0 = "\<lambda>_ _. True"])
  case (text_element ws' v t)
  then show ?case using json_text_elements_text_members_text.text_element [of "ws @ ws'" v t] by simp
next
  case (text_elements ws1 v t ws' vs r)
  then show ?case using json_text_elements_text_members_text.text_elements [of "ws @ ws1" v t ws' vs r] by simp
qed simp_all

lemma members_text_ws: "members_text kvs t \<Longrightarrow> list_all is_ws ws \<Longrightarrow> members_text kvs (ws @ t)"
proof (induction rule: json_text_elements_text_members_text.inducts(3) [where ?P1.0 = "\<lambda>_ _. True" and ?P2.0 = "\<lambda>_ _. True"])
  case (text_member ws' k kt ws1 ws2 v t)
  then show ?case using json_text_elements_text_members_text.text_member [of "ws @ ws'" k kt ws1 ws2 v t] by simp
next
  case (text_members ws0 k kt ws1 ws2 v t ws' kvs r)
  then show ?case using json_text_elements_text_members_text.text_members [of "ws @ ws0" k kt ws1 ws2 v t ws' kvs r] by simp
qed simp_all

abbreviation normal_members :: "(string \<times> 'f json) list \<Rightarrow> (string \<times> 'f json) list" where
  "normal_members kvs \<equiv> map (\<lambda>e. (fst e, normal_json (snd e))) kvs"

lemma dump_object_text:
  assumes "dump_json fl h pretty e step cur ind (Jobject kvs) = Inr (t, ind')" and "sorted_wrt (<) (map fst kvs)" and "list_all is_ws ind"
    and IH: "\<And>p n i s i'. kvs \<noteq> [] \<Longrightarrow> dump_members fl h p e step n i kvs = Inr (s, i') \<Longrightarrow> p = pretty \<Longrightarrow>
        i = (if pretty then grow_indent n ind else ind) \<Longrightarrow> n = (if pretty then (cur + step) mod 2 ^ 32 else cur) \<Longrightarrow>
        members_text (normal_members kvs) s \<and> list_all is_ws i'"
  shows "json_text (normal_json (Jobject kvs)) t \<and> list_all is_ws ind'"
proof (cases "kvs = []")
  case True
  then show ?thesis using assms(1,3) text_no_members [of "[]"] by auto
next
  case False
  let ?n = "if pretty then (cur + step) mod 2 ^ 32 else cur"
  obtain s where s: "dump_members fl h pretty e step ?n (if pretty then grow_indent ?n ind else ind) kvs = Inr (s, ind')"
      and t: "list_all is_ws ind' \<longrightarrow> (\<exists>ws. list_all is_ws ws \<and> (t = ''{'' @ s @ ws @ ''}'' \<or> t = ''{'' @ nl @ s @ nl @ ws @ ''}''))"
  proof (cases pretty)
    case True
    with assms(1) False obtain s w where w: "dump_members fl h pretty e step ?n (grow_indent ?n ind) kvs = Inr (s, ind')"
        "write_indent cur ind' = Inr w" "t = ''{'' @ nl @ s @ nl @ w @ ''}''"
      by (auto simp: Let_def rbind_eq_Inr)
    then have "list_all is_ws ind' \<longrightarrow> (\<exists>ws. list_all is_ws ws \<and> (t = ''{'' @ s @ ws @ ''}'' \<or> t = ''{'' @ nl @ s @ nl @ ws @ ''}''))"
      using write_indent_ws [OF w(2)] by blast
    then show ?thesis using that [of s] True w(1) by (simp only: if_True)
  next
    case no: False
    with assms(1) False obtain s where "dump_members fl h pretty e step cur ind kvs = Inr (s, ind')" "t = ''{'' @ s @ [] @ ''}''"
      by (auto simp: rbind_eq_Inr)
    moreover have "list_all is_ws []" by simp
    ultimately show ?thesis using that [of s] no by (simp only: if_False) blast
  qed
  have m: "members_text (normal_members kvs) s" "list_all is_ws ind'" using IH [OF False s refl] by auto
  have f: "fold put_member (normal_members kvs) [] = normal_members kvs"
    using put_members_sorted [of "[]" "normal_members kvs"] assms(2) by (simp add: comp_def)
  have "json_text (Jobject (normal_members kvs)) (CHR ''{'' # r @ ws @ ''}'')" if "members_text (normal_members kvs) r" "list_all is_ws ws" for r ws
    using text_object [OF that] f by simp
  note o = this [OF m(1)] this [OF members_text_ws [OF m(1) nl_ws]]
  obtain ws where ws: "list_all is_ws ws" "t = ''{'' @ s @ ws @ ''}'' \<or> t = ''{'' @ nl @ s @ nl @ ws @ ''}''" using t m(2) by blast
  have "list_all is_ws (nl @ ws)" using ws(1) nl_ws by simp
  from o(1) [OF ws(1)] o(2) [OF this] ws(2) have "json_text (Jobject (normal_members kvs)) t" by auto
  then show ?thesis using m(2) by simp
qed

lemma dump_array_text:
  assumes "dump_json fl h pretty e step cur ind (Jarray vs) = Inr (t, ind')" and "list_all is_ws ind"
    and IH: "\<And>p n i s i'. vs \<noteq> [] \<Longrightarrow> dump_elements fl h p e step n i vs = Inr (s, i') \<Longrightarrow> p = pretty \<Longrightarrow>
        i = (if pretty then grow_indent n ind else ind) \<Longrightarrow> n = (if pretty then (cur + step) mod 2 ^ 32 else cur) \<Longrightarrow>
        elements_text (map normal_json vs) s \<and> list_all is_ws i'"
  shows "json_text (normal_json (Jarray vs)) t \<and> list_all is_ws ind'"
proof (cases "vs = []")
  case True
  then show ?thesis using assms(1,2) text_no_elements [of "[]"] by auto
next
  case False
  let ?n = "if pretty then (cur + step) mod 2 ^ 32 else cur"
  obtain s where s: "dump_elements fl h pretty e step ?n (if pretty then grow_indent ?n ind else ind) vs = Inr (s, ind')"
      and t: "list_all is_ws ind' \<longrightarrow> (\<exists>ws. list_all is_ws ws \<and> (t = ''['' @ s @ ws @ '']'' \<or> t = ''['' @ nl @ s @ nl @ ws @ '']''))"
  proof (cases pretty)
    case True
    with assms(1) False obtain s w where w: "dump_elements fl h pretty e step ?n (grow_indent ?n ind) vs = Inr (s, ind')"
        "write_indent cur ind' = Inr w" "t = ''['' @ nl @ s @ nl @ w @ '']''"
      by (auto simp: Let_def rbind_eq_Inr)
    then have "list_all is_ws ind' \<longrightarrow> (\<exists>ws. list_all is_ws ws \<and> (t = ''['' @ s @ ws @ '']'' \<or> t = ''['' @ nl @ s @ nl @ ws @ '']''))"
      using write_indent_ws [OF w(2)] by blast
    then show ?thesis using that [of s] True w(1) by (simp only: if_True)
  next
    case no: False
    with assms(1) False obtain s where "dump_elements fl h pretty e step cur ind vs = Inr (s, ind')" "t = ''['' @ s @ [] @ '']''"
      by (auto simp: rbind_eq_Inr)
    moreover have "list_all is_ws []" by simp
    ultimately show ?thesis using that [of s] no by (simp only: if_False) blast
  qed
  have m: "elements_text (map normal_json vs) s" "list_all is_ws ind'" using IH [OF False s refl] by auto
  note o = text_array [OF m(1)] text_array [OF elements_text_ws [OF m(1) nl_ws]]
  obtain ws where ws: "list_all is_ws ws" "t = ''['' @ s @ ws @ '']'' \<or> t = ''['' @ nl @ s @ nl @ ws @ '']''" using t m(2) by blast
  have "list_all is_ws (nl @ ws)" using ws(1) nl_ws by simp
  from o(1) [OF ws(1)] o(2) [OF this] ws(2) have "json_text (Jarray (map normal_json vs)) t" by auto
  then show ?thesis using m(2) by simp
qed

lemma dump_text:
  "dump_json fl h pretty e step cur ind v = Inr (t, ind') \<Longrightarrow> h = EH_strict \<Longrightarrow> \<not> e \<Longrightarrow> wf_json v \<Longrightarrow> plain_json v \<Longrightarrow> list_all is_ws ind \<Longrightarrow>
   json_text (normal_json v) t \<and> list_all is_ws ind'"
  and dump_members_text:
  "dump_members fl h pretty e step new ind kvs = Inr (t, ind') \<Longrightarrow> h = EH_strict \<Longrightarrow> \<not> e \<Longrightarrow> kvs \<noteq> [] \<Longrightarrow>
   list_all (\<lambda>e. wf_json (snd e) \<and> plain_json (snd e)) kvs \<Longrightarrow> list_all is_ws ind \<Longrightarrow>
   members_text (normal_members kvs) t \<and> list_all is_ws ind'"
  and dump_elements_text:
  "dump_elements fl h pretty e step new ind vs = Inr (t, ind') \<Longrightarrow> h = EH_strict \<Longrightarrow> \<not> e \<Longrightarrow> vs \<noteq> [] \<Longrightarrow>
   list_all (\<lambda>v. wf_json v \<and> plain_json v) vs \<Longrightarrow> list_all is_ws ind \<Longrightarrow>
   elements_text (map normal_json vs) t \<and> list_all is_ws ind'"
proof (induction fl h pretty e step cur ind v and fl h pretty e step new ind kvs and fl h pretty e step new ind vs
    arbitrary: t ind' and t ind' and t ind' rule: dump_json_dump_members_dump_elements.induct)
  case (1 fl h pretty e step cur ind kvs)
  have a: "list_all (\<lambda>e. wf_json (snd e) \<and> plain_json (snd e)) kvs" "sorted_wrt (<) (map fst kvs)"
    using "1.prems" by (auto simp: list_all_iff)
  show ?case
    by (rule dump_object_text [OF "1.prems"(1) a(2) "1.prems"(6)])
      (use 1(1,2) "1.prems" a(1) grow_indent_ws in \<open>auto split: if_splits\<close>)
next
  case (2 fl h pretty e step cur ind vs)
  have a: "list_all (\<lambda>v. wf_json v \<and> plain_json v) vs" using "2.prems" by (auto simp: list_all_iff)
  show ?case
    by (rule dump_array_text [OF "2.prems"(1,6)])
      (use 2(1,2) "2.prems" a grow_indent_ws in \<open>auto split: if_splits\<close>)
next
  case (3 fl h pretty e step cur ind s)
  then obtain x where "dump_escaped EH_strict False s = Inr x" "t = [CHR 0x22] @ x @ [CHR 0x22]" "ind' = ind"
    by (auto simp: rbind_eq_Inr)
  then show ?case using text_string [OF dump_escaped_esc] 3 by auto
next
  case (4 fl h pretty e step cur ind b)
  then show ?case using text_boolean [of b] by auto
next
  case (5 fl h pretty e step cur ind x)
  then have "t = dec x" "ind' = ind" using dump_number_text [of True x] by (auto simp: rbind_eq_Inr)
  then show ?case using text_integer [of x] text_unsigned [of x] 5 by auto
next
  case (6 fl h pretty e step cur ind x)
  then have "t = dec x" "ind' = ind" using dump_number_text [of False x] by (auto simp: rbind_eq_Inr)
  then show ?case using text_unsigned [of x] 6 by auto
next
  case (9 fl h pretty e step cur ind)
  then show ?case using text_null by auto
next
  case (11 fl h pretty e step new ind k v kvs)
  obtain w key x ind1 where d: "(if pretty then write_indent new ind else Inr []) = Inr w" "dump_escaped h e k = Inr key"
      "dump_json fl h pretty e step new ind v = Inr (x, ind1)"
      and r: "(let s = w @ [CHR 0x22] @ key @ [CHR 0x22] @ (if pretty then '': '' else '':'') @ x in
        if kvs = [] then Inr (s, ind1)
        else rbind (dump_members fl h pretty e step new ind1 kvs) (\<lambda>(r, ind2). Inr (s @ (if pretty then '','' @ nl else '','') @ r, ind2))) = Inr (t, ind')"
    using "11.prems"(1) by (auto simp: rbind_eq_Inr)
  have esc: "esc k key" using dump_escaped_esc [of k key] d(2) "11.prems"(2,3) by simp
  have v: "json_text (normal_json v) x" "list_all is_ws ind1" using "11.IH"(1) [OF d] "11.prems" by auto
  have w: "list_all is_ws w" using maybe_indent_ws [OF d(1) "11.prems"(6)] .
  let ?sp = "if pretty then '' '' else []"
  have sp: "list_all is_ws ?sp" "(if pretty then '': '' else '':'') = CHR '':'' # ?sp" using ws_chars(1) by auto
  show ?case
  proof (cases "kvs = []")
    case True
    then have "t = w @ CHR 0x22 # key @ CHR 0x22 # [] @ CHR '':'' # ?sp @ x" "ind' = ind1" using r sp(2) by auto
    then show ?thesis
      using text_member [OF w esc _ sp(1) v(1), of "[]"] v(2) True by simp
  next
    case False
    then obtain r' where r': "dump_members fl h pretty e step new ind1 kvs = Inr (r', ind')"
        "t = w @ CHR 0x22 # key @ CHR 0x22 # [] @ CHR '':'' # ?sp @ x @ [] @ CHR '','' # (if pretty then nl else []) @ r'"
      using r sp(2) by (auto simp: Let_def rbind_eq_Inr split: if_splits)
    have m: "members_text (normal_members kvs) r'" "list_all is_ws ind'"
      using "11.IH"(2) [OF d refl refl False r'(1)] v(2) "11.prems" False by auto
    have "members_text (normal_members kvs) ((if pretty then nl else []) @ r')"
      using m(1) members_text_ws [OF m(1) nl_ws] by simp
    from text_members [OF w esc _ sp(1) v(1) _ this, of "[]" "[]"] show ?thesis
      using m(2) r'(2) by simp
  qed
next
  case (13 fl h pretty e step new ind v vs)
  obtain w x ind1 where d: "(if pretty then write_indent new ind else Inr []) = Inr w" "dump_json fl h pretty e step new ind v = Inr (x, ind1)"
      and r: "(if vs = [] then Inr (w @ x, ind1)
        else rbind (dump_elements fl h pretty e step new ind1 vs) (\<lambda>(r, ind2). Inr (w @ x @ (if pretty then '','' @ nl else '','') @ r, ind2))) = Inr (t, ind')"
    using "13.prems"(1) by (auto simp: rbind_eq_Inr)
  have v: "json_text (normal_json v) x" "list_all is_ws ind1" using "13.IH"(1) [OF d] "13.prems" by auto
  have w: "list_all is_ws w" using maybe_indent_ws [OF d(1) "13.prems"(6)] .
  show ?case
  proof (cases "vs = []")
    case True
    then show ?thesis using r text_element [OF w v(1)] v(2) by auto
  next
    case False
    then obtain r' where r': "dump_elements fl h pretty e step new ind1 vs = Inr (r', ind')"
        "t = w @ x @ [] @ CHR '','' # (if pretty then nl else []) @ r'"
      using r by (auto simp: rbind_eq_Inr split: if_splits)
    have m: "elements_text (map normal_json vs) r'" "list_all is_ws ind'"
      using "13.IH"(2) [OF d refl False r'(1)] v(2) "13.prems" False by auto
    have "elements_text (map normal_json vs) ((if pretty then nl else []) @ r')"
      using m(1) elements_text_ws [OF m(1) nl_ws] by simp
    from text_elements [OF w v(1) _ this, of "[]"] show ?thesis
      using m(2) r'(2) by simp
  qed
qed auto

text \<open>What was written is read as the value, whatever white space is put around it.\<close>

lemma json_dump_text:
  assumes "json_dump fl indent c False EH_strict v = Inr t" and "wf_json v" and "plain_json v" and "is_ws c"
  shows "json_text (normal_json v) t"
proof -
  obtain pretty step ind' where d: "dump_json fl EH_strict pretty False step 0 (replicate 512 c) v = Inr (t, ind')"
    using assms(1) by (auto simp: json_dump_def Let_def rbind_eq_Inr split: if_splits)
  have "list_all is_ws (replicate 512 c)" using assms(4) by (simp add: list_all_iff)
  then show ?thesis using dump_text [OF d] assms(2,3) by blast
qed

lemma dump_parse:
  assumes "json_dump fl indent c False EH_strict v = Inr t" and "wf_json v" and "plain_json v" and "is_ws c"
    and "list_all is_ws ws" and "list_all is_ws ws'"
  shows "json_parse fl allow (ws @ t @ ws') = Inr (normal_json v)"
  using parse_text [OF json_dump_text [OF assms(1-4)] assms(5,6)] .

section \<open>Writing on one line always succeeds\<close>

lemma lift_fault_Inr [simp]: "lift_fault (Inr x) = Inr x"
  by (simp add: lift_fault_def)

lemma dump_compact:
  "pretty = False \<Longrightarrow> h = EH_strict \<Longrightarrow> wf_json v \<Longrightarrow> plain_json v \<Longrightarrow> \<exists>t. dump_json fl h pretty e step cur ind v = Inr (t, ind)"
  and dump_members_compact:
  "pretty = False \<Longrightarrow> h = EH_strict \<Longrightarrow> list_all (\<lambda>e. valid_utf8 (fst e) \<and> wf_json (snd e) \<and> plain_json (snd e)) kvs \<Longrightarrow>
   \<exists>t. dump_members fl h pretty e step new ind kvs = Inr (t, ind)"
  and dump_elements_compact:
  "pretty = False \<Longrightarrow> h = EH_strict \<Longrightarrow> list_all (\<lambda>v. wf_json v \<and> plain_json v) vs \<Longrightarrow>
   \<exists>t. dump_elements fl h pretty e step new ind vs = Inr (t, ind)"
proof (induction fl h pretty e step cur ind v and fl h pretty e step new ind kvs and fl h pretty e step new ind vs
    rule: dump_json_dump_members_dump_elements.induct)
  case (1 fl h pretty e step cur ind kvs)
  have "list_all (\<lambda>e. valid_utf8 (fst e) \<and> wf_json (snd e) \<and> plain_json (snd e)) kvs" using "1.prems" by (auto simp: list_all_iff)
  then show ?case using 1 by auto
next
  case (2 fl h pretty e step cur ind vs)
  have "list_all (\<lambda>v. wf_json v \<and> plain_json v) vs" using "2.prems" by (auto simp: list_all_iff)
  then show ?case using 2 by auto
next
  case (3 fl h pretty e step cur ind s)
  then obtain t where "dump_escaped EH_strict e s = Inr t" using dump_escaped_valid [of s e] by auto
  then show ?case using 3 by simp
next
  case (5 fl h pretty e step cur ind x)
  then show ?case using dump_integer_dec [of x True "replicate 64 (CHR 0x00)"] by auto
next
  case (6 fl h pretty e step cur ind x)
  then show ?case using dump_integer_dec [of x False "replicate 64 (CHR 0x00)"] by auto
next
  case (11 fl h pretty e step new ind k v kvs)
  obtain key where key: "dump_escaped EH_strict e k = Inr key" using dump_escaped_valid [of k e] "11.prems" by auto
  obtain t where "dump_json fl EH_strict False e step new ind v = Inr (t, ind)" using "11.IH"(1) [of "[]" key] key "11.prems" by auto
  then show ?case using "11.IH"(2) [of "[]" key "(t, ind)" t ind] key "11.prems" by (auto simp: Let_def)
next
  case (13 fl h pretty e step new ind v vs)
  obtain t where "dump_json fl EH_strict False e step new ind v = Inr (t, ind)" using "13.IH"(1) [of "[]"] "13.prems" by auto
  then show ?case using "13.IH"(2) [of "[]" "(t, ind)" t ind] "13.prems" by auto
qed auto

lemma json_dump_compact:
  assumes "wf_json v" and "plain_json v" and "indent < 0"
  shows "\<exists>t. json_dump fl indent c e EH_strict v = Inr t"
proof -
  obtain t where "dump_json fl EH_strict False e 0 0 (replicate 512 c) v = Inr (t, replicate 512 c)"
    using dump_compact [OF refl refl assms(1,2)] by blast
  then show ?thesis using assms(3) by (auto simp: json_dump_def)
qed

lemma dump_parse_compact:
  assumes "wf_json v" and "plain_json v" and "indent < 0" and "is_ws c"
  shows "\<exists>t. json_dump fl indent c False EH_strict v = Inr t \<and> json_parse fl allow t = Inr (normal_json v)"
proof -
  obtain t where t: "json_dump fl indent c False EH_strict v = Inr t" using json_dump_compact [OF assms(1-3)] by blast
  then show ?thesis using dump_parse [OF t assms(1,2,4), of "[]" "[]" allow] by simp
qed

end
