(* ===== verification/Json_Typed.thy ===== *)
theory Json_Typed
  imports Json_Roundtrip
begin

unbundle bit_operations_syntax

text \<open>
  The type of what the parser returns: every value is well-formed (\<open>wf_json\<close>), whatever the input. The scanner gives only valid UTF-8 and numbers in range,
  the builder keeps the value under construction well-formed, and the loop of the parser keeps whatever its receiver's events keep.
\<close>

section \<open>Code points and their bytes\<close>

lemma join_bits: "take_bit k x OR push_bit k c = 2 ^ k * c + x mod (2 ^ k :: int)"
proof -
  have "take_bit k x AND push_bit k c = 0"
    by (rule bit_eqI) (auto simp: bit_and_iff bit_take_bit_iff bit_push_bit_iff)
  then have "take_bit k x OR push_bit k c = take_bit k x + push_bit k c" by (simp add: disjunctive_add_eq_or)
  then show ?thesis by (simp add: take_bit_eq_mod push_bit_eq_mult)
qed

lemma marked_bytes:
  "0 \<le> x \<Longrightarrow> x < 64 \<Longrightarrow> 0xC0 OR x = 0xC0 + (x :: int)"
  "0 \<le> x \<Longrightarrow> x < 32 \<Longrightarrow> 0xE0 OR x = 0xE0 + (x :: int)"
  "0 \<le> x \<Longrightarrow> x < 16 \<Longrightarrow> 0xF0 OR x = 0xF0 + (x :: int)"
  "0x80 OR (x AND 0x3F) = 0x80 + x mod 64"
proof -
  have t: "take_bit 6 x = x" if "0 \<le> x" "x < 64" for x :: int using that by (simp add: take_bit_eq_mod)
  have u: "take_bit 5 x = x" if "0 \<le> x" "x < 32" for x :: int using that by (simp add: take_bit_eq_mod)
  have v: "take_bit 4 x = x" if "0 \<le> x" "x < 16" for x :: int using that by (simp add: take_bit_eq_mod)
  show "0xC0 OR x = 0xC0 + x" if "0 \<le> x" "x < 64"
    using join_bits [of 6 x 3] t [OF that] that by (simp add: or.commute push_bit_eq_mult)
  show "0xE0 OR x = 0xE0 + x" if "0 \<le> x" "x < 32"
    using join_bits [of 5 x 7] u [OF that] that by (simp add: or.commute push_bit_eq_mult)
  show "0xF0 OR x = 0xF0 + x" if "0 \<le> x" "x < 16"
    using join_bits [of 4 x 15] v [OF that] that by (simp add: or.commute push_bit_eq_mult)
  have "x AND 0x3F = take_bit 6 x" by (simp add: take_bit_eq_mask mask_eq_exp_minus_1)
  then show "0x80 OR (x AND 0x3F) = 0x80 + x mod 64"
    using join_bits [of 6 x 2] by (simp add: or.commute push_bit_eq_mult)
qed

lemma valid_multi_bytes:
  assumes "utf8_ranges a = Some rs" and "in_ranges rs (map char_of bs)" and "0 \<le> a" and "a \<le> 255"
  shows "valid_utf8 (char_of a # map char_of bs)"
  using valid_multi [of "char_of a" rs "map char_of bs" "[]"] assms by simp

lemma tail_byte: "of_char (char_of (0x80 + x mod 64 :: int) :: char) = 0x80 + x mod (64 :: int)"
proof -
  have "0 \<le> x mod 64" "x mod 64 < 64" by simp_all
  then show ?thesis using of_char_char_of_byte [of "0x80 + x mod 64"] by linarith
qed

text \<open>What the scanner stores for an escaped code point is valid UTF-8, unless the code point is half of a surrogate pair.\<close>

lemma codepoint_bytes_2:
  assumes "0x80 \<le> cp" and "cp \<le> 0x7FF"
  shows "valid_utf8 (map char_of (codepoint_bytes cp))"
proof -
  define a where "a = 0xC0 + cp div 64"
  have a: "0xC2 \<le> a" "a \<le> 0xDF" "cp div 64 < 64" "0 \<le> cp div 64" using assms unfolding a_def by linarith+
  have "codepoint_bytes cp = [a, 0x80 + cp mod 64]"
    using assms marked_bytes(1) [OF a(4,3)] marked_bytes(4) [of cp] by (simp add: codepoint_bytes_def drop_bit_eq_div a_def)
  moreover have "in_ranges [0x80, 0xBF] (map char_of [0x80 + cp mod 64])"
    using tail_byte [of cp] pos_mod_bound [of 64 cp] by simp
  moreover have "utf8_ranges a = Some [0x80, 0xBF]" using a by (simp add: utf8_ranges_def)
  ultimately show ?thesis using valid_multi_bytes [of a "[0x80, 0xBF]" "[0x80 + cp mod 64]"] a by simp
qed

lemma codepoint_bytes_3:
  assumes "0x800 \<le> cp" and "cp \<le> 0xFFFF" and "\<not> (0xD800 \<le> cp \<and> cp \<le> 0xDFFF)"
  shows "valid_utf8 (map char_of (codepoint_bytes cp))"
proof -
  define a where "a = 0xE0 + cp div 4096"
  define b where "b = cp div 64 mod 64"
  have q: "0 \<le> cp div 4096" "cp div 4096 < 16" using assms by linarith+
  have a: "0xE0 \<le> a" "a \<le> 0xEF" using q unfolding a_def by linarith+
  have "cp div 64 div 64 = cp div 4096" using zdiv_zmult2_eq [of 64 cp 64] by simp
  then have d: "cp div 64 = 64 * (cp div 4096) + b" using mult_div_mod_eq [of 64 "cp div 64"] unfolding b_def by simp
  have b: "0 \<le> b" "b < 64" unfolding b_def by simp_all
  have e0: "0x20 \<le> b" if "a = 0xE0" using that assms(1) d unfolding a_def by linarith
  have ed: "b \<le> 0x1F" if "a = 0xED" using that assms(3) d b unfolding a_def by linarith
  have "codepoint_bytes cp = [a, 0x80 + b, 0x80 + cp mod 64]"
    using assms marked_bytes(2) [of "cp div 4096"] q marked_bytes(4) [of cp] marked_bytes(4) [of "cp div 64"]
    by (simp add: codepoint_bytes_def drop_bit_eq_div a_def b_def)
  moreover have tb: "of_char (char_of (0x80 + b) :: char) = 0x80 + b" using tail_byte [of "cp div 64"] unfolding b_def .
  moreover have "0x80 + cp mod 64 \<le> 0xBF" using pos_mod_bound [of 64 cp] by linarith
  moreover obtain lo hi where "utf8_ranges a = Some [lo, hi, 0x80, 0xBF]" "lo \<le> 0x80 + b" "0x80 + b \<le> hi"
  proof -
    note r = that
    consider "a = 0xE0" | "a = 0xED" | "0xE1 \<le> a" "a \<le> 0xEC" | "0xEE \<le> a" using a by linarith
    then show ?thesis
      by cases (use r [of "0xA0" "0xBF"] r [of "0x80" "0x9F"] r [of "0x80" "0xBF"] e0 ed b a in \<open>auto simp: utf8_ranges_def\<close>)
  qed
  ultimately show ?thesis
    using valid_multi_bytes [of a _ "[0x80 + b, 0x80 + cp mod 64]"] a tail_byte [of cp] by simp
qed

lemma codepoint_bytes_4:
  assumes "0x10000 \<le> cp" and "cp \<le> 0x10FFFF"
  shows "valid_utf8 (map char_of (codepoint_bytes cp))"
proof -
  define a where "a = 0xF0 + cp div 262144"
  define b where "b = cp div 4096 mod 64"
  have q: "0 \<le> cp div 262144" "cp div 262144 < 5" using assms by linarith+
  have a: "0xF0 \<le> a" "a \<le> 0xF4" using q unfolding a_def by linarith+
  have "cp div 4096 div 64 = cp div 262144" using zdiv_zmult2_eq [of 64 cp 4096] by simp
  then have d: "cp div 4096 = 64 * (cp div 262144) + b" using mult_div_mod_eq [of 64 "cp div 4096"] unfolding b_def by simp
  have b: "0 \<le> b" "b < 64" unfolding b_def by simp_all
  have f0: "0x10 \<le> b" if "a = 0xF0" using that assms(1) d unfolding a_def by linarith
  have f4: "b \<le> 0x0F" if "a = 0xF4" using that assms(2) d b unfolding a_def by linarith
  have "codepoint_bytes cp = [a, 0x80 + b, 0x80 + cp div 64 mod 64, 0x80 + cp mod 64]"
    using assms marked_bytes(3) [of "cp div 262144"] q marked_bytes(4) [of cp] marked_bytes(4) [of "cp div 64"] marked_bytes(4) [of "cp div 4096"]
    by (simp add: codepoint_bytes_def drop_bit_eq_div a_def b_def)
  moreover have tb: "of_char (char_of (0x80 + b) :: char) = 0x80 + b" using tail_byte [of "cp div 4096"] unfolding b_def .
  moreover have "0x80 + cp mod 64 \<le> 0xBF" "0x80 + cp div 64 mod 64 \<le> 0xBF"
    using pos_mod_bound [of 64 cp] pos_mod_bound [of 64 "cp div 64"] by linarith+
  moreover obtain lo hi where "utf8_ranges a = Some [lo, hi, 0x80, 0xBF, 0x80, 0xBF]" "lo \<le> 0x80 + b" "0x80 + b \<le> hi"
  proof -
    note r = that
    consider "a = 0xF0" | "a = 0xF4" | "0xF1 \<le> a" "a \<le> 0xF3" using a by linarith
    then show ?thesis
      by cases (use r [of "0x90" "0xBF"] r [of "0x80" "0x8F"] r [of "0x80" "0xBF"] f0 f4 b a in \<open>auto simp: utf8_ranges_def\<close>)
  qed
  ultimately show ?thesis
    using valid_multi_bytes [of a _ "[0x80 + b, 0x80 + cp div 64 mod 64, 0x80 + cp mod 64]"] a tail_byte [of cp] tail_byte [of "cp div 64"] by simp
qed

lemma codepoint_bytes_valid:
  assumes "0 \<le> cp" and "cp \<le> 0x10FFFF" and "\<not> (0xD800 \<le> cp \<and> cp \<le> 0xDFFF)"
  shows "valid_utf8 (map char_of (codepoint_bytes cp))"
proof (cases "cp < 0x80")
  case True
  then show ?thesis using assms(1) by (simp add: codepoint_bytes_def)
next
  case False
  then show ?thesis
    using assms codepoint_bytes_2 [of cp] codepoint_bytes_3 [of cp] codepoint_bytes_4 [of cp] by (cases "cp \<le> 0x7FF"; cases "cp \<le> 0xFFFF") auto
qed

section \<open>What the scanner stores\<close>

lemma hex_value_range: "hex_value c = Some d \<Longrightarrow> 0 \<le> d \<and> d < 16"
  by (auto simp: hex_value_def split: if_splits)

lemma codepoint_loop_range:
  assumes "codepoint_loop fs cp lx = (c, l)" and "0 \<le> cp"
  shows "c = -1 \<or> cp \<le> c \<and> c \<le> cp + 15 * sum_list (map (\<lambda>f. 2 ^ f) fs)"
  using assms
proof (induction fs arbitrary: cp lx)
  case (Cons f fs)
  show ?case
  proof (cases "hex_value (lx_current (get lx))")
    case (Some d)
    note d = hex_value_range [OF Some]
    have s: "codepoint_loop fs (cp + d * 2 ^ f) (get lx) = (c, l)" "0 \<le> cp + d * 2 ^ f" using Cons.prems Some d by (simp_all add: Let_def)
    define y :: int where "y = 2 ^ f"
    have "d * 2 ^ f \<le> 15 * 2 ^ f" "0 \<le> d * 2 ^ f" using d by (intro mult_right_mono, simp_all)
    then have "d * y \<le> 15 * y" "0 \<le> d * y" by (simp_all only: y_def)
    then show ?thesis using Cons.IH [OF s] by (auto simp: y_def [symmetric])
  qed (use Cons.prems in \<open>simp add: Let_def\<close>)
qed simp

lemma get_codepoint_range: "get_codepoint lx = (c, l) \<Longrightarrow> c = -1 \<or> 0 \<le> c \<and> c \<le> 0xFFFF"
  using codepoint_loop_range [of "[12, 8, 4, 0]" 0 lx c l] by (auto simp: get_codepoint_def)

lemma codepoint_loop_buffer: "lx_token_buffer (snd (codepoint_loop fs cp lx)) = lx_token_buffer lx"
  by (induction fs arbitrary: cp lx) (auto simp: Let_def split: option.split)

lemma get_codepoint_buffer [simp]: "get_codepoint lx = (c, l) \<Longrightarrow> lx_token_buffer l = lx_token_buffer lx"
  using codepoint_loop_buffer [of "[12, 8, 4, 0]" 0 lx] by (auto simp: get_codepoint_def)

lemma buffer_fold_add: "lx_token_buffer (fold add bs lx) = lx_token_buffer lx @ map char_of bs"
  by (induction bs arbitrary: lx) auto

lemma scan_unicode_valid:
  assumes "scan_unicode lx = (True, l)" and "valid_utf8 (lx_token_buffer lx)"
  shows "valid_utf8 (lx_token_buffer l)"
proof -
  obtain c1 l1 where 1: "get_codepoint lx = (c1, l1)" by force
  obtain c2 l4 where 2: "get_codepoint (get (get l1)) = (c2, l4)" by force
  have r: "c1 = -1 \<or> 0 \<le> c1 \<and> c1 \<le> 0xFFFF" "lx_token_buffer l1 = lx_token_buffer lx" "lx_token_buffer l4 = lx_token_buffer lx"
    using get_codepoint_range [OF 1] get_codepoint_buffer [OF 1] get_codepoint_buffer [OF 2] by auto
  consider "l = fold add (codepoint_bytes c1) l1" "0 \<le> c1" "c1 \<le> 0xFFFF" "\<not> (0xD800 \<le> c1 \<and> c1 \<le> 0xDFFF)"
    | "l = fold add (codepoint_bytes (c1 * 1024 + c2 - 0x35FDC00)) l4" "0xD800 \<le> c1" "c1 \<le> 0xDBFF" "0xDC00 \<le> c2" "c2 \<le> 0xDFFF"
  proof (cases "0xD800 \<le> c1 \<and> c1 \<le> 0xDBFF")
    case True
    then have "l = fold add (codepoint_bytes (c1 * 1024 + c2 - 0x35FDC00)) l4 \<and> 0xDC00 \<le> c2 \<and> c2 \<le> 0xDFFF"
      using assms(1) by (simp add: scan_unicode_def 1 2 Let_def split: if_splits)
    with True show ?thesis using that(2) by blast
  next
    case False
    then have "c1 \<noteq> -1 \<and> l = fold add (codepoint_bytes c1) l1 \<and> \<not> (0xDC00 \<le> c1 \<and> c1 \<le> 0xDFFF)"
      using assms(1) by (simp add: scan_unicode_def 1 Let_def split: if_splits)
    with False show ?thesis using that(1) r(1) by linarith
  qed
  then show ?thesis
  proof cases
    case 1
    then show ?thesis using codepoint_bytes_valid [of c1] r assms(2) by (simp add: buffer_fold_add valid_append)
  next
    case 2
    then show ?thesis
      using codepoint_bytes_valid [of "c1 * 1024 + c2 - 0x35FDC00"] r assms(2) by (simp add: buffer_fold_add valid_append)
  qed
qed

lemma valid_add_ascii: "valid_utf8 (lx_token_buffer lx) \<Longrightarrow> 0 \<le> c \<Longrightarrow> c < 0x80 \<Longrightarrow> valid_utf8 (lx_token_buffer (add c lx))"
  by (simp add: valid_append)

lemma scan_escape_valid:
  assumes "scan_escape lx = (True, l)" and "valid_utf8 (lx_token_buffer lx)"
  shows "valid_utf8 (lx_token_buffer l)"
proof -
  have v: "valid_utf8 (lx_token_buffer (get lx))" using assms(2) by simp
  consider c where "l = add c (get lx)" "0 \<le> c" "c < 0x80" | "scan_unicode (get lx) = (True, l)"
    using assms(1) by (auto simp: scan_escape_def Let_def split: if_splits)
  then show ?thesis using valid_add_ascii [OF v] scan_unicode_valid [OF _ v] by cases blast+
qed

fun high_ranges :: "int list \<Rightarrow> bool" where
  "high_ranges (lo # hi # rs) \<longleftrightarrow> 0 \<le> lo \<and> hi \<le> 255 \<and> high_ranges rs"
| "high_ranges [] \<longleftrightarrow> True"
| "high_ranges _ \<longleftrightarrow> False"

lemma range_loop_stored:
  "range_loop rs lx = (True, l) \<Longrightarrow> high_ranges rs \<Longrightarrow> \<exists>bs. in_ranges rs bs \<and> lx_token_buffer l = lx_token_buffer lx @ bs"
proof (induction rs lx rule: range_loop.induct)
  case (1 lo hi rs lx)
  let ?c = "lx_current (get lx)"
  have c: "lo \<le> ?c" "?c \<le> hi" "range_loop rs (add ?c (get lx)) = (True, l)" using "1.prems"(1) by (auto simp: Let_def split: if_splits)
  then obtain bs where "in_ranges rs bs" "lx_token_buffer l = lx_token_buffer (add ?c (get lx)) @ bs"
    using "1.IH" [OF refl] "1.prems"(2) by auto
  then show ?case using c(1,2) "1.prems"(2) by (intro exI [of _ "char_of ?c # bs"]) simp
qed auto

lemma scan_string_loop_valid:
  "scan_string_loop lx = (value_string, l) \<Longrightarrow> valid_utf8 (lx_token_buffer lx) \<Longrightarrow> valid_utf8 (lx_token_buffer l)"
proof (induction "length (remaining lx)" arbitrary: lx rule: less_induct)
  case less
  let ?g = "get lx"
  let ?c = "lx_current ?g"
  have s: "valid_utf8 (lx_token_buffer l)"
    if "scan_string_loop l' = (value_string, l)" "length (remaining l') \<le> length (remaining ?g)" "?c \<noteq> -1" "valid_utf8 (lx_token_buffer l')" for l'
    using less.hyps [OF _ that(1,4)] that(2) remaining_get_less [OF that(3)] by simp
  have v: "valid_utf8 (lx_token_buffer ?g)" using less.prems(2) by simp
  consider "?c = 0x22" | "?c = 0x5C" | "?c \<noteq> 0x5C" "0x1F < ?c" "?c \<le> 0x7F" "?c \<noteq> 0x22"
    | rs where "\<not> ?c \<le> 0x7F" "utf8_ranges ?c = Some rs"
    using less.prems(1) by (subst (asm) scan_string_loop.simps) (auto simp: Let_def lexer_fail_def split: if_splits option.splits)
  then show ?case
  proof cases
    case 1
    then show ?thesis using less.prems by (subst (asm) scan_string_loop.simps) (auto simp: Let_def)
  next
    case 2
    then obtain l' where e: "scan_escape ?g = (True, l')" "scan_string_loop l' = (value_string, l)"
      using less.prems(1) by (subst (asm) scan_string_loop.simps) (cases "scan_escape ?g"; auto simp: Let_def split: if_splits)
    show ?thesis using s [OF e(2)] remaining_escape_le [of ?g] e(1) 2 scan_escape_valid [OF e(1) v] by simp
  next
    case 3
    then have "scan_string_loop (add ?c ?g) = (value_string, l)"
      using less.prems(1) by (subst (asm) scan_string_loop.simps) (auto simp: Let_def)
    then show ?thesis using s [of "add ?c ?g"] valid_add_ascii [OF v, of ?c] 3 by simp
  next
    case 4
    then have c: "?c \<noteq> -1" "?c \<noteq> 0x22" "?c \<noteq> 0x5C" "0 \<le> ?c" "?c \<le> 255" and h: "high_ranges rs"
      by (auto simp: utf8_ranges_def split: if_splits)
    obtain l' where e: "range_loop rs (add ?c ?g) = (True, l')" "scan_string_loop l' = (value_string, l)"
      using less.prems(1) 4 c(1-3)
      by (subst (asm) scan_string_loop.simps) (cases "range_loop rs (add ?c ?g)"; auto simp: Let_def next_byte_in_range_def split: if_splits)
    obtain bs where "in_ranges rs bs" "lx_token_buffer l' = (lx_token_buffer lx @ [char_of ?c]) @ bs" using range_loop_stored [OF e(1) h] by auto
    then have "valid_utf8 (lx_token_buffer l')"
      using valid_append [OF less.prems(2), of "char_of ?c # bs"] valid_multi [of "char_of ?c" rs bs "[]"] 4 c(4,5) by simp
    then show ?thesis using s [OF e(2)] remaining_range_le [of rs "add ?c ?g"] e(1) c(1) by simp
  qed
qed

lemma digits_value_nonneg: "0 \<le> digits_value s"
proof -
  have "0 \<le> n \<Longrightarrow> list_all digit ds \<Longrightarrow> 0 \<le> foldl (\<lambda>n c. 10 * n + (of_char c - 48)) n ds" for n :: int and ds
    by (induction ds arbitrary: n) (auto simp: digit_range is_digit_def)
  moreover have "list_all digit (takeWhile digit s)" by (auto simp: list_all_iff dest: set_takeWhileD)
  ultimately show ?thesis unfolding digits_value_def by blast
qed

definition token_ok :: "token_type \<Rightarrow> 'f lexer \<Rightarrow> bool" where
  "token_ok t lx \<longleftrightarrow>
     (t = value_string \<longrightarrow> valid_utf8 (lx_token_buffer lx))
     \<and> (t = value_unsigned \<longrightarrow> 0 \<le> lx_value_unsigned lx \<and> lx_value_unsigned lx < 2 ^ 64)
     \<and> (t = value_integer \<longrightarrow> - (2 ^ 63) \<le> lx_value_integer lx \<and> lx_value_integer lx < 2 ^ 63)"

lemma convert_number_ok: "token_ok (fst (convert_number fl ty lx)) (snd (convert_number fl ty lx))"
  using digits_value_nonneg [of "lx_token_buffer lx"]
  by (auto simp: token_ok_def convert_number_def strtoull_def strtoll_def Let_def split: if_splits option.split)

lemma literal_loop_type: "fst (literal_loop cs t lx) \<in> {t, parse_error}"
  by (induction cs arbitrary: lx) (auto simp: Let_def lexer_fail_def)

lemma scan_string_loop_type: "fst (scan_string_loop lx) \<in> {value_string, parse_error}"
proof (induction lx rule: scan_string_loop.induct)
  case (1 lx)
  then show ?case by (subst scan_string_loop.simps) (auto simp: Let_def lexer_fail_def split: option.split)
qed

lemma scan_token_ok: "scan_token fl lx = (t, l) \<Longrightarrow> token_ok t l"
proof -
  assume s: "scan_token fl lx = (t, l)"
  have str: "token_ok (fst (scan_string lx)) (snd (scan_string lx))"
  proof (cases "fst (scan_string lx) = value_string")
    case True
    then have "valid_utf8 (lx_token_buffer (snd (scan_string lx)))"
      using scan_string_loop_valid [of "lexer_reset lx" "snd (scan_string lx)"] by (simp add: scan_string_def prod_eq_iff)
    then show ?thesis using True by (simp add: token_ok_def)
  next
    case False
    then show ?thesis using scan_string_loop_type [of "lexer_reset lx"] by (auto simp: token_ok_def scan_string_def)
  qed
  have num: "token_ok (fst (scan_number fl lx)) (snd (scan_number fl lx))"
    using convert_number_ok by (auto simp: scan_number_def Let_def token_ok_def)
  have "token_ok (fst (scan_literal x u lx)) (snd (scan_literal x u lx))" if "u \<in> {literal_true, literal_false, literal_null}" for x u
    using literal_loop_type [of "tl x" u lx] that by (auto simp: token_ok_def scan_literal_def)
  from this [of literal_true "''true''"] this [of literal_false "''false''"] this [of literal_null "''null''"]
  have "scan_literal ''true'' literal_true lx = (t, l) \<Longrightarrow> token_ok t l" "scan_literal ''false'' literal_false lx = (t, l) \<Longrightarrow> token_ok t l"
    "scan_literal ''null'' literal_null lx = (t, l) \<Longrightarrow> token_ok t l"
    by simp_all
  moreover have "scan_string lx = (t, l) \<Longrightarrow> token_ok t l" "scan_number fl lx = (t, l) \<Longrightarrow> token_ok t l" using str num by simp_all
  ultimately show ?thesis
    using s unfolding scan_token_def Let_def lexer_fail_def by (auto split: if_splits) (simp_all add: token_ok_def)
qed

lemma scan_ok: "scan fl lx = (t, l) \<Longrightarrow> token_ok t l"
  by (auto simp: scan_def Let_def lexer_fail_def intro: scan_token_ok split: if_splits) (simp add: token_ok_def)

section \<open>Receivers that keep a property\<close>

text \<open>
  The contract between the parser and a receiver: every event with arguments of the right kind keeps a property of the receiver's
  state. Then parsing keeps it.
\<close>

definition keeps :: "('s \<Rightarrow> bool) \<Rightarrow> 's event \<Rightarrow> bool" where
  "keeps P ev \<longleftrightarrow> (\<forall>s b s'. P s \<longrightarrow> ev s = Inr (b, s') \<longrightarrow> P s')"

text \<open>A step kept the property, and the token it goes on with is right.\<close>

definition good :: "('s \<Rightarrow> bool) \<Rightarrow> parse_step \<times> ('s, 'f) parse_state \<Rightarrow> bool" where
  "good P r \<longleftrightarrow> (case r of (st, tok, lx, s) \<Rightarrow> P s \<and> ((\<exists>a. st = Push a) \<or> st = Next \<longrightarrow> token_ok tok lx))"

lemma good_steps [simp]:
  "good P (Ret b, tok, lx, s) = P s" "good P (Evaluate, tok, lx, s) = P s" "good P (Pop, tok, lx, s) = P s"
  "good P (Push a, tok, lx, s) = (P s \<and> token_ok tok lx)" "good P (Next, tok, lx, s) = (P s \<and> token_ok tok lx)"
  by (simp_all add: good_def)

lemma good_any: "P s \<Longrightarrow> token_ok tok lx \<Longrightarrow> good P (st, tok, lx, s)"
  by (simp add: good_def)

locale sax_receiver =
  fixes sax :: "('s, 'f) sax" and P :: "'s \<Rightarrow> bool"
  assumes on_null: "keeps P (sax_null sax)"
    and on_boolean: "keeps P (sax_boolean sax b)"
    and on_integer: "- (2 ^ 63) \<le> x \<Longrightarrow> x < 2 ^ 63 \<Longrightarrow> keeps P (sax_number_integer sax x)"
    and on_unsigned: "0 \<le> x \<Longrightarrow> x < 2 ^ 64 \<Longrightarrow> keeps P (sax_number_unsigned sax x)"
    and on_float: "keeps P (sax_number_float sax y raw)"
    and on_string: "valid_utf8 t \<Longrightarrow> keeps P (sax_string sax t)"
    and on_start_object: "keeps P (sax_start_object sax)"
    and on_key: "valid_utf8 t \<Longrightarrow> keeps P (sax_key sax t)"
    and on_end_object: "keeps P (sax_end_object sax)"
    and on_start_array: "keeps P (sax_start_array sax)"
    and on_end_array: "keeps P (sax_end_array sax)"
    and on_parse_error: "keeps P (sax_parse_error sax pos raw ex)"
begin

lemmas events = on_null on_boolean on_integer on_unsigned on_float on_string on_start_object on_key on_end_object on_start_array on_end_array on_parse_error

lemma syntax_error_keeps: "syntax_error sax e c tok lx s = Inr r \<Longrightarrow> P s \<Longrightarrow> good P r"
  using on_parse_error by (fastforce simp: syntax_error_def rbind_eq_Inr good_def keeps_def)

lemma value_event_keeps:
  assumes "value_event ev tok lx s = Inr r" and "keeps P ev" and "P s"
  shows "good P r"
proof -
  obtain b s1 where "ev s = Inr (b, s1)" "r = (if b then Evaluate else Ret False, tok, lx, s1)"
    using assms(1) by (auto simp: value_event_def rbind_eq_Inr)
  moreover from this have "P s1" using assms(2,3) unfolding keeps_def by blast
  ultimately show ?thesis by (simp add: good_def)
qed

lemma close_event_keeps:
  assumes "close_event ev tok lx s = Inr r" and "keeps P ev" and "P s"
  shows "good P r"
proof -
  obtain b s1 where "ev s = Inr (b, s1)" "r = (if b then Pop else Ret False, tok, lx, s1)"
    using assms(1) by (auto simp: close_event_def rbind_eq_Inr)
  moreover from this have "P s1" using assms(2,3) unfolding keeps_def by blast
  ultimately show ?thesis by (simp add: good_def)
qed

lemma parse_key_keeps:
  assumes "parse_key fl sax nx tok lx s = Inr r" and "token_ok tok lx" and "P s"
  shows "good P r"
proof (cases "tok = value_string")
  case True
  then have k: "keeps P (sax_key sax (lx_token_buffer lx))" using on_key assms(2) by (simp add: token_ok_def)
  obtain b s1 where e: "sax_key sax (lx_token_buffer lx) s = Inr (b, s1)" using assms(1) True by (auto simp: parse_key_def rbind_eq_Inr)
  then have p: "P s1" using k assms(3) by (auto simp: keeps_def)
  obtain t1 l1 where 1: "scan fl lx = (t1, l1)" by force
  obtain t2 l2 where 2: "scan fl l1 = (t2, l2)" by force
  show ?thesis
    using assms(1) True e p scan_ok [OF 2] by (auto simp: parse_key_def 1 2 intro: good_any syntax_error_keeps [OF _ p] split: if_splits)
next
  case False
  then show ?thesis using assms syntax_error_keeps by (simp add: parse_key_def)
qed

lemma parse_begin_object_keeps:
  assumes "parse_begin_object fl sax tok lx s = Inr r" and "P s"
  shows "good P r"
proof -
  obtain b s1 where e: "sax_start_object sax s = Inr (b, s1)" using assms(1) by (auto simp: parse_begin_object_def rbind_eq_Inr)
  then have p: "P s1" using on_start_object assms(2) by (auto simp: keeps_def)
  obtain t1 l1 where 1: "scan fl lx = (t1, l1)" by force
  show ?thesis
    using assms(1) e p
    by (auto simp: parse_begin_object_def 1 intro: value_event_keeps [OF _ on_end_object p] parse_key_keeps [OF _ scan_ok [OF 1] p] split: if_splits)
qed

lemma parse_begin_array_keeps:
  assumes "parse_begin_array fl sax tok lx s = Inr r" and "P s"
  shows "good P r"
proof -
  obtain b s1 where e: "sax_start_array sax s = Inr (b, s1)" using assms(1) by (auto simp: parse_begin_array_def rbind_eq_Inr)
  then have p: "P s1" using on_start_array assms(2) by (auto simp: keeps_def)
  obtain t1 l1 where 1: "scan fl lx = (t1, l1)" by force
  show ?thesis
    using assms(1) e p scan_ok [OF 1]
    by (auto simp: parse_begin_array_def 1 intro: value_event_keeps [OF _ on_end_array p] split: if_splits)
qed

lemma parse_float_keeps:
  assumes "parse_float fl sax tok lx s = Inr r" and "P s"
  shows "good P r"
proof (cases "fl_isfinite fl (lx_value_float lx)")
  case True
  then have "value_event (sax_number_float sax (lx_value_float lx) (lx_token_buffer lx)) tok lx s = Inr r" using assms(1) by (simp add: parse_float_def)
  then show ?thesis by (rule value_event_keeps [OF _ on_float assms(2)])
next
  case False
  then obtain ex b s1 where e: "sax_parse_error sax (chars_read_total (lx_position lx)) (get_token_string lx) ex s = Inr (b, s1)" "r = (Ret b, tok, lx, s1)"
    using assms(1) by (auto simp: parse_float_def rbind_eq_Inr)
  have "P s1" using on_parse_error e(1) assms(2) unfolding keeps_def by blast
  then show ?thesis using e(2) by simp
qed

lemma parse_value_keeps:
  assumes "parse_value fl sax tok lx s = Inr r" and "token_ok tok lx" and "P s"
  shows "good P r"
  using assms(1,2)
  by (cases tok) (auto simp: parse_value_def token_ok_def intro: value_event_keeps [OF _ _ assms(3)] syntax_error_keeps [OF _ assms(3)]
      parse_begin_object_keeps [OF _ assms(3)] parse_begin_array_keeps [OF _ assms(3)] parse_float_keeps [OF _ assms(3)]
      events [simplified])

lemma parse_second_keeps:
  assumes "parse_second fl sax states tok lx s = Inr r" and "P s"
  shows "good P r"
proof -
  obtain t1 l1 where 1: "scan fl lx = (t1, l1)" by force
  obtain t2 l2 where 2: "scan fl l1 = (t2, l2)" by force
  have "good P r" if "parse_array_state fl sax lx s = Inr r"
    using that scan_ok [OF 2] assms(2)
    by (auto simp: parse_array_state_def 1 2 intro: syntax_error_keeps [OF _ assms(2)] close_event_keeps [OF _ on_end_array assms(2)] split: if_splits)
  moreover have "good P r" if "parse_object_state fl sax lx s = Inr r"
    using that
    by (auto simp: parse_object_state_def 1 2 intro: syntax_error_keeps [OF _ assms(2)] close_event_keeps [OF _ on_end_object assms(2)]
        parse_key_keeps [OF _ scan_ok [OF 2] assms(2)] split: if_splits)
  ultimately show ?thesis
    using assms by (auto simp: parse_second_def split: list.splits if_splits)
qed

lemma parse_keeps:
  "sax_parse_internal fl sax skip states tok lx s = Inr (b, tok', lx', s') \<Longrightarrow> skip \<or> token_ok tok lx \<Longrightarrow> P s \<Longrightarrow> P s'"
proof (induction "parse_measure skip tok lx" arbitrary: skip states tok lx s rule: less_induct)
  case less
  obtain st t1 l1 s1 where f: "parse_first fl sax skip tok lx s = Inr (st, t1, l1, s1)"
    using less.prems(1) by (subst (asm) sax_parse_internal.simps) (auto split: sum.splits)
  have g: "good P (st, t1, l1, s1)"
    using f less.prems(2,3) parse_value_keeps by (fastforce simp: parse_first_def good_def split: if_splits)
  note step = parse_first_cases [OF f]
  show ?case
  proof (cases "\<exists>a. st = Push a")
    case True
    then obtain a where a: "st = Push a" by blast
    with step have m: "parse_measure False t1 l1 < parse_measure skip tok lx" by auto
    show ?thesis
      using less.hyps [OF m, of "a # states" s1] less.prems(1) f a g by (simp add: sax_parse_internal.simps [of fl _ skip] good_def)
  next
    case no: False
    show ?thesis
    proof (cases st)
      case (Ret b)
      then show ?thesis using less.prems(1) f g by (simp add: sax_parse_internal.simps [of fl _ skip] good_def)
    next
      case Evaluate
      with step have le: "length (remaining l1) \<le> length (remaining lx)" by auto
      obtain st2 t2 l2 s2 where h: "parse_second fl sax states t1 l1 s1 = Inr (st2, t2, l2, s2)"
        using less.prems(1) f Evaluate by (cases "parse_second fl sax states t1 l1 s1") (auto simp: sax_parse_internal.simps [of fl _ skip])
      have k: "good P (st2, t2, l2, s2)" using parse_second_keeps [OF h] g by (simp add: good_def)
      note step2 = parse_second_cases [OF h]
      have m: "st2 = Next \<or> st2 = Pop \<Longrightarrow> parse_measure sk t2 l2 < parse_measure skip tok lx" for sk
        using step2 le by (intro parse_measure_less) auto
      show ?thesis
      proof (cases st2)
        case (Ret b)
        then show ?thesis using less.prems(1) f h k Evaluate by (simp add: sax_parse_internal.simps [of fl _ skip] good_def)
      next
        case Next
        then show ?thesis
          using less.hyps [of False t2 l2 states s2] m less.prems(1) f h k Evaluate by (simp add: sax_parse_internal.simps [of fl _ skip] good_def)
      next
        case Pop
        then show ?thesis
          using less.hyps [of True t2 l2 "tl states" s2] m less.prems(1) f h k Evaluate by (simp add: sax_parse_internal.simps [of fl _ skip] good_def)
      qed (use step2 in auto)
    qed (use step no in auto)
  qed
qed

end

section \<open>The builder keeps its value well-formed\<close>

lemma wf_at: "json_at p v = Some x \<Longrightarrow> wf_json v \<Longrightarrow> wf_json x"
proof (induction p v rule: json_at.induct)
  case (2 i p vs)
  then show ?case by (auto simp: list_all_iff split: if_splits)
next
  case (3 k p kvs)
  then show ?case by (fastforce simp: list_all_iff split: option.splits dest: map_of_SomeD)
qed auto

lemma list_all_alter: "list_all Q kvs \<Longrightarrow> (\<And>v. (k, v) \<in> set kvs \<Longrightarrow> Q (k, v) \<Longrightarrow> Q (k, f v)) \<Longrightarrow> list_all Q (alter k f kvs)"
  by (induction kvs) auto

lemma wf_update: "wf_json v \<Longrightarrow> (\<And>x. wf_json x \<Longrightarrow> wf_json (f x)) \<Longrightarrow> wf_json (json_update p f v)"
proof (induction p f v rule: json_update.induct)
  case (2 i p f vs)
  then show ?case by (auto simp: list_all_iff dest: set_update_subset_insert [THEN subsetD])
next
  case (3 k p f kvs)
  have "list_all (\<lambda>e. valid_utf8 (fst e) \<and> wf_json (snd e)) (alter k (json_update p f) kvs)"
    using 3 by (intro list_all_alter) auto
  then show ?case using "3.prems"(1) by simp
qed auto

lemma wf_object_key: "wf_json x \<Longrightarrow> valid_utf8 k \<Longrightarrow> wf_json (object_key k x)"
  by (cases x) (auto simp: object_key_def intro: sorted_map_put list_all_map_put)

definition dom_ok :: "bool \<Rightarrow> 'f dom_parser \<Rightarrow> bool" where
  "dom_ok allow d \<longleftrightarrow> wf_json (dp_root d) \<and> dp_allow_exceptions d = allow \<and> (allow \<longrightarrow> \<not> dp_errored d)"

lemma handle_value_ok:
  assumes "dom_ok allow d" and "wf_json v"
  shows "dom_ok allow (snd (handle_value v d))"
proof -
  have "wf_json (dp_root (snd (handle_value v d)))"
  proof (cases "dp_ref_stack d")
    case Nil
    then show ?thesis using assms(2) by (simp add: handle_value_def)
  next
    case (Cons r rs)
    have a: "wf_json (json_update r (\<lambda>_. Jarray (vs @ [v])) (dp_root d))" if "json_at r (dp_root d) = Some (Jarray vs)" for vs
      using wf_at [OF that] assms by (intro wf_update) (auto simp: dom_ok_def)
    have "wf_json (json_update q (\<lambda>_. v) (dp_root d))" for q
      using assms by (intro wf_update) (auto simp: dom_ok_def)
    then show ?thesis using Cons a by (auto simp: handle_value_def split: option.split json.split)
  qed
  then show ?thesis using assms(1) by (simp add: dom_ok_def)
qed

lemma dom_value_keeps: "wf_json v \<Longrightarrow> keeps (dom_ok allow) (dom_value v)"
  using handle_value_ok by (auto simp: keeps_def dom_value_def)

lemma dom_start_keeps: "wf_json v \<Longrightarrow> keeps (dom_ok allow) (dom_start v)"
  unfolding keeps_def
proof (intro allI impI)
  fix d b d'
  assume a: "wf_json v" "dom_ok allow d" "dom_start v d = Inr (b, d')"
  then show "dom_ok allow d'" using handle_value_ok [OF a(2,1)] by (cases "handle_value v d") (auto simp: dom_start_def dom_ok_def)
qed

lemma dom_key_keeps: "valid_utf8 k \<Longrightarrow> keeps (dom_ok allow) (dom_key k)"
  by (auto simp: keeps_def dom_key_def dom_ok_def Let_def intro: wf_update wf_object_key)

interpretation dom: sax_receiver dom_sax "dom_ok allow" for allow
  by unfold_locales
    (auto intro: dom_value_keeps dom_start_keeps dom_key_keeps simp: keeps_def [of _ dom_end] keeps_def [of _ "dom_parse_error _ _ _"]
      dom_end_def dom_parse_error_def dom_ok_def Let_def split: if_splits)

lemma json_parse_wf:
  assumes "json_parse fl allow input = Inr v"
  shows "wf_json v \<or> (\<not> allow \<and> v = Jdiscarded)"
proof -
  obtain t l where p: "new_parser fl input = (t, l)" by force
  have t: "token_ok t l" using scan_ok p by (simp add: new_parser_def)
  obtain b t1 l1 d where s: "sax_parse_internal fl dom_sax False [] t l (new_dom_parser allow) = Inr (b, t1, l1, d)"
    using assms by (auto simp: json_parse_def parser_parse_def p rbind_eq_Inr)
  have d: "dom_ok allow d" by (rule dom.parse_keeps [OF s]) (simp_all add: t dom_ok_def new_dom_parser_def)
  obtain t2 l2 where 2: "scan fl l1 = (t2, l2)" by force
  obtain b1 d1 where d1: "(if t2 \<noteq> end_of_input then sax_parse_error dom_sax (chars_read_total (lx_position l2)) (get_token_string l2) (end_error t2 l2) d else Inr (True, d)) = Inr (b1, d1)"
      "v = (if dp_errored d1 then Jdiscarded else dp_root d1)"
    using assms s 2 by (auto simp: json_parse_def parser_parse_def p rbind_eq_Inr)
  have "dom_ok allow d1" using d1(1) d by (auto simp: dom_parse_error_def dom_ok_def Let_def split: if_splits)
  then show ?thesis using d1(2) by (auto simp: dom_ok_def)
qed

text \<open>What was read can be written and read again.\<close>

lemma parse_dump_parse:
  assumes "json_parse fl True input = Inr v" and "plain_json v" and "indent < 0" and "is_ws c"
  shows "\<exists>t. json_dump fl indent c False EH_strict v = Inr t \<and> json_parse fl allow t = Inr (normal_json v)"
  using dump_parse_compact [OF _ assms(2-4)] json_parse_wf [OF assms(1)] by blast

end
