(* ===== verification/Json_Access.thy ===== *)
theory Json_Access
  imports Json_Typed
begin

text \<open>
  Element access, conversions, modifiers and comparisons of the vendored JSON library (\<^verbatim>\<open>include/json.hpp\<close>, class \<^verbatim>\<open>basic_json\<close>). A reference into a
  value is a step of a path; an access that changes the value returns the changed value. What is done with
  floating-point numbers is a parameter.
\<close>

record 'f float_arith =
  fa_of_int :: "int \<Rightarrow> 'f"
  fa_to_int :: "'f \<Rightarrow> int"
  fa_eq :: "'f \<Rightarrow> 'f \<Rightarrow> bool"
  fa_less :: "'f \<Rightarrow> 'f \<Rightarrow> bool"

section \<open>Types\<close>

definition type_name :: "'f json \<Rightarrow> string" where
  "type_name v =
     (case v of
        Jnull \<Rightarrow> ''null''
      | Jobject _ \<Rightarrow> ''object''
      | Jarray _ \<Rightarrow> ''array''
      | Jstring _ \<Rightarrow> ''string''
      | Jboolean _ \<Rightarrow> ''boolean''
      | Jdiscarded \<Rightarrow> ''discarded''
      | _ \<Rightarrow> ''number'')"

text \<open>The place of a type in the order of types; a discarded value has none.\<close>

definition type_order :: "'f json \<Rightarrow> nat option" where
  "type_order v =
     (case v of
        Jnull \<Rightarrow> Some 0
      | Jobject _ \<Rightarrow> Some 3
      | Jarray _ \<Rightarrow> Some 4
      | Jstring _ \<Rightarrow> Some 5
      | Jboolean _ \<Rightarrow> Some 1
      | Jnumber_integer _ \<Rightarrow> Some 2
      | Jnumber_unsigned _ \<Rightarrow> Some 2
      | Jnumber_float _ \<Rightarrow> Some 2
      | Jdiscarded \<Rightarrow> None)"

definition type_less :: "'f json \<Rightarrow> 'f json \<Rightarrow> bool" where
  "type_less a b = (case (type_order a, type_order b) of (Some i, Some j) \<Rightarrow> i < j | _ \<Rightarrow> False)"

definition json_empty :: "'f json \<Rightarrow> bool" where
  "json_empty v = (case v of Jnull \<Rightarrow> True | Jarray vs \<Rightarrow> vs = [] | Jobject kvs \<Rightarrow> kvs = [] | _ \<Rightarrow> False)"

definition json_size :: "'f json \<Rightarrow> nat" where
  "json_size v = (case v of Jnull \<Rightarrow> 0 | Jarray vs \<Rightarrow> length vs | Jobject kvs \<Rightarrow> length kvs | _ \<Rightarrow> 1)"

section \<open>Element access\<close>

definition json_at_index :: "nat \<Rightarrow> 'f json \<Rightarrow> json_exception + 'f json" where
  "json_at_index idx v =
     (case v of
        Jarray vs \<Rightarrow>
          (if idx < length vs then Inr (vs ! idx)
           else Inl (out_of_range_create 401 (''array index '' @ dec (int idx) @ '' is out of range'')))
      | _ \<Rightarrow> Inl (type_error_create 304 (''cannot use at() with '' @ type_name v)))"

definition json_at_key :: "string \<Rightarrow> 'f json \<Rightarrow> json_exception + 'f json" where
  "json_at_key key v =
     (case v of
        Jobject kvs \<Rightarrow>
          (case map_of kvs key of
             Some x \<Rightarrow> Inr x
           | None \<Rightarrow> Inl (out_of_range_create 403 (''key '' @ [CHR 0x27] @ key @ [CHR 0x27] @ '' not found'')))
      | _ \<Rightarrow> Inl (type_error_create 304 (''cannot use at() with '' @ type_name v)))"

text \<open>The operators that may change the value: a null becomes an array or an object, and what is missing is filled with nulls.\<close>

definition subscript_index :: "nat \<Rightarrow> 'f json \<Rightarrow> json_exception + 'f json" where
  "subscript_index idx v =
     (let v1 = (if v = Jnull then Jarray [] else v) in
      case v1 of
        Jarray vs \<Rightarrow> Inr (Jarray (if idx \<ge> length vs then vs @ replicate (idx - length vs + 1) Jnull else vs))
      | _ \<Rightarrow> Inl (type_error_create 305 (''cannot use operator[] with a numeric argument with '' @ type_name v1)))"

definition subscript_key :: "string \<Rightarrow> 'f json \<Rightarrow> json_exception + 'f json" where
  "subscript_key key v =
     (let v1 = (if v = Jnull then Jobject [] else v) in
      case v1 of
        Jobject kvs \<Rightarrow> Inr (object_key key (Jobject kvs))
      | _ \<Rightarrow> Inl (type_error_create 305 (''cannot use operator[] with a string argument with '' @ type_name v1)))"

text \<open>Reading through such an operator: what the reference refers to.\<close>

definition read_index :: "nat \<Rightarrow> 'f json \<Rightarrow> json_exception + 'f json" where
  "read_index idx v = rbind (subscript_index idx v) (\<lambda>v1. json_at_index idx v1)"

definition read_key :: "string \<Rightarrow> 'f json \<Rightarrow> json_exception + 'f json" where
  "read_key key v = rbind (subscript_key key v) (\<lambda>v1. json_at_key key v1)"

text \<open>A value with a default; only an object may be asked.\<close>

definition json_value :: "('f json \<Rightarrow> json_exception + 'a) \<Rightarrow> string \<Rightarrow> 'a \<Rightarrow> 'f json \<Rightarrow> json_exception + 'a" where
  "json_value conv key default_value v =
     (case v of
        Jobject kvs \<Rightarrow> (case map_of kvs key of Some x \<Rightarrow> conv x | None \<Rightarrow> Inr default_value)
      | _ \<Rightarrow> Inl (type_error_create 306 (''cannot use value() with '' @ type_name v)))"

definition json_count :: "string \<Rightarrow> 'f json \<Rightarrow> nat" where
  "json_count key v = (case v of Jobject kvs \<Rightarrow> (if map_of kvs key = None then 0 else 1) | _ \<Rightarrow> 0)"

section \<open>Conversions\<close>

definition from_json_string :: "'f json \<Rightarrow> json_exception + string" where
  "from_json_string v =
     (case v of
        Jstring s \<Rightarrow> Inr s
      | _ \<Rightarrow> Inl (type_error_create 302 (''type must be string, but is '' @ type_name v)))"

definition from_json_boolean :: "'f json \<Rightarrow> json_exception + bool" where
  "from_json_boolean v =
     (case v of
        Jboolean b \<Rightarrow> Inr b
      | _ \<Rightarrow> Inl (type_error_create 302 (''type must be boolean, but is '' @ type_name v)))"

text \<open>The conversion to \<^verbatim>\<open>int\<close>: the number is cut to 32 bits, and a truth value is a number too.\<close>

definition to_int32 :: "int \<Rightarrow> int" where
  "to_int32 x = (x + 2 ^ 31) mod 2 ^ 32 - 2 ^ 31"

definition from_json_int :: "'f float_arith \<Rightarrow> 'f json \<Rightarrow> json_exception + int" where
  "from_json_int fa v =
     (case v of
        Jnumber_unsigned x \<Rightarrow> Inr (to_int32 x)
      | Jnumber_integer x \<Rightarrow> Inr (to_int32 x)
      | Jnumber_float x \<Rightarrow> Inr (fa_to_int fa x)
      | Jboolean b \<Rightarrow> Inr (if b then 1 else 0)
      | _ \<Rightarrow> Inl (type_error_create 302 (''type must be number, but is '' @ type_name v)))"

text \<open>The conversion to \<^verbatim>\<open>std::int64_t\<close> does not take truth values.\<close>

definition to_int64 :: "int \<Rightarrow> int" where
  "to_int64 x = (x + 2 ^ 63) mod 2 ^ 64 - 2 ^ 63"

definition get_arithmetic_value :: "'f float_arith \<Rightarrow> 'f json \<Rightarrow> json_exception + int" where
  "get_arithmetic_value fa v =
     (case v of
        Jnumber_unsigned x \<Rightarrow> Inr (to_int64 x)
      | Jnumber_integer x \<Rightarrow> Inr x
      | Jnumber_float x \<Rightarrow> Inr (fa_to_int fa x)
      | _ \<Rightarrow> Inl (type_error_create 302 (''type must be number, but is '' @ type_name v)))"

section \<open>Modifiers\<close>

definition json_clear :: "'f float_arith \<Rightarrow> 'f json \<Rightarrow> 'f json" where
  "json_clear fa v =
     (case v of
        Jnumber_integer _ \<Rightarrow> Jnumber_integer 0
      | Jnumber_unsigned _ \<Rightarrow> Jnumber_unsigned 0
      | Jnumber_float _ \<Rightarrow> Jnumber_float (fa_of_int fa 0)
      | Jboolean _ \<Rightarrow> Jboolean False
      | Jstring _ \<Rightarrow> Jstring []
      | Jarray _ \<Rightarrow> Jarray []
      | Jobject _ \<Rightarrow> Jobject []
      | _ \<Rightarrow> v)"

definition json_push_back :: "'f json \<Rightarrow> 'f json \<Rightarrow> json_exception + 'f json" where
  "json_push_back val v =
     (case v of
        Jnull \<Rightarrow> Inr (Jarray [val])
      | Jarray vs \<Rightarrow> Inr (Jarray (vs @ [val]))
      | _ \<Rightarrow> Inl (type_error_create 308 (''cannot use push_back() with '' @ type_name v)))"

text \<open>Adding a member does not change the value of a key that is there.\<close>

definition json_push_back_member :: "string \<times> 'f json \<Rightarrow> 'f json \<Rightarrow> json_exception + 'f json" where
  "json_push_back_member e v =
     (let v1 = (if v = Jnull then Jobject [] else v) in
      case v1 of
        Jobject kvs \<Rightarrow> Inr (Jobject (if map_of kvs (fst e) = None then map_put (fst e) (snd e) kvs else kvs))
      | _ \<Rightarrow> Inl (type_error_create 308 (''cannot use push_back() with '' @ type_name v1)))"

definition json_erase_key :: "string \<Rightarrow> 'f json \<Rightarrow> json_exception + nat \<times> 'f json" where
  "json_erase_key key v =
     (case v of
        Jobject kvs \<Rightarrow> Inr (json_count key v, Jobject (filter (\<lambda>e. fst e \<noteq> key) kvs))
      | _ \<Rightarrow> Inl (type_error_create 307 (''cannot use erase() with '' @ type_name v)))"

definition json_erase_index :: "nat \<Rightarrow> 'f json \<Rightarrow> json_exception + 'f json" where
  "json_erase_index idx v =
     (case v of
        Jarray vs \<Rightarrow>
          (if idx \<ge> length vs then Inl (out_of_range_create 401 (''array index '' @ dec (int idx) @ '' is out of range''))
           else Inr (Jarray (take idx vs @ drop (idx + 1) vs)))
      | _ \<Rightarrow> Inl (type_error_create 307 (''cannot use erase() with '' @ type_name v)))"

text \<open>\<^verbatim>\<open>operator[]\<close> of the map, then the assignment.\<close>

definition set_member :: "string \<times> 'f json \<Rightarrow> (string \<times> 'f json) list \<Rightarrow> (string \<times> 'f json) list" where
  "set_member e kvs = put_member e kvs"

definition json_update_with :: "'f json \<Rightarrow> 'f json \<Rightarrow> json_exception + 'f json" where
  "json_update_with j v =
     (let v1 = (if v = Jnull then Jobject [] else v) in
      case v1 of
        Jobject kvs \<Rightarrow>
          (case j of
             Jobject es \<Rightarrow> Inr (Jobject (fold set_member es kvs))
           | _ \<Rightarrow> Inl (type_error_create 312 (''cannot use update() with '' @ type_name j)))
      | _ \<Rightarrow> Inl (type_error_create 312 (''cannot use update() with '' @ type_name v1)))"

section \<open>Comparison\<close>

text \<open>A signed and an unsigned number are compared as signed ones.\<close>

fun json_eq :: "'f float_arith \<Rightarrow> 'f json \<Rightarrow> 'f json \<Rightarrow> bool" where
  "json_eq fa (Jarray xs) (Jarray ys) \<longleftrightarrow> list_all2 (json_eq fa) xs ys"
| "json_eq fa (Jobject xs) (Jobject ys) \<longleftrightarrow> list_all2 (\<lambda>a b. fst a = fst b \<and> json_eq fa (snd a) (snd b)) xs ys"
| "json_eq fa Jnull Jnull \<longleftrightarrow> True"
| "json_eq fa (Jstring x) (Jstring y) \<longleftrightarrow> x = y"
| "json_eq fa (Jboolean x) (Jboolean y) \<longleftrightarrow> x = y"
| "json_eq fa (Jnumber_integer x) (Jnumber_integer y) \<longleftrightarrow> x = y"
| "json_eq fa (Jnumber_unsigned x) (Jnumber_unsigned y) \<longleftrightarrow> x = y"
| "json_eq fa (Jnumber_float x) (Jnumber_float y) \<longleftrightarrow> fa_eq fa x y"
| "json_eq fa (Jnumber_integer x) (Jnumber_float y) \<longleftrightarrow> fa_eq fa (fa_of_int fa x) y"
| "json_eq fa (Jnumber_float x) (Jnumber_integer y) \<longleftrightarrow> fa_eq fa x (fa_of_int fa y)"
| "json_eq fa (Jnumber_unsigned x) (Jnumber_float y) \<longleftrightarrow> fa_eq fa (fa_of_int fa x) y"
| "json_eq fa (Jnumber_float x) (Jnumber_unsigned y) \<longleftrightarrow> fa_eq fa x (fa_of_int fa y)"
| "json_eq fa (Jnumber_unsigned x) (Jnumber_integer y) \<longleftrightarrow> to_int64 x = y"
| "json_eq fa (Jnumber_integer x) (Jnumber_unsigned y) \<longleftrightarrow> x = to_int64 y"
| "json_eq fa _ _ \<longleftrightarrow> False"

text \<open>Arrays are compared like words of a dictionary, objects like words of pairs.\<close>

function (sequential) json_less :: "'f float_arith \<Rightarrow> 'f json \<Rightarrow> 'f json \<Rightarrow> bool"
  and array_less :: "'f float_arith \<Rightarrow> 'f json list \<Rightarrow> 'f json list \<Rightarrow> bool"
  and object_less :: "'f float_arith \<Rightarrow> (string \<times> 'f json) list \<Rightarrow> (string \<times> 'f json) list \<Rightarrow> bool"
where
  "json_less fa (Jarray xs) (Jarray ys) \<longleftrightarrow> array_less fa xs ys"
| "json_less fa (Jobject xs) (Jobject ys) \<longleftrightarrow> object_less fa xs ys"
| "json_less fa Jnull Jnull \<longleftrightarrow> False"
| "json_less fa (Jstring x) (Jstring y) \<longleftrightarrow> x < y"
| "json_less fa (Jboolean x) (Jboolean y) \<longleftrightarrow> \<not> x \<and> y"
| "json_less fa (Jnumber_integer x) (Jnumber_integer y) \<longleftrightarrow> x < y"
| "json_less fa (Jnumber_unsigned x) (Jnumber_unsigned y) \<longleftrightarrow> x < y"
| "json_less fa (Jnumber_float x) (Jnumber_float y) \<longleftrightarrow> fa_less fa x y"
| "json_less fa (Jnumber_integer x) (Jnumber_float y) \<longleftrightarrow> fa_less fa (fa_of_int fa x) y"
| "json_less fa (Jnumber_float x) (Jnumber_integer y) \<longleftrightarrow> fa_less fa x (fa_of_int fa y)"
| "json_less fa (Jnumber_unsigned x) (Jnumber_float y) \<longleftrightarrow> fa_less fa (fa_of_int fa x) y"
| "json_less fa (Jnumber_float x) (Jnumber_unsigned y) \<longleftrightarrow> fa_less fa x (fa_of_int fa y)"
| "json_less fa (Jnumber_integer x) (Jnumber_unsigned y) \<longleftrightarrow> x < to_int64 y"
| "json_less fa (Jnumber_unsigned x) (Jnumber_integer y) \<longleftrightarrow> to_int64 x < y"
| "json_less fa a b \<longleftrightarrow> type_less a b"
| "array_less fa xs [] \<longleftrightarrow> False"
| "array_less fa [] (y # ys) \<longleftrightarrow> True"
| "array_less fa (x # xs) (y # ys) \<longleftrightarrow> json_less fa x y \<or> \<not> json_less fa y x \<and> array_less fa xs ys"
| "object_less fa xs [] \<longleftrightarrow> False"
| "object_less fa [] (y # ys) \<longleftrightarrow> True"
| "object_less fa ((k, x) # xs) ((l, y) # ys) \<longleftrightarrow>
     (k < l \<or> \<not> l < k \<and> json_less fa x y) \<or> \<not> (l < k \<or> \<not> k < l \<and> json_less fa y x) \<and> object_less fa xs ys"
  by pat_completeness auto

termination
  by (relation "measure (case_sum (\<lambda>(fa, a, b). size a + size b) (case_sum (\<lambda>(fa, xs, ys). size_list size xs + size_list size ys)
      (\<lambda>(fa, xs, ys). size_list (size_prod (\<lambda>x. 0) size) xs + size_list (size_prod (\<lambda>x. 0) size) ys)))") auto

end
