(* ===== verification/Supervisor.thy ===== *)
theory Supervisor
  imports Frame Hm_Log
begin

text \<open>
  The newer master (\<^verbatim>\<open>master/master.cpp\<close>): it starts the programs its configuration names and then looks every second which of them
  run. The shell is a parameter: for a command given to \<^verbatim>\<open>popen\<close> its output, or nothing if it cannot be run; commands given
  to \<^verbatim>\<open>system\<close> are recorded in order. The configuration is what the JSON parser finds in it, as in the frame.
\<close>

section \<open>The code\<close>

definition file_at :: "frame_config \<Rightarrow> nat \<Rightarrow> fault + string" where
  "file_at j i =
     (if i < length (fc_workers j) then orelse_throw (fst (fc_workers j ! i)) else Inl Uncaught_exception)"

primrec launch_loop :: "string \<Rightarrow> frame_config \<Rightarrow> nat \<Rightarrow> nat \<Rightarrow> string list \<Rightarrow> fault + string list" where
  "launch_loop bin_path j 0 i cmds = Inr cmds"
| "launch_loop bin_path j (Suc n) i cmds =
     rbind (file_at j i) (\<lambda>process.
     launch_loop bin_path j n (i + 1) (cmds @ [c_str (bin_path @ ''/'' @ process)]))"

text \<open>
  \<^verbatim>\<open>snprintf\<close> with the name of the program as the format and no arguments: a doubled percent sign is one, any other conversion reads an argument
  that was not passed.
\<close>

fun expand_format :: "string \<Rightarrow> fault + string" where
  "expand_format [] = Inr []"
| "expand_format [c] = (if c = CHR ''%'' then Inl Uninitialized_read else Inr [c])"
| "expand_format (c # d # s) =
     (if c = CHR ''%'' then
        (if d = CHR ''%'' then rbind (expand_format s) (\<lambda>t. Inr (CHR ''%'' # t)) else Inl Uninitialized_read)
      else rbind (expand_format (d # s)) (\<lambda>t. Inr (c # t)))"

text \<open>\<^verbatim>\<open>fgets\<close> into the array of 200 with the size 199: the first line, at most 198 characters.\<close>

definition first_line :: "string \<Rightarrow> string" where
  "first_line out = (let l = takeWhile (\<lambda>c. c \<noteq> CHR 0x0A) out; l' = (if length l < length out then l @ [CHR 0x0A] else l) in take 198 l')"

text \<open>
  The process number of a worker. Both calls of \<^verbatim>\<open>strtok_r\<close> pass a null pointer, so that the first one goes on
  from \<^verbatim>\<open>saveptr1\<close>, which nobody has set.
\<close>

definition find_pid :: "(string \<Rightarrow> string option) \<Rightarrow> string \<Rightarrow> int \<Rightarrow> fault + int" where
  "find_pid popen process pid =
     rbind (expand_format (c_str process)) (\<lambda>cmd.
     case popen (take 199 cmd) of
       None \<Rightarrow> Inl Null_dereference
     | Some out \<Rightarrow>
         let result = c_str (first_line out) in
         if length result > 0 then Inl Uninitialized_read else Inr pid)"

definition restart_cmds :: "string \<Rightarrow> string \<Rightarrow> int \<Rightarrow> string list" where
  "restart_cmds bin_path process processNo = replicate (nat processNo) (c_str (bin_path @ ''/'' @ process @ '' &''))"

text \<open>A round over the workers: \<open>n\<close> are left, \<open>i\<close> is the index. \<open>pid\<close> is set to 0 once per round, before the loop.\<close>

primrec watch_loop ::
    "(string \<Rightarrow> string option) \<Rightarrow> string \<Rightarrow> frame_config \<Rightarrow> nat \<Rightarrow> nat \<Rightarrow> int \<Rightarrow> string list \<Rightarrow> fault + string list" where
  "watch_loop popen bin_path j 0 i pid cmds = Inr cmds"
| "watch_loop popen bin_path j (Suc n) i pid cmds =
     rbind (worker_at j i) (\<lambda>(process, processNoStr).
     let processNo = atoi (c_str processNoStr) in
     rbind (find_pid popen process pid) (\<lambda>pid.
     watch_loop popen bin_path j n (i + 1) pid
       (if pid = 0 then cmds @ restart_cmds bin_path process processNo else cmds)))"

primrec watch_rounds ::
    "(nat \<Rightarrow> string \<Rightarrow> string option) \<Rightarrow> string \<Rightarrow> frame_config \<Rightarrow> nat \<Rightarrow> nat \<Rightarrow> string list \<Rightarrow> fault + string list" where
  "watch_rounds popen bin_path j n 0 cmds = Inr cmds"
| "watch_rounds popen bin_path j n (Suc k) cmds =
     rbind (watch_rounds popen bin_path j n k cmds) (\<lambda>cmds. watch_loop (popen k) bin_path j n 0 0 cmds)"

text \<open>
  The main program with \<open>k\<close> rounds of its endless loop. \<open>jp\<close> gives the number, \<open>jw\<close> the list of workers found by the JSON parser. The file
  is read three times.
\<close>

definition supervisor_main ::
    "json_parser \<Rightarrow> (string \<Rightarrow> frame_config option) \<Rightarrow> (string \<Rightarrow> string option) \<Rightarrow> (nat \<Rightarrow> string \<Rightarrow> string option) \<Rightarrow> int
     \<Rightarrow> nat \<Rightarrow> stdio \<Rightarrow> fault + int \<times> string list" where
  "supervisor_main jp jw getenv popen log_ret k io =
     (if log_ret \<noteq> 0 then Inr (-1, [])
      else
        let path = env_getValue getenv ''cfg_path'';
            bin_path = env_getValue getenv ''BIN_PATH'';
            f = new_file (c_str path) ''at+'' in
        rbind (file_getJsonInt jp ''workerNo'' f io) (\<lambda>(workerNo, io1).
        rbind (file_getRes f io1) (\<lambda>(_, io2).
        rbind (file_getRes f io2) (\<lambda>(jsonStr, io3).
        rbind (orelse_throw (jw jsonStr)) (\<lambda>j.
        rbind (launch_loop bin_path j (nat workerNo) 0 []) (\<lambda>cmds.
        rbind (watch_rounds popen bin_path j (nat workerNo) k cmds) (\<lambda>cmds. Inr (0, cmds))))))))"

section \<open>What is started\<close>

lemma launch_loop_all:
  assumes "\<forall>k. i \<le> k \<and> k < i + n \<longrightarrow> file_at j k = Inr (names k)"
  shows "launch_loop bin_path j n i cmds = Inr (cmds @ map (\<lambda>k. c_str (bin_path @ ''/'' @ names k)) [i..<i + n])"
  using assms
proof (induction n arbitrary: i cmds)
  case (Suc n)
  have "[i..<i + Suc n] = i # [i + 1..<i + 1 + n]" by (simp add: upt_conv_Cons del: upt_Suc)
  then show ?case using Suc.IH [of "i + 1"] Suc.prems by simp
qed simp

lemma expand_plain: "CHR ''%'' \<notin> set s \<Longrightarrow> expand_format s = Inr s"
  by (induction s rule: expand_format.induct) auto

text \<open>The monitor runs the program itself instead of looking for it, and never learns a process number.\<close>

lemma find_pid_cases:
  assumes "CHR ''%'' \<notin> set process" and "CHR 0x00 \<notin> set process"
  shows "find_pid popen process pid =
           (case popen (take 199 process) of
              None \<Rightarrow> Inl Null_dereference
            | Some out \<Rightarrow> if c_str (first_line out) = [] then Inr pid else Inl Uninitialized_read)"
  using assms by (simp add: find_pid_def c_str_id expand_plain Let_def split: option.split)

lemma find_pid_keeps: "find_pid popen process pid = Inr pid' \<Longrightarrow> pid' = pid"
  by (auto simp: find_pid_def Let_def rbind_eq_Inr split: option.splits if_splits)

lemma watch_loop_restarts:
  assumes "watch_loop popen bin_path j n i 0 cmds = Inr cmds'"
    and "\<forall>k. i \<le> k \<and> k < i + n \<longrightarrow> worker_at j k = Inr (names k, numbers k)"
  shows "cmds' = cmds @ concat (map (\<lambda>k. restart_cmds bin_path (names k) (atoi (c_str (numbers k)))) [i..<i + n])"
  using assms
proof (induction n arbitrary: i cmds)
  case (Suc n)
  have "worker_at j i = Inr (names i, numbers i)" using Suc.prems(2) by simp
  then have "watch_loop popen bin_path j n (i + 1) 0 (cmds @ restart_cmds bin_path (names i) (atoi (c_str (numbers i)))) = Inr cmds'"
    using Suc.prems(1) find_pid_keeps by (fastforce simp: rbind_eq_Inr Let_def)
  from Suc.IH [OF this] Suc.prems(2) have
    "cmds' = (cmds @ restart_cmds bin_path (names i) (atoi (c_str (numbers i))))
       @ concat (map (\<lambda>k. restart_cmds bin_path (names k) (atoi (c_str (numbers k)))) [i + 1..<i + 1 + n])"
    by simp
  moreover have "[i..<i + Suc n] = i # [i + 1..<i + 1 + n]" by (simp add: upt_conv_Cons del: upt_Suc)
  ultimately show ?case by simp
qed simp

lemma watch_rounds_restart:
  assumes "watch_rounds popen bin_path j n k cmds = Inr cmds'"
    and "\<forall>i < n. worker_at j i = Inr (names i, numbers i)"
  shows "cmds' = cmds @ concat (replicate k (concat (map (\<lambda>i. restart_cmds bin_path (names i) (atoi (c_str (numbers i)))) [0..<n])))"
  using assms(1)
proof (induction k arbitrary: cmds')
  case (Suc k)
  obtain c where r: "watch_rounds popen bin_path j n k cmds = Inr c" and w: "watch_loop (popen k) bin_path j n 0 0 c = Inr cmds'"
    using Suc.prems by (auto simp: rbind_eq_Inr)
  have "concat (replicate (Suc k) x) = concat (replicate k x) @ x" for x :: "string list"
    by (metis append_Nil2 concat.simps concat_append replicate_Suc replicate_append_same)
  then show ?case
    using watch_loop_restarts [OF w, of names numbers] assms(2) Suc.IH [OF r] by simp
qed simp

end
