(* ===== verification/Json_Config.thy ===== *)
theory Json_Config
  imports Json_Access Supervisor
begin

text \<open>
  How the programs read their configuration with the JSON library: \<^verbatim>\<open>json::parse\<close>, the operator \<^verbatim>\<open>[]\<close>, the conversion of
  what it returns and the comparison of a loop counter with a JSON value, put in the place of the parser that the
  theories \<open>File_IO\<close>, \<open>Frame\<close> and \<open>Supervisor\<close> have as an argument.
\<close>

section \<open>The code\<close>

definition caught :: "json_exception + 'a \<Rightarrow> 'a option" where
  "caught r = (case r of Inl _ \<Rightarrow> None | Inr x \<Rightarrow> Some x)"

text \<open>\<^verbatim>\<open>js[key]\<close>, converted to the result type of the method.\<close>

definition library_parser :: "'f float_ops \<Rightarrow> 'f float_arith \<Rightarrow> json_parser" where
  "library_parser fl fa jsonStr =
     (case json_parse fl True jsonStr of
        Inl _ \<Rightarrow> None
      | Inr js \<Rightarrow> Some
          \<lparr>js_string = (\<lambda>key. caught (rbind (read_key key js) from_json_string)),
           js_int = (\<lambda>key. caught (rbind (read_key key js) (from_json_int fa)))\<rparr>)"

text \<open>
  \<^verbatim>\<open>workers[i][name]\<close> as a string, for the indexes at which there is something: behind the end the operator makes a null, which is
  not a string, and a value that is neither an array nor null throws at every index.
\<close>

definition worker_field :: "string \<Rightarrow> 'f json \<Rightarrow> string option" where
  "worker_field name w = caught (rbind (read_key name w) from_json_string)"

definition library_workers :: "'f json \<Rightarrow> (string option \<times> string option) list" where
  "library_workers workers =
     (case workers of
        Jarray ws \<Rightarrow> map (\<lambda>w. (worker_field ''file'' w, worker_field ''number'' w)) ws
      | _ \<Rightarrow> [])"

text \<open>
  The rounds of \<^verbatim>\<open>for (int i = 0; i < number; i++)\<close>, where \<^verbatim>\<open>number\<close> is a JSON value. A round at the index \<open>n\<close>, the number of workers, throws, so
  that there is none after it.
\<close>

definition library_rounds :: "'f float_arith \<Rightarrow> 'f json \<Rightarrow> nat \<Rightarrow> nat" where
  "library_rounds fa number n = length (takeWhile (\<lambda>i. json_less fa (Jnumber_integer (int i)) number) [0..<n + 1])"

definition library_frame :: "'f float_ops \<Rightarrow> 'f float_arith \<Rightarrow> string \<Rightarrow> frame_config option" where
  "library_frame fl fa result =
     caught (rbind (json_parse fl True result) (\<lambda>j.
       rbind (subscript_key ''worker'' j) (\<lambda>j.
       rbind (json_at_key ''worker'' j) (\<lambda>workers.
       rbind (subscript_key ''workerNo'' j) (\<lambda>j.
       rbind (json_at_key ''workerNo'' j) (\<lambda>number.
       let ws = library_workers workers in
       Inr \<lparr>fc_workers = ws, fc_workerNo = int (library_rounds fa number (length ws))\<rparr>))))))"

section \<open>What is read\<close>

lemma read_key_object: "read_key key (Jobject kvs) = Inr (case map_of kvs key of Some x \<Rightarrow> x | None \<Rightarrow> Jnull)"
  by (auto simp: read_key_def subscript_key_def object_key_def json_at_key_def split: option.split)


lemma read_missing: "rbind (read_key key Jnull) from_json_string = Inl (type_error_create 302 ''type must be string, but is null'')"
  by (simp add: read_key_def subscript_key_def object_key_def json_at_key_def from_json_string_def type_name_def Let_def)

section \<open>No zero byte\<close>

lemma zero_byte: "CHR 0x00 = c \<longleftrightarrow> of_char c = (0 :: int)"
  using of_char_eq_iff [where 'a = int, of c "CHR 0x00"] by auto

lemma hex4_nz: "CHR 0x00 \<notin> set (hex4 n)"
proof -
  have "CHR 0x00 \<noteq> hex_digit_lower (m mod 16)" for m
  proof -
    have "0 \<le> m mod 16" "m mod 16 < 16" by simp_all
    then have "of_char (hex_digit_lower (m mod 16)) \<noteq> (0 :: int)" by (auto simp: hex_digit_lower_def)
    then show ?thesis by (simp add: zero_byte)
  qed
  then show ?thesis by (simp add: hex4_def)
qed

lemma escape_nz: "CHR 0x00 \<notin> set (escape_codepoint False (of_char c) c)"
  using hex4_nz by (auto simp: escape_codepoint_def zero_byte)

lemma in_ranges_nz: "in_ranges rs bs \<Longrightarrow> list_all (\<lambda>x. 0 < x) rs \<Longrightarrow> CHR 0x00 \<notin> set bs"
  by (induction rs bs rule: in_ranges.induct) (auto simp: zero_byte)

lemma utf8_ranges_nz: "utf8_ranges (of_char c) = Some rs \<Longrightarrow> CHR 0x00 \<noteq> c \<and> list_all (\<lambda>x. 0 < x) rs"
  by (auto simp: utf8_ranges_def zero_byte split: if_splits)

lemma esc_nz: "esc s t \<Longrightarrow> CHR 0x00 \<notin> set t"
proof (induction rule: esc.induct)
  case (esc_multi c rs bs s t)
  then show ?case using utf8_ranges_nz [of c rs] in_ranges_nz [of rs bs] by simp
qed (simp_all add: escape_nz)

lemma dec_nz: "CHR 0x00 \<notin> set (dec x)" "dec x \<noteq> []"
proof -
  have "\<not> digit (CHR 0x00)" by (simp add: digit_range is_digit_def)
  then show "CHR 0x00 \<notin> set (dec x)" using dec_nat_digits by (auto simp: dec_def list_all_iff)
  show "dec x \<noteq> []" by (simp add: dec_def dec_nat.simps [of "nat x"])
qed

lemma ws_nz: "list_all is_ws ws \<Longrightarrow> CHR 0x00 \<notin> set ws"
  by (auto simp: list_all_iff is_ws_def is_space_def)

lemma text_nz:
  "json_text (v :: 'f json) t \<Longrightarrow> CHR 0x00 \<notin> set t"
  and "elements_text (vs :: 'f json list) t \<Longrightarrow> CHR 0x00 \<notin> set t"
  and "members_text (kvs :: (string \<times> 'f json) list) t \<Longrightarrow> CHR 0x00 \<notin> set t"
  by (induction rule: json_text_elements_text_members_text.inducts) (simp_all add: dec_nz ws_nz esc_nz)

section \<open>Reading a file\<close>

lemma file_getRes_reads:
  assumes "append_mode f" and "sd_fopen_ok io (sd_fopens io)" and "length (content_of io (c_str (f_path f))) < 1024"
  shows "\<exists>io'. file_getRes f io = Inr (c_str (content_of io (c_str (f_path f))), io') \<and> sd_fopen_ok io' = sd_fopen_ok io \<and>
    content_of io' (c_str (f_path f)) = content_of io (c_str (f_path f))"
  using assms
  by (simp add: file_getRes_def fopen_append fread_buf_def open_handle_def buf_string_small fclose_def fflush_def Let_def
      nth_append)

text \<open>\<open>configured f io v\<close>: the file opens, is small enough for the buffer, and holds a text of \<open>v\<close>.\<close>

definition configured :: "fileobj \<Rightarrow> stdio \<Rightarrow> 'f json \<Rightarrow> bool" where
  "configured f io v \<longleftrightarrow> append_mode f \<and> (\<forall>k. sd_fopen_ok io k) \<and> length (content_of io (c_str (f_path f))) < 1024 \<and>
     (\<exists>ws t ws'. content_of io (c_str (f_path f)) = ws @ t @ ws' \<and> list_all is_ws ws \<and> list_all is_ws ws' \<and> json_text v t)"

lemma configured_reads:
  assumes "configured f io (v :: 'f json)"
  obtains s io' where "file_getRes f io = Inr (s, io')" "s \<noteq> []" "json_parse (fl :: 'f float_ops) True s = Inr v" "configured f io' v"
proof -
  obtain ws t ws' where t: "content_of io (c_str (f_path f)) = ws @ t @ ws'" "list_all is_ws ws" "list_all is_ws ws'" "json_text v t"
    using assms by (auto simp: configured_def)
  have "\<not> is_ws (CHR 0x00)" by (simp add: is_ws_def is_space_def)
  then have "CHR 0x00 \<notin> set (ws @ t @ ws')" using t(2-4) text_nz(1) by (auto simp: list_all_iff)
  then have c: "c_str (ws @ t @ ws') = ws @ t @ ws'" by (simp add: c_str_id)
  have "t \<noteq> []" using t(4) by (cases rule: json_text.cases) (auto simp: dec_nz)
  then show ?thesis
    using that file_getRes_reads [of f io] assms t parse_text [OF t(4,2,3)] by (fastforce simp: configured_def c)
qed


text \<open>What the accessors of the helper return for a key of the object in the file.\<close>

lemma config_string:
  fixes fl :: "'f float_ops" and kvs :: "(string \<times> 'f json) list"
  assumes "configured f io (Jobject kvs)" and "map_of kvs key = Some (Jstring s)"
  shows "rsafe (file_getJsonString (library_parser fl fa) key f io) (\<lambda>(r, io'). r = s \<and> configured f io' (Jobject kvs))"
proof -
  obtain t io' where "file_getRes f io = Inr (t, io')" "t \<noteq> []" "json_parse fl True t = Inr (Jobject kvs)" "configured f io' (Jobject kvs)"
    using configured_reads [OF assms(1)] .
  then show ?thesis
    using assms(2) by (simp add: file_getJsonString_def library_parser_def orelse_throw_def caught_def read_key_object from_json_string_def)
qed

lemma to_int32_id: "- (2 ^ 31) \<le> x \<Longrightarrow> x < 2 ^ 31 \<Longrightarrow> to_int32 x = x"
  by (simp add: to_int32_def)

lemma config_int:
  fixes fl :: "'f float_ops" and kvs :: "(string \<times> 'f json) list"
  assumes "configured f io (Jobject kvs)" and "map_of kvs key = Some (Jnumber_unsigned x)" and "0 \<le> x" and "x < 2 ^ 31"
  shows "\<exists>io'. file_getJsonInt (library_parser fl fa) key f io = Inr (x, io') \<and> configured f io' (Jobject kvs)"
proof -
  obtain t io' where "file_getRes f io = Inr (t, io')" "t \<noteq> []" "json_parse fl True t = Inr (Jobject kvs)" "configured f io' (Jobject kvs)"
    using configured_reads [OF assms(1)] .
  moreover have "to_int32 x = x" using assms(3,4) by (intro to_int32_id) simp_all
  ultimately show ?thesis
    using assms(2) by (simp add: file_getJsonInt_def library_parser_def orelse_throw_def caught_def read_key_object from_json_int_def)
qed

lemma config_missing:
  fixes fl :: "'f float_ops" and kvs :: "(string \<times> 'f json) list"
  assumes "configured f io (Jobject kvs)" and "map_of kvs key = None"
  shows "file_getJsonString (library_parser fl fa) key f io = Inl Uncaught_exception \<and>
    file_getJsonInt (library_parser fl fa) key f io = Inl Uncaught_exception"
proof -
  obtain t io' where "file_getRes f io = Inr (t, io')" "t \<noteq> []" "json_parse fl True t = Inr (Jobject kvs)" "configured f io' (Jobject kvs)"
    using configured_reads [OF assms(1)] .
  then show ?thesis
    using assms(2)
    by (simp add: file_getJsonString_def file_getJsonInt_def library_parser_def orelse_throw_def caught_def read_key_object
        from_json_string_def from_json_int_def)
qed

section \<open>The newer master and its configuration\<close>

lemma library_frame_object:
  assumes "json_parse fl True s = Inr (Jobject kvs)" and "map_of kvs ''worker'' = Some (Jarray ws)"
  shows "\<exists>c. library_frame fl fa s = Some c \<and> fc_workers c = map (\<lambda>w. (worker_field ''file'' w, worker_field ''number'' w)) ws"
proof -
  obtain kvs' x where k: "object_key ''workerNo'' (Jobject kvs) = Jobject kvs'" "map_of kvs' ''workerNo'' = Some x"
    by (cases "map_of kvs ''workerNo''") (auto simp: object_key_def)
  have "object_key ''worker'' (Jobject kvs) = Jobject kvs" using assms(2) by (simp add: object_key_def)
  then show ?thesis
    using assms k by (simp add: library_frame_def subscript_key_def json_at_key_def caught_def library_workers_def Let_def)
qed

lemma watch_loop_quiet:
  assumes "\<forall>k. i \<le> k \<and> k < i + n \<longrightarrow> worker_at j k = Inr (names k, numbers k) \<and> find_pid popen (names k) 0 = Inr 0"
  shows "\<exists>cmds'. watch_loop popen bin_path j n i 0 cmds = Inr cmds'"
  using assms
proof (induction n arbitrary: i cmds)
  case (Suc n)
  show ?case using Suc.IH [of "i + 1"] Suc.prems by simp
qed simp

lemma watch_rounds_quiet:
  assumes "\<forall>i < n. worker_at j i = Inr (names i, numbers i)" and "\<forall>r. \<forall>i < n. find_pid (popen r) (names i) 0 = Inr 0"
  shows "watch_rounds popen bin_path j n k cmds =
    Inr (cmds @ concat (replicate k (concat (map (\<lambda>i. restart_cmds bin_path (names i) (atoi (c_str (numbers i)))) [0..<n]))))"
proof -
  have "\<exists>c. watch_rounds popen bin_path j n k cmds = Inr c"
  proof (induction k)
    case (Suc k)
    then show ?case using watch_loop_quiet [of 0 n j names numbers "popen k"] assms by fastforce
  qed simp
  then show ?thesis using watch_rounds_restart assms(1) by blast
qed

text \<open>
  \<open>quiet\<close>: the shell runs the name of the program and it prints nothing in its first line. Then every round starts every
  worker again.
\<close>

definition quiet :: "(nat \<Rightarrow> string \<Rightarrow> string option) \<Rightarrow> string \<Rightarrow> bool" where
  "quiet popen process \<longleftrightarrow> CHR ''%'' \<notin> set process \<and> CHR 0x00 \<notin> set process \<and>
     (\<forall>r. \<exists>out. popen r (take 199 process) = Some out \<and> c_str (first_line out) = [])"

lemma quiet_find: "quiet popen process \<Longrightarrow> find_pid (popen r) process 0 = Inr 0"
  using find_pid_cases [of process "popen r" 0] by (auto simp: quiet_def dest: spec [of _ r])

lemma supervisor_runs:
  fixes fl :: "'f float_ops" and kvs :: "(string \<times> 'f json) list"
  assumes f_def: "f = new_file (c_str (env_getValue getenv ''cfg_path'')) ''at+''" and bin_def: "bin = env_getValue getenv ''BIN_PATH''"
    and "configured f io (Jobject kvs)"
    and "map_of kvs ''workerNo'' = Some (Jnumber_unsigned (int n))" and "n < 2 ^ 31"
    and "map_of kvs ''worker'' = Some (Jarray ws)" and "n \<le> length ws"
    and "\<forall>i < n. worker_field ''file'' (ws ! i) = Some (names i) \<and> worker_field ''number'' (ws ! i) = Some (numbers i) \<and> quiet popen (names i)"
  shows "supervisor_main (library_parser fl fa) (library_frame fl fa) getenv popen 0 k io =
    Inr (0, map (\<lambda>i. c_str (bin @ ''/'' @ names i)) [0..<n] @
            concat (replicate k (concat (map (\<lambda>i. restart_cmds bin (names i) (atoi (c_str (numbers i)))) [0..<n]))))"
proof -
  have "int n < 2 ^ 31" using assms(5) by simp
  then obtain io1 where 1: "file_getJsonInt (library_parser fl fa) ''workerNo'' f io = Inr (int n, io1)" "configured f io1 (Jobject kvs)"
    using config_int [OF assms(3,4)] by fastforce
  obtain s2 io2 where 2: "file_getRes f io1 = Inr (s2, io2)" "s2 \<noteq> []" "json_parse fl True s2 = Inr (Jobject kvs)" "configured f io2 (Jobject kvs)"
    using configured_reads [OF 1(2)] .
  obtain s3 io3 where 3: "file_getRes f io2 = Inr (s3, io3)" "s3 \<noteq> []" "json_parse fl True s3 = Inr (Jobject kvs)" "configured f io3 (Jobject kvs)"
    using configured_reads [OF 2(4)] .
  obtain c where c: "library_frame fl fa s3 = Some c" "fc_workers c = map (\<lambda>w. (worker_field ''file'' w, worker_field ''number'' w)) ws"
    using library_frame_object [OF 3(3) assms(6)] by blast
  have named: "file_at c i = Inr (names i)" and worker: "worker_at c i = Inr (names i, numbers i)" if "i < n" for i
    using that assms(7,8) c(2) by (simp_all add: file_at_def worker_at_def orelse_throw_def)
  have launch: "launch_loop bin c n 0 [] = Inr (map (\<lambda>i. c_str (bin @ ''/'' @ names i)) [0..<n])"
    using launch_loop_all [of 0 n c names bin "[]"] named by simp
  have watch: "watch_rounds popen bin c n k cmds =
      Inr (cmds @ concat (replicate k (concat (map (\<lambda>i. restart_cmds bin (names i) (atoi (c_str (numbers i)))) [0..<n]))))" for cmds
    using worker quiet_find assms(8) by (intro watch_rounds_quiet) blast+
  show ?thesis
    using 1(1) 2(1) 3(1) c(1) launch watch unfolding f_def bin_def by (simp add: supervisor_main_def Let_def orelse_throw_def)
qed

section \<open>The older master and its configuration\<close>

text \<open>The loop bound is a JSON value: a number counts, a null or a truth value gives no round, anything else never ends the loop.\<close>

lemma rounds_prefix: "length (takeWhile (\<lambda>i. i < k) [0..<m]) = min k m"
proof (induction m)
  case (Suc m)
  show ?case
  proof (cases "m < k")
    case True
    then have "takeWhile (\<lambda>i. i < k) [0..<Suc m] = [0..<Suc m]" by (simp only: takeWhile_eq_all_conv) simp
    with True show ?thesis by (metis length_upt diff_zero min.absorb2 Suc_leI)
  next
    case False
    then have "takeWhile (\<lambda>i. i < k) [0..<Suc m] = takeWhile (\<lambda>i. i < k) [0..<m]" by (induction m) (auto simp: takeWhile_append)
    then show ?thesis using Suc.IH False by simp
  qed
qed simp

lemma library_rounds_number:
  assumes "n < 2 ^ 63"
  shows "library_rounds fa (Jnumber_unsigned (int n)) m = min n (m + 1)"
proof -
  have "int n < 2 ^ 63" using assms by simp
  then have "to_int64 (int n) = int n" by (simp add: to_int64_def)
  then have "(\<lambda>i. json_less fa (Jnumber_integer (int i)) (Jnumber_unsigned (int n))) = (\<lambda>i. i < n)" by auto
  then show ?thesis by (simp only: library_rounds_def rounds_prefix)
qed

lemma library_rounds_none: "library_rounds fa Jnull m = 0" "library_rounds fa (Jboolean b) m = 0"
  by (simp_all add: library_rounds_def type_less_def type_order_def upt_conv_Cons del: upt_Suc)

lemma library_rounds_other:
  assumes "v = Jstring s \<or> v = Jarray vs \<or> v = Jobject kvs"
  shows "library_rounds fa v m = m + 1"
proof -
  have "json_less fa (Jnumber_integer x) v" for x using assms by (auto simp: type_less_def type_order_def)
  then show ?thesis by (simp add: library_rounds_def)
qed

text \<open>A number of workers that is not written as a number starts every worker and then throws.\<close>

lemma run_loop_past_end:
  assumes "i + n = length (fc_workers j) + 1" and "i \<le> length (fc_workers j)"
  shows "run_loop fork j n i pids ps = Inl Uncaught_exception"
  using assms
proof (induction n arbitrary: i pids ps)
  case (Suc n)
  show ?case
  proof (cases "i < length (fc_workers j)")
    case True
    have "worker_at j i = Inl Uncaught_exception \<or> (\<exists>a b. worker_at j i = Inr (a, b))"
      using True by (cases "fc_workers j ! i") (auto simp: worker_at_def split: option.splits)
    moreover have "run_loop fork j n (i + 1) p q = Inl Uncaught_exception" for p q using True Suc by simp
    ultimately show ?thesis by (auto simp: Let_def)
  next
    case False
    then show ?thesis by (simp add: worker_at_def)
  qed
qed simp

lemma library_frame_counts:
  assumes "json_parse fl True s = Inr (Jobject kvs)" and "map_of kvs ''worker'' = Some (Jarray ws)" and "map_of kvs ''workerNo'' = Some v"
  shows "library_frame fl fa s = Some
    \<lparr>fc_workers = map (\<lambda>w. (worker_field ''file'' w, worker_field ''number'' w)) ws, fc_workerNo = int (library_rounds fa v (length ws))\<rparr>"
  using assms
  by (simp add: library_frame_def subscript_key_def object_key_def json_at_key_def caught_def library_workers_def Let_def)

lemma runWorkers_text_number:
  assumes "json_parse fl True s = Inr (Jobject kvs)" and "map_of kvs ''worker'' = Some (Jarray ws)"
    and "map_of kvs ''workerNo'' = Some (Jstring t)"
  shows "\<exists>c. library_frame fl fa s = Some c \<and> runWorkers fork c pids ps = Inl Uncaught_exception"
proof -
  have n: "library_rounds fa (Jstring t) m = m + 1" for m by (rule library_rounds_other) blast
  show ?thesis
    using library_frame_counts [OF assms] by (auto simp: runWorkers_def n simp del: run_loop.simps intro!: run_loop_past_end)
qed

end
