(* ===== verification/Json_Examples.thy ===== *)
theory Json_Examples
  imports Json_Config
begin

text \<open>Concrete values, texts and files for the witnesses.\<close>

text \<open>A library without floating-point numbers.\<close>

definition ex_fl :: "unit float_ops" where
  "ex_fl = \<lparr>fl_zero = (), fl_strtod = (\<lambda>_. ()), fl_isfinite = (\<lambda>_. False), fl_to_chars = (\<lambda>_. ''0.0''), fl_decimal_point = CHR ''.''\<rparr>"

definition ex_fa :: "unit float_arith" where
  "ex_fa = \<lparr>fa_of_int = (\<lambda>_. ()), fa_to_int = (\<lambda>_. 0), fa_eq = (\<lambda>_ _. True), fa_less = (\<lambda>_ _. False)\<rparr>"

lemma ex_parse: "json_parse ex_fl True ''[1, -2]'' = Inr (Jarray [Jnumber_unsigned 1, Jnumber_integer (-2)])"
  by code_simp

text \<open>A configuration with one worker, as a value and as a text.\<close>

definition ex_worker :: "unit json" where
  "ex_worker = Jobject [(''file'', Jstring ''bus''), (''number'', Jstring ''2'')]"

definition ex_config :: "unit json" where
  "ex_config = Jobject [(''worker'', Jarray [ex_worker]), (''workerNo'', Jnumber_unsigned 1)]"

definition q :: "string \<Rightarrow> string" where
  "q s = CHR 0x22 # s @ [CHR 0x22]"

lemma esc_plain: "list_all (\<lambda>c. 0x20 \<le> (of_char c :: int) \<and> (of_char c :: int) < 0x80 \<and> c \<noteq> CHR 0x22 \<and> c \<noteq> CHR 0x5C) s \<Longrightarrow> esc s s"
proof (induction s)
  case (Cons c s)
  have "(of_char c :: int) \<noteq> 0x22" "(of_char c :: int) \<noteq> 0x5C"
    using Cons.prems of_char_eq_iff [where 'a = int, of c "CHR 0x22"] of_char_eq_iff [where 'a = int, of c "CHR 0x5C"] by auto
  then have "escape_codepoint False (of_char c) c = [c]" using Cons.prems by (auto simp: escape_codepoint_def)
  then show ?case using esc_ascii [of c s s] Cons by simp
qed (rule esc_Nil)

lemma text_plain: "list_all (\<lambda>c. 0x20 \<le> (of_char c :: int) \<and> (of_char c :: int) < 0x80 \<and> c \<noteq> CHR 0x22 \<and> c \<noteq> CHR 0x5C) s \<Longrightarrow> json_text (Jstring s) (q s)"
  using text_string [OF esc_plain] by (simp add: q_def)

definition ex_config_text :: string where
  "ex_config_text = ''{'' @ q ''workerNo'' @ '': 1, '' @ q ''worker'' @ '': [{'' @ q ''file'' @ '':'' @ q ''bus'' @ '','' @ q ''number'' @ '':'' @ q ''2'' @ ''}]}''"


lemma ex_esc: "esc ''workerNo'' ''workerNo''" "esc ''worker'' ''worker''" "esc ''file'' ''file''" "esc ''number'' ''number''"
  by (rule esc_plain, simp)+

lemma ex_worker_text: "json_text ex_worker (''{'' @ q ''file'' @ '':'' @ q ''bus'' @ '','' @ q ''number'' @ '':'' @ q ''2'' @ ''}'')"
proof -
  have "members_text [(''number'', Jstring ''2'' :: unit json)] (q ''number'' @ '':'' @ q ''2'')"
    using text_member [of "[]" "''number''" "''number''" "[]" "[]" "Jstring ''2''" "q ''2''"] ex_esc text_plain [of "''2''"] by (simp add: q_def)
  then have "members_text [(''file'', Jstring ''bus'' :: unit json), (''number'', Jstring ''2'')] (q ''file'' @ '':'' @ q ''bus'' @ '','' @ q ''number'' @ '':'' @ q ''2'')"
    using text_members [of "[]" "''file''" "''file''" "[]" "[]" "Jstring ''bus''" "q ''bus''" "[]"] ex_esc text_plain [of "''bus''"] by (simp add: q_def)
  from text_object [OF this, of "[]"] show ?thesis by (simp add: ex_worker_def put_member_def)
qed

lemma ex_config_text: "json_text ex_config ex_config_text"
proof -
  let ?w = "''{'' @ q ''file'' @ '':'' @ q ''bus'' @ '','' @ q ''number'' @ '':'' @ q ''2'' @ ''}''"
  have sp: "list_all is_ws '' ''" by (simp add: is_ws_def is_space_def)
  have "json_text (Jarray [ex_worker]) (''['' @ ?w @ '']'')"
    using text_array [OF text_element [of "[]", OF _ ex_worker_text], of "[]"] by simp
  then have "members_text [(''worker'', Jarray [ex_worker])] ('' '' @ q ''worker'' @ '': '' @ ''['' @ ?w @ '']'')"
    using text_member [of "'' ''" "''worker''" "''worker''" "[]" "'' ''"] ex_esc sp by (simp add: q_def)
  moreover have "json_text (Jnumber_unsigned 1 :: unit json) ''1''"
  proof -
    have "dec 1 = ''1''" by code_simp
    then show ?thesis using text_unsigned [of 1] by simp
  qed
  ultimately have "members_text [(''workerNo'', Jnumber_unsigned 1), (''worker'', Jarray [ex_worker])]
      (q ''workerNo'' @ '': 1,'' @ '' '' @ q ''worker'' @ '': '' @ ''['' @ ?w @ '']'')"
    using text_members [of "[]" "''workerNo''" "''workerNo''" "[]" "'' ''" "Jnumber_unsigned 1" "''1''" "[]"] ex_esc sp by (simp add: q_def)
  then have "json_text (Jobject (fold put_member [(''workerNo'', Jnumber_unsigned 1), (''worker'', Jarray [ex_worker])] [])) ex_config_text"
    using text_object [of _ _ "[]"] by (force simp: ex_config_text_def)
  moreover have "Jobject (fold put_member [(''workerNo'', Jnumber_unsigned 1), (''worker'', Jarray [ex_worker])] []) = ex_config"
    by (simp add: ex_config_def put_member_def)
  ultimately show ?thesis by simp
qed

definition ex_getenv :: "string \<Rightarrow> string option" where
  "ex_getenv name = (if name = ''cfg_path'' then Some ''/etc/work.ubb'' else if name = ''BIN_PATH'' then Some ''/bin'' else None)"

lemma ex_getenv_simps [simp]: "env_getValue ex_getenv ''cfg_path'' = ''/etc/work.ubb''" "env_getValue ex_getenv ''BIN_PATH'' = ''/bin''"
  by (simp_all add: env_getValue_def ex_getenv_def c_str_id)

definition ex_config_io :: stdio where
  "ex_config_io =
     \<lparr>sd_files = (\<lambda>p. if p = ''/etc/work.ubb'' then Some ex_config_text else None), sd_handles = [], sd_fopen_ok = (\<lambda>_. True), sd_fopens = 0,
      sd_fprintf_ok = (\<lambda>_. True), sd_fprintfs = 0, sd_flush_ok = (\<lambda>_. True), sd_flushes = 0\<rparr>"

lemma ex_configured: "configured (new_file (c_str (env_getValue ex_getenv ''cfg_path'')) ''at+'') ex_config_io ex_config"
proof -
  have "length ex_config_text < 1024" by (simp add: ex_config_text_def q_def)
  moreover have "\<exists>ws t ws'. ex_config_text = ws @ t @ ws' \<and> list_all is_ws ws \<and> list_all is_ws ws' \<and> json_text ex_config t"
    using ex_config_text by (intro exI [of _ "[]"] exI [of _ ex_config_text]) simp
  ultimately show ?thesis by (simp add: configured_def new_file_def ex_config_io_def c_str_id)
qed

lemma ex_worker_fields:
  "worker_field ''file'' ex_worker = Some ''bus''" "worker_field ''number'' ex_worker = Some ''2''" "quiet (\<lambda>_ _. Some []) ''bus''"
  by (simp_all add: worker_field_def ex_worker_def read_key_object from_json_string_def caught_def quiet_def first_line_def c_str_def)

end
