(* ===== verification/Log_Threads.thy ===== *)
theory Log_Threads
  imports Hm_Log "HOL-Library.Multiset"
begin

text \<open>
  The threads of the log (\<^verbatim>\<open>include/hmLog.hpp\<close>): any number of callers that insert a message, the thread that prints, and the thread
  that runs the destructor. A thread is the place in its code that it has reached; a step is what it does up to the next
  place at which another thread may intervene. The mutex has an owner or none; \<^verbatim>\<open>pthread_cond_wait\<close> gives the mutex up and takes it again
  after a signal (or without one, which POSIX allows). The destructor cancels the printing thread, whose type of cancellation is asynchronous: the
  cancellation takes effect at any later place and runs \<^verbatim>\<open>cleanup\<close>, which unlocks the mutex.
\<close>

section \<open>The code\<close>

datatype log_thread = Printer | Closer | Caller nat

datatype printer_pc =
    Test_cancel
  | Locking
  | Before_wait
  | Waiting
  | Woken
  | Printing "log_entry list"
  | Gone

datatype caller_pc = Calling log_entry | Pushing log_entry | Signalling | Releasing | Returned

datatype closer_pc =
    Running
  | Closing
  | Checking
  | Waking
  | Letting
  | Sleeping
  | Cancelling
  | Letting_go
  | Joining
  | Closed

text \<open>\<open>lt_inserted\<close> and \<open>lt_handled\<close> record the history: what has been put into the queue, and what the printer has dealt with.\<close>

record log_threads =
  lt_log :: hmLog
  lt_io :: stdio
  lt_out :: string
  lt_looks :: nat
  lt_mutex :: "log_thread option"
  lt_cancel :: bool
  lt_printer :: printer_pc
  lt_callers :: "caller_pc list"
  lt_closer :: closer_pc
  lt_inserted :: "log_entry list"
  lt_handled :: "log_entry list"

definition start_threads :: "log_entry list \<Rightarrow> hmLog \<Rightarrow> stdio \<Rightarrow> log_threads" where
  "start_threads es l io =
     \<lparr>lt_log = l, lt_io = io, lt_out = [], lt_looks = 0, lt_mutex = None, lt_cancel = False, lt_printer = Test_cancel,
      lt_callers = map Calling es, lt_closer = Running, lt_inserted = [], lt_handled = []\<rparr>"

text \<open>\<^verbatim>\<open>lock\<close> blocks (\<open>None\<close>) while another thread has the mutex.\<close>

definition take_lock :: "log_thread \<Rightarrow> log_threads \<Rightarrow> log_threads option" where
  "take_lock t st = (if lt_mutex st = None then Some (st\<lparr>lt_mutex := Some t\<rparr>) else None)"

definition release_lock :: "log_threads \<Rightarrow> log_threads" where
  "release_lock st = st\<lparr>lt_mutex := None\<rparr>"

definition log_signal :: "log_threads \<Rightarrow> log_threads" where
  "log_signal st = (if lt_printer st = Waiting then st\<lparr>lt_printer := Woken\<rparr> else st)"

text \<open>\<^verbatim>\<open>printLog\<close>: one message of those taken from the queue is dealt with in a step.\<close>

definition print_one :: "(nat \<Rightarrow> tm) \<Rightarrow> log_entry \<Rightarrow> log_entry list \<Rightarrow> log_threads \<Rightarrow> fault + log_threads" where
  "print_one clock e es st =
     rbind (print_logs clock (lt_looks st) [e] (lt_log st) (lt_io st) (lt_out st)) (\<lambda>(l, io, out).
     Inr (st\<lparr>lt_log := l, lt_io := io, lt_out := out, lt_looks := lt_looks st + 1, lt_printer := Printing es,
             lt_handled := lt_handled st @ [e]\<rparr>))"

definition printer_step :: "(nat \<Rightarrow> tm) \<Rightarrow> log_threads \<Rightarrow> (fault + log_threads) option" where
  "printer_step clock st =
     (case lt_printer st of
        Test_cancel \<Rightarrow> Some (Inr (st\<lparr>lt_printer := Locking\<rparr>))
      | Locking \<Rightarrow> map_option (\<lambda>st1. Inr (st1\<lparr>lt_printer := Before_wait\<rparr>)) (take_lock Printer st)
      | Before_wait \<Rightarrow> Some (Inr ((release_lock st)\<lparr>lt_printer := Waiting\<rparr>))
      | Waiting \<Rightarrow> None
      | Woken \<Rightarrow>
          map_option (\<lambda>st1. Inr (st1\<lparr>lt_printer := Printing (hl_logs (lt_log st1)), lt_log := (lt_log st1)\<lparr>hl_logs := []\<rparr>\<rparr>))
            (take_lock Printer st)
      | Printing [] \<Rightarrow> Some (Inr ((release_lock st)\<lparr>lt_printer := Test_cancel\<rparr>))
      | Printing (e # es) \<Rightarrow> Some (print_one clock e es st)
      | Gone \<Rightarrow> None)"

text \<open>The end of \<^verbatim>\<open>insertLog\<close>, with the message formatted.\<close>

definition push_log :: "log_entry \<Rightarrow> log_threads \<Rightarrow> log_threads" where
  "push_log e st =
     st\<lparr>lt_log := (lt_log st)\<lparr>hl_logs := hl_logs (lt_log st) @ [e]\<rparr>, lt_inserted := lt_inserted st @ [e]\<rparr>"

definition set_caller :: "nat \<Rightarrow> caller_pc \<Rightarrow> log_threads \<Rightarrow> log_threads" where
  "set_caller i pc st = st\<lparr>lt_callers := (lt_callers st)[i := pc]\<rparr>"

definition caller_step :: "nat \<Rightarrow> log_threads \<Rightarrow> log_threads option" where
  "caller_step i st =
     (if i < length (lt_callers st) then
        (case lt_callers st ! i of
           Calling e \<Rightarrow> map_option (set_caller i (Pushing e)) (take_lock (Caller i) st)
         | Pushing e \<Rightarrow> Some (set_caller i Signalling (push_log e st))
         | Signalling \<Rightarrow> Some (set_caller i Releasing (log_signal st))
         | Releasing \<Rightarrow> Some (set_caller i Returned (release_lock st))
         | Returned \<Rightarrow> None)
      else None)"

text \<open>\<^verbatim>\<open>~hmLog\<close>: it signals once a second until the queue is empty, then cancels the printer and waits for its end.\<close>

definition closer_step :: "log_threads \<Rightarrow> log_threads option" where
  "closer_step st =
     (case lt_closer st of
        Running \<Rightarrow> Some (st\<lparr>lt_closer := Closing\<rparr>)
      | Closing \<Rightarrow> map_option (\<lambda>st1. st1\<lparr>lt_closer := Checking\<rparr>) (take_lock Closer st)
      | Checking \<Rightarrow> Some (st\<lparr>lt_closer := (if hl_logs (lt_log st) \<noteq> [] then Waking else Cancelling)\<rparr>)
      | Waking \<Rightarrow> Some ((log_signal st)\<lparr>lt_closer := Letting\<rparr>)
      | Letting \<Rightarrow> Some ((release_lock st)\<lparr>lt_closer := Sleeping\<rparr>)
      | Sleeping \<Rightarrow> Some (st\<lparr>lt_closer := Closing\<rparr>)
      | Cancelling \<Rightarrow> Some (st\<lparr>lt_cancel := True, lt_closer := Letting_go\<rparr>)
      | Letting_go \<Rightarrow> Some ((release_lock st)\<lparr>lt_closer := Joining\<rparr>)
      | Joining \<Rightarrow> (if lt_printer st = Gone then Some (st\<lparr>lt_closer := Closed\<rparr>) else None)
      | Closed \<Rightarrow> None)"

text \<open>
  The cancellation takes effect. In \<^verbatim>\<open>pthread_cond_wait\<close> the mutex is taken again first; elsewhere \<^verbatim>\<open>cleanup\<close> unlocks a mutex that
  the thread may not have.
\<close>

definition cancel_step :: "log_threads \<Rightarrow> (fault + log_threads) option" where
  "cancel_step st =
     (if \<not> lt_cancel st then None
      else case lt_printer st of
        Gone \<Rightarrow> None
      | Waiting \<Rightarrow> map_option (\<lambda>st1. Inr ((release_lock st1)\<lparr>lt_printer := Gone\<rparr>)) (take_lock Printer st)
      | Woken \<Rightarrow> map_option (\<lambda>st1. Inr ((release_lock st1)\<lparr>lt_printer := Gone\<rparr>)) (take_lock Printer st)
      | _ \<Rightarrow> Some (if lt_mutex st = Some Printer then Inr ((release_lock st)\<lparr>lt_printer := Gone\<rparr>) else Inl Unlock_not_owned))"

text \<open>A return from \<^verbatim>\<open>pthread_cond_wait\<close> without a signal.\<close>

definition spurious_step :: "log_threads \<Rightarrow> log_threads option" where
  "spurious_step st = (if lt_printer st = Waiting then Some (st\<lparr>lt_printer := Woken\<rparr>) else None)"

inductive log_step :: "(nat \<Rightarrow> tm) \<Rightarrow> log_threads \<Rightarrow> log_threads \<Rightarrow> bool" for clock where
  by_printer: "printer_step clock st = Some (Inr st') \<Longrightarrow> log_step clock st st'"
| by_caller: "caller_step i st = Some st' \<Longrightarrow> log_step clock st st'"
| by_closer: "closer_step st = Some st' \<Longrightarrow> log_step clock st st'"
| by_cancel: "cancel_step st = Some (Inr st') \<Longrightarrow> log_step clock st st'"
| by_accident: "spurious_step st = Some st' \<Longrightarrow> log_step clock st st'"

inductive_cases log_stepE: "log_step clock st st'"

section \<open>Mutual exclusion and the queue\<close>

definition printer_owns :: "printer_pc \<Rightarrow> bool" where
  "printer_owns pc = (case pc of Before_wait \<Rightarrow> True | Printing _ \<Rightarrow> True | _ \<Rightarrow> False)"

definition caller_owns :: "caller_pc \<Rightarrow> bool" where
  "caller_owns pc = (case pc of Pushing _ \<Rightarrow> True | Signalling \<Rightarrow> True | Releasing \<Rightarrow> True | _ \<Rightarrow> False)"

definition closer_owns :: "closer_pc \<Rightarrow> bool" where
  "closer_owns pc \<longleftrightarrow> pc \<in> {Checking, Waking, Letting, Cancelling, Letting_go}"

definition owns :: "log_threads \<Rightarrow> log_thread \<Rightarrow> bool" where
  "owns st t =
     (case t of
        Printer \<Rightarrow> printer_owns (lt_printer st)
      | Closer \<Rightarrow> closer_owns (lt_closer st)
      | Caller i \<Rightarrow> i < length (lt_callers st) \<and> caller_owns (lt_callers st ! i))"

text \<open>The mutex belongs to a thread exactly if the thread is between locking and unlocking.\<close>

definition mutex_inv :: "log_threads \<Rightarrow> bool" where
  "mutex_inv st \<longleftrightarrow> (\<forall>t. lt_mutex st = Some t \<longleftrightarrow> owns st t)"

text \<open>What the printer has taken from the queue and not dealt with; what a caller has not inserted yet.\<close>

definition taken :: "printer_pc \<Rightarrow> log_entry list" where
  "taken pc = (case pc of Printing es \<Rightarrow> es | _ \<Rightarrow> [])"

definition unsent :: "caller_pc \<Rightarrow> log_entry multiset" where
  "unsent pc = (case pc of Calling e \<Rightarrow> {#e#} | Pushing e \<Rightarrow> {#e#} | _ \<Rightarrow> {#})"

definition queue_inv :: "log_entry list \<Rightarrow> log_threads \<Rightarrow> bool" where
  "queue_inv es st \<longleftrightarrow>
     (lt_closer st = Cancelling \<longrightarrow> hl_logs (lt_log st) = []) \<and>
     (lt_printer st = Gone \<longrightarrow> lt_cancel st) \<and>
     (lt_cancel st \<longrightarrow> lt_closer st \<in> {Letting_go, Joining, Closed}) \<and>
     (lt_printer st \<noteq> Gone \<longrightarrow> lt_inserted st = lt_handled st @ taken (lt_printer st) @ hl_logs (lt_log st)) \<and>
     mset (lt_inserted st) + (\<Sum>pc \<leftarrow> lt_callers st. unsent pc) = mset es"

text \<open>A step of the thread \<open>t\<close> locks, unlocks or leaves the mutex alone; the other threads stay where they are, in or out.\<close>

definition moves :: "log_thread \<Rightarrow> log_threads \<Rightarrow> log_threads \<Rightarrow> bool" where
  "moves t st st' \<longleftrightarrow>
     (\<forall>t'. t' \<noteq> t \<longrightarrow> owns st' t' = owns st t') \<and>
     (lt_mutex st = None \<and> lt_mutex st' = Some t \<and> owns st' t \<or>
      owns st t \<and> lt_mutex st' = None \<and> \<not> owns st' t \<or>
      lt_mutex st' = lt_mutex st \<and> owns st' t = owns st t)"

lemma moves_mutex: "mutex_inv st \<Longrightarrow> moves t st st' \<Longrightarrow> mutex_inv st'"
  unfolding mutex_inv_def moves_def by (metis option.distinct(1) option.inject)

lemmas thread_steps = take_lock_def release_lock_def log_signal_def push_log_def set_caller_def print_one_def

lemmas owner_defs = owns_def printer_owns_def closer_owns_def caller_owns_def

lemma printer_moves: "printer_step clock st = Some (Inr st') \<Longrightarrow> mutex_inv st \<Longrightarrow> moves Printer st st'"
proof (cases "lt_printer st")
  case (Printing es)
  assume "printer_step clock st = Some (Inr st')"
  with Printing show ?thesis
    by (cases es) (auto simp: printer_step_def thread_steps moves_def owner_defs rbind_eq_Inr split: log_thread.split)
qed (auto simp: printer_step_def thread_steps moves_def owner_defs split: log_thread.split if_splits)

lemma closer_moves: "closer_step st = Some st' \<Longrightarrow> mutex_inv st \<Longrightarrow> moves Closer st st'"
  by (cases "lt_closer st") (auto simp: closer_step_def thread_steps moves_def owner_defs split: log_thread.split if_splits)

lemma owner_owns: "mutex_inv st \<Longrightarrow> lt_mutex st = Some t \<Longrightarrow> owns st t"
  unfolding mutex_inv_def by blast

text \<open>Mutual exclusion.\<close>

lemma owns_unique: "mutex_inv st \<Longrightarrow> owns st t \<Longrightarrow> owns st t' \<Longrightarrow> t = t'"
  unfolding mutex_inv_def by (metis option.inject)

lemma cancel_moves: "cancel_step st = Some (Inr st') \<Longrightarrow> mutex_inv st \<Longrightarrow> moves Printer st st'"
  using owner_owns [of st Printer]
  by (cases "lt_printer st") (auto simp: cancel_step_def thread_steps moves_def owner_defs split: log_thread.split if_splits)

lemma spurious_moves: "spurious_step st = Some st' \<Longrightarrow> moves Printer st st'"
  by (auto simp: spurious_step_def moves_def owner_defs split: log_thread.split if_splits)

lemma caller_moves: "caller_step i st = Some st' \<Longrightarrow> mutex_inv st \<Longrightarrow> moves (Caller i) st st'"
proof -
  assume a: "caller_step i st = Some st'" "mutex_inv st"
  then have "i < length (lt_callers st)" by (simp add: caller_step_def split: if_splits)
  with a show ?thesis
    by (cases "lt_callers st ! i") (auto simp: caller_step_def thread_steps moves_def owner_defs split: log_thread.split if_splits)
qed

lemma log_step_mutex: "log_step clock st st' \<Longrightarrow> mutex_inv st \<Longrightarrow> mutex_inv st'"
  by (erule log_stepE) (blast intro: moves_mutex printer_moves closer_moves cancel_moves spurious_moves caller_moves)+

lemma sum_callers_update:
  fixes f :: "'a \<Rightarrow> 'b multiset"
  shows "i < length xs \<Longrightarrow> (\<Sum>x \<leftarrow> xs[i := y]. f x) + f (xs ! i) = (\<Sum>x \<leftarrow> xs. f x) + f y"
proof (induction xs arbitrary: i)
  case (Cons x xs)
  then show ?case by (cases i) (auto simp: ac_simps)
qed simp

lemma print_logs_queue: "print_logs clock k es l io out = Inr (l', io', out') \<Longrightarrow> hl_logs l' = hl_logs l"
proof (induction es arbitrary: k l io out)
  case (Cons e es)
  have l1: "hl_logs l1 = hl_logs l" if "setLogPath now l = Inr l1" for now l1
    using that by (auto simp: setLogPath_def split: option.splits)
  show ?case using Cons by (auto simp: rbind_eq_Inr Let_def l1 split: if_splits option.splits)
qed simp

lemma printer_queue:
  assumes "printer_step clock st = Some (Inr st')" and "mutex_inv st" and "queue_inv es st"
  shows "queue_inv es st'"
proof -
  have c: "lt_closer st \<noteq> Cancelling" if "lt_mutex st = None"
    using that assms(2) by (auto simp: mutex_inv_def owner_defs dest: spec [of _ Closer])
  show ?thesis
  proof (cases "lt_printer st")
    case (Printing xs)
    show ?thesis
      using assms(1,3) Printing
      by (cases xs) (auto simp: printer_step_def thread_steps queue_inv_def taken_def rbind_eq_Inr simp del: print_logs.simps dest!: print_logs_queue)
  qed (use assms(1,3) c in \<open>auto simp: printer_step_def thread_steps queue_inv_def taken_def split: if_splits\<close>)
qed

lemma closer_queue: "closer_step st = Some st' \<Longrightarrow> mutex_inv st \<Longrightarrow> queue_inv es st \<Longrightarrow> queue_inv es st'"
  by (cases "lt_closer st") (auto simp: closer_step_def thread_steps queue_inv_def taken_def split: if_splits)

lemma cancel_queue: "cancel_step st = Some (Inr st') \<Longrightarrow> queue_inv es st \<Longrightarrow> queue_inv es st'"
  by (cases "lt_printer st") (auto simp: cancel_step_def thread_steps queue_inv_def split: if_splits)

lemma spurious_queue: "spurious_step st = Some st' \<Longrightarrow> queue_inv es st \<Longrightarrow> queue_inv es st'"
  by (auto simp: spurious_step_def queue_inv_def taken_def split: if_splits)

lemma unsent_simps [simp]:
  "unsent (Calling e) = {#e#}" "unsent (Pushing e) = {#e#}" "unsent Signalling = {#}" "unsent Releasing = {#}" "unsent Returned = {#}"
  by (simp_all add: unsent_def)

lemma caller_queue:
  assumes "caller_step i st = Some st'" and "mutex_inv st" and "queue_inv es st"
  shows "queue_inv es st'"
proof -
  have i: "i < length (lt_callers st)" using assms(1) by (simp add: caller_step_def split: if_splits)
  have sum: "(\<Sum>pc \<leftarrow> (lt_callers st)[i := pc']. unsent pc) + unsent (lt_callers st ! i) = (\<Sum>pc \<leftarrow> lt_callers st. unsent pc) + unsent pc'" for pc'
    using i by (rule sum_callers_update)
  have c: "lt_closer st \<noteq> Cancelling" if "caller_owns (lt_callers st ! i)"
    using that i owns_unique [OF assms(2), of "Caller i" Closer] by (auto simp: owns_def closer_owns_def)
  show ?thesis
  proof (cases "lt_callers st ! i")
    case (Pushing e)
    have "(\<Sum>pc \<leftarrow> lt_callers st. unsent pc) = add_mset e (\<Sum>pc \<leftarrow> (lt_callers st)[i := Signalling]. unsent pc)"
      using sum [of Signalling] Pushing by simp
    moreover have "st' = set_caller i Signalling (push_log e st)" using assms(1) i Pushing by (simp add: caller_step_def)
    ultimately show ?thesis
      using assms(3) c Pushing unfolding queue_inv_def by (simp add: thread_steps caller_owns_def)
  next
    case (Calling e)
    have "(\<Sum>pc \<leftarrow> (lt_callers st)[i := Pushing e]. unsent pc) = (\<Sum>pc \<leftarrow> lt_callers st. unsent pc)"
      using sum [of "Pushing e"] Calling by simp
    moreover have "st' = set_caller i (Pushing e) (st\<lparr>lt_mutex := Some (Caller i)\<rparr>)"
      using assms(1) i Calling by (simp add: caller_step_def take_lock_def split: if_splits)
    ultimately show ?thesis using assms(3) unfolding queue_inv_def by (simp add: set_caller_def)
  next
    case Signalling
    have "(\<Sum>pc \<leftarrow> (lt_callers st)[i := Releasing]. unsent pc) = (\<Sum>pc \<leftarrow> lt_callers st. unsent pc)"
      using sum [of Releasing] Signalling by simp
    moreover have "st' = set_caller i Releasing (log_signal st)" using assms(1) i Signalling by (simp add: caller_step_def)
    ultimately show ?thesis using assms(3) unfolding queue_inv_def
      by (elim conjE, cases "lt_printer st = Waiting") (simp_all add: set_caller_def log_signal_def taken_def)
  next
    case Releasing
    have "(\<Sum>pc \<leftarrow> (lt_callers st)[i := Returned]. unsent pc) = (\<Sum>pc \<leftarrow> lt_callers st. unsent pc)"
      using sum [of Returned] Releasing by simp
    moreover have "st' = set_caller i Returned (release_lock st)" using assms(1) i Releasing by (simp add: caller_step_def)
    ultimately show ?thesis using assms(3) unfolding queue_inv_def by (simp add: set_caller_def release_lock_def)
  qed (use assms(1) i in \<open>simp add: caller_step_def\<close>)
qed

lemma log_step_queue: "log_step clock st st' \<Longrightarrow> mutex_inv st \<Longrightarrow> queue_inv es st \<Longrightarrow> queue_inv es st'"
  by (erule log_stepE) (blast intro: printer_queue closer_queue cancel_queue spurious_queue caller_queue)+

section \<open>The file\<close>

text \<open>\<open>file_inv p c lv\<close>: the file of the day holds what it held, \<open>c\<close>, and then the lines of the messages dealt with.\<close>

definition file_inv :: "(nat \<Rightarrow> tm) \<Rightarrow> string \<Rightarrow> string \<Rightarrow> int \<Rightarrow> log_threads \<Rightarrow> bool" where
  "file_inv clock p c lv st \<longleftrightarrow>
     working_io (lt_io st) \<and> getLevel (lt_log st) = lv \<and>
     (\<exists>f. hl_logfile (lt_log st) = Some f \<and> append_mode f) \<and> (\<forall>i. c_str (log_name (clock i) (lt_log st)) = p) \<and>
     list_all known_level (taken (lt_printer st) @ hl_logs (lt_log st)) \<and>
     (\<forall>pc \<in> set (lt_callers st). \<forall>e \<in># unsent pc. known_level e) \<and>
     content_of (lt_io st) p = c @ concat (map line_of (filter (\<lambda>e. lv \<le> le_level e) (lt_handled st)))"

lemma print_one_message:
  assumes "working_io io" and "known_level e" and "hl_logfile l = Some f" and "append_mode f" and "c_str (log_name (clock k) l) = p"
  shows "\<exists>l' io' out'. print_logs clock k [e] l io out = Inr (l', io', out') \<and> working_io io' \<and> getLevel l' = getLevel l \<and>
    (\<exists>f. hl_logfile l' = Some f \<and> append_mode f) \<and> (\<forall>now. log_name now l' = log_name now l) \<and> hl_logs l' = hl_logs l \<and>
    content_of io' p = content_of io p @ (if getLevel l \<le> le_level e then line_of e else [])"
proof (cases "getLevel l \<le> le_level e")
  case True
  obtain s where s: "log_line e = Inr s" "line_of e = c_str s" using assms(2) log_line_known by blast
  let ?f = "file_setPath (log_name (clock k) l) f"
  have f: "c_str (f_path ?f) = p" "append_mode ?f" using assms(4,5) by (simp_all add: file_setPath_def)
  obtain io' where "file_write s ?f io = Inr (0, io')" "sd_files io' = (sd_files io)(p \<mapsto> content_of io p @ c_str s)" "working_io io'"
    using file_write_appends [of ?f io s] f assms(1) by (auto simp: rsafe_iff working_io_def)
  then show ?thesis
    using True s assms(3) f(2) by (simp add: setLogPath_def file_write_n_eq getLevel_def log_name_def)
next
  case False
  then show ?thesis using assms by simp
qed

lemma print_one_total:
  assumes "file_inv clock p c lv st" and "lt_printer st = Printing (e # es)"
  shows "\<exists>st'. print_one clock e es st = Inr st' \<and> file_inv clock p c lv st'"
proof -
  obtain f where f: "hl_logfile (lt_log st) = Some f" "append_mode f" using assms(1) by (auto simp: file_inv_def)
  obtain l' io' out' where "print_logs clock (lt_looks st) [e] (lt_log st) (lt_io st) (lt_out st) = Inr (l', io', out')"
      "working_io io'" "getLevel l' = getLevel (lt_log st)" "\<exists>f. hl_logfile l' = Some f \<and> append_mode f"
      "\<forall>now. log_name now l' = log_name now (lt_log st)" "hl_logs l' = hl_logs (lt_log st)"
      "content_of io' p = content_of (lt_io st) p @ (if getLevel (lt_log st) \<le> le_level e then line_of e else [])"
    using print_one_message [of "lt_io st" e "lt_log st" f clock "lt_looks st" p "lt_out st"] assms f by (auto simp: file_inv_def taken_def)
  then show ?thesis using assms by (simp add: print_one_def file_inv_def taken_def del: print_logs.simps)
qed

lemma printer_file:
  assumes "printer_step clock st = Some r" and "file_inv clock p c lv st"
  shows "\<exists>st'. r = Inr st' \<and> file_inv clock p c lv st'"
proof (cases "lt_printer st")
  case (Printing es)
  show ?thesis
  proof (cases es)
    case (Cons e es')
    then show ?thesis using assms Printing print_one_total [OF assms(2), of e es'] by (auto simp: printer_step_def)
  next
    case Nil
    then show ?thesis using assms Printing by (auto simp: printer_step_def release_lock_def file_inv_def taken_def)
  qed
next
  case Woken
  then show ?thesis
    using assms by (auto simp: printer_step_def take_lock_def file_inv_def taken_def getLevel_def log_name_def split: if_splits)
qed (use assms in \<open>auto simp: printer_step_def thread_steps file_inv_def taken_def split: if_splits\<close>)

lemma closer_file: "closer_step st = Some st' \<Longrightarrow> file_inv clock p c lv st \<Longrightarrow> file_inv clock p c lv st'"
  by (cases "lt_closer st") (auto simp: closer_step_def thread_steps file_inv_def taken_def split: if_splits)

lemma cancel_file: "cancel_step st = Some (Inr st') \<Longrightarrow> file_inv clock p c lv st \<Longrightarrow> file_inv clock p c lv st'"
  by (cases "lt_printer st") (auto simp: cancel_step_def thread_steps file_inv_def taken_def split: if_splits)

lemma spurious_file: "spurious_step st = Some st' \<Longrightarrow> file_inv clock p c lv st \<Longrightarrow> file_inv clock p c lv st'"
  by (auto simp: spurious_step_def file_inv_def taken_def split: if_splits)

lemma unsent_update:
  assumes "\<forall>pc \<in> set pcs. \<forall>e \<in># unsent pc. known_level e" and "\<forall>e \<in># unsent pc'. known_level e"
  shows "\<forall>pc \<in> set (pcs[i := pc']). \<forall>e \<in># unsent pc. known_level e"
  using assms set_update_subset_insert [of pcs i pc'] by blast

lemma caller_file:
  assumes "caller_step i st = Some st'" and "file_inv clock p c lv st"
  shows "file_inv clock p c lv st'"
proof -
  have i: "i < length (lt_callers st)" using assms(1) by (simp add: caller_step_def split: if_splits)
  have k: "\<forall>e \<in># unsent (lt_callers st ! i). known_level e" using nth_mem [OF i] assms(2) unfolding file_inv_def by blast
  have u: "\<forall>pc \<in> set ((lt_callers st)[i := pc']). \<forall>e \<in># unsent pc. known_level e" if "\<forall>e \<in># unsent pc'. known_level e" for pc'
    using that assms(2) by (intro unsent_update) (simp_all add: file_inv_def)
  show ?thesis
  proof (cases "lt_callers st ! i")
    case (Calling e)
    then have "st' = set_caller i (Pushing e) (st\<lparr>lt_mutex := Some (Caller i)\<rparr>)"
      using assms(1) i by (simp add: caller_step_def take_lock_def split: if_splits)
    moreover have "\<forall>pc \<in> set ((lt_callers st)[i := Pushing e]). \<forall>e \<in># unsent pc. known_level e"
      using k Calling by (intro u) simp
    ultimately show ?thesis using assms(2) unfolding file_inv_def set_caller_def by simp
  next
    case (Pushing e)
    then have "st' = set_caller i Signalling (push_log e st)" using assms(1) i by (simp add: caller_step_def)
    then show ?thesis
      using assms(2) k u [of Signalling] Pushing by (simp add: push_log_def set_caller_def file_inv_def getLevel_def log_name_def)
  next
    case Signalling
    then have "st' = set_caller i Releasing (log_signal st)" using assms(1) i by (simp add: caller_step_def)
    then show ?thesis
      using assms(2) u [of Releasing] by (simp add: set_caller_def log_signal_def file_inv_def taken_def)
  next
    case Releasing
    then have "st' = set_caller i Returned (release_lock st)" using assms(1) i by (simp add: caller_step_def)
    then show ?thesis
      using assms(2) u [of Returned] by (simp add: set_caller_def release_lock_def file_inv_def)
  qed (use assms(1) i in \<open>simp add: caller_step_def\<close>)
qed

lemma log_step_file: "log_step clock st st' \<Longrightarrow> file_inv clock p c lv st \<Longrightarrow> file_inv clock p c lv st'"
  by (erule log_stepE) (blast dest: printer_file intro: closer_file cancel_file spurious_file caller_file)+

section \<open>Runs\<close>

definition threads_inv :: "(nat \<Rightarrow> tm) \<Rightarrow> string \<Rightarrow> string \<Rightarrow> int \<Rightarrow> log_entry list \<Rightarrow> log_threads \<Rightarrow> bool" where
  "threads_inv clock p c lv es st \<longleftrightarrow> mutex_inv st \<and> queue_inv es st \<and> file_inv clock p c lv st"

text \<open>Nothing that was inserted or dealt with is forgotten.\<close>

definition grows :: "log_threads \<Rightarrow> log_threads \<Rightarrow> bool" where
  "grows st st' \<longleftrightarrow> (\<exists>xs. lt_inserted st' = lt_inserted st @ xs) \<and> (\<exists>xs. lt_handled st' = lt_handled st @ xs)"

lemma growsI: "lt_inserted st' = lt_inserted st @ xs \<Longrightarrow> lt_handled st' = lt_handled st @ ys \<Longrightarrow> grows st st'"
  by (auto simp: grows_def)

lemma log_step_grows: "log_step clock st st' \<Longrightarrow> grows st st'"
proof (erule log_stepE)
  assume "printer_step clock st = Some (Inr st')"
  then show ?thesis
    by (cases "lt_printer st")
      (auto simp: printer_step_def thread_steps grows_def rbind_eq_Inr simp del: print_logs.simps split: list.splits if_splits)
next
  fix i assume "caller_step i st = Some st'"
  then show ?thesis
    by (cases "lt_callers st ! i") (auto simp: caller_step_def thread_steps grows_def split: if_splits)
next
  assume "closer_step st = Some st'"
  then show ?thesis by (cases "lt_closer st") (auto simp: closer_step_def thread_steps grows_def split: if_splits)
next
  assume "cancel_step st = Some (Inr st')"
  then show ?thesis by (cases "lt_printer st") (auto simp: cancel_step_def thread_steps grows_def split: if_splits)
qed (auto simp: spurious_step_def grows_def split: if_splits)

interpretation lg: safe_system "threads_inv clock p c lv es" "log_step clock" grows for clock p c lv es
proof unfold_locales
  show "threads_inv clock p c lv es s \<Longrightarrow> log_step clock s s' \<Longrightarrow> threads_inv clock p c lv es s'" for s s'
    using log_step_mutex log_step_queue log_step_file by (auto simp: threads_inv_def)
  show "log_step clock s s' \<Longrightarrow> grows s s'" for s s' by (rule log_step_grows)
  show "grows s s" for s by (rule growsI [of _ _ "[]" "[]"]) simp_all
  show "grows s s' \<Longrightarrow> grows s' s'' \<Longrightarrow> grows s s''" for s s' s'' by (auto simp: grows_def)
qed

lemma start_inv:
  assumes "working_io io" and "hl_logs l = []" and "hl_logfile l = Some f" and "append_mode f" and "list_all known_level es"
    and "\<forall>i. c_str (log_name (clock i) l) = p"
  shows "threads_inv clock p (content_of io p) (getLevel l) es (start_threads es l io)"
proof -
  have "(\<Sum>pc \<leftarrow> map Calling es. unsent pc) = mset es" by (induction es) simp_all
  moreover have "owns (start_threads es l io) t = False" for t
    by (simp add: start_threads_def owner_defs split: log_thread.split)
  ultimately show ?thesis
    using assms by (auto simp: threads_inv_def mutex_inv_def queue_inv_def file_inv_def start_threads_def taken_def list_all_iff)
qed

text \<open>The printer does not fault, and no two threads are between locking and unlocking.\<close>

lemma run_exclusive:
  assumes "(log_step clock)\<^sup>*\<^sup>* st0 st" and "threads_inv clock p c lv es st0"
  shows "owns st t \<Longrightarrow> owns st t' \<Longrightarrow> t = t'" "printer_step clock st = Some r \<Longrightarrow> \<exists>st'. r = Inr st'"
proof -
  have "threads_inv clock p c lv es st" using lg.run_inv [OF assms] .
  then show "owns st t \<Longrightarrow> owns st t' \<Longrightarrow> t = t'" "printer_step clock st = Some r \<Longrightarrow> \<exists>st'. r = Inr st'"
    unfolding threads_inv_def using owns_unique printer_file by blast+
qed

text \<open>When the destructor cancels the printer, the file holds a line for every message inserted so far that is important enough.\<close>

lemma run_closing:
  assumes "(log_step clock)\<^sup>*\<^sup>* st0 st" and "threads_inv clock p c lv es st0" and "lt_closer st = Cancelling"
  shows "lt_handled st = lt_inserted st \<and>
    content_of (lt_io st) p = c @ concat (map line_of (filter (\<lambda>e. lv \<le> le_level e) (lt_inserted st)))"
proof -
  have inv: "threads_inv clock p c lv es st" using lg.run_inv [OF assms(1,2)] .
  have "owns st Closer" using assms(3) by (simp add: owner_defs)
  then have "\<not> printer_owns (lt_printer st)"
    using inv owns_unique [of st Closer Printer] by (auto simp: threads_inv_def owns_def)
  then have "taken (lt_printer st) = []" by (auto simp: printer_owns_def taken_def split: printer_pc.splits)
  then show ?thesis using inv assms(3) by (auto simp: threads_inv_def queue_inv_def file_inv_def)
qed

text \<open>If every call has returned, every message is inserted.\<close>

lemma run_inserted_le:
  assumes "(log_step clock)\<^sup>*\<^sup>* st0 st" and "threads_inv clock p c lv es st0"
  shows "mset (lt_inserted st) \<subseteq># mset es"
proof -
  have "mset (lt_inserted st) + (\<Sum>pc \<leftarrow> lt_callers st. unsent pc) = mset es"
    using lg.run_inv [OF assms] unfolding threads_inv_def queue_inv_def by blast
  then show ?thesis by (metis mset_subset_eq_add_left)
qed

lemma run_inserted:
  assumes "(log_step clock)\<^sup>*\<^sup>* st0 st" and "threads_inv clock p c lv es st0" and "list_all (\<lambda>pc. pc = Returned) (lt_callers st)"
  shows "mset (lt_inserted st) = mset es"
proof -
  have "(\<Sum>pc \<leftarrow> pcs. unsent pc) = {#}" if "list_all (\<lambda>pc. pc = Returned) pcs" for pcs using that by (induction pcs) simp_all
  then show ?thesis using lg.run_inv [OF assms(1,2)] assms(3) by (simp add: threads_inv_def queue_inv_def)
qed

section \<open>The destructor can finish\<close>

text \<open>The printer, left alone with a mutex nobody else has, comes back to its waiting place.\<close>

definition same_others :: "log_threads \<Rightarrow> log_threads \<Rightarrow> bool" where
  "same_others st st' \<longleftrightarrow> lt_closer st' = lt_closer st \<and> lt_callers st' = lt_callers st \<and> lt_cancel st' = lt_cancel st"

lemma same_others_trans: "same_others a b \<Longrightarrow> same_others b c \<Longrightarrow> same_others a c"
  by (simp add: same_others_def)

lemma printer_run: "printer_step clock st = Some (Inr st1) \<Longrightarrow> (log_step clock)\<^sup>*\<^sup>* st1 st' \<Longrightarrow> (log_step clock)\<^sup>*\<^sup>* st st'"
  by (blast intro: by_printer converse_rtranclp_into_rtranclp)

lemma closer_run: "closer_step st = Some st1 \<Longrightarrow> (log_step clock)\<^sup>*\<^sup>* st1 st' \<Longrightarrow> (log_step clock)\<^sup>*\<^sup>* st st'"
  by (blast intro: by_closer converse_rtranclp_into_rtranclp)

definition settles :: "(nat \<Rightarrow> tm) \<Rightarrow> log_threads \<Rightarrow> log_entry list \<Rightarrow> bool" where
  "settles clock st queue \<longleftrightarrow>
     (\<exists>st'. (log_step clock)\<^sup>*\<^sup>* st st' \<and> lt_printer st' = Waiting \<and> lt_mutex st' = None \<and> same_others st st' \<and> hl_logs (lt_log st') = queue)"

lemma settles_step:
  assumes "printer_step clock st = Some (Inr st1)" and "same_others st st1" and "settles clock st1 queue"
  shows "settles clock st queue"
proof -
  obtain st' where st': "(log_step clock)\<^sup>*\<^sup>* st1 st'" "lt_printer st' = Waiting" "lt_mutex st' = None" "same_others st1 st'"
      "hl_logs (lt_log st') = queue"
    using assms(3) by (auto simp: settles_def)
  show ?thesis
    unfolding settles_def
    using printer_run [OF assms(1) st'(1)] same_others_trans [OF assms(2) st'(4)] st'(2,3,5) by blast
qed

lemma settles_waiting: "lt_printer st = Waiting \<Longrightarrow> lt_mutex st = None \<Longrightarrow> settles clock st (hl_logs (lt_log st))"
  unfolding settles_def by (rule exI [of _ st]) (simp add: same_others_def)

lemma settles_before_wait: "lt_printer st = Before_wait \<Longrightarrow> settles clock st (hl_logs (lt_log st))"
proof -
  assume a: "lt_printer st = Before_wait"
  let ?st1 = "(release_lock st)\<lparr>lt_printer := Waiting\<rparr>"
  have "printer_step clock st = Some (Inr ?st1)" using a by (simp add: printer_step_def)
  moreover have "settles clock ?st1 (hl_logs (lt_log st))" using settles_waiting [of ?st1 clock] by (simp add: release_lock_def a)
  moreover have "same_others st ?st1" by (simp add: same_others_def release_lock_def)
  ultimately show ?thesis by (blast intro: settles_step)
qed

lemma settles_locking: "lt_printer st = Locking \<Longrightarrow> lt_mutex st = None \<Longrightarrow> settles clock st (hl_logs (lt_log st))"
proof -
  assume a: "lt_printer st = Locking" "lt_mutex st = None"
  let ?st1 = "st\<lparr>lt_mutex := Some Printer, lt_printer := Before_wait\<rparr>"
  have "printer_step clock st = Some (Inr ?st1)" using a by (simp add: printer_step_def take_lock_def)
  moreover have "settles clock ?st1 (hl_logs (lt_log st))" using settles_before_wait [of ?st1 clock] by (simp add: release_lock_def a)
  moreover have "same_others st ?st1" by (simp add: same_others_def release_lock_def)
  ultimately show ?thesis by (blast intro: settles_step)
qed

lemma settles_test: "lt_printer st = Test_cancel \<Longrightarrow> lt_mutex st = None \<Longrightarrow> settles clock st (hl_logs (lt_log st))"
proof -
  assume a: "lt_printer st = Test_cancel" "lt_mutex st = None"
  let ?st1 = "st\<lparr>lt_printer := Locking\<rparr>"
  have "printer_step clock st = Some (Inr ?st1)" using a by (simp add: printer_step_def)
  moreover have "settles clock ?st1 (hl_logs (lt_log st))" using settles_locking [of ?st1 clock] by (simp add: release_lock_def a)
  moreover have "same_others st ?st1" by (simp add: same_others_def release_lock_def)
  ultimately show ?thesis by (blast intro: settles_step)
qed

lemma settles_printed: "lt_printer st = Printing [] \<Longrightarrow> settles clock st (hl_logs (lt_log st))"
proof -
  assume a: "lt_printer st = Printing []"
  let ?st1 = "(release_lock st)\<lparr>lt_printer := Test_cancel\<rparr>"
  have "printer_step clock st = Some (Inr ?st1)" using a by (simp add: printer_step_def)
  moreover have "settles clock ?st1 (hl_logs (lt_log st))" using settles_test [of ?st1 clock] by (simp add: release_lock_def a)
  moreover have "same_others st ?st1" by (simp add: same_others_def release_lock_def)
  ultimately show ?thesis by (blast intro: settles_step)
qed

lemma print_one_frame:
  assumes "print_one clock e es st = Inr st1"
  shows "lt_printer st1 = Printing es" "same_others st st1" "hl_logs (lt_log st1) = hl_logs (lt_log st)"
proof -
  obtain l io out where pl: "print_logs clock (lt_looks st) [e] (lt_log st) (lt_io st) (lt_out st) = Inr (l, io, out)"
      and st1: "st1 = st\<lparr>lt_log := l, lt_io := io, lt_out := out, lt_looks := lt_looks st + 1, lt_printer := Printing es, lt_handled := lt_handled st @ [e]\<rparr>"
    using assms unfolding print_one_def by (elim rbind_InrE) auto
  have "hl_logs l = hl_logs (lt_log st)" using print_logs_queue [OF pl] .
  then show "lt_printer st1 = Printing es" "same_others st st1" "hl_logs (lt_log st1) = hl_logs (lt_log st)"
    unfolding st1 by (simp_all add: same_others_def)
qed

lemma settles_printing: "lt_printer st = Printing es \<Longrightarrow> file_inv clock p c lv st \<Longrightarrow> settles clock st (hl_logs (lt_log st))"
proof (induction es arbitrary: st)
  case Nil
  then show ?case by (intro settles_printed)
next
  case (Cons e es)
  obtain st1 where st1: "print_one clock e es st = Inr st1" "file_inv clock p c lv st1" using print_one_total [OF Cons.prems(2,1)] by blast
  have "printer_step clock st = Some (Inr st1)" using Cons.prems(1) st1(1) by (simp add: printer_step_def)
  moreover have "settles clock st1 (hl_logs (lt_log st))" using Cons.IH [OF print_one_frame(1) [OF st1(1)] st1(2)] print_one_frame(3) [OF st1(1)] by simp
  ultimately show ?case using settles_step print_one_frame(2) [OF st1(1)] by blast
qed

lemma settles_woken:
  assumes "lt_printer st = Woken" and "lt_mutex st = None" and "file_inv clock p c lv st"
  shows "settles clock st []"
proof -
  let ?st1 = "st\<lparr>lt_mutex := Some Printer, lt_printer := Printing (hl_logs (lt_log st)), lt_log := (lt_log st)\<lparr>hl_logs := []\<rparr>\<rparr>"
  have s: "printer_step clock st = Some (Inr ?st1)" using assms(1,2) by (simp add: printer_step_def take_lock_def)
  have "file_inv clock p c lv ?st1" using printer_file [OF s assms(3)] by blast
  from settles_printing [OF _ this, of "hl_logs (lt_log st)"] have "settles clock ?st1 []" by simp
  then show ?thesis by (rule settles_step [OF s, rotated]) (simp add: same_others_def)
qed

lemma printer_settles:
  assumes "threads_inv clock p c lv es st" and "lt_mutex st = None \<or> lt_mutex st = Some Printer" and "lt_printer st \<noteq> Gone"
  shows "\<exists>q. settles clock st q"
proof -
  have f: "file_inv clock p c lv st" and m: "lt_mutex st = Some Printer \<longleftrightarrow> printer_owns (lt_printer st)"
    using assms(1) by (auto simp: threads_inv_def mutex_inv_def owns_def)
  have free: "lt_mutex st = None" if "\<not> printer_owns (lt_printer st)" using that assms(2) m by blast
  show ?thesis
  proof (cases "lt_printer st")
    case Test_cancel
    then show ?thesis using settles_test [OF _ free] by (auto simp: printer_owns_def)
  next
    case Locking
    then show ?thesis using settles_locking [OF _ free] by (auto simp: printer_owns_def)
  next
    case Before_wait
    then show ?thesis using settles_before_wait by blast
  next
    case Waiting
    then show ?thesis using settles_waiting [OF _ free] by (auto simp: printer_owns_def)
  next
    case Woken
    then show ?thesis using settles_woken [OF _ free f] by (auto simp: printer_owns_def)
  next
    case (Printing es)
    then show ?thesis using settles_printing [OF _ f] by blast
  qed (use assms(3) in simp)
qed

text \<open>The destructor in a state where the printer waits and nobody has the mutex.\<close>

lemma closes_empty:
  assumes "lt_printer st = Waiting" and "lt_mutex st = None" and "lt_closer st = Closing" and "hl_logs (lt_log st) = []"
  shows "\<exists>st1 st2. (log_step clock)\<^sup>*\<^sup>* st st1 \<and> lt_closer st1 = Cancelling \<and> (log_step clock)\<^sup>*\<^sup>* st1 st2 \<and> lt_closer st2 = Closed \<and>
    lt_io st2 = lt_io st1 \<and> lt_inserted st2 = lt_inserted st1"
proof -
  let ?a = "st\<lparr>lt_mutex := Some Closer, lt_closer := Checking\<rparr>" and ?b = "st\<lparr>lt_mutex := Some Closer, lt_closer := Cancelling\<rparr>"
  let ?c = "st\<lparr>lt_mutex := Some Closer, lt_cancel := True, lt_closer := Letting_go\<rparr>"
  let ?d = "st\<lparr>lt_mutex := None, lt_cancel := True, lt_closer := Joining\<rparr>"
  let ?e = "st\<lparr>lt_mutex := None, lt_cancel := True, lt_closer := Joining, lt_printer := Gone\<rparr>"
  let ?f = "st\<lparr>lt_mutex := None, lt_cancel := True, lt_closer := Closed, lt_printer := Gone\<rparr>"
  have 1: "closer_step st = Some ?a" "closer_step ?a = Some ?b" "closer_step ?b = Some ?c" "closer_step ?c = Some ?d" "closer_step ?e = Some ?f"
    using assms by (simp_all add: closer_step_def take_lock_def release_lock_def)
  have 2: "cancel_step ?d = Some (Inr ?e)" using assms by (simp add: cancel_step_def take_lock_def release_lock_def)
  have "(log_step clock)\<^sup>*\<^sup>* ?b ?f"
    using 1(3-5) 2 by (blast intro: closer_run by_cancel converse_rtranclp_into_rtranclp)
  moreover have "(log_step clock)\<^sup>*\<^sup>* st ?b" using 1(1,2) by (blast intro: closer_run)
  ultimately show ?thesis by (intro exI [of _ ?b] exI [of _ ?f]) simp
qed

lemma closes_queued:
  assumes "lt_printer st = Waiting" and "lt_mutex st = None" and "lt_closer st = Closing" and "hl_logs (lt_log st) \<noteq> []"
  shows "\<exists>st'. (log_step clock)\<^sup>*\<^sup>* st st' \<and> lt_printer st' = Woken \<and> lt_mutex st' = None \<and> lt_closer st' = Closing \<and> lt_cancel st' = lt_cancel st"
proof -
  let ?a = "st\<lparr>lt_mutex := Some Closer, lt_closer := Checking\<rparr>" and ?b = "st\<lparr>lt_mutex := Some Closer, lt_closer := Waking\<rparr>"
  let ?c = "st\<lparr>lt_mutex := Some Closer, lt_printer := Woken, lt_closer := Letting\<rparr>"
  let ?d = "st\<lparr>lt_mutex := None, lt_printer := Woken, lt_closer := Sleeping\<rparr>"
  let ?e = "st\<lparr>lt_mutex := None, lt_printer := Woken, lt_closer := Closing\<rparr>"
  have 1: "closer_step st = Some ?a" "closer_step ?a = Some ?b" "closer_step ?b = Some ?c" "closer_step ?c = Some ?d" "closer_step ?d = Some ?e"
    using assms by (simp_all add: closer_step_def take_lock_def release_lock_def log_signal_def)
  then have "(log_step clock)\<^sup>*\<^sup>* st ?e" by (blast intro: closer_run)
  then show ?thesis by (intro exI [of _ ?e]) simp
qed

lemma can_close:
  assumes "threads_inv clock p c lv es st" and "lt_closer st = Closing" and "lt_mutex st = None \<or> lt_mutex st = Some Printer"
  shows "\<exists>st1 st2. (log_step clock)\<^sup>*\<^sup>* st st1 \<and> lt_closer st1 = Cancelling \<and> (log_step clock)\<^sup>*\<^sup>* st1 st2 \<and> lt_closer st2 = Closed \<and>
    lt_io st2 = lt_io st1 \<and> lt_inserted st2 = lt_inserted st1"
proof -
  have "lt_printer st \<noteq> Gone" using assms(1,2) by (auto simp: threads_inv_def queue_inv_def)
  then obtain q where "settles clock st q" using printer_settles [OF assms(1,3)] by blast
  then obtain a where a: "(log_step clock)\<^sup>*\<^sup>* st a" "lt_printer a = Waiting" "lt_mutex a = None" "lt_closer a = Closing"
    using assms(2) by (auto simp: settles_def same_others_def)
  show ?thesis
  proof (cases "hl_logs (lt_log a) = []")
    case True
    then show ?thesis using closes_empty [OF a(2-4)] a(1) by (meson rtranclp_trans)
  next
    case False
    obtain b where b: "(log_step clock)\<^sup>*\<^sup>* a b" "lt_printer b = Woken" "lt_mutex b = None" "lt_closer b = Closing"
      using closes_queued [OF a(2-4) False] by blast
    have "threads_inv clock p c lv es b" using lg.run_inv [OF rtranclp_trans [OF a(1) b(1)] assms(1)] .
    then have "settles clock b []" using settles_woken [OF b(2,3)] by (auto simp: threads_inv_def)
    then obtain d where d: "(log_step clock)\<^sup>*\<^sup>* b d" "lt_printer d = Waiting" "lt_mutex d = None" "lt_closer d = Closing" "hl_logs (lt_log d) = []"
      using b(4) by (auto simp: settles_def same_others_def)
    show ?thesis using closes_empty [OF d(2-5)] a(1) b(1) d(1) by (meson rtranclp_trans)
  qed
qed

section \<open>Where the protocol departs from its intent\<close>

text \<open>
  The printer waits without a look at the queue. A message whose signal comes before the printer waits stays in the queue: nobody but
  the destructor, the next caller or a wake-up without a signal goes on.
\<close>

lemma signal_lost:
  "\<exists>st. (log_step clock)\<^sup>*\<^sup>* (start_threads [e] l io) st \<and> hl_logs (lt_log st) = hl_logs l @ [e] \<and> lt_inserted st = [e] \<and> lt_callers st = [Returned] \<and>
     lt_mutex st = None \<and> printer_step clock st = None \<and> caller_step i st = None \<and> cancel_step st = None \<and> lt_closer st = Running"
proof -
  let ?s = "start_threads [e] l io" and ?l = "l\<lparr>hl_logs := hl_logs l @ [e]\<rparr>"
  let ?a = "?s\<lparr>lt_mutex := Some (Caller 0), lt_callers := [Pushing e]\<rparr>"
  let ?b = "?s\<lparr>lt_mutex := Some (Caller 0), lt_callers := [Signalling], lt_log := ?l, lt_inserted := [e]\<rparr>"
  let ?c = "?s\<lparr>lt_mutex := Some (Caller 0), lt_callers := [Releasing], lt_log := ?l, lt_inserted := [e]\<rparr>"
  let ?d = "?s\<lparr>lt_callers := [Returned], lt_log := ?l, lt_inserted := [e]\<rparr>"
  let ?w = "?d\<lparr>lt_printer := Waiting\<rparr>"
  have "caller_step 0 ?s = Some ?a" "caller_step 0 ?a = Some ?b" "caller_step 0 ?b = Some ?c" "caller_step 0 ?c = Some ?d"
    by (simp_all add: caller_step_def thread_steps start_threads_def)
  then have 1: "(log_step clock)\<^sup>*\<^sup>* ?s ?d" by (blast intro: by_caller converse_rtranclp_into_rtranclp)
  have "printer_step clock ?d = Some (Inr (?d\<lparr>lt_printer := Locking\<rparr>))"
    "printer_step clock (?d\<lparr>lt_printer := Locking\<rparr>) = Some (Inr (?d\<lparr>lt_printer := Before_wait, lt_mutex := Some Printer\<rparr>))"
    "printer_step clock (?d\<lparr>lt_printer := Before_wait, lt_mutex := Some Printer\<rparr>) = Some (Inr ?w)"
    by (simp_all add: printer_step_def thread_steps start_threads_def)
  then have "(log_step clock)\<^sup>*\<^sup>* ?d ?w" by (blast intro: printer_run)
  moreover have "caller_step i ?w = None" "printer_step clock ?w = None" "cancel_step ?w = None"
    by (simp_all add: caller_step_def printer_step_def cancel_step_def start_threads_def)
  ultimately show ?thesis using 1 by (intro exI [of _ ?w]) (auto simp: start_threads_def)
qed

text \<open>A printer that is cancelled before it waits unlocks a mutex it does not have.\<close>

lemma cancelled_outside:
  "\<exists>st. (log_step clock)\<^sup>*\<^sup>* (start_threads es (l\<lparr>hl_logs := []\<rparr>) io) st \<and> lt_mutex st = Some Closer \<and> cancel_step st = Some (Inl Unlock_not_owned)"
proof -
  let ?s = "start_threads es (l\<lparr>hl_logs := []\<rparr>) io"
  let ?a = "?s\<lparr>lt_closer := Closing\<rparr>" and ?b = "?s\<lparr>lt_mutex := Some Closer, lt_closer := Checking\<rparr>"
  let ?c = "?s\<lparr>lt_mutex := Some Closer, lt_closer := Cancelling\<rparr>"
  let ?d = "?s\<lparr>lt_mutex := Some Closer, lt_cancel := True, lt_closer := Letting_go\<rparr>"
  have "closer_step ?s = Some ?a" "closer_step ?a = Some ?b" "closer_step ?b = Some ?c" "closer_step ?c = Some ?d"
    by (simp_all add: closer_step_def take_lock_def start_threads_def)
  then have "(log_step clock)\<^sup>*\<^sup>* ?s ?d" by (blast intro: closer_run)
  then show ?thesis by (intro exI [of _ ?d]) (simp add: cancel_step_def start_threads_def)
qed

text \<open>
  The destructor can always come to its end: from every reachable state in which it is about to look at the queue and no caller has
  the mutex, the threads can go on so that the queue is drained into the file, the printer ends and the destructor returns.
\<close>

lemma log_can_close:
  assumes "working_io io" and "hl_logs l = []" and "hl_logfile l = Some f" and "append_mode f" and "list_all known_level es"
    and "\<forall>i. c_str (log_name (clock i) l) = p" and "(log_step clock)\<^sup>*\<^sup>* (start_threads es l io) st"
    and "lt_closer st = Closing" and "\<forall>i. lt_mutex st \<noteq> Some (Caller i)"
  shows "\<exists>st'. (log_step clock)\<^sup>*\<^sup>* st st' \<and> lt_closer st' = Closed \<and>
    content_of (lt_io st') p = content_of io p @ concat (map line_of (filter (\<lambda>e. getLevel l \<le> le_level e) (lt_inserted st')))"
proof -
  note inv = start_inv [where clock = clock and p = p, OF assms(1-6)]
  note now = lg.run_inv [OF assms(7) inv]
  have "lt_mutex st \<noteq> Some Closer" using now assms(8) owner_owns [of st Closer] by (auto simp: threads_inv_def owner_defs)
  then have "lt_mutex st = None \<or> lt_mutex st = Some Printer" using assms(9) by (metis log_thread.exhaust not_None_eq)
  then obtain st1 st2 where s: "(log_step clock)\<^sup>*\<^sup>* st st1" "lt_closer st1 = Cancelling" "(log_step clock)\<^sup>*\<^sup>* st1 st2" "lt_closer st2 = Closed"
      "lt_io st2 = lt_io st1" "lt_inserted st2 = lt_inserted st1"
    using can_close [OF now assms(8)] by blast
  show ?thesis using run_closing [OF s(1) now s(2)] s(4-6) rtranclp_trans [OF s(1,3)] by auto
qed

end
