(* ===== verification/Json_Pointer.thy ===== *)
theory Json_Pointer
  imports Json_Access
begin

text \<open>
  JSON pointers (\<^verbatim>\<open>include/json.hpp\<close>, class \<^verbatim>\<open>json_pointer\<close>): a list of reference tokens, its text, and what it refers to in a value. A
  reference into a value is the path to it; a lookup that creates what is missing returns the changed value and the path.
  The standard library's exceptions that pass through are errors of their own.
\<close>

section \<open>The code\<close>

datatype pointer_error =
    Thrown json_exception
  | Std_invalid_argument
  | Std_out_of_range
  | Std_length_error
  | Stopped fault

type_synonym json_pointer = "string list"

text \<open>The form of \<^verbatim>\<open>parse_error::create\<close> with a byte position.\<close>

definition parse_error_at :: "int \<Rightarrow> nat \<Rightarrow> string \<Rightarrow> json_exception" where
  "parse_error_at i byte what =
     parse_error_exception i byte
       (exception_name ''parse_error'' i @ ''parse error'' @ (if byte \<noteq> 0 then '' at byte '' @ dec (int byte) else []) @ '': '' @ what)"

definition quoted :: "string \<Rightarrow> string" where
  "quoted s = [CHR 0x27] @ s @ [CHR 0x27]"

text \<open>All occurrences from left to right; the search goes on behind what was put in. The text to search for is not empty.\<close>

function replace_substring :: "string \<Rightarrow> string \<Rightarrow> string \<Rightarrow> string" where
  "replace_substring s f t =
     (if s = [] \<or> f = [] then s
      else if take (length f) s = f then t @ replace_substring (drop (length f) s) f t
      else hd s # replace_substring (tl s) f t)"
  by pat_completeness auto

termination
  by (relation "measure (\<lambda>(s, f, t). length s)") auto

declare replace_substring.simps [simp del]

definition ptr_escape :: "string \<Rightarrow> string" where
  "ptr_escape s = replace_substring (replace_substring s ''~'' ''~0'') ''/'' ''~1''"

definition ptr_unescape :: "string \<Rightarrow> string" where
  "ptr_unescape s = replace_substring (replace_substring s ''~1'' ''/'') ''~0'' ''~''"

text \<open>Every tilde is followed by 0 or 1.\<close>

fun tildes_ok :: "string \<Rightarrow> bool" where
  "tildes_ok [] \<longleftrightarrow> True"
| "tildes_ok (c # s) \<longleftrightarrow> (c = CHR ''~'' \<longrightarrow> s \<noteq> [] \<and> (hd s = CHR ''0'' \<or> hd s = CHR ''1'')) \<and> tildes_ok s"

text \<open>The loop of \<^verbatim>\<open>split\<close>, on what follows a slash.\<close>

function split_loop :: "string \<Rightarrow> pointer_error + string list" where
  "split_loop s =
     (let reference_token = takeWhile (\<lambda>c. c \<noteq> CHR ''/'') s;
          rest = dropWhile (\<lambda>c. c \<noteq> CHR ''/'') s in
      if \<not> tildes_ok reference_token then
        Inl (Thrown (parse_error_at 108 0 (''escape character '' @ quoted ''~'' @ '' must be followed with '' @ quoted ''0'' @ '' or '' @ quoted ''1'')))
      else if rest = [] then Inr [ptr_unescape reference_token]
      else rbind (split_loop (tl rest)) (\<lambda>ts. Inr (ptr_unescape reference_token # ts)))"
  by pat_completeness auto

termination
proof (relation "measure length")
  fix s and token rest :: string
  assume r: "rest = dropWhile (\<lambda>c. c \<noteq> CHR ''/'') s" and n: "\<not> rest = []"
  have "length rest \<le> length s" unfolding r by (rule length_dropWhile_le)
  then show "(tl rest, s) \<in> measure length" using n by (cases rest) simp_all
qed simp

declare split_loop.simps [simp del]

definition ptr_split :: "string \<Rightarrow> pointer_error + json_pointer" where
  "ptr_split reference_string =
     (if reference_string = [] then Inr []
      else if hd reference_string \<noteq> CHR ''/'' then
        Inl (Thrown (parse_error_at 107 1 (''JSON pointer must be empty or begin with '' @ quoted ''/'' @ '' - was: '' @ quoted reference_string)))
      else split_loop (tl reference_string))"

definition ptr_to_string :: "json_pointer \<Rightarrow> string" where
  "ptr_to_string ts = foldl (\<lambda>a b. a @ ''/'' @ ptr_escape b) [] ts"

definition ptr_push_back :: "string \<Rightarrow> json_pointer \<Rightarrow> json_pointer" where
  "ptr_push_back token ts = ts @ [token]"

definition no_parent :: pointer_error where
  "no_parent = Thrown (out_of_range_create 405 ''JSON pointer has no parent'')"

definition ptr_pop_back :: "json_pointer \<Rightarrow> pointer_error + json_pointer" where
  "ptr_pop_back ts = (if ts = [] then Inl no_parent else Inr (butlast ts))"

definition ptr_back :: "json_pointer \<Rightarrow> pointer_error + string" where
  "ptr_back ts = (if ts = [] then Inl no_parent else Inr (last ts))"

definition ptr_top :: "json_pointer \<Rightarrow> pointer_error + json_pointer" where
  "ptr_top ts = (if ts = [] then Inl no_parent else Inr [hd ts])"

definition parent_pointer :: "json_pointer \<Rightarrow> json_pointer" where
  "parent_pointer ts = (if ts = [] then ts else butlast ts)"

text \<open>\<^verbatim>\<open>std::stoi\<close>: blanks, a sign, digits; the number and how many characters were read.\<close>

definition stoi :: "string \<Rightarrow> pointer_error + int \<times> nat" where
  "stoi s =
     (let s1 = dropWhile blank s;
          signed_text = s1 \<noteq> [] \<and> (hd s1 = CHR ''-'' \<or> hd s1 = CHR ''+'');
          s2 = (if signed_text then tl s1 else s1);
          ds = takeWhile digit s2;
          n = (if signed_text \<and> hd s1 = CHR ''-'' then - digits_value s2 else digits_value s2) in
      if ds = [] then Inl Std_invalid_argument
      else if n < - (2 ^ 31) \<or> n \<ge> 2 ^ 31 then Inl Std_out_of_range
      else Inr (n, length s - length s2 + length ds))"

definition array_index :: "string \<Rightarrow> pointer_error + int" where
  "array_index s =
     rbind (stoi s) (\<lambda>(res, processed_chars).
     if processed_chars \<noteq> length s then Inl (Thrown (out_of_range_create 404 (''unresolved reference token '' @ quoted s)))
     else Inr res)"

text \<open>The handler of \<^verbatim>\<open>std::invalid_argument\<close> around it.\<close>

definition array_index_checked :: "string \<Rightarrow> pointer_error + int" where
  "array_index_checked s =
     (case array_index s of
        Inl Std_invalid_argument \<Rightarrow> Inl (Thrown (parse_error_at 109 0 (''array index '' @ quoted s @ '' is not a number'')))
      | r \<Rightarrow> r)"

text \<open>\<^verbatim>\<open>static_cast<size_type>\<close>\<close>

definition size_of_int :: "int \<Rightarrow> nat" where
  "size_of_int i = nat (i mod 2 ^ 64)"

definition leading_zero :: "string \<Rightarrow> bool" where
  "leading_zero t \<longleftrightarrow> length t > 1 \<and> hd t = CHR ''0''"

definition leading_zero_error :: "string \<Rightarrow> pointer_error" where
  "leading_zero_error t = Thrown (parse_error_at 106 0 (''array index '' @ quoted t @ '' must not begin with '' @ quoted ''0''))"

definition unresolved :: "string \<Rightarrow> pointer_error" where
  "unresolved t = Thrown (out_of_range_create 404 (''unresolved reference token '' @ quoted t))"

definition throws :: "json_exception + 'a \<Rightarrow> pointer_error + 'a" where
  "throws r = (case r of Inl e \<Rightarrow> Inl (Thrown e) | Inr x \<Rightarrow> Inr x)"

text \<open>\<^verbatim>\<open>get_checked\<close>: the path to the value, which must be there.\<close>

fun get_checked :: "json_pointer \<Rightarrow> 'f json \<Rightarrow> pointer_error + path" where
  "get_checked [] v = Inr []"
| "get_checked (t # ts) v =
     (case v of
        Jobject kvs \<Rightarrow>
          rbind (throws (json_at_key t v)) (\<lambda>x. rbind (get_checked ts x) (\<lambda>p. Inr (Key t # p)))
      | Jarray vs \<Rightarrow>
          if t = ''-'' then
            Inl (Thrown (out_of_range_create 402 (''array index '' @ quoted ''-'' @ '' ('' @ dec (int (length vs)) @ '') is out of range'')))
          else if leading_zero t then Inl (leading_zero_error t)
          else rbind (array_index_checked t) (\<lambda>i.
               rbind (throws (json_at_index (size_of_int i) v)) (\<lambda>x.
               rbind (get_checked ts x) (\<lambda>p. Inr (At (size_of_int i) # p))))
      | _ \<Rightarrow> Inl (unresolved t))"

text \<open>
  \<^verbatim>\<open>get_unchecked\<close> on a value that may be changed: a null becomes an array or an object, and what is missing is made. An array
  cannot be made as long as a negative index asks for.
\<close>

definition null_becomes :: "string \<Rightarrow> 'f json \<Rightarrow> 'f json" where
  "null_becomes t v =
     (if v = Jnull then (if list_all digit t \<or> t = ''-'' then Jarray [] else Jobject []) else v)"

definition unchecked_index :: "string \<Rightarrow> nat \<Rightarrow> pointer_error + nat" where
  "unchecked_index t n =
     (if leading_zero t then Inl (leading_zero_error t)
      else if t = ''-'' then Inr n
      else rbind (array_index_checked t) (\<lambda>i. if i < 0 then Inl Std_length_error else Inr (nat i)))"

fun get_unchecked :: "json_pointer \<Rightarrow> 'f json \<Rightarrow> pointer_error + 'f json \<times> path" where
  "get_unchecked [] v = Inr (v, [])"
| "get_unchecked (t # ts) v =
     (case null_becomes t v of
        Jobject kvs \<Rightarrow>
          rbind (throws (subscript_key t (Jobject kvs))) (\<lambda>v1.
          rbind (throws (json_at_key t v1)) (\<lambda>x.
          rbind (get_unchecked ts x) (\<lambda>(x1, p).
          Inr (json_update [Key t] (\<lambda>_. x1) v1, Key t # p))))
      | Jarray vs \<Rightarrow>
          rbind (unchecked_index t (length vs)) (\<lambda>i.
          rbind (throws (subscript_index i (Jarray vs))) (\<lambda>v1.
          rbind (throws (json_at_index i v1)) (\<lambda>x.
          rbind (get_unchecked ts x) (\<lambda>(x1, p).
          Inr (json_update [At i] (\<lambda>_. x1) v1, At i # p)))))
      | _ \<Rightarrow> Inl (unresolved t))"

fun ptr_contains :: "json_pointer \<Rightarrow> 'f json \<Rightarrow> pointer_error + bool" where
  "ptr_contains [] v = Inr True"
| "ptr_contains (t # ts) v =
     (case v of
        Jobject kvs \<Rightarrow> (case map_of kvs t of None \<Rightarrow> Inr False | Some x \<Rightarrow> ptr_contains ts x)
      | Jarray vs \<Rightarrow>
          if t = ''-'' then Inr False
          else if leading_zero t then Inl (leading_zero_error t)
          else rbind (array_index_checked t) (\<lambda>i.
               if size_of_int i \<ge> length vs then Inr False else ptr_contains ts (vs ! size_of_int i))
      | _ \<Rightarrow> Inr False)"

text \<open>\<^verbatim>\<open>get_and_create\<close>, for \<^verbatim>\<open>unflatten\<close>.\<close>

fun get_and_create :: "json_pointer \<Rightarrow> 'f json \<Rightarrow> pointer_error + 'f json \<times> path" where
  "get_and_create [] v = Inr (v, [])"
| "get_and_create (t # ts) v =
     (case (if v = Jnull then (if t = ''0'' then Jarray [] else Jobject []) else v) of
        Jobject kvs \<Rightarrow>
          rbind (throws (subscript_key t (Jobject kvs))) (\<lambda>v1.
          rbind (throws (json_at_key t v1)) (\<lambda>x.
          rbind (get_and_create ts x) (\<lambda>(x1, p).
          Inr (json_update [Key t] (\<lambda>_. x1) v1, Key t # p))))
      | Jarray vs \<Rightarrow>
          rbind (array_index_checked t) (\<lambda>i.
          if i < 0 then Inl Std_length_error
          else rbind (throws (subscript_index (nat i) (Jarray vs))) (\<lambda>v1.
               rbind (throws (json_at_index (nat i) v1)) (\<lambda>x.
               rbind (get_and_create ts x) (\<lambda>(x1, p).
               Inr (json_update [At (nat i)] (\<lambda>_. x1) v1, At (nat i) # p)))))
      | _ \<Rightarrow> Inl (Thrown (type_error_create 313 ''invalid value to unflatten'')))"

text \<open>\<^verbatim>\<open>flatten\<close>: the members of the result, in the order in which they are put in.\<close>

fun json_flatten :: "string \<Rightarrow> 'f json \<Rightarrow> (string \<times> 'f json) list"
  and flatten_elements :: "string \<Rightarrow> nat \<Rightarrow> 'f json list \<Rightarrow> (string \<times> 'f json) list"
  and flatten_members :: "string \<Rightarrow> (string \<times> 'f json) list \<Rightarrow> (string \<times> 'f json) list"
where
  "json_flatten ref (Jarray vs) = (if vs = [] then [(ref, Jnull)] else flatten_elements ref 0 vs)"
| "json_flatten ref (Jobject kvs) = (if kvs = [] then [(ref, Jnull)] else flatten_members ref kvs)"
| "json_flatten ref v = [(ref, v)]"
| "flatten_elements ref i [] = []"
| "flatten_elements ref i (x # xs) = json_flatten (ref @ ''/'' @ dec (int i)) x @ flatten_elements ref (i + 1) xs"
| "flatten_members ref [] = []"
| "flatten_members ref ((k, x) # kvs) = json_flatten (ref @ ''/'' @ ptr_escape k) x @ flatten_members ref kvs"

definition basic_json_flatten :: "'f json \<Rightarrow> 'f json" where
  "basic_json_flatten v = Jobject (fold set_member (json_flatten [] v) [])"

fun unflatten_loop :: "(string \<times> 'f json) list \<Rightarrow> 'f json \<Rightarrow> pointer_error + 'f json" where
  "unflatten_loop [] v = Inr v"
| "unflatten_loop ((k, x) # kvs) v =
     (case x of
        Jarray _ \<Rightarrow> Inl (Thrown (type_error_create 315 ''values in object must be primitive''))
      | Jobject _ \<Rightarrow> Inl (Thrown (type_error_create 315 ''values in object must be primitive''))
      | Jdiscarded \<Rightarrow> Inl (Thrown (type_error_create 315 ''values in object must be primitive''))
      | _ \<Rightarrow>
          rbind (ptr_split k) (\<lambda>ts.
          rbind (get_and_create ts v) (\<lambda>(v1, p).
          unflatten_loop kvs (json_update p (\<lambda>_. x) v1))))"

definition json_unflatten :: "'f json \<Rightarrow> pointer_error + 'f json" where
  "json_unflatten v =
     (case v of
        Jobject kvs \<Rightarrow> unflatten_loop kvs Jnull
      | _ \<Rightarrow> Inl (Thrown (type_error_create 314 ''only objects can be unflattened'')))"

section \<open>Texts of pointers\<close>

lemma replace_single: "replace_substring s [c] t = concat (map (\<lambda>x. if x = c then t else [x]) s)"
proof (induction s)
  case (Cons x s)
  then show ?case by (subst replace_substring.simps) simp
qed (simp add: replace_substring.simps)

lemma replace_pair [simp]:
  "replace_substring (x # s) [c, d] t = (if x = c \<and> s \<noteq> [] \<and> hd s = d then t @ replace_substring (tl s) [c, d] t else x # replace_substring s [c, d] t)"
  by (subst replace_substring.simps) (cases s; simp)

lemma replace_Nil [simp]: "replace_substring [] f t = []"
  by (simp add: replace_substring.simps)

text \<open>What a character becomes in the text of a pointer.\<close>

definition esc_char :: "char \<Rightarrow> string" where
  "esc_char c = (if c = CHR ''~'' then ''~0'' else if c = CHR ''/'' then ''~1'' else [c])"

lemma ptr_escape_chars: "ptr_escape s = concat (map esc_char s)"
  by (induction s) (simp_all add: ptr_escape_def replace_single esc_char_def)

lemma unescape_step: "ptr_unescape (esc_char c @ s) = c # ptr_unescape s"
  by (auto simp: ptr_unescape_def esc_char_def)

lemma unescape_escape: "ptr_unescape (ptr_escape s) = s"
proof -
  have "ptr_unescape (concat (map esc_char s)) = s"
    by (induction s) (simp add: ptr_unescape_def, simp add: unescape_step)
  then show ?thesis by (simp add: ptr_escape_chars)
qed

lemma escape_safe: "tildes_ok (ptr_escape s)" "list_all (\<lambda>c. c \<noteq> CHR ''/'') (ptr_escape s)"
proof -
  have "tildes_ok (concat (map esc_char s))" by (induction s) (auto simp: esc_char_def)
  then show "tildes_ok (ptr_escape s)" by (simp add: ptr_escape_chars)
  show "list_all (\<lambda>c. c \<noteq> CHR ''/'') (ptr_escape s)" by (auto simp: ptr_escape_chars esc_char_def list_all_iff)
qed

lemma split_loop_step:
  "split_loop (ptr_escape t) = Inr [t]"
  "split_loop (ptr_escape t @ CHR ''/'' # s) = rbind (split_loop s) (\<lambda>ts. Inr (t # ts))"
proof -
  have e: "\<forall>c \<in> set (ptr_escape t). c \<noteq> CHR ''/''" using escape_safe(2) [of t] by (simp add: list_all_iff)
  have 1: "takeWhile (\<lambda>c. c \<noteq> CHR ''/'') (ptr_escape t) = ptr_escape t" "dropWhile (\<lambda>c. c \<noteq> CHR ''/'') (ptr_escape t) = []"
    using e by (simp_all add: takeWhile_eq_all_conv)
  have 2: "takeWhile (\<lambda>c. c \<noteq> CHR ''/'') (ptr_escape t @ CHR ''/'' # s) = ptr_escape t"
      "dropWhile (\<lambda>c. c \<noteq> CHR ''/'') (ptr_escape t @ CHR ''/'' # s) = CHR ''/'' # s"
    using e by (auto simp: takeWhile_append dropWhile_append)
  show "split_loop (ptr_escape t) = Inr [t]"
    unfolding split_loop.simps [of "ptr_escape t"] Let_def 1 by (simp add: escape_safe(1) unescape_escape)
  show "split_loop (ptr_escape t @ CHR ''/'' # s) = rbind (split_loop s) (\<lambda>ts. Inr (t # ts))"
    unfolding split_loop.simps [of "ptr_escape t @ CHR ''/'' # s"] Let_def 2 by (simp add: escape_safe(1) unescape_escape)
qed

lemma to_string_Cons: "ptr_to_string (t # ts) = ''/'' @ ptr_escape t @ ptr_to_string ts"
proof -
  have "foldl (\<lambda>a b. a @ ''/'' @ ptr_escape b) x ts = x @ foldl (\<lambda>a b. a @ ''/'' @ ptr_escape b) [] ts" for x ts
  proof (induction ts arbitrary: x)
    case (Cons b ts)
    show ?case using Cons.IH [of "x @ ''/'' @ ptr_escape b"] Cons.IH [of "''/'' @ ptr_escape b"] by simp
  qed simp
  from this [of "''/'' @ ptr_escape t" ts] show ?thesis by (simp add: ptr_to_string_def)
qed

lemma to_string_append: "ptr_to_string (ts @ us) = ptr_to_string ts @ ptr_to_string us"
  by (induction ts) (simp_all add: to_string_Cons, simp add: ptr_to_string_def)

lemma split_loop_tokens: "split_loop (ptr_escape t @ ptr_to_string ts) = Inr (t # ts)"
proof (induction ts arbitrary: t)
  case Nil
  then show ?case by (simp add: split_loop_step ptr_to_string_def)
next
  case (Cons u ts)
  then show ?case using split_loop_step(2) [of t "ptr_escape u @ ptr_to_string ts"] by (simp add: to_string_Cons)
qed

lemma split_to_string: "ptr_split (ptr_to_string ts) = Inr ts"
  by (cases ts) (simp_all add: ptr_split_def to_string_Cons split_loop_tokens, simp add: ptr_to_string_def)

section \<open>Pointers and paths\<close>

text \<open>The tokens of a path.\<close>

definition tok_of :: "path_step \<Rightarrow> string" where
  "tok_of q = (case q of At i \<Rightarrow> dec (int i) | Key k \<Rightarrow> k)"

text \<open>Indexes are within \<^verbatim>\<open>int\<close>.\<close>

definition small_path :: "path \<Rightarrow> bool" where
  "small_path q \<longleftrightarrow> (\<forall>i. At i \<in> set q \<longrightarrow> i < 2 ^ 31)"

lemma small_path_simps [simp]:
  "small_path []" "small_path (At i # q) \<longleftrightarrow> i < 2 ^ 31 \<and> small_path q" "small_path (Key k # q) \<longleftrightarrow> small_path q"
  "small_path (p @ q) \<longleftrightarrow> small_path p \<and> small_path q"
  by (auto simp: small_path_def)

lemma digit_not: "digit c \<Longrightarrow> \<not> blank c \<and> c \<noteq> CHR ''-'' \<and> c \<noteq> CHR ''+''"
  by (auto simp: digit_def blank_def Let_def)

lemma dec_index: "dec (int i) = dec_nat i" "list_all digit (dec_nat i)" "dec_nat i \<noteq> []"
  by (simp_all add: dec_def dec_nat_digits) (simp add: dec_nat.simps)

lemma array_index_dec: "i < 2 ^ 31 \<Longrightarrow> array_index (dec (int i)) = Inr (int i)"
proof -
  assume i: "i < 2 ^ 31"
  obtain c s where s: "dec_nat i = c # s" using dec_index(3) by (cases "dec_nat i") auto
  have c: "\<not> blank c" "c \<noteq> CHR ''-''" "c \<noteq> CHR ''+''" using dec_index(2) [of i] digit_not by (auto simp: s)
  have tw: "takeWhile digit (dec_nat i) = dec_nat i" using dec_index(2) by (simp add: takeWhile_eq_all_conv list_all_iff)
  have "dropWhile blank (dec_nat i) = dec_nat i" using c by (simp add: s)
  moreover have "int i < 2 ^ 31" using i by simp
  moreover have "\<not> (dec_nat i \<noteq> [] \<and> (hd (dec_nat i) = CHR ''-'' \<or> hd (dec_nat i) = CHR ''+''))" using c by (simp add: s)
  ultimately have "stoi (dec_nat i) = Inr (int i, length (dec_nat i))"
    using dec_index(3) unfolding stoi_def Let_def by (simp add: digits_value_dec_nat tw)
  then show ?thesis by (simp add: array_index_def dec_index(1))
qed

lemma dec_no_leading_zero: "\<not> leading_zero (dec (int i))" "dec (int i) \<noteq> ''-''"
proof -
  show "\<not> leading_zero (dec (int i))"
  proof (cases "i = 0")
    case False
    then obtain c cs where "dec_nat i = c # cs" "of_char c \<noteq> (0x30 :: int)" using dec_nat_first [of i] by blast
    then show ?thesis by (auto simp: leading_zero_def dec_index(1))
  qed (simp add: leading_zero_def dec_def dec_nat.simps)
  have "\<not> digit (CHR ''-'')" by (simp add: digit_def)
  then show "dec (int i) \<noteq> ''-''" using dec_index(2) [of i] unfolding dec_index(1) by force
qed

lemma size_of_index: "i < 2 ^ 31 \<Longrightarrow> size_of_int (int i) = i"
  by (simp add: size_of_int_def)

lemma index_checked: "i < 2 ^ 31 \<Longrightarrow> array_index_checked (dec (int i)) = Inr (int i)"
  by (simp add: array_index_checked_def array_index_dec)

lemmas index_tokens = dec_no_leading_zero size_of_index index_checked array_index_dec

lemma get_checked_path: "json_at q v = Some x \<Longrightarrow> small_path q \<Longrightarrow> get_checked (map tok_of q) v = Inr q"
  by (induction q v rule: json_at.induct)
    (auto simp: tok_of_def index_tokens json_at_index_def json_at_key_def throws_def split: if_splits option.splits)

lemma get_unchecked_path: "json_at q v = Some x \<Longrightarrow> small_path q \<Longrightarrow> get_unchecked (map tok_of q) v = Inr (v, q)"
  by (induction q v rule: json_at.induct)
    (auto simp: tok_of_def index_tokens json_at_index_def json_at_key_def throws_def null_becomes_def unchecked_index_def subscript_index_def
      subscript_key_def object_key_def alter_same split: if_splits option.splits)

end
