(* ===== verification/Json_Patch.thy ===== *)
theory Json_Patch
  imports Json_Pointer
begin

text \<open>
  JSON Patch and JSON Merge Patch (\<^verbatim>\<open>include/json.hpp\<close>: \<^verbatim>\<open>patch\<close>, \<^verbatim>\<open>diff\<close>, \<^verbatim>\<open>merge_patch\<close>), with the invariant the source
  promises: applying the difference of two values to the first gives one that is equal to the second.
\<close>

section \<open>The code\<close>

datatype patch_operations = op_add | op_remove | op_replace | op_move | op_copy | op_test | op_invalid

definition get_op :: "string \<Rightarrow> patch_operations" where
  "get_op op =
     (if op = ''add'' then op_add else if op = ''remove'' then op_remove else if op = ''replace'' then op_replace
      else if op = ''move'' then op_move else if op = ''copy'' then op_copy else if op = ''test'' then op_test else op_invalid)"

text \<open>Storing a value through \<^verbatim>\<open>parent[last_path]\<close> or by inserting it into the array.\<close>

definition add_to_parent :: "string \<Rightarrow> 'f json \<Rightarrow> 'f json \<Rightarrow> pointer_error + 'f json" where
  "add_to_parent last_path val parent =
     (case parent of
        Jnull \<Rightarrow> rbind (throws (subscript_key last_path parent)) (\<lambda>p1. Inr (json_update [Key last_path] (\<lambda>_. val) p1))
      | Jobject _ \<Rightarrow> rbind (throws (subscript_key last_path parent)) (\<lambda>p1. Inr (json_update [Key last_path] (\<lambda>_. val) p1))
      | Jarray vs \<Rightarrow>
          if last_path = ''-'' then Inr (Jarray (vs @ [val]))
          else rbind (array_index last_path) (\<lambda>idx.
               if size_of_int idx > length vs then
                 Inl (Thrown (out_of_range_create 401 (''array index '' @ dec idx @ '' is out of range'')))
               else Inr (Jarray (take (size_of_int idx) vs @ val # drop (size_of_int idx) vs)))
      | _ \<Rightarrow> Inl (Stopped Assertion_failed))"

text \<open>Changing what a path refers to.\<close>

definition change_at :: "path \<Rightarrow> ('f json \<Rightarrow> pointer_error + 'f json) \<Rightarrow> 'f json \<Rightarrow> pointer_error + 'f json" where
  "change_at p f v =
     (case json_at p v of
        None \<Rightarrow> Inl (Stopped Null_dereference)
      | Some x \<Rightarrow> rbind (f x) (\<lambda>x1. Inr (json_update p (\<lambda>_. x1) v)))"

definition operation_add :: "json_pointer \<Rightarrow> 'f json \<Rightarrow> 'f json \<Rightarrow> pointer_error + 'f json" where
  "operation_add ptr val result =
     (if ptr = [] then Inr val
      else
        rbind (ptr_top ptr) (\<lambda>top_pointer.
        rbind (if top_pointer \<noteq> ptr then get_checked top_pointer result else Inr []) (\<lambda>_.
        rbind (ptr_back ptr) (\<lambda>last_path.
        rbind (ptr_pop_back ptr) (\<lambda>ptr1.
        rbind (get_unchecked ptr1 result) (\<lambda>(result1, p).
        change_at p (add_to_parent last_path val) result1))))))"

definition remove_from_parent :: "string \<Rightarrow> 'f json \<Rightarrow> pointer_error + 'f json" where
  "remove_from_parent last_path parent =
     (case parent of
        Jobject kvs \<Rightarrow>
          (if map_of kvs last_path \<noteq> None then Inr (Jobject (filter (\<lambda>e. fst e \<noteq> last_path) kvs))
           else Inl (Thrown (out_of_range_create 403 (''key '' @ quoted last_path @ '' not found''))))
      | Jarray vs \<Rightarrow> rbind (array_index last_path) (\<lambda>idx. throws (json_erase_index (size_of_int idx) parent))
      | _ \<Rightarrow> Inr parent)"

definition operation_remove :: "json_pointer \<Rightarrow> 'f json \<Rightarrow> pointer_error + 'f json" where
  "operation_remove ptr result =
     rbind (ptr_back ptr) (\<lambda>last_path.
     rbind (ptr_pop_back ptr) (\<lambda>ptr1.
     rbind (get_checked ptr1 result) (\<lambda>p.
     change_at p (remove_from_parent last_path) result)))"

definition get_value :: "(string \<times> 'f json) list \<Rightarrow> string \<Rightarrow> string \<Rightarrow> pointer_error + 'f json" where
  "get_value val op member =
     (let error_msg = (if op = ''op'' then ''operation'' else ''operation '' @ quoted op) in
      case map_of val member of
        None \<Rightarrow> Inl (Thrown (parse_error_at 105 0 (error_msg @ '' must have member '' @ quoted member)))
      | Some x \<Rightarrow> Inr x)"

definition get_string_value :: "(string \<times> 'f json) list \<Rightarrow> string \<Rightarrow> string \<Rightarrow> pointer_error + string" where
  "get_string_value val op member =
     (let error_msg = (if op = ''op'' then ''operation'' else ''operation '' @ quoted op) in
      rbind (get_value val op member) (\<lambda>x.
      case x of
        Jstring s \<Rightarrow> Inr s
      | _ \<Rightarrow> Inl (Thrown (parse_error_at 105 0 (error_msg @ '' must have string member '' @ quoted member)))))"

text \<open>The test; an index or a key that is out of range is a failure of the test.\<close>

definition operation_test ::
    "'f float_ops \<Rightarrow> 'f float_arith \<Rightarrow> (string \<times> 'f json) list \<Rightarrow> json_pointer \<Rightarrow> 'f json \<Rightarrow> pointer_error + 'f json" where
  "operation_test fl fa val ptr result =
     rbind
       (case get_checked ptr result of
          Inl (Thrown (out_of_range _ _)) \<Rightarrow> Inr False
        | Inl e \<Rightarrow> Inl e
        | Inr p \<Rightarrow> rbind (get_value val ''test'' ''value'') (\<lambda>x. Inr (case json_at p result of Some y \<Rightarrow> json_eq fa y x | None \<Rightarrow> False)))
       (\<lambda>success.
        if success then Inr result
        else case json_dump fl (-1) (CHR '' '') False EH_strict (Jobject val) of
          Inr text \<Rightarrow> Inl (Thrown (other_error 501 (exception_name ''other_error'' 501 @ ''unsuccessful: '' @ text)))
        | Inl (Throws e) \<Rightarrow> Inl (Thrown e)
        | Inl (Faults f) \<Rightarrow> Inl (Stopped f))"

text \<open>One element of a patch; where C++ leaves it open, operands are evaluated from left to right.\<close>

definition patch_member ::
    "'f float_ops \<Rightarrow> 'f float_arith \<Rightarrow> (string \<times> 'f json) list \<Rightarrow> 'f json \<Rightarrow> pointer_error + 'f json" where
  "patch_member fl fa val result =
     rbind (get_string_value val ''op'' ''op'') (\<lambda>op.
     rbind (get_string_value val op ''path'') (\<lambda>path.
     rbind (ptr_split path) (\<lambda>ptr.
     case get_op op of
       op_add \<Rightarrow> rbind (get_value val ''add'' ''value'') (\<lambda>x. operation_add ptr x result)
     | op_remove \<Rightarrow> operation_remove ptr result
     | op_replace \<Rightarrow>
         rbind (get_checked ptr result) (\<lambda>p.
         rbind (get_value val ''replace'' ''value'') (\<lambda>x. Inr (json_update p (\<lambda>_. x) result)))
     | op_move \<Rightarrow>
         rbind (get_string_value val ''move'' ''from'') (\<lambda>from_path.
         rbind (ptr_split from_path) (\<lambda>from_ptr.
         rbind (get_checked from_ptr result) (\<lambda>p.
         rbind (operation_remove from_ptr result) (\<lambda>result1.
         case json_at p result of
           None \<Rightarrow> Inl (Stopped Null_dereference)
         | Some v \<Rightarrow> operation_add ptr v result1))))
     | op_copy \<Rightarrow>
         rbind (get_string_value val ''copy'' ''from'') (\<lambda>from_path.
         rbind (ptr_split from_path) (\<lambda>from_ptr.
         rbind (get_checked from_ptr result) (\<lambda>p.
         case json_at p result of
           None \<Rightarrow> Inl (Stopped Null_dereference)
         | Some v \<Rightarrow> operation_add ptr v result)))
     | op_test \<Rightarrow> operation_test fl fa val ptr result
     | op_invalid \<Rightarrow> Inl (Thrown (parse_error_at 105 0 (''operation value '' @ quoted op @ '' is invalid''))))))"

definition patch_one :: "'f float_ops \<Rightarrow> 'f float_arith \<Rightarrow> 'f json \<Rightarrow> 'f json \<Rightarrow> pointer_error + 'f json" where
  "patch_one fl fa val result =
     (case val of
        Jobject kvs \<Rightarrow> patch_member fl fa kvs result
      | _ \<Rightarrow> Inl (Thrown (parse_error_at 104 0 ''JSON patch must be an array of objects'')))"

primrec patch_all :: "'f float_ops \<Rightarrow> 'f float_arith \<Rightarrow> 'f json list \<Rightarrow> 'f json \<Rightarrow> pointer_error + 'f json" where
  "patch_all fl fa [] result = Inr result"
| "patch_all fl fa (val # vals) result = rbind (patch_one fl fa val result) (patch_all fl fa vals)"

definition json_patch :: "'f float_ops \<Rightarrow> 'f float_arith \<Rightarrow> 'f json \<Rightarrow> 'f json \<Rightarrow> pointer_error + 'f json" where
  "json_patch fl fa patch v =
     (case patch of
        Jarray vals \<Rightarrow> patch_all fl fa vals v
      | _ \<Rightarrow> Inl (Thrown (parse_error_at 104 0 ''JSON patch must be an array of objects'')))"

text \<open>Operations of a difference; the keys of an object are sorted.\<close>

definition replace_op :: "string \<Rightarrow> 'f json \<Rightarrow> 'f json" where
  "replace_op path v = Jobject [(''op'', Jstring ''replace''), (''path'', Jstring path), (''value'', v)]"

definition add_op :: "string \<Rightarrow> 'f json \<Rightarrow> 'f json" where
  "add_op path v = Jobject [(''op'', Jstring ''add''), (''path'', Jstring path), (''value'', v)]"

definition remove_op :: "string \<Rightarrow> 'f json" where
  "remove_op path = Jobject [(''op'', Jstring ''remove''), (''path'', Jstring path)]"

fun same_type :: "'f json \<Rightarrow> 'f json \<Rightarrow> bool" where
  "same_type Jnull Jnull \<longleftrightarrow> True"
| "same_type (Jobject _) (Jobject _) \<longleftrightarrow> True"
| "same_type (Jarray _) (Jarray _) \<longleftrightarrow> True"
| "same_type (Jstring _) (Jstring _) \<longleftrightarrow> True"
| "same_type (Jboolean _) (Jboolean _) \<longleftrightarrow> True"
| "same_type (Jnumber_integer _) (Jnumber_integer _) \<longleftrightarrow> True"
| "same_type (Jnumber_unsigned _) (Jnumber_unsigned _) \<longleftrightarrow> True"
| "same_type (Jnumber_float _) (Jnumber_float _) \<longleftrightarrow> True"
| "same_type Jdiscarded Jdiscarded \<longleftrightarrow> True"
| "same_type _ _ \<longleftrightarrow> False"

text \<open>
  \<^verbatim>\<open>diff\<close>: the removals are inserted one before the other, so that the last index is removed first.
\<close>

fun json_diff :: "'f float_arith \<Rightarrow> 'f json \<Rightarrow> 'f json \<Rightarrow> string \<Rightarrow> 'f json list"
  and diff_elements :: "'f float_arith \<Rightarrow> 'f json list \<Rightarrow> 'f json list \<Rightarrow> nat \<Rightarrow> string \<Rightarrow> 'f json list"
  and diff_members :: "'f float_arith \<Rightarrow> (string \<times> 'f json) list \<Rightarrow> (string \<times> 'f json) list \<Rightarrow> string \<Rightarrow> 'f json list"
where
  "json_diff fa source target path =
     (if json_eq fa source target then []
      else if \<not> same_type source target then [replace_op path target]
      else case (source, target) of
        (Jarray xs, Jarray ys) \<Rightarrow>
          diff_elements fa xs ys 0 path
          @ map (\<lambda>i. remove_op (path @ ''/'' @ dec (int i))) (rev [length ys..<length xs])
          @ map (\<lambda>i. add_op (path @ ''/'' @ dec (int i)) (ys ! i)) [length xs..<length ys]
      | (Jobject xs, Jobject ys) \<Rightarrow>
          diff_members fa xs ys path
          @ map (\<lambda>(k, y). add_op (path @ ''/'' @ ptr_escape k) y) (filter (\<lambda>(k, y). map_of xs k = None) ys)
      | _ \<Rightarrow> [replace_op path target])"
| "diff_elements fa (x # xs) (y # ys) i path =
     json_diff fa x y (path @ ''/'' @ dec (int i)) @ diff_elements fa xs ys (i + 1) path"
| "diff_elements fa xs ys i path = []"
| "diff_members fa [] ys path = []"
| "diff_members fa ((k, x) # xs) ys path =
     (case map_of ys k of
        Some y \<Rightarrow> json_diff fa x y (path @ ''/'' @ ptr_escape k)
      | None \<Rightarrow> [remove_op (path @ ''/'' @ ptr_escape k)])
     @ diff_members fa xs ys path"

declare json_diff.simps [simp del]

text \<open>\<^verbatim>\<open>merge_patch\<close>\<close>

fun merge_patch :: "'f json \<Rightarrow> 'f json \<Rightarrow> 'f json"
  and merge_members :: "(string \<times> 'f json) list \<Rightarrow> (string \<times> 'f json) list \<Rightarrow> (string \<times> 'f json) list"
where
  "merge_patch (Jobject ps) v = (case v of Jobject kvs \<Rightarrow> Jobject (merge_members ps kvs) | _ \<Rightarrow> Jobject (merge_members ps []))"
| "merge_patch p v = p"
| "merge_members [] kvs = kvs"
| "merge_members ((k, p) # ps) kvs =
     merge_members ps
       (if p = Jnull then filter (\<lambda>e. fst e \<noteq> k) kvs
        else set_member (k, merge_patch p (case map_of kvs k of Some x \<Rightarrow> x | None \<Rightarrow> Jnull)) kvs)"

section \<open>Single operations\<close>

definition text_of_path :: "path \<Rightarrow> string" where
  "text_of_path p = ptr_to_string (map tok_of p)"

lemma escape_dec: "ptr_escape (dec (int i)) = dec (int i)"
proof -
  have "\<not> digit (CHR ''~'')" "\<not> digit (CHR ''/'')" by (simp_all add: digit_def)
  then have "digit c \<Longrightarrow> esc_char c = [c]" for c by (auto simp: esc_char_def)
  moreover have "list_all digit s \<Longrightarrow> (\<And>c. digit c \<Longrightarrow> esc_char c = [c]) \<Longrightarrow> concat (map esc_char s) = s" for s by (induction s) simp_all
  ultimately show ?thesis using dec_index(1,2) by (simp add: ptr_escape_chars)
qed

lemma text_of_path_snoc:
  "text_of_path (p @ [At i]) = text_of_path p @ ''/'' @ dec (int i)" "text_of_path (p @ [Key k]) = text_of_path p @ ''/'' @ ptr_escape k"
  by (simp_all add: text_of_path_def to_string_append to_string_Cons tok_of_def escape_dec) (simp_all add: ptr_to_string_def)

lemma split_text_of_path: "ptr_split (text_of_path p) = Inr (map tok_of p)"
  by (simp add: text_of_path_def split_to_string)

lemma json_update_same: "json_at p v = Some x \<Longrightarrow> json_update p (\<lambda>_. x) v = v"
  by (induction p v rule: json_at.induct) (auto simp: alter_same split: if_splits option.splits)

lemma patch_replace:
  assumes "json_at p v = Some x" and "small_path p"
  shows "patch_one fl fa (replace_op (text_of_path p) y) v = Inr (json_update p (\<lambda>_. y) v)"
  using get_checked_path [OF assms]
  by (simp add: patch_one_def replace_op_def patch_member_def get_string_value_def get_value_def get_op_def split_text_of_path Let_def)

lemma patch_remove:
  assumes "json_at p v = Some x" and "small_path p"
  shows "patch_one fl fa (remove_op (text_of_path (p @ [st]))) v = rbind (remove_from_parent (tok_of st) x) (\<lambda>y. Inr (json_update p (\<lambda>_. y) v))"
  using get_checked_path [OF assms] assms(1)
  by (simp add: patch_one_def remove_op_def patch_member_def get_string_value_def get_value_def get_op_def split_text_of_path Let_def
      operation_remove_def ptr_back_def ptr_pop_back_def change_at_def)

lemma operation_add_path:
  assumes "json_at p v = Some x" and "small_path p"
  shows "operation_add (map tok_of (p @ [st])) y v = rbind (add_to_parent (tok_of st) y x) (\<lambda>z. Inr (json_update p (\<lambda>_. z) v))"
proof -
  let ?ts = "map tok_of (p @ [st])"
  have "\<exists>q. (if [hd ?ts] \<noteq> ?ts then get_checked [hd ?ts] v else Inr []) = Inr q"
  proof (cases p)
    case (Cons a p')
    obtain z where "json_at [a] v = Some z" using assms(1) Cons by (cases a; cases v) (auto split: if_splits option.splits)
    moreover have "small_path [a]" using assms(2) Cons by (cases a) auto
    ultimately have "get_checked (map tok_of [a]) v = Inr [a]" by (rule get_checked_path)
    then show ?thesis using Cons by simp
  qed simp
  then obtain q where q: "(if [hd ?ts] \<noteq> ?ts then get_checked [hd ?ts] v else Inr []) = Inr q" by blast
  have ts: "?ts \<noteq> []" "ptr_top ?ts = Inr [hd ?ts]" "ptr_back ?ts = Inr (tok_of st)" "ptr_pop_back ?ts = Inr (map tok_of p)"
    by (simp_all add: ptr_top_def ptr_back_def ptr_pop_back_def)
  show ?thesis
    unfolding operation_add_def ts(2) rbind_simps q ts(3,4) get_unchecked_path [OF assms] using ts(1) assms(1) by (simp add: change_at_def)
qed

lemma patch_add:
  assumes "json_at p v = Some x" and "small_path p"
  shows "patch_one fl fa (add_op (text_of_path (p @ [st])) y) v = rbind (add_to_parent (tok_of st) y x) (\<lambda>z. Inr (json_update p (\<lambda>_. z) v))"
  using operation_add_path [OF assms]
  by (simp add: patch_one_def add_op_def patch_member_def get_string_value_def get_value_def get_op_def split_text_of_path Let_def)

lemma patch_all_append: "patch_all fl fa (xs @ ys) v = rbind (patch_all fl fa xs v) (patch_all fl fa ys)"
proof (induction xs arbitrary: v)
  case (Cons x xs)
  have "patch_all fl fa (xs @ ys) = (\<lambda>w. rbind (patch_all fl fa xs w) (patch_all fl fa ys))" using Cons.IH by (rule ext)
  then show ?case by (simp add: rbind_assoc)
qed simp

text \<open>\<open>turns ops p v y\<close>: the operations put \<open>y\<close> in the place of what is at \<open>p\<close>, and nothing else changes.\<close>

definition turns :: "'f float_ops \<Rightarrow> 'f float_arith \<Rightarrow> 'f json list \<Rightarrow> path \<Rightarrow> 'f json \<Rightarrow> 'f json \<Rightarrow> bool" where
  "turns fl fa ops p v y \<longleftrightarrow> patch_all fl fa ops v = Inr (json_update p (\<lambda>_. y) v)"

lemma turns_Nil: "json_at p v = Some x \<Longrightarrow> turns fl fa [] p v x"
  by (simp add: turns_def json_update_same)

lemma turns_append:
  "turns fl fa xs p v y \<Longrightarrow> turns fl fa ys p (json_update p (\<lambda>_. y) v) z \<Longrightarrow> turns fl fa (xs @ ys) p v z"
  by (simp add: turns_def patch_all_append json_update_update)

lemma turns_replace: "json_at p v = Some x \<Longrightarrow> small_path p \<Longrightarrow> turns fl fa [replace_op (text_of_path p) y] p v y"
  by (simp add: turns_def patch_replace)

section \<open>Arrays\<close>

lemma turns_remove_last:
  assumes "json_at p v = Some (Jarray (vs @ [x]))" and "small_path p" and "length vs < 2 ^ 31"
  shows "turns fl fa [remove_op (text_of_path p @ ''/'' @ dec (int (length vs)))] p v (Jarray vs)"
  using patch_remove [OF assms(1,2), of fl fa "At (length vs)"] assms(3)
  by (simp add: turns_def text_of_path_snoc remove_from_parent_def tok_of_def array_index_dec size_of_index json_erase_index_def throws_def)

lemma turns_remove_rest:
  assumes "json_at p v = Some (Jarray (vs @ ws))" and "small_path p" and "length (vs @ ws) \<le> 2 ^ 31"
  shows "turns fl fa (map (\<lambda>i. remove_op (text_of_path p @ ''/'' @ dec (int i))) (rev [length vs..<length (vs @ ws)])) p v (Jarray vs)"
  using assms
proof (induction ws arbitrary: v rule: rev_induct)
  case Nil
  then show ?case by (simp add: turns_Nil)
next
  case (snoc w ws)
  let ?v = "json_update p (\<lambda>_. Jarray (vs @ ws)) v"
  have "turns fl fa [remove_op (text_of_path p @ ''/'' @ dec (int (length (vs @ ws))))] p v (Jarray (vs @ ws))"
    using snoc.prems by (intro turns_remove_last) simp_all
  moreover have "json_at p ?v = Some (Jarray (vs @ ws))" using json_at_update [OF snoc.prems(1)] by simp
  then have "turns fl fa (map (\<lambda>i. remove_op (text_of_path p @ ''/'' @ dec (int i))) (rev [length vs..<length (vs @ ws)])) p ?v (Jarray vs)"
    using snoc.prems by (intro snoc.IH) simp_all
  ultimately have "turns fl fa ([remove_op (text_of_path p @ ''/'' @ dec (int (length (vs @ ws))))]
      @ map (\<lambda>i. remove_op (text_of_path p @ ''/'' @ dec (int i))) (rev [length vs..<length (vs @ ws)])) p v (Jarray vs)"
    by (rule turns_append)
  then show ?case by (simp add: add.assoc [symmetric])
qed

lemma turns_add_end:
  assumes "json_at p v = Some (Jarray vs)" and "small_path p" and "length vs < 2 ^ 31"
  shows "turns fl fa [add_op (text_of_path p @ ''/'' @ dec (int (length vs))) y] p v (Jarray (vs @ [y]))"
  using patch_add [OF assms(1,2), of fl fa "At (length vs)" y] assms(3)
  by (simp add: turns_def text_of_path_snoc add_to_parent_def tok_of_def index_tokens)

lemma turns_add_rest:
  assumes "json_at p v = Some (Jarray vs)" and "small_path p" and "length vs \<le> length ys" and "length ys \<le> 2 ^ 31"
  shows "turns fl fa (map (\<lambda>i. add_op (text_of_path p @ ''/'' @ dec (int i)) (ys ! i)) [length vs..<length ys]) p v (Jarray (vs @ drop (length vs) ys))"
  using assms
proof (induction "length ys - length vs" arbitrary: vs v)
  case 0
  then show ?case by (simp add: turns_Nil)
next
  case (Suc n)
  let ?y = "ys ! length vs" and ?v = "json_update p (\<lambda>_. Jarray (vs @ [ys ! length vs])) v"
  have l: "length vs < length ys" using Suc.hyps(2) by simp
  have "turns fl fa [add_op (text_of_path p @ ''/'' @ dec (int (length vs))) ?y] p v (Jarray (vs @ [?y]))"
    using Suc.prems l by (intro turns_add_end) simp_all
  moreover have "json_at p ?v = Some (Jarray (vs @ [?y]))" using json_at_update [OF Suc.prems(1)] by simp
  then have "turns fl fa (map (\<lambda>i. add_op (text_of_path p @ ''/'' @ dec (int i)) (ys ! i)) [length (vs @ [?y])..<length ys]) p ?v
      (Jarray ((vs @ [?y]) @ drop (length (vs @ [?y])) ys))"
    using Suc.hyps(2) Suc.prems l by (intro Suc.hyps(1)) simp_all
  ultimately have "turns fl fa ([add_op (text_of_path p @ ''/'' @ dec (int (length vs))) ?y]
      @ map (\<lambda>i. add_op (text_of_path p @ ''/'' @ dec (int i)) (ys ! i)) [length (vs @ [?y])..<length ys]) p v
      (Jarray ((vs @ [?y]) @ drop (length (vs @ [?y])) ys))"
    by (rule turns_append)
  then show ?case using l by (simp add: upt_conv_Cons Cons_nth_drop_Suc)
qed

text \<open>A change inside an element or a member is a change of the whole.\<close>

lemma turns_element:
  assumes "turns fl fa ops (p @ [At i]) v u" and "json_at p v = Some (Jarray vs)" and "i < length vs"
  shows "turns fl fa ops p v (Jarray (vs[i := u]))"
proof -
  have "json_update (p @ [At i]) (\<lambda>_. u) v = json_update p (\<lambda>_. Jarray (vs[i := u])) v"
    unfolding json_update_append by (rule json_update_agree [OF assms(2)]) (simp add: assms(3))
  then show ?thesis using assms(1) by (simp add: turns_def)
qed

lemma turns_member:
  assumes "turns fl fa ops (p @ [Key k]) v u" and "json_at p v = Some (Jobject kvs)"
  shows "turns fl fa ops p v (Jobject (alter k (\<lambda>_. u) kvs))"
proof -
  have "json_update (p @ [Key k]) (\<lambda>_. u) v = json_update p (\<lambda>_. Jobject (alter k (\<lambda>_. u) kvs)) v"
    unfolding json_update_append by (rule json_update_agree [OF assms(2)]) (simp add: json_update_Nil)
  then show ?thesis using assms(1) by (simp add: turns_def)
qed

section \<open>Objects\<close>

lemma turns_remove_member:
  assumes "json_at p v = Some (Jobject kvs)" and "small_path p" and "map_of kvs k \<noteq> None"
  shows "turns fl fa [remove_op (text_of_path p @ ''/'' @ ptr_escape k)] p v (Jobject (filter (\<lambda>e. fst e \<noteq> k) kvs))"
  using patch_remove [OF assms(1,2), of fl fa "Key k"] assms(3)
  by (simp add: turns_def text_of_path_snoc remove_from_parent_def tok_of_def)

lemma turns_add_member:
  assumes "json_at p v = Some (Jobject kvs)" and "small_path p"
  shows "turns fl fa [add_op (text_of_path p @ ''/'' @ ptr_escape k) y] p v (Jobject (put_member (k, y) kvs))"
  using patch_add [OF assms, of fl fa "Key k" y]
  by (simp add: turns_def text_of_path_snoc add_to_parent_def tok_of_def subscript_key_def object_key_def throws_def put_member_def
      json_update_Nil)

lemma turns_add_members:
  assumes "json_at p v = Some (Jobject kvs)" and "small_path p"
  shows "turns fl fa (map (\<lambda>(k, y). add_op (text_of_path p @ ''/'' @ ptr_escape k) y) es) p v (Jobject (fold put_member es kvs))"
  using assms
proof (induction es arbitrary: v kvs)
  case Nil
  then show ?case by (simp add: turns_Nil)
next
  case (Cons e es)
  obtain k y where e: "e = (k, y)" by force
  let ?v = "json_update p (\<lambda>_. Jobject (put_member e kvs)) v"
  have "json_at p ?v = Some (Jobject (put_member e kvs))" using json_at_update [OF Cons.prems(1)] by simp
  from turns_append [OF turns_add_member [OF Cons.prems, of fl fa k y] Cons.IH [OF this [unfolded e] Cons.prems(2)]] show ?case
    by (simp add: e)
qed

lemma map_of_put_member: "map_of (put_member (k, y) kvs) l = (if l = k then Some y else map_of kvs l)"
  by (auto simp: put_member_def map_of_alter)

lemma sorted_put_member: "sorted_wrt (<) (map fst kvs) \<Longrightarrow> sorted_wrt (<) (map fst (put_member e kvs))"
  by (simp add: put_member_def sorted_map_put)

lemma put_members:
  assumes "distinct (map fst es)"
  shows "map_of (fold put_member es kvs) l = (case map_of es l of Some y \<Rightarrow> Some y | None \<Rightarrow> map_of kvs l)"
    "sorted_wrt (<) (map fst kvs) \<Longrightarrow> sorted_wrt (<) (map fst (fold put_member es kvs))"
  using assms
  by (induction es arbitrary: kvs)
    (auto simp: map_of_put_member map_of_eq_None_iff image_iff intro: sorted_put_member split: option.split)

section \<open>The difference\<close>

text \<open>Arrays are no longer than an index can say.\<close>

fun short_json :: "'f json \<Rightarrow> bool" where
  "short_json (Jobject kvs) \<longleftrightarrow> list_all (\<lambda>e. short_json (snd e)) kvs"
| "short_json (Jarray vs) \<longleftrightarrow> length vs \<le> 2 ^ 31 \<and> list_all short_json vs"
| "short_json _ \<longleftrightarrow> True"

abbreviation ok_json :: "'f json \<Rightarrow> bool" where
  "ok_json v \<equiv> wf_json v \<and> short_json v"

text \<open>Objects with the same keys and equal values are equal.\<close>

lemma sorted_keys_eq:
  assumes "sorted_wrt (<) (map fst (xs :: (string \<times> 'a) list))" and "sorted_wrt (<) (map fst (ys :: (string \<times> 'b) list))"
    and "\<And>k. rel_option R (map_of xs k) (map_of ys k)"
  shows "list_all2 (\<lambda>a b. fst a = fst b \<and> R (snd a) (snd b)) xs ys"
proof -
  have "fst ` set xs = fst ` set ys"
  proof (rule set_eqI)
    fix k
    show "k \<in> fst ` set xs \<longleftrightarrow> k \<in> fst ` set ys"
      using assms(3) [of k] map_of_eq_None_iff [of xs k] map_of_eq_None_iff [of ys k] by (cases "map_of xs k"; cases "map_of ys k") auto
  qed
  then have keys: "map fst xs = map fst ys"
    using assms(1,2) strict_sorted_equal [of "map fst xs" "map fst ys"] by simp
  have d: "distinct (map fst xs)" "distinct (map fst ys)" using assms(1,2) by (auto simp: strict_sorted_iff)
  show ?thesis
  proof (rule list_all2_all_nthI)
    show l: "length xs = length ys" using keys by (metis length_map)
    fix i assume i: "i < length xs"
    then have k: "fst (xs ! i) = fst (ys ! i)" using keys l by (metis nth_map)
    have "map_of xs (fst (xs ! i)) = Some (snd (xs ! i))" "map_of ys (fst (ys ! i)) = Some (snd (ys ! i))"
      using i l d by (simp_all add: map_of_eq_Some_iff)
    then show "fst (xs ! i) = fst (ys ! i) \<and> R (snd (xs ! i)) (snd (ys ! i))" using assms(3) [of "fst (xs ! i)"] k by simp
  qed
qed

text \<open>What the three functions of the difference have to do, at any place of any value.\<close>

definition diff_ok :: "'f float_arith \<Rightarrow> 'f json \<Rightarrow> 'f json \<Rightarrow> bool" where
  "diff_ok fa source target \<longleftrightarrow>
     (\<forall>fl p v. json_at p v = Some source \<longrightarrow> small_path p \<longrightarrow>
        (\<exists>u. turns fl fa (json_diff fa source target (text_of_path p)) p v u \<and> json_eq fa u target))"

definition elements_ok :: "'f float_arith \<Rightarrow> 'f json list \<Rightarrow> 'f json list \<Rightarrow> bool" where
  "elements_ok fa xs ys \<longleftrightarrow>
     (\<forall>fl p v us. json_at p v = Some (Jarray (us @ xs)) \<longrightarrow> small_path p \<longrightarrow> length us + length xs \<le> 2 ^ 31 \<longrightarrow>
        (\<exists>ws. turns fl fa (diff_elements fa xs ys (length us) (text_of_path p)) p v (Jarray (us @ ws @ drop (length ys) xs)) \<and>
              list_all2 (json_eq fa) ws (take (length xs) ys)))"

definition members_ok :: "'f float_arith \<Rightarrow> (string \<times> 'f json) list \<Rightarrow> (string \<times> 'f json) list \<Rightarrow> bool" where
  "members_ok fa xs ys \<longleftrightarrow>
     (\<forall>fl p v kvs. json_at p v = Some (Jobject kvs) \<longrightarrow> small_path p \<longrightarrow> sorted_wrt (<) (map fst kvs) \<longrightarrow>
        distinct (map fst xs) \<longrightarrow> (\<forall>e \<in> set xs. map_of kvs (fst e) = Some (snd e)) \<longrightarrow>
        (\<exists>kvs'. turns fl fa (diff_members fa xs ys (text_of_path p)) p v (Jobject kvs') \<and> sorted_wrt (<) (map fst kvs') \<and>
              (\<forall>k. if k \<in> fst ` set xs then rel_option (json_eq fa) (map_of kvs' k) (map_of ys k) else map_of kvs' k = map_of kvs k)))"

lemma elements_step:
  assumes "diff_ok fa x y" and "elements_ok fa xs ys"
  shows "elements_ok fa (x # xs) (y # ys)"
  unfolding elements_ok_def
proof (intro allI impI)
  fix fl p v us
  assume v: "json_at p v = Some (Jarray (us @ x # xs))" and p: "small_path p" and l: "length us + length (x # xs) \<le> 2 ^ 31"
  let ?i = "length us" and ?path = "text_of_path p"
  have "json_at (p @ [At ?i]) v = Some x" using v by (simp add: json_at_append)
  moreover have "small_path (p @ [At ?i])" using p l by simp
  ultimately obtain u where u: "turns fl fa (json_diff fa x y (text_of_path (p @ [At ?i]))) (p @ [At ?i]) v u" "json_eq fa u y"
    using assms(1) unfolding diff_ok_def by blast
  have 1: "turns fl fa (json_diff fa x y (text_of_path (p @ [At ?i]))) p v (Jarray (us @ u # xs))"
    using turns_element [OF u(1) v] by simp
  let ?v = "json_update p (\<lambda>_. Jarray (us @ u # xs)) v"
  have "json_at p ?v = Some (Jarray ((us @ [u]) @ xs))" using json_at_update [OF v] by simp
  moreover have "length (us @ [u]) + length xs \<le> 2 ^ 31" using l by simp
  ultimately obtain ws where
    2: "turns fl fa (diff_elements fa xs ys (length (us @ [u])) ?path) p ?v (Jarray ((us @ [u]) @ ws @ drop (length ys) xs))"
      "list_all2 (json_eq fa) ws (take (length xs) ys)"
    using assms(2) p unfolding elements_ok_def by blast
  have "turns fl fa (diff_elements fa (x # xs) (y # ys) ?i ?path) p v (Jarray (us @ (u # ws) @ drop (length (y # ys)) (x # xs)))"
    using turns_append [OF 1 2(1)] by (simp add: text_of_path_snoc)
  moreover have "list_all2 (json_eq fa) (u # ws) (take (length (x # xs)) (y # ys))" using u(2) 2(2) by simp
  ultimately show "\<exists>ws. turns fl fa (diff_elements fa (x # xs) (y # ys) ?i ?path) p v (Jarray (us @ ws @ drop (length (y # ys)) (x # xs))) \<and>
      list_all2 (json_eq fa) ws (take (length (x # xs)) (y # ys))"
    by blast
qed

lemma elements_end: "elements_ok fa [] ys" "elements_ok fa xs []"
  by (auto simp: elements_ok_def turns_Nil)

lemma members_end: "members_ok fa [] ys"
  by (auto simp: members_ok_def turns_Nil intro!: exI turns_Nil)

lemma member_step:
  assumes "\<And>y. map_of ys k = Some y \<Longrightarrow> diff_ok fa x y" and "json_at p v = Some (Jobject kvs)" and "small_path p"
    and "sorted_wrt (<) (map fst kvs)" and "map_of kvs k = Some x"
  shows "\<exists>kvs'. turns fl fa (diff_members fa [(k, x)] ys (text_of_path p)) p v (Jobject kvs') \<and> sorted_wrt (<) (map fst kvs') \<and>
    rel_option (json_eq fa) (map_of kvs' k) (map_of ys k) \<and> (\<forall>l. l \<noteq> k \<longrightarrow> map_of kvs' l = map_of kvs l)"
proof (cases "map_of ys k")
  case None
  have "map_of (filter (\<lambda>e. fst e \<noteq> k) kvs) l = (if l = k then None else map_of kvs l)" for l by (induction kvs) auto
  moreover have "sorted_wrt (<) (map fst (filter (\<lambda>e. fst e \<noteq> k) kvs))" using assms(4) by (induction kvs) auto
  ultimately show ?thesis using None assms(5) turns_remove_member [OF assms(2,3), of k fl fa] by (intro exI [of _ "filter (\<lambda>e. fst e \<noteq> k) kvs"]) simp
next
  case (Some z)
  have "json_at (p @ [Key k]) v = Some x" using assms(2,5) by (simp add: json_at_append)
  moreover have "small_path (p @ [Key k])" using assms(3) by simp
  ultimately obtain u where u: "turns fl fa (json_diff fa x z (text_of_path (p @ [Key k]))) (p @ [Key k]) v u" "json_eq fa u z"
    using assms(1) [OF Some] unfolding diff_ok_def by blast
  have "turns fl fa (json_diff fa x z (text_of_path p @ ''/'' @ ptr_escape k)) p v (Jobject (alter k (\<lambda>_. u) kvs))"
    using turns_member [OF u(1) assms(2)] by (simp add: text_of_path_snoc)
  then show ?thesis
    using Some assms(4,5) u(2) by (intro exI [of _ "alter k (\<lambda>_. u) kvs"]) (simp add: map_of_alter)
qed

lemma members_step:
  assumes "\<And>y. map_of ys k = Some y \<Longrightarrow> diff_ok fa x y" and "members_ok fa xs ys"
  shows "members_ok fa ((k, x) # xs) ys"
  unfolding members_ok_def
proof (intro allI impI)
  fix fl p v kvs
  assume v: "json_at p v = Some (Jobject kvs)" and p: "small_path p" and s: "sorted_wrt (<) (map fst kvs)"
    and d: "distinct (map fst ((k, x) # xs))" and all: "\<forall>e \<in> set ((k, x) # xs). map_of kvs (fst e) = Some (snd e)"
  obtain kvs1 where 1: "turns fl fa (diff_members fa [(k, x)] ys (text_of_path p)) p v (Jobject kvs1)" "sorted_wrt (<) (map fst kvs1)"
      "rel_option (json_eq fa) (map_of kvs1 k) (map_of ys k)" "\<forall>l. l \<noteq> k \<longrightarrow> map_of kvs1 l = map_of kvs l"
    using member_step [of ys k fa x p v kvs fl, OF assms(1) v p s] all by auto
  let ?v = "json_update p (\<lambda>_. Jobject kvs1) v"
  have "json_at p ?v = Some (Jobject kvs1)" using json_at_update [OF v] by simp
  moreover have "distinct (map fst xs)" using d by simp
  moreover have "\<forall>e \<in> set xs. map_of kvs1 (fst e) = Some (snd e)"
  proof
    fix e assume "e \<in> set xs"
    moreover from this have "fst e \<noteq> k" using d by auto
    ultimately show "map_of kvs1 (fst e) = Some (snd e)" using all 1(4) by simp
  qed
  ultimately obtain kvs2 where 2: "turns fl fa (diff_members fa xs ys (text_of_path p)) p ?v (Jobject kvs2)" "sorted_wrt (<) (map fst kvs2)"
      "\<forall>l. if l \<in> fst ` set xs then rel_option (json_eq fa) (map_of kvs2 l) (map_of ys l) else map_of kvs2 l = map_of kvs1 l"
    using assms(2) p 1(2) unfolding members_ok_def by blast
  have "turns fl fa (diff_members fa ((k, x) # xs) ys (text_of_path p)) p v (Jobject kvs2)"
    using turns_append [OF 1(1) 2(1)] by simp
  moreover have "if l \<in> fst ` set ((k, x) # xs) then rel_option (json_eq fa) (map_of kvs2 l) (map_of ys l) else map_of kvs2 l = map_of kvs l" for l
    using spec [OF 2(3), of l] 1(3) spec [OF 1(4), of l] by (cases "l = k") (auto split: if_splits)
  ultimately show "\<exists>kvs'. turns fl fa (diff_members fa ((k, x) # xs) ys (text_of_path p)) p v (Jobject kvs') \<and> sorted_wrt (<) (map fst kvs') \<and>
      (\<forall>l. if l \<in> fst ` set ((k, x) # xs) then rel_option (json_eq fa) (map_of kvs' l) (map_of ys l) else map_of kvs' l = map_of kvs l)"
    using 2(2) by blast
qed

lemma arrays_ok:
  assumes "elements_ok fa xs ys" and "length xs \<le> 2 ^ 31" and "length ys \<le> 2 ^ 31" and "list_all2 (json_eq fa) ys ys"
    and "json_at p v = Some (Jarray xs)" and "small_path p"
  shows "\<exists>us. turns fl fa (diff_elements fa xs ys 0 (text_of_path p)
      @ map (\<lambda>i. remove_op (text_of_path p @ ''/'' @ dec (int i))) (rev [length ys..<length xs])
      @ map (\<lambda>i. add_op (text_of_path p @ ''/'' @ dec (int i)) (ys ! i)) [length xs..<length ys]) p v (Jarray us) \<and> list_all2 (json_eq fa) us ys"
proof -
  let ?path = "text_of_path p"
  have "json_at p v = Some (Jarray ([] @ xs))" "length ([] :: 'a json list) + length xs \<le> 2 ^ 31" using assms(2,5) by simp_all
  then obtain ws where ws: "turns fl fa (diff_elements fa xs ys (length ([] :: 'a json list)) ?path) p v (Jarray ([] @ ws @ drop (length ys) xs))"
      "list_all2 (json_eq fa) ws (take (length xs) ys)"
    using assms(1,6) unfolding elements_ok_def by blast
  let ?v = "json_update p (\<lambda>_. Jarray (ws @ drop (length ys) xs)) v"
  have v1: "json_at p ?v = Some (Jarray (ws @ drop (length ys) xs))" using json_at_update [OF assms(5)] by simp
  have len: "length ws = min (length xs) (length ys)" using list_all2_lengthD [OF ws(2)] by simp
  show ?thesis
  proof (cases "length ys \<le> length xs")
    case True
    have "turns fl fa (map (\<lambda>i. remove_op (?path @ ''/'' @ dec (int i))) (rev [length ws..<length (ws @ drop (length ys) xs)])) p ?v (Jarray ws)"
      using assms(2) len True by (intro turns_remove_rest [OF v1 assms(6)]) simp
    then have "turns fl fa (map (\<lambda>i. remove_op (?path @ ''/'' @ dec (int i))) (rev [length ys..<length xs])) p ?v (Jarray ws)"
      using len True by simp
    from turns_append [OF ws(1) [simplified] this] show ?thesis using ws(2) True by (intro exI [of _ ws]) simp
  next
    case False
    then have v2: "json_at p ?v = Some (Jarray ws)" using v1 by simp
    have "turns fl fa (map (\<lambda>i. add_op (?path @ ''/'' @ dec (int i)) (ys ! i)) [length ws..<length ys]) p ?v (Jarray (ws @ drop (length ws) ys))"
      using len False assms(3) by (intro turns_add_rest [OF v2 assms(6)]) simp_all
    then have "turns fl fa (map (\<lambda>i. add_op (?path @ ''/'' @ dec (int i)) (ys ! i)) [length xs..<length ys]) p ?v (Jarray (ws @ drop (length xs) ys))"
      using len False by simp
    moreover have "list_all2 (json_eq fa) (ws @ drop (length xs) ys) (take (length xs) ys @ drop (length xs) ys)"
      using ws(2) assms(4) by (intro list_all2_appendI list_all2_dropI)
    ultimately show ?thesis
      using turns_append [OF ws(1) [simplified]] False by (intro exI [of _ "ws @ drop (length xs) ys"]) simp
  qed
qed

lemma objects_ok:
  assumes "members_ok fa xs ys" and "sorted_wrt (<) (map fst xs)" and "sorted_wrt (<) (map fst ys)"
    and "list_all (\<lambda>e. json_eq fa (snd e) (snd e)) ys" and "json_at p v = Some (Jobject xs)" and "small_path p"
  shows "\<exists>us. turns fl fa (diff_members fa xs ys (text_of_path p)
      @ map (\<lambda>(k, y). add_op (text_of_path p @ ''/'' @ ptr_escape k) y) (filter (\<lambda>(k, y). map_of xs k = None) ys)) p v (Jobject us) \<and>
    list_all2 (\<lambda>a b. fst a = fst b \<and> json_eq fa (snd a) (snd b)) us ys"
proof -
  let ?path = "text_of_path p" and ?es = "filter (\<lambda>(k, y). map_of xs k = None) ys"
  have dx: "distinct (map fst xs)" and dy: "distinct (map fst ys)" using assms(2,3) by (auto simp: strict_sorted_iff)
  have "\<forall>e \<in> set xs. map_of xs (fst e) = Some (snd e)" using dx by simp
  then obtain kvs where 1: "turns fl fa (diff_members fa xs ys ?path) p v (Jobject kvs)" "sorted_wrt (<) (map fst kvs)"
      "\<forall>k. if k \<in> fst ` set xs then rel_option (json_eq fa) (map_of kvs k) (map_of ys k) else map_of kvs k = map_of xs k"
    using assms(1,2,5,6) dx unfolding members_ok_def by blast
  let ?v = "json_update p (\<lambda>_. Jobject kvs) v"
  have v1: "json_at p ?v = Some (Jobject kvs)" using json_at_update [OF assms(5)] by simp
  note 2 = turns_append [OF 1(1) turns_add_members [OF v1 assms(6), of fl fa ?es]]
  have de: "distinct (map fst ?es)" using dy by (simp add: distinct_map_filter)
  have es: "map_of ?es k = (if map_of xs k = None then map_of ys k else None)" for k
    by (induction ys) (auto split: if_splits)
  have "rel_option (json_eq fa) (map_of (fold put_member ?es kvs) k) (map_of ys k)" for k
  proof (cases "map_of xs k")
    case None
    then have "map_of kvs k = None" using spec [OF 1(3), of k] by (auto simp: map_of_eq_None_iff)
    moreover have "json_eq fa y y" if "map_of ys k = Some y" for y using that assms(4) by (auto simp: list_all_iff dest!: map_of_SomeD)
    ultimately show ?thesis using None by (cases "map_of ys k") (simp_all add: put_members [OF de] es)
  next
    case (Some x)
    then have "k \<in> fst ` set xs" by (metis map_of_eq_None_iff option.distinct(1))
    then show ?thesis using Some spec [OF 1(3), of k] by (simp add: put_members [OF de] es)
  qed
  then have "list_all2 (\<lambda>a b. fst a = fst b \<and> json_eq fa (snd a) (snd b)) (fold put_member ?es kvs) ys"
    using put_members(2) [OF de 1(2)] assms(3) by (intro sorted_keys_eq)
  then show ?thesis using 2 by blast
qed

lemma elements_all: "(\<And>x y. x \<in> set xs \<Longrightarrow> y \<in> set ys \<Longrightarrow> diff_ok fa x y) \<Longrightarrow> elements_ok fa xs ys"
proof (induction xs arbitrary: ys)
  case (Cons x xs)
  then show ?case by (cases ys) (simp_all add: elements_end elements_step)
qed (simp add: elements_end)

lemma members_all: "(\<And>k x y. (k, x) \<in> set xs \<Longrightarrow> map_of ys k = Some y \<Longrightarrow> diff_ok fa x y) \<Longrightarrow> members_ok fa xs ys"
proof (induction xs)
  case (Cons e xs)
  obtain k x where "e = (k, x)" by force
  then show ?case using Cons by (auto intro!: members_step)
qed (simp add: members_end)

text \<open>Values of different types, and different values that are no arrays or objects, are replaced.\<close>

lemma diff_replaced:
  assumes "json_eq fa target target" and "\<And>path. json_diff fa source target path \<in> {[], [replace_op path target]}"
    and "\<And>path. json_diff fa source target path = [] \<Longrightarrow> json_eq fa source target"
  shows "diff_ok fa source target"
  unfolding diff_ok_def
proof (intro allI impI)
  fix fl p v assume v: "json_at p v = Some source" and p: "small_path p"
  consider "json_diff fa source target (text_of_path p) = []" | "json_diff fa source target (text_of_path p) = [replace_op (text_of_path p) target]"
    using assms(2) by blast
  then show "\<exists>u. turns fl fa (json_diff fa source target (text_of_path p)) p v u \<and> json_eq fa u target"
  proof cases
    case 1
    then show ?thesis using turns_Nil [OF v, of fl fa] assms(3) by auto
  next
    case 2
    then show ?thesis using turns_replace [OF v p, of fl fa target] assms(1) by auto
  qed
qed

lemma diff_arrays:
  assumes "\<And>x y. x \<in> set xs \<Longrightarrow> y \<in> set ys \<Longrightarrow> diff_ok fa x y" and "length xs \<le> 2 ^ 31" and "length ys \<le> 2 ^ 31"
    and "list_all2 (json_eq fa) ys ys"
  shows "diff_ok fa (Jarray xs) (Jarray ys)"
  unfolding diff_ok_def
proof (intro allI impI)
  fix fl p v assume v: "json_at p v = Some (Jarray xs)" and p: "small_path p"
  show "\<exists>u. turns fl fa (json_diff fa (Jarray xs) (Jarray ys) (text_of_path p)) p v u \<and> json_eq fa u (Jarray ys)"
  proof (cases "json_eq fa (Jarray xs) (Jarray ys)")
    case True
    then show ?thesis using turns_Nil [OF v, of fl fa] by (auto simp: json_diff.simps)
  next
    case False
    then show ?thesis
      using arrays_ok [OF elements_all [OF assms(1)] assms(2-4) v p, where fl = fl] by (auto simp: json_diff.simps)
  qed
qed

lemma diff_objects:
  assumes "\<And>k x y. (k, x) \<in> set xs \<Longrightarrow> map_of ys k = Some y \<Longrightarrow> diff_ok fa x y" and "sorted_wrt (<) (map fst xs)" and "sorted_wrt (<) (map fst ys)"
    and "list_all (\<lambda>e. json_eq fa (snd e) (snd e)) ys"
  shows "diff_ok fa (Jobject xs) (Jobject ys)"
  unfolding diff_ok_def
proof (intro allI impI)
  fix fl p v assume v: "json_at p v = Some (Jobject xs)" and p: "small_path p"
  have members: "members_ok fa xs ys" using assms(1) by (rule members_all)
  show "\<exists>u. turns fl fa (json_diff fa (Jobject xs) (Jobject ys) (text_of_path p)) p v u \<and> json_eq fa u (Jobject ys)"
  proof (cases "json_eq fa (Jobject xs) (Jobject ys)")
    case True
    then show ?thesis using turns_Nil [OF v, of fl fa] by (auto simp: json_diff.simps)
  next
    case False
    then show ?thesis
      using objects_ok [OF members assms(2-4) v p, where fl = fl] by (auto simp: json_diff.simps)
  qed
qed

lemma list_all2_same: "list_all2 P xs xs \<longleftrightarrow> (\<forall>x \<in> set xs. P x x)"
  by (induction xs) auto

theorem diff_all_ok:
  "ok_json source \<Longrightarrow> ok_json target \<Longrightarrow> json_eq fa target target \<Longrightarrow> diff_ok fa source target"
proof (induction source arbitrary: target)
  case (Jobject xs)
  show ?case
  proof (cases "\<exists>ys. target = Jobject ys")
    case True
    then obtain ys where ys: "target = Jobject ys" by blast
    have "diff_ok fa x y" if "(k, x) \<in> set xs" "map_of ys k = Some y" for k x y
      using that Jobject ys by (intro Jobject.IH [of "(k, x)"]) (auto simp: list_all_iff list_all2_same dest!: map_of_SomeD)
    then show ?thesis
      unfolding ys using Jobject.prems ys by (intro diff_objects) (auto simp: list_all2_same list_all_iff)
  next
    case False
    then show ?thesis using Jobject.prems(3) by (intro diff_replaced) (cases target; auto simp: json_diff.simps)+
  qed
next
  case (Jarray xs)
  show ?case
  proof (cases "\<exists>ys. target = Jarray ys")
    case True
    then obtain ys where ys: "target = Jarray ys" by blast
    have "diff_ok fa x y" if "x \<in> set xs" "y \<in> set ys" for x y
      using that Jarray ys by (intro Jarray.IH) (auto simp: list_all_iff list_all2_same)
    then show ?thesis
      unfolding ys using Jarray.prems ys by (intro diff_arrays) (auto simp: list_all2_same list_all_iff)
  next
    case False
    then show ?thesis using Jarray.prems(3) by (intro diff_replaced) (cases target; auto simp: json_diff.simps)+
  qed
qed (intro diff_replaced; auto simp: json_diff.simps split: if_splits json.splits)+

lemma patch_diff:
  assumes "ok_json source" and "ok_json target" and "json_eq fa target target"
  shows "\<exists>u. json_patch fl fa (Jarray (json_diff fa source target [])) source = Inr u \<and> json_eq fa u target"
proof -
  have "json_at [] source = Some source" "small_path []" "text_of_path [] = []"
    by (simp_all add: text_of_path_def ptr_to_string_def)
  then obtain u where "turns fl fa (json_diff fa source target []) [] source u" "json_eq fa u target"
    using diff_all_ok [OF assms] unfolding diff_ok_def by metis
  then show ?thesis by (auto simp: turns_def json_patch_def json_update_Nil)
qed

text \<open>Adding a member to a value that has none: the check for longer paths is skipped, and the assertion fails.\<close>

lemma add_to_scalar_asserts: "operation_add [t] val (Jstring s) = Inl (Stopped Assertion_failed)"
  by (simp add: operation_add_def ptr_top_def ptr_back_def ptr_pop_back_def change_at_def add_to_parent_def)

section \<open>Merging\<close>

lemma map_of_filter_key: "map_of (filter (\<lambda>e. fst e \<noteq> k) kvs) l = (if l = k then None else map_of kvs l)"
  by (induction kvs) auto

lemma map_of_set_member: "map_of (set_member (k, y) kvs) l = (if l = k then Some y else map_of kvs l)"
  by (simp add: set_member_def map_of_put_member)

text \<open>Every member of a merge patch removes, replaces or recursively changes the member of the same name; the others stay.\<close>

lemma merge_members_lookup:
  assumes "distinct (map fst ps)"
  shows "map_of (merge_members ps kvs) k =
    (case map_of ps k of
       None \<Rightarrow> map_of kvs k
     | Some p \<Rightarrow> if p = Jnull then None else Some (merge_patch p (case map_of kvs k of Some x \<Rightarrow> x | None \<Rightarrow> Jnull)))"
  using assms
proof (induction ps arbitrary: kvs)
  case (Cons e ps)
  obtain l p where e: "e = (l, p)" by force
  then have "map_of ps l = None" using Cons.prems by (simp add: map_of_eq_None_iff)
  then show ?case
    using Cons e by (cases "k = l") (simp_all add: map_of_filter_key map_of_set_member split: option.split)
qed simp

end
