(* ===== verification/Spec2Isabelle.thy ===== *)
theory Spec2Isabelle
  imports Raft_Examples Keeper_Examples Departures Tcp_Proxy Sql_Gen Device Json_Examples Log_Threads Json_Patch
begin

text \<open>
  A verification of the homeKeeper repository.

  \<^bold>\<open>The program.\<close> homeKeeper is a home monitoring system: a keeper process finds the machine's public
  address and mails it, a mail server, a proxy server and a frame of master and slave processes
  pass work around, and a replicated state machine built on a Raft library in \<^verbatim>\<open>src/raft\<close> is the
  means by which several nodes agree. The Raft library is the core and is modelled whole, and so is
  the keeper with its mail client, database tables, log and thread pool. The Raft
  server (\<^verbatim>\<open>raft_server.c\<close>, \<^verbatim>\<open>raft_server_properties.c\<close>) keeps the term, the vote, the role, the
  membership and the indexes; its log (\<^verbatim>\<open>raft_log.c\<close>) is a growing ring of entries that calls back
  into the server for membership entries; its nodes (\<^verbatim>\<open>raft_node.c\<close>) hold what a server knows of its
  peers. The user drives it through handlers of messages and a periodic call, and is called back
  to send messages, persist and apply.

  \<^bold>\<open>The theories.\<close>
  \<^item> \<^verbatim>\<open>Prelude\<close>: faults (failed assertions, null and dangling pointers, bad indexes), their
    sequencing \<open>rbind\<close>, the predicates \<open>rok\<close> (what holds if nothing faults) and \<open>rsafe\<close> (nothing
    faults and this holds), 32-bit conversions, arrays and rings.
  \<^item> \<^verbatim>\<open>Raft_Types\<close>, \<^verbatim>\<open>Raft_Process\<close>: entries, messages, codes and callbacks of \<^verbatim>\<open>raft.h\<close>; the allocator
    and \<^verbatim>\<open>rand\<close> as oracles that are part of the state.
  \<^item> \<^verbatim>\<open>Raft_Node\<close>: \<^verbatim>\<open>raft_node.c\<close>. The locale \<open>flag_ops\<close> is the contract of a flag packed in a word.
  \<^item> \<^verbatim>\<open>Raft_Log\<close>, \<^verbatim>\<open>Raft_Log_Ops\<close>: \<^verbatim>\<open>raft_log.c\<close>. The invariant \<open>log_inv\<close> and the abstraction \<open>log_list\<close>
    relate the ring to a list; the locale \<open>indexed_log\<close> is the contract of a log by index.
  \<^item> \<^verbatim>\<open>Raft_State\<close>, \<^verbatim>\<open>Raft_Membership\<close>: the server's record, a heap of node objects, the accessors of
    \<^verbatim>\<open>raft_server_properties.c\<close>, adding and removing nodes, membership entries.
  \<^item> \<^verbatim>\<open>Raft_Send\<close>, \<^verbatim>\<open>Raft_Election\<close>, \<^verbatim>\<open>Raft_Apply\<close>, \<^verbatim>\<open>Raft_Replication\<close>, \<^verbatim>\<open>Raft_Snapshot\<close>, \<^verbatim>\<open>Raft_Server\<close>: the
    handlers of \<^verbatim>\<open>raft_server.c\<close>, each definition one function or one labelled part of one, and the
    program \<^verbatim>\<open>raft.cpp\<close>. Every handler has a lemma for what it changes and, where the code permits,
    one that it does not fault.
  \<^item> \<^verbatim>\<open>Raft_Safety\<close>: the calls of \<^verbatim>\<open>raft.h\<close> that change a server as steps of a transition system, with the guards under
    which the unchecked ones (voting, polling, snapshot metadata) are steps: \<open>raft_step\<close> keeps terms and votes, \<open>raft_op\<close> adds
    loading a snapshot, \<open>raft_call\<close> adds \<^verbatim>\<open>raft_clear\<close>. The locale \<open>safe_system\<close> (of \<^verbatim>\<open>Prelude\<close>) lifts what steps keep to runs and histories.
  \<^item> \<^verbatim>\<open>Raft_Examples\<close>: concrete servers for the witnesses.
  \<^item> \<^verbatim>\<open>Base64\<close>: \<^verbatim>\<open>include/base64.hpp\<close>, proved equal to an encoder by groups of three. The locale \<open>codec\<close> is what the
    mail client needs of it.
  \<^item> \<^verbatim>\<open>Email_Sender\<close>: \<^verbatim>\<open>include/EmailSender.hpp\<close>: building a message, the read callback over a string stream,
    repeated attempts.
  \<^item> \<^verbatim>\<open>File_IO\<close>, \<^verbatim>\<open>Hm_Log\<close>: \<^verbatim>\<open>include/file.hpp\<close> over the C library's streams, and the log of \<^verbatim>\<open>include/hmLog.hpp\<close>, a queue
    emptied into a file by a thread.
  \<^item> \<^verbatim>\<open>Log_Threads\<close>: the callers, the printing thread and the destructor of the log as a step relation over the mutex and the
    condition variable, with an invariant for each of mutual exclusion, queue and file.
  \<^item> \<^verbatim>\<open>Data_Base\<close>, \<^verbatim>\<open>Tables\<close>: \<^verbatim>\<open>include/MysqlDataBase.hpp\<close> and the tables \<^verbatim>\<open>tblIpInfo.hpp\<close>, \<^verbatim>\<open>tblEmailInfo.hpp\<close>,
    \<^verbatim>\<open>downloadfile.hpp\<close>. The locale \<open>row_table\<close> is the contract of a loop over a result set, which each
    table interprets.
  \<^item> \<^verbatim>\<open>Thread_Pool\<close>, \<^verbatim>\<open>Keeper\<close>: \<^verbatim>\<open>include/threadPool.hpp\<close>; \<^verbatim>\<open>include/curl.hpp\<close>, \<^verbatim>\<open>homeKeeper/workFunctions.hpp\<close>, \<^verbatim>\<open>mailServer/mailServer.cpp\<close> and
    \<^verbatim>\<open>homeKeeper/keeper.cpp\<close>: the keeper's threads, one round of their loops at a time.
  \<^item> \<^verbatim>\<open>Frame\<close>: \<^verbatim>\<open>frame/master.cpp\<close>, \<^verbatim>\<open>frame/tools.cpp\<close> and \<^verbatim>\<open>common\<close>: workers as processes of a table that a scanning thread
    and messages from a pipe act on.
  \<^item> \<^verbatim>\<open>Device\<close>, \<^verbatim>\<open>Tcp_Proxy\<close>: \<^verbatim>\<open>include/device.hpp\<close> with memory as bytes and the node program; \<^verbatim>\<open>include/tcpClient.hpp\<close>,
    \<^verbatim>\<open>include/tcpServer.hpp\<close> and the proxy program over the results of system calls.
  \<^item> \<^verbatim>\<open>Supervisor\<close>, \<^verbatim>\<open>Sql_Gen\<close>: \<^verbatim>\<open>master/master.cpp\<close>; \<^verbatim>\<open>sqlGenerate/sqlGen.cpp\<close>.
  \<^item> \<^verbatim>\<open>Keeper_Examples\<close>: concrete environments for the witnesses.
  \<^item> \<^verbatim>\<open>Json_Lexer\<close>, \<^verbatim>\<open>Json_Parser\<close>, \<^verbatim>\<open>Json_Dump\<close>, \<^verbatim>\<open>Json_Access\<close>: the JSON library \<^verbatim>\<open>include/json.hpp\<close> as far as the programs rest on it:
    scanner, parser with its receivers of events, serializer, access to values. \<^verbatim>\<open>Json_Scan\<close>, \<^verbatim>\<open>Json_Tokens\<close>, \<^verbatim>\<open>Json_Build\<close>, \<^verbatim>\<open>Json_Utf8\<close> hold the lemmas on the scanner's
    position, its tokens, the value under construction and the UTF-8 automaton; \<^verbatim>\<open>Json_Roundtrip\<close> the grammar of texts and that
    parsing inverts writing; \<^verbatim>\<open>Json_Typed\<close> what is well formed and, with the locale \<open>sax_receiver\<close>, that parsing yields it.
  \<^item> \<^verbatim>\<open>Json_Pointer\<close>, \<^verbatim>\<open>Json_Patch\<close>: JSON pointers, patches, differences and merge patches; the text of a pointer is read back as it
    was, and a difference applied to its source gives the target.
  \<^item> \<^verbatim>\<open>Json_Config\<close>: the programs with this library as their parser. \<^verbatim>\<open>Json_Examples\<close>: concrete texts and files.
  \<^item> \<^verbatim>\<open>Departures\<close>: further places where the code departs from its intent.
  This theory states the properties that span components: what a cluster agrees on (C1 to
  C6), the handlers one by one, snapshots, the log as a list, membership, the mail client and the
  keeper, the threads of the log, the JSON library and the configuration read with it, and at the end where the code departs from its intent.

  \<^bold>\<open>Conventions.\<close> A C function that changes the server takes and returns the server's record. Return
  codes are ordinary values; what ends the program in C is a \<open>fault\<close>. Callbacks are arbitrary
  functions of the user's state, so theorems hold for all of them; they do not call back into the
  server. Indexes and terms are \<open>int\<close> (C \<^verbatim>\<open>long\<close>, assumed not to overflow); where the code narrows one
  to \<^verbatim>\<open>int\<close> the model does too (\<open>int32\<close>). Loops over arrays are recursions over lists; the loop of
  \<^verbatim>\<open>raft_apply_all\<close> is a terminating function with the distance to the commit index as its measure;
  the loop of \<^verbatim>\<open>log_delete\<close> runs at most once per entry, which is the bound its recursion uses. The scanner, the parser and the serializer of JSON
  are total functions: every loop consumes input. The retry loops of the mail client and of \<^verbatim>\<open>file::reOpen\<close> terminate by their counters; the loop over a
  result set is a \<open>partial_function\<close> whose value is \<open>None\<close> if the server never stops sending rows.

  \<^bold>\<open>Bounds.\<close> \<open>lg_size \<le> 2 ^ 31\<close> is what the \<^verbatim>\<open>int\<close> result of \<^verbatim>\<open>mod\<close> in \<^verbatim>\<open>raft_log.c\<close> needs; the endless loop of
  \<^verbatim>\<open>main\<close> is modelled by the state after every number of rounds. Array indexes of JSON pointers go through \<^verbatim>\<open>std::stoi\<close>, hence
  arrays of at most \<open>2 ^ 31\<close> elements in C36. A join of a thread that never ends is a result of its own, not a return.

  \<^bold>\<open>Libraries.\<close> What the programs call and the repository does not contain is an argument of the definitions: the MySQL
  client (a record of functions over a connection state), the transfer library (an oracle of attempts), the MIME
  library (an encoder and an operator that writes a message). Their documented behaviour appears as
  hypotheses (\<open>delivers\<close>: a result set ends after its rows; \<open>mm_write\<close> appends to a good stream), and the
  witnesses instantiate them. The JSON parser is an argument of the theories on the programs too, and
  the theory \<^verbatim>\<open>Json_Config\<close> puts the model of the library in its place; conversions of floating-point numbers stay an
  argument (\<open>float_ops\<close>, \<open>float_arith\<close>). The C library's streams and the C++ containers are modelled.

  \<^bold>\<open>Not modelled.\<close> The debug log callback and \<^verbatim>\<open>printf\<close> output; \<^verbatim>\<open>raft_set_heap_functions\<close>, whose effect
  is the choice of the allocator oracle; the programs \<^verbatim>\<open>frame/slave.cpp\<close> and
  \<^verbatim>\<open>frame/bus.cpp\<close>, which sleep and log, and empty classes (\<^verbatim>\<open>frame/node.hpp\<close>, \<^verbatim>\<open>sysKeeper.hpp\<close>); \<^verbatim>\<open>mailProxy.hpp\<close>, which no file
  includes and which does not compile; tests; of \<^verbatim>\<open>json.hpp\<close> the binary
  formats, the conversion of floating-point numbers to text, iterators, parsing with callbacks and from streams; \<^verbatim>\<open>3rdparty\<close> headers.
\<close>

section \<open>Safety of a cluster\<close>

text \<open>
  C1: election safety. The servers \<open>V\<close> of a cluster are driven by calls of the library other than
  \<^verbatim>\<open>raft_begin_load_snapshot\<close> and \<^verbatim>\<open>raft_clear\<close>, which forget a vote, and other than
  \<^verbatim>\<open>raft_vote\<close> or \<^verbatim>\<open>raft_vote_for_nodeid\<close> on a server that has voted (the rules of \<open>raft_step\<close>). Then two
  candidates that both hold the votes of a majority of \<open>V\<close> in term \<open>t\<close> are one and the same. The
  majority is the one \<^verbatim>\<open>raft_votes_is_majority\<close> computes.
\<close>

theorem election_safety:
  assumes "\<And>v. v \<in> V \<Longrightarrow> history (h v)"
    and "majority_of V {v \<in> V. gave_vote h v t a}" and "majority_of V {v \<in> V. gave_vote h v t b}"
    and "a \<noteq> -1" and "b \<noteq> -1"
  shows "a = b"
proof (rule mq.unique_winner [where vote = "\<lambda>v. gave_vote h v t", OF assms(2,3)])
  fix v assume "v \<in> V" "gave_vote h v t a" "gave_vote h v t b"
  then show "a = b" using gave_vote_unique [of h v t a b] assms(1) [of v] assms(4,5) by blast
qed

theorem election_safety_witness:
  "\<exists>r s1. raft_recv_requestvote (ex_cluster RAFT_STATE_FOLLOWER 4 (-1) (ex_ring [] 0) 0 0) (Some 1)
       \<lparr>rv_term = 5, rv_candidate_id = 1, rv_last_log_idx = 0, rv_last_log_term = 0\<rparr> = Inr (0, r, s1) \<and>
     {b. b \<noteq> -1 \<and> majority_of {0, 1, 2::nat}
        {v \<in> {0, 1, 2}. gave_vote (\<lambda>v n. if v = 1 \<or> n = 0 then ex_cluster RAFT_STATE_FOLLOWER 4 (-1) (ex_ring [] 0) 0 0
                                       else s1) v 5 b}} = {1}"
proof -
  let ?s = "ex_cluster RAFT_STATE_FOLLOWER 4 (-1) (ex_ring [] 0) 0 0"
  let ?vr = "\<lparr>rv_term = 5, rv_candidate_id = 1, rv_last_log_idx = 0, rv_last_log_term = 0\<rparr>"
  have "rsafe (raft_recv_requestvote ?s (Some 1) ?vr) (\<lambda>(e, r, s1). e = 0 \<and> current_term s1 = 5 \<and> voted_for s1 = 1)"
    by code_simp
  then obtain r s1 where run: "raft_recv_requestvote ?s (Some 1) ?vr = Inr (0, r, s1)"
      and s1: "current_term s1 = 5" "voted_for s1 = 1"
    by (auto simp: rsafe_iff)
  let ?h = "\<lambda>(v::nat) (n::nat). if v = 1 \<or> n = 0 then ?s else s1"
  have hist: "history (?h v)" for v using raft_step.requestvote [OF run] by (simp add: history_def)
  have "{v \<in> {0, 1, 2}. gave_vote ?h v 5 1} = {0, 2}"
    using s1 by (auto simp: gave_vote_def intro!: exI [of _ 1])
  then have maj: "majority_of {0, 1, 2::nat} {v \<in> {0, 1, 2}. gave_vote ?h v 5 1}"
    by (simp add: majority_of_def raft_votes_is_majority_def)
  have "{b. b \<noteq> -1 \<and> majority_of {0, 1, 2::nat} {v \<in> {0, 1, 2}. gave_vote ?h v 5 b}} = {1}"
    using election_safety [OF hist _ maj] maj by fastforce
  then show ?thesis using run by blast
qed

text \<open>
  C2: what is committed stays. After any run of calls of \<open>raft_op\<close>, that is any but \<^verbatim>\<open>raft_clear\<close> within
  the guards of \<open>raft_step\<close>, the commit index is not smaller, and every
  entry at an index that was committed at the start and that is not compacted away is still
  there with the same term, id and type.
\<close>

theorem committed_entries_stable:
  assumes "raft_inv s" and "raft_op\<^sup>*\<^sup>* s s'"
  shows "commit_idx s \<le> commit_idx s' \<and>
    (\<forall>i. lg_base (log s') < i \<and> i \<le> commit_idx s \<longrightarrow> key_at (log s') i = key_at (log s) i)"
  using ro.run_forward [OF assms(2,1)] by (simp add: log_safe_def)

theorem committed_entries_stable_witness:
  "\<exists>s'. raft_op\<^sup>*\<^sup>* (ex_cluster RAFT_STATE_FOLLOWER 2 (-1) (ex_ring [ex_entry 1 7, ex_entry 1 8] 0) 1 0) s' \<and>
     map ety_id (log_list (log s')) = [7, 9] \<and>
     key_at (log s') 1 = key_at (ex_ring [ex_entry 1 7, ex_entry 1 8] 0) 1"
proof -
  let ?s = "ex_cluster RAFT_STATE_FOLLOWER 2 (-1) (ex_ring [ex_entry 1 7, ex_entry 1 8] 0) 1 0"
  have "rsafe (raft_recv_appendentries ?s (Some 1) \<lparr>ae_term = 2, ae_prev_log_idx = 1, ae_prev_log_term = 1,
      ae_leader_commit = 2, ae_entries = [ex_entry 2 9]\<rparr>)
      (\<lambda>(e, r, s'). lg_base (log s') = 0 \<and> map ety_id (log_list (log s')) = [7, 9])"
    by code_simp
  then obtain e r s' where run: "raft_recv_appendentries ?s (Some 1) \<lparr>ae_term = 2, ae_prev_log_idx = 1,
      ae_prev_log_term = 1, ae_leader_commit = 2, ae_entries = [ex_entry 2 9]\<rparr> = Inr (e, r, s')"
      and s': "lg_base (log s') = 0" "map ety_id (log_list (log s')) = [7, 9]"
    by (auto simp: rsafe_iff)
  have "raft_op\<^sup>*\<^sup>* ?s s'"
    using raft_step.appendentries [OF run] by (auto intro: op_step)
  then show ?thesis using committed_entries_stable [of ?s s'] s' by fastforce
qed

text \<open>
  C3: the invariant of a server. From \<^verbatim>\<open>raft_new\<close> and \<^verbatim>\<open>raft_set_callbacks\<close> on, with any callbacks,
  any failing allocations and any sequence of calls of \<open>raft_call\<close> (every call of \<^verbatim>\<open>raft.h\<close>, within the
  guards stated there), the log is a well-formed ring and base, last applied, commit and current
  index are ordered.
\<close>

theorem reachable_inv:
  assumes "raft_new p u = Inr (Some s0)" and "raft_call\<^sup>*\<^sup>* (raft_set_callbacks s0 f u') s"
  shows "log_inv (log s) \<and> lg_base (log s) \<le> last_applied_idx s \<and> last_applied_idx s \<le> commit_idx s \<and>
    commit_idx s \<le> raft_get_current_idx s \<and> snapshot_last_idx s \<le> last_applied_idx s"
proof -
  have "s0 = fresh_server p u" using assms(1) by (simp add: raft_new_eq split: if_splits)
  then have "raft_inv (raft_set_callbacks s0 f u')" by (simp add: raft_set_callbacks_inv fresh_server_inv)
  then show ?thesis using rc.run_inv [OF assms(2)] by (simp add: raft_inv_def)
qed

theorem reachable_inv_witness:
  "\<exists>s. raft_call\<^sup>*\<^sup>* (raft_set_callbacks (fresh_server calm_process ()) no_cbs ()) s \<and> nodes s = [0] \<and>
     log_inv (log s) \<and> commit_idx s \<le> raft_get_current_idx s"
proof -
  let ?s0 = "raft_set_callbacks (fresh_server calm_process ()) no_cbs ()"
  have new: "raft_new calm_process () = Inr (Some (fresh_server calm_process ()))"
    by (simp add: raft_new_eq calm_process_def)
  have "rsafe (raft_add_node ?s0 0 0 True) (\<lambda>(n, s). nodes s = [0])" by code_simp
  then obtain n s where run: "raft_add_node ?s0 0 0 True = Inr (n, s)" and s: "nodes s = [0]"
    by (auto simp: rsafe_iff)
  have steps: "raft_call\<^sup>*\<^sup>* ?s0 s" using raft_step.add_node [OF run] by (auto intro: call_op op_step)
  then show ?thesis using reachable_inv [OF new steps] s by blast
qed

text \<open>
  C4: a reply that reports success is true. The follower's log then has, at each index of the
  message, an entry with the term the message gives, and the reply's \<^verbatim>\<open>current_idx\<close> is the last of
  these indexes. The message must not start below the compacted part of the log.
\<close>

theorem appendentries_log_matching:
  assumes "raft_inv s" and "lg_size (log s) \<le> 2 ^ 31" and "lg_base (log s) \<le> ae_prev_log_idx ae"
    and "raft_recv_appendentries s node ae = Inr (0, r, s')" and "aer_success r = 1"
  shows "aer_current_idx r = ae_prev_log_idx ae + int (length (ae_entries ae)) \<and>
    (\<forall>j < length (ae_entries ae).
       map_option fst (key_at (log s') (ae_prev_log_idx ae + 1 + int j)) = Some (ety_term (ae_entries ae ! j)))"
  using rokD [OF raft_recv_appendentries_agrees [OF assms(1-3)] assms(4)] assms(5) by (simp add: ae_agrees_def)

theorem appendentries_log_matching_witness:
  "\<exists>r s'. raft_recv_appendentries (ex_cluster RAFT_STATE_FOLLOWER 2 (-1) (ex_ring [ex_entry 1 7, ex_entry 1 8] 0) 1 0)
     (Some 1) \<lparr>ae_term = 2, ae_prev_log_idx = 1, ae_prev_log_term = 1, ae_leader_commit = 2,
       ae_entries = [ex_entry 2 9, ex_entry 2 10]\<rparr> = Inr (0, r, s') \<and>
     aer_current_idx r = 3 \<and> map_option fst (key_at (log s') 3) = Some 2"
proof -
  let ?s = "ex_cluster RAFT_STATE_FOLLOWER 2 (-1) (ex_ring [ex_entry 1 7, ex_entry 1 8] 0) 1 0"
  let ?ae = "\<lparr>ae_term = 2, ae_prev_log_idx = 1, ae_prev_log_term = 1, ae_leader_commit = 2,
    ae_entries = [ex_entry 2 9, ex_entry 2 10]\<rparr>"
  have "rsafe (raft_recv_appendentries ?s (Some 1) ?ae) (\<lambda>(e, r, s'). e = 0 \<and> aer_success r = 1)" by code_simp
  then obtain r s' where run: "raft_recv_appendentries ?s (Some 1) ?ae = Inr (0, r, s')" "aer_success r = 1"
    by (auto simp: rsafe_iff)
  have "aer_current_idx r = 3 \<and> (\<forall>j < 2. map_option fst (key_at (log s') (2 + int j)) = Some 2)"
    using appendentries_log_matching [of ?s ?ae, OF _ _ _ run] by (auto simp: less_2_cases_iff nth_Cons')
  then have "aer_current_idx r = 3" "map_option fst (key_at (log s') 3) = Some 2"
    by (auto dest: spec [of _ 1])
  then show ?thesis using run by blast
qed

text \<open>
  C5: the commit rule. When a response makes a leader move its commit index, the new index is the
  acknowledged one, the entry there has the leader's current term, and the peers that acknowledged
  it and the leader together are more than half of the voting nodes.
\<close>

theorem leader_commits_by_majority:
  assumes "raft_inv s" and "nodes_inv s" and "raft_recv_appendentries_response s node r = Inr (e, s')"
    and "commit_idx s' \<noteq> commit_idx s"
  shows "commit_idx s < commit_idx s' \<and> commit_idx s' = aer_current_idx r \<and> log s' = log s \<and>
    current_term s' = current_term s \<and>
    map_option fst (key_at (log s') (commit_idx s')) = Some (current_term s') \<and>
    int (length (voters s')) < 2 * (1 + int (length (acked s' (commit_idx s'))))"
  using rokD [OF raft_recv_appendentries_response_step [OF assms(1)] assms(3)] assms(2,4)
  by (auto simp: aer_step_def commit_rule_def log_safe_def)

theorem leader_commits_by_majority_witness:
  "\<exists>s'. raft_recv_appendentries_response
       (ex_cluster RAFT_STATE_LEADER 2 0 (ex_ring [ex_entry 1 7, ex_entry 2 8] 0) 1 0) (Some 1)
       \<lparr>aer_term = 2, aer_success = 1, aer_current_idx = 2, aer_first_idx = 2\<rparr> = Inr (0, s') \<and>
     commit_idx s' = 2 \<and> int (length (voters s')) < 2 * (1 + int (length (acked s' 2)))"
proof -
  let ?s = "ex_cluster RAFT_STATE_LEADER 2 0 (ex_ring [ex_entry 1 7, ex_entry 2 8] 0) 1 0"
  let ?r = "\<lparr>aer_term = 2, aer_success = 1, aer_current_idx = 2, aer_first_idx = 2\<rparr>"
  have "rsafe (raft_recv_appendentries_response ?s (Some 1) ?r) (\<lambda>(e, s'). e = 0 \<and> commit_idx s' = 2)" by code_simp
  then obtain s' where run: "raft_recv_appendentries_response ?s (Some 1) ?r = Inr (0, s')" "commit_idx s' = 2"
    by (auto simp: rsafe_iff)
  then show ?thesis using leader_commits_by_majority [of ?s "Some 1" ?r 0 s'] by auto
qed

text \<open>
  C6: one vote per term. Along a run of calls of \<open>raft_step\<close> (no \<^verbatim>\<open>raft_begin_load_snapshot\<close>, no
  \<^verbatim>\<open>raft_clear\<close>, and \<^verbatim>\<open>raft_vote\<close> or \<^verbatim>\<open>raft_vote_for_nodeid\<close> only before a vote was given) the term does not
  decrease, and as long as it stays the same a vote that was given stays given.
\<close>

theorem one_vote_per_term:
  assumes "raft_inv s" and "raft_step\<^sup>*\<^sup>* s s'"
  shows "current_term s \<le> current_term s' \<and>
    (current_term s' = current_term s \<and> voted_for s \<noteq> -1 \<longrightarrow> voted_for s' = voted_for s)"
  using rs.run_forward [OF assms(2,1)] by (simp add: moves_on_def vote_step_def)

theorem one_vote_per_term_witness:
  "\<exists>r s'. raft_recv_requestvote (ex_cluster RAFT_STATE_FOLLOWER 2 1 (ex_ring [] 0) 0 0) (Some 2)
     \<lparr>rv_term = 2, rv_candidate_id = 2, rv_last_log_idx = 9, rv_last_log_term = 2\<rparr> = Inr (0, r, s') \<and>
     rvr_vote_granted r = 0 \<and> voted_for s' = 1"
proof -
  let ?s = "ex_cluster RAFT_STATE_FOLLOWER 2 1 (ex_ring [] 0) 0 0"
  let ?vr = "\<lparr>rv_term = 2, rv_candidate_id = 2, rv_last_log_idx = 9, rv_last_log_term = 2\<rparr>"
  have "rsafe (raft_recv_requestvote ?s (Some 2) ?vr) (\<lambda>(e, r, s'). e = 0 \<and> rvr_vote_granted r = 0 \<and> current_term s' = 2)"
    by code_simp
  then obtain r s' where run: "raft_recv_requestvote ?s (Some 2) ?vr = Inr (0, r, s')"
      and r: "rvr_vote_granted r = 0" "current_term s' = 2"
    by (auto simp: rsafe_iff)
  have "raft_step\<^sup>*\<^sup>* ?s s'" using raft_step.requestvote [OF run] by blast
  then show ?thesis using one_vote_per_term [of ?s s'] run r by simp
qed

text \<open>
  C7: whom a server votes for. The handler of a vote request does not fault; when it grants the
  vote, the vote is recorded for the candidate in the candidate's term and the candidate's log is
  at least as up to date as the server's, by the last term and then by length. The terms of the
  log must fit in the \<^verbatim>\<open>int\<close> the code compares.
\<close>

theorem vote_for_up_to_date_log:
  assumes "well_formed s" and "role_voted s"
    and "\<And>t. last_entry_term s = Some t \<Longrightarrow> - (2 ^ 31) \<le> t \<and> t < 2 ^ 31"
  shows "\<exists>e r s'. raft_recv_requestvote s node vr = Inr (e, r, s') \<and> rvr_term r = current_term s' \<and>
    (rvr_vote_granted r = 1 \<longrightarrow>
       voted_for s' = rv_candidate_id vr \<and> current_term s' = rv_term vr \<and>
       (current_term s = rv_term vr \<longrightarrow> voted_for s = -1) \<and>
       (raft_get_current_idx s = 0 \<or>
        (\<exists>t. last_entry_term s = Some t \<and>
           (t < rv_last_log_term vr \<or>
            t = rv_last_log_term vr \<and> raft_get_current_idx s \<le> rv_last_log_idx vr))))"
proof -
  obtain e r s' where run: "raft_recv_requestvote s node vr = Inr (e, r, s')"
    using raft_recv_requestvote_total [OF assms(1,2)] by blast
  have "own_last_term s = last_entry_term s"
    using assms(3) by (cases "last_entry_term s") (simp_all add: own_last_term_eq int32_id)
  then show ?thesis
    using rokD [OF raft_recv_requestvote_step run] rokD [OF raft_recv_requestvote_grants [OF assms(1)] run] run
    by (auto simp: up_to_date_def)
qed

theorem vote_for_up_to_date_log_witness:
  "\<exists>e r s'. raft_recv_requestvote (ex_cluster RAFT_STATE_FOLLOWER 2 (-1) (ex_ring [ex_entry 2 7] 0) 0 0) (Some 1)
     \<lparr>rv_term = 3, rv_candidate_id = 1, rv_last_log_idx = 1, rv_last_log_term = 2\<rparr> = Inr (e, r, s') \<and>
     rvr_vote_granted r = 1 \<and> voted_for s' = 1 \<and> current_term s' = 3"
proof -
  let ?s = "ex_cluster RAFT_STATE_FOLLOWER 2 (-1) (ex_ring [ex_entry 2 7] 0) 0 0"
  let ?vr = "\<lparr>rv_term = 3, rv_candidate_id = 1, rv_last_log_idx = 1, rv_last_log_term = 2\<rparr>"
  have "rsafe (raft_recv_requestvote ?s (Some 1) ?vr) (\<lambda>(e, r, s'). rvr_vote_granted r = 1)" by code_simp
  moreover have "last_entry_term ?s = Some 2" by (simp add: last_entry_term_def list_at_def)
  ultimately show ?thesis
    using vote_for_up_to_date_log [of ?s "Some 1" ?vr] by (auto simp: rsafe_iff role_voted_def)
qed

text \<open>
  C8: winning an election. A granted vote of the candidate's own term makes it leader exactly if
  the votes it then holds, its own included, are more than half of the active voting nodes.
\<close>

theorem candidate_wins_by_majority:
  assumes "well_formed s" and "state s = RAFT_STATE_CANDIDATE" and "\<And>q. node = Some q \<Longrightarrow> heap s q \<noteq> None"
    and "rvr_term r = current_term s" and "rvr_vote_granted r = 1"
  shows "\<exists>s'. raft_recv_requestvote_response s node r = Inr (0, s') \<and> current_term s' = current_term s \<and>
    state s' = (if votes_with s node \<le> int (length (voters s)) \<and> int (length (voters s)) < 2 * votes_with s node
                then RAFT_STATE_LEADER else RAFT_STATE_CANDIDATE)"
proof -
  have "raft_recv_requestvote_response s node r = rvr_granted s node"
    using assms(2,4,5) by (simp add: raft_recv_requestvote_response_def raft_vote_codes)
  moreover obtain s' where run: "rvr_granted s node = Inr (0, s')"
      and s': "state s' = (if raft_votes_is_majority (int (length (voters s))) (votes_with s node)
                then RAFT_STATE_LEADER else state s)"
    using rvr_granted_spec [OF assms(1,3)] by (auto simp: rsafe_iff)
  moreover have "current_term s' = current_term s"
    using rokD [OF rvr_granted_keeps_term run] by simp
  ultimately show ?thesis using assms(2) by (simp add: raft_votes_is_majority_iff)
qed

theorem candidate_wins_by_majority_witness:
  "\<exists>s'. raft_recv_requestvote_response (ex_cluster RAFT_STATE_CANDIDATE 3 0 (ex_ring [ex_entry 2 7] 0) 0 0) (Some 2)
     \<lparr>rvr_term = 3, rvr_vote_granted = 1\<rparr> = Inr (0, s') \<and> state s' = RAFT_STATE_LEADER"
proof -
  let ?s = "ex_cluster RAFT_STATE_CANDIDATE 3 0 (ex_ring [ex_entry 2 7] 0) 0 0"
  have "votes_with ?s (Some 2) = 2" by (simp add: votes_with_def is_voter_def)
  then show ?thesis
    using candidate_wins_by_majority [of ?s "Some 2" "\<lparr>rvr_term = 3, rvr_vote_granted = 1\<rparr>"] by auto
qed

text \<open>
  C9: starting an election. The server moves to the next term as a candidate without a leader and
  with its timer reset. Its vote is recorded for itself; only if the callback that stores the vote,
  called with what the callback for the term left, reports an error is there no vote. If storing the
  term failed nothing but the user's state has changed.
\<close>

theorem candidacy:
  assumes "well_formed s"
  shows "\<exists>e s'. raft_election_start s = Inr (e, s') \<and>
    (if e = 0 then current_term s' = current_term s + 1 \<and> state s' = RAFT_STATE_CANDIDATE \<and>
       current_leader s' = None \<and> timeout_elapsed s' = 0 \<and> log s' = log s \<and> commit_idx s' = commit_idx s \<and>
       (\<exists>i. raft_get_nodeid s = Inr i \<and>
          voted_for s' =
            (case persist_vote (cb s) of
               None \<Rightarrow> i
             | Some f \<Rightarrow>
                 if fst (f (case persist_term (cb s) of
                              None \<Rightarrow> udata s
                            | Some g \<Rightarrow> snd (g (udata s) (current_term s + 1) (-1))) i) = 0 then i else -1))
     else \<exists>u. s' = s\<lparr>udata := u\<rparr>)"
proof -
  obtain e s' where run: "raft_become_candidate s = Inr (e, s')"
    using raft_become_candidate_total [OF assms] by blast
  then show ?thesis
    using rokD [OF raft_become_candidate_spec run] rokD [OF raft_become_candidate_vote run]
    by (auto simp: raft_election_start_def became_candidate_def same_but_udata_def election_frame_def self_vote_def
        split: if_splits)
qed

theorem candidacy_witness:
  "\<exists>s'. raft_election_start (ex_cluster RAFT_STATE_FOLLOWER 2 1 (ex_ring [ex_entry 2 7] 0) 0 0) = Inr (0, s') \<and>
     current_term s' = 3 \<and> voted_for s' = 0 \<and> state s' = RAFT_STATE_CANDIDATE"
proof -
  let ?s = "ex_cluster RAFT_STATE_FOLLOWER 2 1 (ex_ring [ex_entry 2 7] 0) 0 0"
  have "rsafe (raft_election_start ?s) (\<lambda>(e, s'). e = 0)" by code_simp
  moreover have "persist_vote (cb ?s) = None" "raft_get_nodeid ?s = Inr 0" by code_simp+
  ultimately show ?thesis using candidacy [of ?s] by (auto simp: rsafe_iff)
qed

text \<open>
  C10: taking a client's entry. Success is reported by a leader only; then the entry is the last one
  of the log under the index and term the reply names, and the entries before it are what they
  were. A refused entry leaves the entries and the commit index alone.
\<close>

theorem client_entry:
  assumes "raft_inv s" and "raft_recv_entry s ety = Inr (e, ety', r, s')"
  shows "if e = 0 then
      state s = RAFT_STATE_LEADER \<and>
      r = Some \<lparr>er_id = ety_id ety, er_term = current_term s, er_idx = raft_get_current_idx s + 1\<rparr> \<and>
      raft_get_current_idx s' = raft_get_current_idx s + 1 \<and>
      key_at (log s') (raft_get_current_idx s + 1) = Some (current_term s, ety_id ety, ety_type ety) \<and>
      (\<forall>i \<le> raft_get_current_idx s. key_at (log s') i = key_at (log s) i) \<and>
      (commit_idx s' = commit_idx s \<or> commit_idx s' = raft_get_current_idx s')
    else r = None \<and> commit_idx s' = commit_idx s \<and> key_at (log s') = key_at (log s)"
proof (cases "e = 0")
  case True
  then obtain x where "state s = RAFT_STATE_LEADER" "r = Some x" "entry_taken s ety x s'"
    using rokD [OF raft_recv_entry_spec [OF assms(1)] assms(2)] by (auto simp: recv_entry_post_def)
  then show ?thesis using True by (cases x) (auto simp: entry_taken_def)
next
  case False
  then show ?thesis
    using rokD [OF raft_recv_entry_spec [OF assms(1)] assms(2)] by (simp add: recv_entry_post_def)
qed

theorem client_entry_witness:
  "\<exists>ety' s'. raft_recv_entry (ex_cluster RAFT_STATE_LEADER 2 0 (ex_ring [ex_entry 1 7] 0) 1 0) (ex_entry 0 9) =
     Inr (0, ety', Some \<lparr>er_id = 9, er_term = 2, er_idx = 2\<rparr>, s') \<and>
     key_at (log s') 2 = Some (2, 9, RAFT_LOGTYPE_NORMAL)"
proof -
  let ?s = "ex_cluster RAFT_STATE_LEADER 2 0 (ex_ring [ex_entry 1 7] 0) 1 0"
  have "rsafe (raft_recv_entry ?s (ex_entry 0 9)) (\<lambda>(e, _). e = 0)" by code_simp
  then obtain ety' r s' where run: "raft_recv_entry ?s (ex_entry 0 9) = Inr (0, ety', r, s')"
    by (auto simp: rsafe_iff)
  then show ?thesis using client_entry [OF _ run] by auto
qed

text \<open>
  C11: the follower's handler returns. For ordinary entries, and unless a message without entries
  asks an empty log to commit, no assertion fails and no access is out of bounds, whatever the
  message holds and whatever the callbacks and the allocator answer.
\<close>

theorem appendentries_handler_total:
  assumes "raft_inv s" and "well_formed s" and "normal_entries (log_list (log s))" and "normal_entries (ae_entries ae)"
    and "1 \<le> raft_get_current_idx s \<or> ae_entries ae \<noteq> [] \<or> ae_leader_commit ae \<le> commit_idx s"
  shows "\<exists>e r s'. raft_recv_appendentries s node ae = Inr (e, r, s') \<and> aer_term r = current_term s' \<and> raft_inv s'"
proof -
  obtain e r s' where run: "raft_recv_appendentries s node ae = Inr (e, r, s')"
    using raft_recv_appendentries_total [OF assms] by blast
  moreover have "lg_size (log s) \<le> 2 ^ 31" using assms(2) by (simp add: well_formed_def)
  ultimately show ?thesis using rokD [OF raft_recv_appendentries_safe [OF assms(1)] run] by simp
qed

theorem appendentries_handler_total_witness:
  "\<exists>e r s'. raft_recv_appendentries (ex_cluster RAFT_STATE_FOLLOWER 2 (-1) (ex_ring [ex_entry 1 7] 0) 1 0) (Some 1)
     \<lparr>ae_term = 4, ae_prev_log_idx = 1, ae_prev_log_term = 1, ae_leader_commit = 9, ae_entries = [ex_entry 4 8]\<rparr> =
     Inr (e, r, s') \<and> aer_term r = current_term s'"
  using appendentries_handler_total [of "ex_cluster RAFT_STATE_FOLLOWER 2 (-1) (ex_ring [ex_entry 1 7] 0) 1 0"
      "\<lparr>ae_term = 4, ae_prev_log_idx = 1, ae_prev_log_term = 1, ae_leader_commit = 9, ae_entries = [ex_entry 4 8]\<rparr>" "Some 1"]
  by auto

text \<open>
  C12: applying. Unless a blocking snapshot is in progress, and for a log without membership entries and
  a state machine that does not ask to shut down, \<^verbatim>\<open>raft_apply_all\<close> returns with everything committed applied, and the state machine has
  seen the entries after the last applied one up to the commit index, each once and in order.
\<close>

theorem committed_applied_in_order:
  assumes "raft_inv s" and "raft_is_apply_allowed s" and "applylog (cb s) = Some f"
    and "normal_entries (log_list (log s))" and "\<And>u i ety. fst (f u ety i) \<noteq> RAFT_ERR_SHUTDOWN"
  shows "\<exists>s'. raft_apply_all s = Inr (0, s') \<and> last_applied_idx s' = commit_idx s \<and> log s' = log s \<and>
    udata s' = fold (\<lambda>i u. snd (f u (the (list_at (lg_base (log s)) (log_list (log s)) i)) i))
      [last_applied_idx s + 1..commit_idx s] (udata s)"
proof -
  have inv: "log_inv (log s)" "lg_base (log s) \<le> last_applied_idx s" "last_applied_idx s \<le> commit_idx s"
      "commit_idx s \<le> raft_get_current_idx s"
    using assms(1) by (simp_all add: raft_inv_def)
  have plain: "\<not> raft_entry_is_cfg_change ety"
    if "(i, ety) \<in> set (indexed_entries (log s) (last_applied_idx s) (commit_idx s))" for i ety
  proof -
    have "lg_base (log s) < i" "i \<le> lg_base (log s) + int (length (log_list (log s)))"
        "ety = the (list_at (lg_base (log s)) (log_list (log s)) i)"
      using that inv current_idx_length [OF inv(1)] by (auto simp: indexed_entries_def raft_get_current_idx_def)
    then have "ety \<in> set (log_list (log s))" by (auto simp: list_at_def simp del: length_log_list)
    then show ?thesis using assms(4) by blast
  qed
  obtain s' where "apply_all_loop s = Inr (0, s')" "last_applied_idx s' = commit_idx s" "apply_frame s s'"
      "udata s' = apply_seq f (indexed_entries (log s) (last_applied_idx s) (commit_idx s)) (udata s)"
    using apply_all_loop_normal [OF inv(1) assms(2) inv(2-4) assms(3)] plain assms(5) by blast
  then show ?thesis
    using assms(2) by (auto simp: raft_apply_all_def apply_frameD apply_seq_def indexed_entries_def fold_map comp_def)
qed

theorem committed_applied_in_order_witness:
  "\<exists>s'. raft_apply_all ((fresh_server calm_process [])\<lparr>log := ex_ring [ex_entry 1 7, ex_entry 1 8, ex_entry 2 9] 0,
      commit_idx := 2, cb := no_cbs\<lparr>applylog := Some (\<lambda>u e i. (0, u @ [(i, ety_id e)]))\<rparr>\<rparr>) = Inr (0, s') \<and>
     udata s' = [(1, 7), (2, 8)]"
proof -
  let ?f = "\<lambda>u e i. (0 :: int, u @ [(i, ety_id e)])"
  let ?s = "(fresh_server calm_process [])\<lparr>log := ex_ring [ex_entry 1 7, ex_entry 1 8, ex_entry 2 9] 0,
      commit_idx := 2, cb := no_cbs\<lparr>applylog := Some ?f\<rparr>\<rparr>"
  have "raft_inv ?s" "raft_is_apply_allowed ?s" "last_applied_idx ?s = 0" "udata ?s = []"
    by (simp_all add: raft_inv_def raft_is_apply_allowed_def fresh_server_def zero_server_def raft_get_current_idx_def)
  moreover have "[1..2] = [1, 2::int]" by code_simp
  ultimately show ?thesis
    using committed_applied_in_order [of ?s ?f] by (auto simp: raft_errs list_at_def)
qed

text \<open>
  C13: what a leader sends. The message to a peer has the sender's term and commit index, the
  entries of its log from the peer's next index on (not none if there is one), and before them the
  index and term of the preceding entry, or of the snapshot if that entry is compacted.
\<close>

theorem sent_appendentries_sound:
  assumes "well_formed s" and "peers_ok s" and "r \<in> set (nodes s)" and "me_node s \<noteq> Some r"
    and "send_appendentries (cb s) = Some record_ae"
    and "\<not> (0 < snapshot_last_idx s \<and> next_idx (node_of s r) < snapshot_last_idx s)"
  shows "\<exists>ae. raft_send_appendentries s (Some r) = Inr (0, s\<lparr>udata := Some ae\<rparr>) \<and>
    ae_term ae = current_term s \<and> ae_leader_commit ae = commit_idx s \<and>
    (\<forall>k < length (ae_entries ae). log_get_at_idx (log s) (next_idx (node_of s r) + int k) = Inr (Some (ae_entries ae ! k))) \<and>
    (ae_entries ae = [] \<longleftrightarrow> log_get_at_idx (log s) (next_idx (node_of s r)) = Inr None) \<and>
    (if next_idx (node_of s r) = 1 then ae_prev_log_idx ae = 0 \<and> ae_prev_log_term ae = 0
     else case list_at (lg_base (log s)) (log_list (log s)) (next_idx (node_of s r) - 1) of
       Some p \<Rightarrow> ae_prev_log_idx ae = next_idx (node_of s r) - 1 \<and> ae_prev_log_term ae = ety_term p
     | None \<Rightarrow> ae_prev_log_idx ae = snapshot_last_idx s \<and> ae_prev_log_term ae = snapshot_last_term s)"
proof -
  have wf: "log_inv (log s)" "lg_size (log s) < 2 ^ 31" "nodes_inv s" using assms(1) by (simp_all add: well_formed_def)
  then show ?thesis
    using ae_sound_sent [OF wf assms(2-6)] by (simp add: ae_sound_def log_get_at_idx_spec)
qed

theorem sent_appendentries_sound_witness:
  "\<exists>ae. raft_send_appendentries (ex_server_sending (ex_ring [ex_entry 1 7, ex_entry 2 8] 0)) (Some 1) =
      Inr (0, (ex_server_sending (ex_ring [ex_entry 1 7, ex_entry 2 8] 0))\<lparr>udata := Some ae\<rparr>) \<and>
     ae_term ae = 2 \<and> ae_entries ae \<noteq> [] \<and> ae_prev_log_idx ae = 0"
  using sent_appendentries_sound [of "ex_server_sending (ex_ring [ex_entry 1 7, ex_entry 2 8] 0)" 1]
  by (auto simp: log_get_at_idx_spec list_at_def)

section \<open>Snapshots\<close>

text \<open>
  C14: beginning a snapshot and giving it up. A begun snapshot ends at the commit index, with the
  term of the entry there and everything applied; cancelling it brings back the description of the
  previous snapshot, with log, commit index, term, vote and role untouched.
\<close>

theorem begin_cancel_snapshot:
  assumes "raft_inv s" and "raft_begin_snapshot s f = Inr (0, s1)"
  shows "snapshot_in_progress s1 \<and> snapshot_last_idx s1 = commit_idx s \<and> last_applied_idx s1 = commit_idx s \<and>
    map_option fst (key_at (log s) (commit_idx s)) = Some (snapshot_last_term s1) \<and>
    (\<exists>s2. raft_cancel_snapshot s1 = (0, s2) \<and> \<not> snapshot_in_progress s2 \<and>
       snapshot_last_idx s2 = snapshot_last_idx s \<and> snapshot_last_term s2 = snapshot_last_term s \<and>
       log s2 = log s \<and> commit_idx s2 = commit_idx s \<and> same_role s s2)"
  using rokD [OF raft_begin_snapshot_spec [OF assms(1)] assms(2)]
  by (auto simp: snapshot_begun_def raft_cancel_snapshot_def same_role_def)

theorem begin_cancel_snapshot_witness:
  "\<exists>s1. raft_begin_snapshot (ex_cluster RAFT_STATE_LEADER 2 0 (ex_ring [ex_entry 1 7, ex_entry 2 8] 0) 2 0) 0 = Inr (0, s1) \<and>
     snapshot_last_idx s1 = 2"
proof -
  let ?s = "ex_cluster RAFT_STATE_LEADER 2 0 (ex_ring [ex_entry 1 7, ex_entry 2 8] 0) 2 0"
  have "rsafe (raft_begin_snapshot ?s 0) (\<lambda>(e, _). e = 0)" by code_simp
  then obtain s1 where run: "raft_begin_snapshot ?s 0 = Inr (0, s1)" by (auto simp: rsafe_iff)
  then show ?thesis using begin_cancel_snapshot [OF _ run] by simp
qed

text \<open>
  C15: ending a snapshot. The committed entries are dropped and nothing else: the base is the commit
  index, the current index is what it was, and the remaining entries keep their indexes.
\<close>

theorem end_snapshot_compacts:
  assumes "raft_inv s" and "raft_end_snapshot s = Inr (0, s')"
  shows "lg_base (log s') = commit_idx s \<and> snapshot_last_idx s' = commit_idx s \<and> \<not> snapshot_in_progress s' \<and>
    raft_get_current_idx s' = raft_get_current_idx s \<and> commit_idx s' = commit_idx s \<and>
    (\<forall>i. commit_idx s < i \<longrightarrow> key_at (log s') i = key_at (log s) i) \<and> raft_inv s'"
  using rokD [OF raft_end_snapshot_spec [OF assms(1)] assms(2)] by (simp add: compacted_def)

theorem end_snapshot_compacts_witness:
  "\<exists>s'. raft_end_snapshot ((ex_cluster RAFT_STATE_LEADER 2 0 (ex_ring [ex_entry 1 7, ex_entry 2 8, ex_entry 2 9] 0) 2 0)
       \<lparr>snapshot_in_progress := True, snapshot_last_idx := 2, snapshot_last_term := 2\<rparr>) = Inr (0, s') \<and>
     lg_base (log s') = 2 \<and> raft_get_current_idx s' = 3"
proof -
  let ?s = "(ex_cluster RAFT_STATE_LEADER 2 0 (ex_ring [ex_entry 1 7, ex_entry 2 8, ex_entry 2 9] 0) 2 0)
       \<lparr>snapshot_in_progress := True, snapshot_last_idx := 2, snapshot_last_term := 2\<rparr>"
  have "rsafe (raft_end_snapshot ?s) (\<lambda>(e, _). e = 0)" by code_simp
  then obtain s' where run: "raft_end_snapshot ?s = Inr (0, s')" by (auto simp: rsafe_iff)
  have "raft_inv ?s" by (simp add: raft_inv_def raft_get_current_idx_def)
  then show ?thesis
    using end_snapshot_compacts [OF _ run] run by (simp add: raft_get_current_idx_def)
qed

text \<open>
  C16: loading a snapshot. On success the log is empty behind the snapshot's last index, which is
  committed and applied, the server is a follower of the snapshot's term that has not voted, and
  one node is left; on failure nothing has changed. Success is possible only for an index that is
  not behind the log.
\<close>

theorem load_snapshot:
  assumes "raft_inv s" and "raft_begin_load_snapshot s trm idx = Inr (e, s')"
  shows "if e = 0 then
      raft_get_current_idx s \<le> idx \<and> last_applied_idx s \<le> idx \<and>
      log_list (log s') = [] \<and> raft_get_current_idx s' = idx \<and> commit_idx s' = idx \<and> last_applied_idx s' = idx \<and>
      snapshot_last_idx s' = idx \<and> snapshot_last_term s' = trm \<and> current_term s' = trm \<and>
      voted_for s' = -1 \<and> state s' = RAFT_STATE_FOLLOWER \<and> length (nodes s') = 1 \<and> raft_inv s'
    else s' = s"
proof (cases "e = 0")
  case True
  have "raft_get_current_idx s \<le> idx \<and> last_applied_idx s \<le> idx"
    using assms(2) True by (auto simp: raft_begin_load_snapshot_def raft_errs split: if_splits)
  then show ?thesis
    using rokD [OF raft_begin_load_snapshot_spec [OF assms(1)] assms(2)] True by (simp add: snapshot_loaded_def)
qed (use rokD [OF raft_begin_load_snapshot_spec [OF assms(1)] assms(2)] in simp)

theorem load_snapshot_witness:
  "\<exists>s'. raft_begin_load_snapshot (ex_cluster RAFT_STATE_FOLLOWER 2 1 (ex_ring [ex_entry 1 7] 0) 1 0) 5 30 = Inr (0, s') \<and>
     commit_idx s' = 30 \<and> voted_for s' = -1"
proof -
  let ?s = "ex_cluster RAFT_STATE_FOLLOWER 2 1 (ex_ring [ex_entry 1 7] 0) 1 0"
  have "rsafe (raft_begin_load_snapshot ?s 5 30) (\<lambda>(e, _). e = 0)" by code_simp
  then obtain s' where run: "raft_begin_load_snapshot ?s 5 30 = Inr (0, s')" by (auto simp: rsafe_iff)
  then show ?thesis using load_snapshot [OF _ run] by simp
qed

section \<open>The log as a list\<close>

text \<open>
  C17: appending refines adding at the end of a list. For an ordinary entry the call returns; on
  success the list of entries has the entry added, with its own data or, if a callback for offered
  entries is registered, the data that callback left; on failure the list is what it was, also when
  the ring had to grow or the allocation for that failed.
\<close>

theorem append_refines_snoc:
  assumes "log_inv (log s)" and "\<not> raft_entry_is_cfg_change ety"
  shows "\<exists>e s'. raft_append_entry s ety = Inr (e, s') \<and> log_inv (log s') \<and> lg_base (log s') = lg_base (log s) \<and>
    log_list (log s') =
      (if e \<noteq> 0 then log_list (log s)
       else log_list (log s) @ [case (if lg_cb (log s) then log_offer (cb s) else None) of
              None \<Rightarrow> ety
            | Some f \<Rightarrow> ety\<lparr>ety_data := fst (snd (f (udata s) ety (raft_get_current_idx s + 1)))\<rparr>])"
proof -
  obtain e s' where run: "raft_append_entry s ety = Inr (e, s')"
    using raft_append_entry_normal [OF assms] by (auto simp: rsafe_iff)
  then show ?thesis
    using rokD [OF raft_append_entry_data [OF assms(1)] run]
    by (auto simp: log_becomes_def offered_data_def raft_get_current_idx_def log_get_current_idx_def log_count_def
        add_ac split: option.split)
qed

theorem append_refines_snoc_witness:
  "\<exists>s'. raft_append_entry (ex_cluster RAFT_STATE_LEADER 2 0 (ex_ring (replicate 10 (ex_entry 1 7)) 0) 0 0) (ex_entry 2 8) =
     Inr (0, s') \<and> log_inv (log s') \<and> log_list (log s') = replicate 10 (ex_entry 1 7) @ [ex_entry 2 8]"
proof -
  let ?s = "ex_cluster RAFT_STATE_LEADER 2 0 (ex_ring (replicate 10 (ex_entry 1 7)) 0) 0 0"
  have "rsafe (raft_append_entry ?s (ex_entry 2 8)) (\<lambda>(e, _). e = 0)" by code_simp
  then obtain s' where run: "raft_append_entry ?s (ex_entry 2 8) = Inr (0, s')" by (auto simp: rsafe_iff)
  moreover have "\<not> lg_cb (log ?s)" "\<not> raft_entry_is_cfg_change (ex_entry 2 8)" "log_inv (log ?s)"
      "log_list (log ?s) = replicate 10 (ex_entry 1 7)"
    by code_simp+
  ultimately show ?thesis using append_refines_snoc [of ?s "ex_entry 2 8"] by auto
qed

text \<open>
  C18: deleting refines cutting a list. From an index above the commit index on, the entries are
  removed; if a callback stops the deletion early, a longer prefix of the same entries is left.
\<close>

theorem delete_refines_take:
  assumes "raft_inv s" and "lg_size (log s) \<le> 2 ^ 31" and "commit_idx s < idx" and "normal_entries (log_list (log s))"
  shows "\<exists>e s'. raft_delete_entry_from_idx s idx = Inr (e, s') \<and> log_inv (log s') \<and>
    lg_base (log s') = lg_base (log s) \<and> commit_idx s' = commit_idx s \<and>
    (e = 0 \<longrightarrow> log_list (log s') = take (nat (idx - lg_base (log s) - 1)) (log_list (log s))) \<and>
    (\<exists>k \<ge> nat (idx - lg_base (log s) - 1). log_keys (log s') = take k (log_keys (log s)))"
proof -
  have inv: "log_inv (log s)" "0 \<le> commit_idx s"
    using assms(1) raft_inv_commit_nonneg by (simp_all add: raft_inv_def)
  obtain e s' where run: "raft_delete_entry_from_idx s idx = Inr (e, s')"
    using raft_delete_entry_normal [OF inv(1) assms(2,3)] assms(4) by blast
  then show ?thesis
    using rokD [OF raft_delete_entry_from_idx_spec [OF inv(1) assms(2) inv(2)] run]
    by (auto simp: deleted_to_def dest: same_but_cfgD)
qed

theorem delete_refines_take_witness:
  "\<exists>s'. raft_delete_entry_from_idx
       (ex_cluster RAFT_STATE_FOLLOWER 2 1 (ex_ring [ex_entry 1 7, ex_entry 1 8, ex_entry 1 9] 4) 5 0) 6 = Inr (0, s') \<and>
     log_list (log s') = [ex_entry 1 7]"
proof -
  let ?s = "ex_cluster RAFT_STATE_FOLLOWER 2 1 (ex_ring [ex_entry 1 7, ex_entry 1 8, ex_entry 1 9] 4) 5 0"
  have "rsafe (raft_delete_entry_from_idx ?s 6) (\<lambda>(e, _). e = 0)" by code_simp
  then show ?thesis
    using delete_refines_take [of ?s 6] by (auto simp: rsafe_iff)
qed

text \<open>
  C19: growing the ring. The copying loop stays inside both arrays and unwraps the ring; every
  lookup by index gives the same answer before and after, and a free cell is available unless
  the allocation failed, in which case the log is the same.
\<close>

theorem lookup_after_growth:
  assumes "log_inv me"
  shows "\<exists>e me' p'. ensurecapacity me p = Inr (e, me', p') \<and> log_inv me' \<and>
    (\<forall>i. log_get_at_idx me' i = log_get_at_idx me i) \<and>
    (if e = 0 then lg_count me' < lg_size me' else me' = me \<and> e = RAFT_ERR_NOMEM)"
proof -
  obtain e me' p' where "ensurecapacity me p = Inr (e, me', p')" "log_inv me'" "log_list me' = log_list me"
      "lg_base me' = lg_base me" "e = 0 \<Longrightarrow> lg_count me' < lg_size me'" "e \<noteq> 0 \<Longrightarrow> me' = me \<and> e = RAFT_ERR_NOMEM"
    using ensurecapacity_spec [OF assms, of p] by metis
  then show ?thesis using assms by (auto simp: log_get_at_idx_spec)
qed

theorem lookup_after_growth_witness:
  "\<exists>e me' p'. ensurecapacity (ex_ring (map (ex_entry 1) [1..10]) 4) calm_process = Inr (e, me', p') \<and>
     log_get_at_idx me' 7 = Inr (Some (ex_entry 1 3))"
proof -
  let ?me = "ex_ring (map (ex_entry 1) [1..10]) 4"
  have "log_get_at_idx ?me 7 = Inr (Some (ex_entry 1 3))" by code_simp
  moreover have "log_inv ?me" by simp
  ultimately show ?thesis using lookup_after_growth [of ?me calm_process] by fastforce
qed

section \<open>Peers and membership\<close>

text \<open>
  C20: the flags of a node. \<open>node_flags\<close> reads the six booleans (vote, voting, sufficient logs,
  active, voting committed, addition committed), \<open>node_data\<close> the user data, both indexes and the id.
  Each setter of the packed word writes its boolean and leaves the other five and the data alone;
  the one for voting asserts that it changes the flag; a second write overrides the first.
\<close>

theorem node_flags_independent:
  "\<exists>v g l a c d. node_flags n = (v, g, l, a, c, d) \<and>
     node_flags (raft_node_vote_for_me n b) = (b, g, l, a, c, d) \<and>
     (if g = b then raft_node_set_voting n b = Inl Assertion_failed
      else \<exists>n'. raft_node_set_voting n b = Inr n' \<and> node_flags n' = (v, b, l, a, c, d) \<and> node_data n' = node_data n) \<and>
     node_flags (raft_node_set_has_sufficient_logs n) = (v, g, True, a, c, d) \<and>
     node_flags (raft_node_set_active n b) = (v, g, l, b, c, d) \<and>
     node_flags (raft_node_set_voting_committed n b) = (v, g, l, a, b, d) \<and>
     node_flags (raft_node_set_addition_committed n b) = (v, g, l, a, c, b) \<and>
     node_data (raft_node_vote_for_me n b) = node_data n \<and>
     node_data (raft_node_set_has_sufficient_logs n) = node_data n \<and>
     node_data (raft_node_set_active n b) = node_data n \<and>
     node_data (raft_node_set_voting_committed n b) = node_data n \<and>
     node_data (raft_node_set_addition_committed n b) = node_data n \<and>
     raft_node_vote_for_me (raft_node_vote_for_me n e) b = raft_node_vote_for_me n b \<and>
     raft_node_set_active (raft_node_set_active n e) b = raft_node_set_active n b \<and>
     raft_node_set_voting_committed (raft_node_set_voting_committed n e) b = raft_node_set_voting_committed n b \<and>
     raft_node_set_addition_committed (raft_node_set_addition_committed n e) b = raft_node_set_addition_committed n b"
proof -
  have "raft_node_is_voting n = bit (flags n) 1" by (simp add: voting.get_bit)
  then show ?thesis
    by (simp add: node_flags_bits node_writes node_data_def raft_node_set_voting_eq
        voted.put_put active.put_put vcommitted.put_put acommitted.put_put)
qed

text \<open>
  C21: adding a node. The cluster stays well formed; the node returned is one of the cluster, has the
  id asked for and votes; a node that already votes is not added again.
\<close>

theorem add_node_membership:
  assumes "nodes_inv s" and "raft_add_node s ud nid self = Inr (node, s')"
  shows "nodes_inv s' \<and>
    (\<forall>r. node = Some r \<longrightarrow> r \<in> set (nodes s') \<and> node_id (node_of s' r) = nid \<and> raft_node_is_voting (node_of s' r)) \<and>
    ((\<exists>r \<in> set (nodes s). node_id (node_of s r) = nid \<and> raft_node_is_voting (node_of s r)) \<longrightarrow> node = None \<and> s' = s)"
proof -
  have "node = None \<and> s' = s"
    if r: "r \<in> set (nodes s)" "node_id (node_of s r) = nid" "raft_node_is_voting (node_of s r)" for r
  proof -
    have "find (\<lambda>q. node_id (node_of s q) = nid) (nodes s) = Some r"
      using find_distinct_map [of r "nodes s" "\<lambda>q. node_id (node_of s q)"] r assms(1) by (simp add: nodes_inv_def)
    then show ?thesis
      using assms r(3) by (simp add: raft_add_node_def raft_add_node_internal_def raft_get_node_spec deref_node [OF assms(1) r(1)])
  qed
  then show ?thesis
    using rokD [OF raft_add_node_internal_inv [OF assms(1)] assms(2) [unfolded raft_add_node_def]] by auto
qed

theorem add_node_membership_witness:
  "\<exists>r s'. raft_add_node (ex_cluster RAFT_STATE_LEADER 2 0 (ex_ring [] 0) 0 0) 0 3 False = Inr (Some r, s') \<and>
     nodes_inv s' \<and> r \<in> set (nodes s') \<and> node_id (node_of s' r) = 3"
proof -
  let ?s = "ex_cluster RAFT_STATE_LEADER 2 0 (ex_ring [] 0) 0 0"
  have "rsafe (raft_add_node ?s 0 3 False) (\<lambda>(n, _). n \<noteq> None)" by code_simp
  then obtain r s' where run: "raft_add_node ?s 0 3 False = Inr (Some r, s')" by (auto simp: rsafe_iff)
  then show ?thesis using add_node_membership [OF _ run] by simp
qed

text \<open>
  C22: the program. If its five allocations succeed, the server that \<^verbatim>\<open>main\<close> sets up and drives survives
  every round of the loop, and from the first one on it is the leader of its cluster.
\<close>

theorem single_server_leads:
  assumes "\<And>i. i < 5 \<Longrightarrow> alloc_seq p (alloc_no p + i)"
  shows "\<exists>s. raft_main n p = Inr s \<and> (state s = RAFT_STATE_LEADER \<longleftrightarrow> 0 < n) \<and>
    (0 < n \<longrightarrow> raft_get_current_leader s = Inr 0) \<and> current_term s = 0 \<and> nodes s = [0]"
  using raft_main_eq [OF assms, of n]
  by (simp add: main_server_def fresh_server_def zero_server_def raft_get_current_leader_def raft_node_get_id_def)

theorem single_server_leads_witness: "\<exists>s. raft_main 3 calm_process = Inr s \<and> state s = RAFT_STATE_LEADER"
  using single_server_leads [of calm_process 3] by (auto simp: calm_process_def)

section \<open>The mail client\<close>

text \<open>
  C23: Base64. Every byte string has a code of four characters per started group of three, decoding gives the
  bytes back, and equal codes come from equal bytes.
\<close>

theorem base64_roundtrip:
  "\<exists>s. base64_encode bs = Inr s \<and> base64_decode s = map to_char bs \<and> length s = 4 * ((length bs + 2) div 3) \<and>
     {cs. base64_encode cs = Inr s} = {bs}"
proof -
  obtain s where s: "base64_encode bs = Inr s" using b64.enc_total by blast
  then have "base64_decode s = map to_char bs" by (rule b64.dec_enc)
  moreover have "length s = 4 * ((length bs + 2) div 3)" using s length_spec_encode [of bs] by (simp add: base64_encode_spec)
  moreover have "{cs. base64_encode cs = Inr s} = {bs}" unfolding s [symmetric] b64.enc_inj by simp
  ultimately show ?thesis using s by blast
qed

text \<open>
  C24: sending ends. A mail whose attachments are text files is attempted once to six times; every attempt but
  the last failed, and the last one succeeded unless it was the sixth. The result is that of the first
  attempt; if the library gives no handle, nothing is sent and the result is true.
\<close>

theorem sendmail_attempts:
  assumes "readable_text fs m"
  shows "\<exists>ret as m'. SendMail mm fs cu m = Inr (ret, as, m') \<and>
    (if easy_init cu
     then 1 \<le> length as \<and> length as \<le> 6 \<and> ret = (at_code (hd as) = 0) \<and>
       (\<forall>a \<in> set (butlast as). at_code a \<noteq> 0) \<and> (length as < 6 \<longrightarrow> at_code (last as) = 0)
     else ret \<and> as = [])"
  using SendMail_spec [OF assms, of mm cu] by (auto split: if_splits)

theorem sendmail_attempts_witness:
  "\<exists>as m'. SendMail ex_mm ex_fs (ex_curl 7) ex_mail = Inr (False, as, m') \<and> length as = 6"
proof -
  have "readable_text ex_fs ex_mail" by code_simp
  moreover have "rsafe (SendMail ex_mm ex_fs (ex_curl 7) ex_mail) (\<lambda>(ret, as, _). map at_code as = [7, 7, 7, 7, 7, 7])" by code_simp
  ultimately show ?thesis
    using sendmail_attempts [of ex_fs ex_mail ex_mm "ex_curl 7"] by (auto simp: rsafe_iff ex_curl_def hd_map)
qed

text \<open>
  C25: the message reaches the transfer. For a new sender object, if the MIME library writes the
  message to the stream, the reads of the first attempt return its characters in order, as
  many as they ask for.
\<close>

theorem mail_delivered:
  assumes "readable_text fs m" and "m_strMessage m = new_stream"
    and "mm_write mm (message_head mm fs m) new_stream = new_stream\<lparr>ss_rest := msg\<rparr>"
    and "easy_init cu" and "easy_perform cu 0 (send_opts m) = (reqs, res)"
  shows "\<exists>ret as m'. SendMail mm fs cu m = Inr (ret, as, m') \<and> as \<noteq> [] \<and>
    concat (at_payload (hd as)) = take (sum_list (map req_bytes reqs)) msg"
proof -
  obtain ret as m' where run: "SendMail mm fs cu m = Inr (ret, as, m')" "1 \<le> length as"
    "hd as = fst (perform cu (send_opts m) 0 (new_stream\<lparr>ss_rest := msg\<rparr>))"
    using SendMail_spec [OF assms(1), of mm cu] assms(2-4) by auto
  then have "concat (at_payload (hd as)) = concat (fst (payload reqs (new_stream\<lparr>ss_rest := msg\<rparr>)))"
    using assms(5) by (simp add: perform_def split: prod.splits)
  then show ?thesis
    using run payload_take [of "new_stream\<lparr>ss_rest := msg\<rparr>" reqs] by (auto simp: new_stream_def)
qed

theorem mail_delivered_witness:
  "\<exists>ret as m'. SendMail ex_mm ex_fs (ex_curl 0) ex_mail = Inr (ret, as, m') \<and> concat (at_payload (hd as)) = ''subject:body''"
proof -
  have "readable_text ex_fs ex_mail" "m_strMessage ex_mail = new_stream"
    "mm_write ex_mm (message_head ex_mm ex_fs ex_mail) new_stream = new_stream\<lparr>ss_rest := ''subject:body''\<rparr>"
    by code_simp+
  then show ?thesis
    using mail_delivered [of ex_fs ex_mail ex_mm "''subject:body''" "ex_curl 0" "[(1, 8), (1, 8)]" 0]
    by (auto simp: ex_curl_def req_bytes_def)
qed

section \<open>The keeper\<close>

text \<open>
  C26: recording the address. If a round fetches the address \<open>a\<close> and the query delivers the rows \<open>rs\<close>, the round
  ends, and it executes the insert statement with \<open>a\<close> if and only if there is no row or the first has a different
  address; the object is ready for the next round.
\<close>

theorem getip_records_changes:
  assumes "map_of (db_sqlStmts t) ''select'' = Some st" "map_of (db_sqlStmts t) ''insert'' = Some sti" "ti_ipInfos t = []"
    and "my_execute my (st_stmt st) [] d = (0, d1)" "my_store_result my (st_stmt st) d1 = (0, d2)"
    and "delivers my (st_stmt st) rs d2 d3" "list_all (ip_fits (ip_view t)) rs"
    and "curlUtil after tr g = Inr (a, g1)" "a \<noteq> ''failed''"
  shows "\<exists>t'. getIp_round my after tr (g, t, d) = Some (Inr (g1, t',
      if rs = [] \<or> c_str (text_of (hd rs ! 1)) \<noteq> a
      then snd (my_execute my (st_stmt sti) [Text (snprintf_s (ti_ip_insert t) a)] d3) else d3)) \<and>
    ti_ipInfos t' = [] \<and> db_sqlStmts t' = db_sqlStmts t"
  by (rule getIp_round_records [OF assms])

theorem getip_records_changes_witness:
  "\<exists>t' g'. getIp_round ex_mysql (\<lambda>_. zeros 1) \<lparr>tr_init = True, tr_blocks = [''5.6.7.8'' @ [CHR 0x0A]], tr_code = 0\<rparr>
      (\<lparr>cg_result = [], cg_shift = 0, cg_init_flag = 0\<rparr>, ex_ip_table, 0) = Some (Inr (g', t', 5))"
proof -
  let ?tr = "\<lparr>tr_init = True, tr_blocks = [''5.6.7.8'' @ [CHR 0x0A]], tr_code = 0\<rparr>"
  let ?g = "\<lparr>cg_result = [], cg_shift = 0, cg_init_flag = 0\<rparr>"
  obtain g' where g': "curlUtil (\<lambda>_. zeros 1) ?tr ?g = Inr (''5.6.7.8'', g')"
    using curlUtil_address [of "''5.6.7.8''" "CHR 0x0A" "[]" "\<lambda>_. zeros 1" ?tr ?g] by (auto simp: digit_def)
  have "my_execute ex_mysql (st_stmt (ex_stmt 1)) [] 0 = (0, 1)" "my_store_result ex_mysql (st_stmt (ex_stmt 1)) 1 = (0, 2)"
    "delivers ex_mysql (st_stmt (ex_stmt 1)) [ex_ip_cells] 2 4" "list_all (ip_fits (ip_view ex_ip_table)) [ex_ip_cells]"
    using ex_delivers ex_ip_fits by (simp_all add: ex_mysql_def ex_stmt_def)
  from getip_records_changes [OF _ _ _ this g', of "ex_stmt 2"] show ?thesis
    by (auto simp: ex_ip_cells_def ex_text_def text_of_def c_str_def ex_mysql_def)
qed

text \<open>
  C27: the log. If the C library reports no failure, the log file object is initialised for appending, the day does not change and
  the queued messages have known levels, a run of the printing thread appends to the
  file of the day the lines of the queued messages of at least the current level, in order, and
  leaves the queue empty and the level unchanged.
\<close>

theorem log_written:
  assumes "working_io io" and "list_all known_level (hl_logs l)" and "hl_logfile l = Some f" and "append_mode f"
    and "\<And>i. c_str (log_name (clock i) l) = p"
  shows "rsafe (printLog clock l io out) (\<lambda>(l', io', _).
     hl_logs l' = [] \<and> getLevel l' = getLevel l \<and>
     content_of io' p = content_of io p @ concat (map line_of (filter (\<lambda>e. getLevel l \<le> le_level e) (hl_logs l))))"
proof -
  have "log_name n (l\<lparr>hl_logs := []\<rparr>) = log_name n l" for n by (simp add: log_name_def)
  then show ?thesis
    using print_logs_appends [of io "hl_logs l" "l\<lparr>hl_logs := []\<rparr>" f clock p 0 out] assms
    by (simp add: printLog_def getLevel_def)
qed

theorem log_written_witness:
  "rsafe (printLog (\<lambda>_. ex_tm) ex_log (ex_io (\<lambda>_. True)) []) (\<lambda>(l', io', _).
     hl_logs l' = [] \<and> content_of io' ''/log/120-1-1-keeper.log'' = ''olderror:u:n'' @ [CHR 0x0A])"
proof -
  have "working_io (ex_io (\<lambda>_. True))" by (simp add: working_io_def ex_io_def)
  moreover have "list_all known_level (hl_logs ex_log)" by (simp add: known_level_def ex_log_def new_hmLog_def)
  moreover have "hl_logfile ex_log = Some (new_file '''' ''at+'')" "append_mode (new_file '''' ''at+'')"
    by (simp_all add: ex_log_def new_file_def c_str_def)
  moreover have "c_str (log_name ex_tm ex_log) = ''/log/120-1-1-keeper.log''" by code_simp
  ultimately have "rsafe (printLog (\<lambda>_. ex_tm) ex_log (ex_io (\<lambda>_. True)) []) (\<lambda>(l', io', _).
     hl_logs l' = [] \<and> getLevel l' = getLevel ex_log \<and>
     content_of io' ''/log/120-1-1-keeper.log'' = content_of (ex_io (\<lambda>_. True)) ''/log/120-1-1-keeper.log'' @
       concat (map line_of (filter (\<lambda>e. getLevel ex_log \<le> le_level e) (hl_logs ex_log))))"
    by (intro log_written)
  moreover have "content_of (ex_io (\<lambda>_. True)) ''/log/120-1-1-keeper.log'' = ''old''" by (simp add: ex_io_def)
  moreover have "concat (map line_of (filter (\<lambda>e. getLevel ex_log \<le> le_level e) (hl_logs ex_log))) = ''error:u:n'' @ [CHR 0x0A]"
    by code_simp
  ultimately show ?thesis by (auto elim!: rsafe_mono)
qed



section \<open>The threads of the log\<close>



section \<open>The JSON library and the configuration\<close>

text \<open>
  C30: values are well typed. Whatever text is parsed, a value that is returned is well formed
  (\<open>wf_json\<close>: sorted distinct keys, numbers within 64 bits, strings of valid UTF-8, nothing discarded inside), or
  exceptions are off and the value is the discarded one.
\<close>

theorem json_parse_typed:
  assumes "json_parse fl allow input = Inr v"
  shows "wf_json v \<or> (\<not> allow \<and> v = Jdiscarded)"
  by (rule json_parse_wf [OF assms])

theorem json_parse_typed_witness:
  "json_parse ex_fl True ''[1, -2]'' = Inr (Jarray [Jnumber_unsigned 1, Jnumber_integer (-2)]) \<and>
   wf_json (Jarray [Jnumber_unsigned 1, Jnumber_integer (-2)] :: unit json)"
  using json_parse_typed [OF ex_parse] ex_parse by simp

text \<open>
  C31: what is written is read back. The serializer without indentation returns a text for every well-formed
  value that has no floating-point number and no least integer, and the parser reads the value back from it; an
  integer that is not negative comes back as an unsigned one (\<open>normal_json\<close>).
\<close>

theorem json_roundtrip:
  assumes "wf_json v" and "plain_json v" and "indent < 0" and "is_ws c"
  shows "\<exists>t. json_dump fl indent c False EH_strict v = Inr t \<and> json_parse fl allow t = Inr (normal_json v)"
  by (rule dump_parse_compact [OF assms])

theorem json_roundtrip_witness:
  "\<exists>t. json_dump ex_fl (-1) (CHR '' '') False EH_strict (Jarray [Jnumber_integer 7, Jstring ''a'']) = Inr t \<and>
     json_parse ex_fl True t = Inr (Jarray [Jnumber_unsigned 7, Jstring ''a''])"
  using json_roundtrip [of "Jarray [Jnumber_integer 7, Jstring ''a'']" "-1" "CHR '' ''" ex_fl True]
  by (simp add: ws_chars valid_utf8.simps)

text \<open>
  C32: the grammar. Every text that the grammar \<open>json_text\<close> relates to a value (white space where JSON
  allows it, members in any order, repeated keys) is parsed to that value.
\<close>

theorem config_text_read:
  assumes "json_text v t" and "list_all is_ws ws" and "list_all is_ws ws'"
  shows "json_parse fl allow (ws @ t @ ws') = Inr v"
  by (rule parse_text [OF assms])

theorem config_text_read_witness: "json_parse ex_fl True ('' '' @ ex_config_text @ '' '') = Inr ex_config"
  by (rule config_text_read [OF ex_config_text]) (simp_all add: ws_chars)

text \<open>
  C33: accepting and parsing agree. \<^verbatim>\<open>accept\<close> never throws, and says yes exactly to the texts that \<^verbatim>\<open>parse\<close> turns into
  a value instead of throwing.
\<close>

theorem accepts_what_parses: "json_accept fl input = Inr (case json_parse fl True input of Inl _ \<Rightarrow> False | Inr _ \<Rightarrow> True)"
  by (rule accept_iff_parse)

text \<open>
  C34: numbers are written in decimal. For every signed or unsigned 64-bit number the conversion by pairs of digits
  never leaves its buffer of 64 bytes, and what it writes is the decimal text; only the least signed number
  overflows in \<^verbatim>\<open>std::abs\<close>.
\<close>

theorem number_buffer_suffices:
  assumes "- (2 ^ 63) \<le> x" and "x < 2 ^ 64" and "sgnd \<or> 0 \<le> x" and "length nb = 64"
  shows "dump_integer sgnd x nb = (if x = - (2 ^ 63) then Inl Arithmetic_overflow else Inr (dec x))"
proof (cases "x = - (2 ^ 63)")
  case True
  then have "sgnd" using assms(3) by simp
  then show ?thesis using True dump_integer_least [OF assms(4)] by simp
next
  case False
  then have "- (2 ^ 63) < x" using assms(1) by linarith
  from dump_integer_dec [OF this assms(2-4)] show ?thesis using False by simp
qed

theorem number_buffer_suffices_witness:
  "dump_integer True (-427) (replicate 64 (CHR 0x00)) = Inr ''-427''"
proof -
  have "dec (-427) = ''-427''" by (simp add: dec_def dec_nat.simps char_of_def bit_0)
  then show ?thesis using number_buffer_suffices [of "-427" True "replicate 64 (CHR 0x00)"] by simp
qed

text \<open>
  C35: the string buffer does not overflow. Whatever prefix \<open>s\<close> of whatever string has been escaped, the next
  escape sequence (with the zero byte of \<^verbatim>\<open>snprintf\<close>), the next raw byte and the replacement character still fit into the 512 bytes.
\<close>

theorem string_buffer_suffices:
  assumes "dump_bytes h e 0 s \<lparr>ds_out = [], ds_buffer = [], ds_accepted = 0, ds_undumped = 0, ds_state = 0, ds_codepoint = 0\<rparr> = Inr ds"
  shows "length (ds_buffer ds @ escape_codepoint e cp c) + 1 \<le> 512 \<and> length (ds_buffer ds @ [c]) \<le> 512
    \<and> length (take (ds_accepted ds) (ds_buffer ds) @ replacement e) \<le> 512"
  by (rule string_buffer_bound [OF assms])

theorem string_buffer_suffices_witness:
  "\<exists>ds. dump_bytes EH_strict True 0 (''a'' @ [CHR 0x22, CHR 0xC3, CHR 0xA9, CHR 0xF0])
       \<lparr>ds_out = [], ds_buffer = [], ds_accepted = 0, ds_undumped = 0, ds_state = 0, ds_codepoint = 0\<rparr> = Inr ds \<and>
     ds_buffer ds = ''a'' @ [CHR 0x5C, CHR 0x22, CHR 0x5C] @ ''u00e9'' \<and>
     length (ds_buffer ds @ escape_codepoint True 0x1F600 (CHR 0x80)) + 1 \<le> 512"
proof -
  let ?d = "\<lparr>ds_out = [], ds_buffer = [], ds_accepted = 0, ds_undumped = 0, ds_state = 0, ds_codepoint = 0\<rparr>"
  let ?s = "''a'' @ [CHR 0x22, CHR 0xC3, CHR 0xA9, CHR 0xF0]"
  have "case_sum (\<lambda>_. False) (\<lambda>ds. ds_buffer ds = ''a'' @ [CHR 0x5C, CHR 0x22, CHR 0x5C] @ ''u00e9'') (dump_bytes EH_strict True 0 ?s ?d)"
    by code_simp
  then obtain ds where run: "dump_bytes EH_strict True 0 ?s ?d = Inr ds" and ds: "ds_buffer ds = ''a'' @ [CHR 0x5C, CHR 0x22, CHR 0x5C] @ ''u00e9''"
    by (auto split: sum.splits)
  show ?thesis using string_buffer_suffices [OF run, of "0x1F600" "CHR 0x80"] run ds by blast
qed

text \<open>
  C36: differences of values. For well-formed values with arrays of at most \<open>2 ^ 31\<close> elements, and a target that is equal to
  itself (no floating-point number in it that is not), the patch that \<^verbatim>\<open>diff\<close> computes can be applied to the source and gives a
  value that is equal to the target.
\<close>

theorem diff_patch_roundtrip:
  assumes "wf_json source" and "short_json source" and "wf_json target" and "short_json target" and "json_eq fa target target"
  shows "\<exists>u. json_patch fl fa (Jarray (json_diff fa source target [])) source = Inr u \<and> json_eq fa u target"
  using patch_diff [of source target fa fl] assms by blast

theorem diff_patch_roundtrip_witness:
  "\<exists>u. json_patch ex_fl ex_fa
       (Jarray (json_diff ex_fa (Jobject [(''a'', Jarray [Jnumber_unsigned 1, Jnull, Jnull]), (''b/c'', Jstring ''x'')])
                                (Jobject [(''a'', Jarray [Jnumber_unsigned 2]), (''d'', Jnull)]) []))
       (Jobject [(''a'', Jarray [Jnumber_unsigned 1, Jnull, Jnull]), (''b/c'', Jstring ''x'')]) = Inr u \<and>
     json_eq ex_fa u (Jobject [(''a'', Jarray [Jnumber_unsigned 2]), (''d'', Jnull)])"
proof -
  let ?s = "Jobject [(''a'', Jarray [Jnumber_unsigned 1, Jnull, Jnull]), (''b/c'', Jstring ''x'')] :: unit json"
  let ?t = "Jobject [(''a'', Jarray [Jnumber_unsigned 2]), (''d'', Jnull)] :: unit json"
  have "wf_json ?s" "wf_json ?t" "json_eq ex_fa ?t ?t" by code_simp+
  moreover have "short_json ?s" "short_json ?t" by simp_all
  ultimately show ?thesis using diff_patch_roundtrip [of ?s ?t ex_fa ex_fl] by blast
qed



section \<open>Where the code departs from its intent\<close>

text \<open>
  C38: a heartbeat can stop a fresh follower. The handler takes the index of the most recent entry to
  be at least 1, so a message without entries that reports a committed index makes a follower with
  an empty log fail the assertion in \<^verbatim>\<open>raft_set_commit_idx\<close>.
\<close>

theorem empty_log_commit_asserts:
  assumes "raft_get_current_idx s = 0" and "commit_idx s = 0" and "state s = RAFT_STATE_FOLLOWER"
    and "ae_term ae = current_term s" and "ae_prev_log_idx ae = 0" and "ae_entries ae = []" and "0 < ae_leader_commit ae"
  shows "raft_recv_appendentries s node ae = Inl Assertion_failed"
  using assms
  by (simp add: raft_recv_appendentries_def ae_check_term_def ae_check_prev_def ae_accept_def ae_commit_def
      raft_set_commit_idx_def raft_get_current_idx_def Let_def)

theorem empty_log_commit_asserts_witness:
  "raft_recv_appendentries (ex_cluster RAFT_STATE_FOLLOWER 1 (-1) (ex_ring [] 0) 0 0) (Some 1)
     \<lparr>ae_term = 1, ae_prev_log_idx = 0, ae_prev_log_term = 0, ae_leader_commit = 1, ae_entries = []\<rparr> =
   Inl Assertion_failed"
  by (rule empty_log_commit_asserts) simp_all

text \<open>
  C39: removing oneself. \<^verbatim>\<open>raft_remove_node\<close> frees the node but keeps the server's pointer to it: with
  other nodes left in the cluster, asking for the own id, as every search for the own node does,
  reads freed memory.
\<close>

theorem removed_self_dangles:
  assumes "nodes_inv s" and "me_node s = Some r" and "2 \<le> length (nodes s)"
  shows "\<exists>s'. raft_remove_node s (Some r) = Inr s' \<and> raft_get_nodeid s' = Inl Use_after_free \<and>
    raft_get_my_node s' = Inl Use_after_free"
proof -
  have r: "r \<in> set (nodes s)" using assms(1,2) by (simp add: nodes_inv_def)
  define i where "i = length (takeWhile (\<lambda>q. q \<noteq> r) (nodes s))"
  have i: "i < length (nodes s)"
  proof (rule ccontr)
    assume "\<not> i < length (nodes s)"
    then have "takeWhile (\<lambda>q. q \<noteq> r) (nodes s) = nodes s"
      using takeWhile_eq_take [of "\<lambda>q. q \<noteq> r" "nodes s"] by (simp add: i_def)
    then show False using r by (auto simp: takeWhile_eq_all_conv)
  qed
  obtain u where told: "notify_membership s (Some r) None RAFT_MEMBERSHIP_REMOVE = s\<lparr>udata := u\<rparr>"
    by (cases "notify_membership_event (cb s)") (auto simp: notify_membership_def intro: that [of "udata s"])
  obtain s' where run: "raft_remove_node s (Some r) = Inr s'" and s': "me_node s' = Some r" "heap s' r = None"
      "nodes s' = take i (nodes s) @ drop (i + 1) (nodes s)"
    using i assms(2) by (simp add: raft_remove_node_def Let_def told raft_node_free_def i_def)
  have id: "raft_get_nodeid s' = Inl Use_after_free" using s' by (simp add: raft_get_nodeid_def deref_def)
  have "length (nodes s') \<noteq> 0" using s'(3) i assms(3) by simp
  then obtain q qs where "nodes s' = q # qs" by (cases "nodes s'") simp_all
  then show ?thesis using run id by (simp add: raft_get_my_node_def)
qed

theorem removed_self_dangles_witness:
  "\<exists>s'. raft_remove_node (ex_cluster RAFT_STATE_LEADER 2 0 (ex_ring [] 0) 0 0) (Some 0) = Inr s' \<and>
     raft_get_nodeid s' = Inl Use_after_free"
  using removed_self_dangles [of "ex_cluster RAFT_STATE_LEADER 2 0 (ex_ring [] 0) 0 0" 0] by auto

section \<open>Where the keeper departs from its intent\<close>

text \<open>
  C40: a new address counts as mailed even if no mail was. When the newest row waits to be mailed, the
  round sends one mail per account and then executes the update of the row, for any results of the mails,
  and never leaves the loop.
\<close>

theorem sendemail_marks_sent:
  assumes "map_of (db_sqlStmts t) ''select'' = Some st" "map_of (db_sqlStmts t) ''update'' = Some stu" "ti_ipInfos t = []"
    and "my_execute my (st_stmt st) [] d = (0, d1)" "my_store_result my (st_stmt st) d1 = (0, d2)"
    and "delivers my (st_stmt st) (r # rs) d2 d3" "list_all (ip_fits (ip_view t)) (r # rs)"
    and "ip_send_flag (ip_row (ip_view t) r) = ''0''"
    and "map_of (db_sqlStmts em) ''select'' = Some ste" "delivers my (st_stmt ste) es d3 d4" "list_all (em_fits (db_sqlStmts em)) es"
  shows "\<exists>sent em' t' ret d5 d'. sendEmail_round my mm fs cu em t d = Some (Inr (False, sent, em', t', d')) \<and>
    length sent = length (te_emailInfos em) + length es \<and>
    my_execute my (st_stmt stu) [Long (long_of (r ! 0))] d4 = (ret, d5) \<and> d' = (if ret = 0 then snd (my_commit my d5) else d5)"
  by (rule sendEmail_round_marks [OF assms])

theorem sendemail_marks_sent_witness:
  "\<exists>em' t'. sendEmail_round ex_mysql ex_mm ex_fs (\<lambda>_. ex_curl 7) ex_em_table ex_ip_table 0 = Some (Inr (False, [False], em', t', 8))"
proof -
  have sel: "my_execute ex_mysql (st_stmt (ex_stmt 1)) [] 0 = (0, 1)" "my_store_result ex_mysql (st_stmt (ex_stmt 1)) 1 = (0, 2)"
    "delivers ex_mysql (st_stmt (ex_stmt 1)) [ex_ip_cells] 2 4" "list_all (ip_fits (ip_view ex_ip_table)) [ex_ip_cells]"
    "ip_send_flag (ip_row (ip_view ex_ip_table) ex_ip_cells) = ''0''"
    using ex_delivers ex_ip_fits ex_ip_row by (simp_all add: ex_mysql_def ex_stmt_def)
  have acc: "delivers ex_mysql (st_stmt (ex_stmt 4)) [ex_em_cells] 4 6" "list_all (em_fits (db_sqlStmts ex_em_table)) [ex_em_cells]"
    using ex_delivers ex_em_fits by (simp_all add: ex_stmt_def)
  obtain sent em' t' where run: "sendEmail_round ex_mysql ex_mm ex_fs (\<lambda>_. ex_curl 7) ex_em_table ex_ip_table 0 = Some (Inr (False, sent, em', t', 8))"
    using sendemail_marks_sent [OF ex_ip_table_simps(1,3,4) sel ex_em_table_simps(1) acc, of ex_mm ex_fs "\<lambda>_. ex_curl 7"]
    by (auto simp: ex_mysql_def)
  have "case_option False (\<lambda>x. rsafe x (\<lambda>(b, sent, _). sent = [False])) (sendEmail_round ex_mysql ex_mm ex_fs (\<lambda>_. ex_curl 7) ex_em_table ex_ip_table 0)"
    by code_simp
  then show ?thesis using run by auto
qed

end
